(* ===== verification/Lyli_Prelude.thy ===== *)
theory Lyli_Prelude
  imports Main "HOL-Library.Word"
begin

text \<open>
  Shared vocabulary of the development.

  C++ code that leaves its defined behaviour (an index outside an array, a dereferenced end
  iterator, a failed assertion) or that throws is modelled by a value of type \<open>fault\<close>, on the left
  of a sum: \<open>'a res\<close>. \<open>rbind\<close> sequences two such computations, as consecutive statements do, and
  \<open>rfold\<close> is a range-based loop whose body may fail. \<open>ld\<close> and \<open>st\<close> are array accesses with a
  computed (signed) index. The bytes and machine integers are words of their width.
\<close>

type_synonym u8 = "8 word"
type_synonym u16 = "16 word"
type_synonym u32 = "32 word"

datatype fault =
    OutOfBounds        \<comment> \<open>array or vector index outside the allocation\<close>
  | EndIterator        \<comment> \<open>dereference of a past-the-end iterator\<close>
  | NullPointer        \<comment> \<open>dereference of a null pointer\<close>
  | Uninitialised      \<comment> \<open>read of an indeterminate value\<close>
  | AssertFailure      \<comment> \<open>a failed \<open>assert\<close>\<close>
  | BadEnum            \<comment> \<open>an enumeration value without a name\<close>
  | BadConversion      \<comment> \<open>a floating point value that the integer type cannot hold\<close>
  | BadOrder           \<comment> \<open>a NaN used as the key of an ordered container\<close>
  | Thrown string      \<comment> \<open>an exception, with its message\<close>

type_synonym 'a res = "fault + 'a"

fun rbind :: "'a res \<Rightarrow> ('a \<Rightarrow> 'b res) \<Rightarrow> 'b res" where
  "rbind (Inl e) f = Inl e"
| "rbind (Inr a) f = f a"

fun rfold :: "('x \<Rightarrow> 's \<Rightarrow> 's res) \<Rightarrow> 'x list \<Rightarrow> 's \<Rightarrow> 's res" where
  "rfold f [] s = Inr s"
| "rfold f (x # xs) s = rbind (f x s) (rfold f xs)"

definition rassert :: "bool \<Rightarrow> 'a res \<Rightarrow> 'a res" where
  "rassert P m = (if P then m else Inl AssertFailure)"

definition ld :: "'a list \<Rightarrow> int \<Rightarrow> 'a res" where
  "ld xs i = (if 0 \<le> i \<and> i < int (length xs) then Inr (xs ! nat i) else Inl OutOfBounds)"

definition st :: "'a list \<Rightarrow> int \<Rightarrow> 'a \<Rightarrow> 'a list res" where
  "st xs i v = (if 0 \<le> i \<and> i < int (length xs) then Inr (xs[nat i := v]) else Inl OutOfBounds)"

named_theorems res_simps \<open>evaluation of fallible computations\<close>

lemma rbind_eq_Inr [res_simps]: "rbind m f = Inr b \<longleftrightarrow> (\<exists>a. m = Inr a \<and> f a = Inr b)"
  by (cases m) auto

lemma rbind_eq_Inl [res_simps]:
  "rbind m f = Inl e \<longleftrightarrow> m = Inl e \<or> (\<exists>a. m = Inr a \<and> f a = Inl e)"
  by (cases m) auto

lemma rbind_assoc: "rbind (rbind m f) g = rbind m (\<lambda>x. rbind (f x) g)"
  by (cases m) auto

lemma rbind_cong [fundef_cong]:
  "m = m' \<Longrightarrow> (\<And>a. m' = Inr a \<Longrightarrow> f a = f' a) \<Longrightarrow> rbind m f = rbind m' f'"
  by (cases m) auto

lemma rassert_eq_Inr [res_simps]: "rassert P m = Inr a \<longleftrightarrow> P \<and> m = Inr a"
  by (simp add: rassert_def)

lemma rassert_True [simp]: "rassert True m = m"
  by (simp add: rassert_def)

lemma ld_nat [simp]: "i < length xs \<Longrightarrow> ld xs (int i) = Inr (xs ! i)"
  by (simp add: ld_def)

lemma st_nat [simp]: "i < length xs \<Longrightarrow> st xs (int i) v = Inr (xs[i := v])"
  by (simp add: st_def)

lemma ld_eq_Inr [res_simps]:
  "ld xs i = Inr v \<longleftrightarrow> 0 \<le> i \<and> nat i < length xs \<and> v = xs ! nat i"
  by (auto simp: ld_def)

lemma st_eq_Inr [res_simps]:
  "st xs i v = Inr ys \<longleftrightarrow> 0 \<le> i \<and> nat i < length xs \<and> ys = xs[nat i := v]"
  by (auto simp: st_def)

lemma unat_u8_less: "unat (b :: u8) < 256"
  using unsigned_less [where 'a = nat, of b] by simp

lemma rfold_append: "rfold f (xs @ ys) s = rbind (rfold f xs s) (rfold f ys)"
  by (induction xs arbitrary: s) (auto simp: rbind_assoc intro: rbind_cong)

lemma rfold_invariant:
  assumes "rfold f xs s = Inr t" and "P s"
    and "\<And>x s s'. x \<in> set xs \<Longrightarrow> P s \<Longrightarrow> f x s = Inr s' \<Longrightarrow> P s'"
  shows "P t"
  using assms
proof (induction xs arbitrary: s)
  case Nil
  then show ?case by simp
next
  case (Cons x xs)
  from Cons.prems(1) obtain s' where "f x s = Inr s'" and "rfold f xs s' = Inr t"
    by (auto simp: res_simps)
  with Cons.prems show ?case
    by (intro Cons.IH [of s']) auto
qed

lemma rfold_total:
  assumes "P s"
    and "\<And>x s. x \<in> set xs \<Longrightarrow> P s \<Longrightarrow> \<exists>s'. f x s = Inr s' \<and> P s'"
  shows "\<exists>t. rfold f xs s = Inr t \<and> P t"
  using assms
proof (induction xs arbitrary: s)
  case Nil
  then show ?case by simp
next
  case (Cons x xs)
  from Cons.prems(2) [of x s] Cons.prems(1) obtain s' where "f x s = Inr s'" and "P s'"
    by auto
  with Cons.IH [of s'] Cons.prems(2) show ?case by simp
qed

lemma rfold_upto:
  assumes "P 0 s" and "\<And>k s. k < n \<Longrightarrow> P k s \<Longrightarrow> \<exists>s'. f k s = Inr s' \<and> P (Suc k) s'"
  shows "\<exists>t. rfold f [0..<n] s = Inr t \<and> P n t"
  using assms(2)
proof (induction n)
  case 0
  then show ?case using assms(1) by simp
next
  case (Suc n)
  then obtain t where "rfold f [0..<n] s = Inr t" "P n t" by auto
  then show ?case using Suc.prems [of n t] by (auto simp: rfold_append)
qed

lemma rfold_map: "rfold f (map g xs) s = rfold (\<lambda>x. f (g x)) xs s"
  by (induction xs arbitrary: s) (auto intro: rbind_cong)

end
