(* ===== verification/Raw_Image.thy ===== *)
theory Raw_Image
  imports Complex_Main Lyli_Prelude
begin

text \<open>
  \<open>src/lib/image/rawimage.cpp\<close>: the constructor that unpacks the 12-bit samples of a RAW file into
  a three channel 16-bit image, and \<open>demosaic\<close>, which fills in the two missing colours of every
  pixel. The image is \<open>mat\<close>: the size of the \<open>cv::Mat\<close> and its buffer, addressed as the code does,
  by \<open>(y * cols + x) * 3 + channel\<close>. OpenCV's \<open>row(i).copyTo(row(j))\<close> and \<open>col(i).copyTo(col(j))\<close>
  are parameters, collected in \<open>cv_copy\<close>; the locale \<open>cv_mat_copy\<close> states their documented effect.
\<close>

unbundle bit_operations_syntax

record mat =
  rows :: nat
  cols :: nat
  data :: "u16 list"

text \<open>\<open>std::istream\<close>: the bytes still to read and the fail state.\<close>

record istream =
  is_bytes :: "u8 list"
  is_fail :: bool

text \<open>\<open>is.read(buf, n)\<close>: a short read stores what is left and fails; a failed stream stores nothing.\<close>

definition istream_read :: "nat \<Rightarrow> istream \<Rightarrow> u8 list \<Rightarrow> istream \<times> u8 list" where
  "istream_read n s buf =
     (if is_fail s then (s, buf)
      else let got = take n (is_bytes s) in
        (s\<lparr>is_bytes := drop n (is_bytes s), is_fail := length got < n\<rparr>,
         got @ drop (length got) buf))"

definition getColorIndex :: "nat \<Rightarrow> nat \<Rightarrow> nat" where
  "getColorIndex x y =
     (if odd y then (if odd x then 0 else 1) else (if odd x then 1 else 2))"

text \<open>The two samples in the three bytes \<open>b0\<close>, \<open>b1\<close>, \<open>b2\<close>, as 16-bit values.\<close>

definition first_sample :: "u8 \<Rightarrow> u8 \<Rightarrow> u16" where
  "first_sample b0 b1 = push_bit 8 (ucast b0) OR ucast (b1 AND 0xF0)"

definition second_sample :: "u8 \<Rightarrow> u8 \<Rightarrow> u16" where
  "second_sample b1 b2 = push_bit 12 (ucast (b1 AND 0xF)) OR push_bit 4 (ucast b2)"

text \<open>The variables of the constructor's loops.\<close>

record reader =
  rd_is :: istream
  rd_buf :: "u8 list"
  rd_data :: "u16 list"
  rd_pos :: nat

definition read_pair :: "nat \<Rightarrow> nat \<Rightarrow> reader \<Rightarrow> reader res" where
  "read_pair y x r =
     (let (is', buf') = istream_read 3 (rd_is r) (rd_buf r) in
      rbind (st (rd_data r) (int (rd_pos r + getColorIndex x y))
                (first_sample (buf' ! 0) (buf' ! 1))) (\<lambda>d1.
      rbind (st d1 (int (rd_pos r + 3 + getColorIndex (x + 1) y))
                (second_sample (buf' ! 1) (buf' ! 2))) (\<lambda>d2.
      Inr \<lparr>rd_is = is', rd_buf = buf', rd_data = d2, rd_pos = rd_pos r + 6\<rparr>)))"

function read_row :: "nat \<Rightarrow> nat \<Rightarrow> nat \<Rightarrow> reader \<Rightarrow> reader res" where
  "read_row y width x r =
     (if x < width then rbind (read_pair y x r) (read_row y width (x + 2)) else Inr r)"
  by pat_completeness auto
termination
  by (relation "measure (\<lambda>(y, width, x, r). width - x)") auto

function read_rows :: "nat \<Rightarrow> nat \<Rightarrow> nat \<Rightarrow> reader \<Rightarrow> reader res" where
  "read_rows height width y r =
     (if y < height
      then rbind (read_row y width 0 r) (read_rows height width (y + 1)) else Inr r)"
  by pat_completeness auto
termination
  by (relation "measure (\<lambda>(height, width, y, r). height - y)") auto

declare read_row.simps [simp del] read_rows.simps [simp del]

text \<open>
  The averages are computed in \<open>double\<close>. The operands are integers below \<open>2^18\<close> and the factors
  powers of two, so every intermediate value is exact and rational arithmetic is the same; the
  conversion to \<open>uint16_t\<close> truncates.
\<close>

definition u16_of_double :: "rat \<Rightarrow> u16" where
  "u16_of_double q = word_of_int \<lfloor>q\<rfloor>"

definition double_of_u16 :: "u16 \<Rightarrow> rat" where
  "double_of_u16 w = of_nat (unat w)"

definition half_sum :: "u16 \<Rightarrow> u16 \<Rightarrow> u16" where
  "half_sum a b = u16_of_double (1/2 * (double_of_u16 a + double_of_u16 b))"

definition bilinearInterpolation :: "rat \<Rightarrow> rat \<Rightarrow> rat \<Rightarrow> rat \<Rightarrow> u16" where
  "bilinearInterpolation f00 f01 f10 f11 =
     (let a = 1/2 * (f00 + f10); b = 1/2 * (f01 + f11) in u16_of_double (1/2 * (a + b)))"

definition avgInterpolation :: "rat \<Rightarrow> rat \<Rightarrow> rat \<Rightarrow> rat \<Rightarrow> u16" where
  "avgInterpolation f00 f01 f10 f11 = u16_of_double (1/4 * (f00 + f01 + f10 + f11))"

text \<open>\<open>data[i] = 0.5 * (data[j] + data[k])\<close> and the two four-point assignments of \<open>demosaic\<close>.\<close>

definition put_half :: "int \<Rightarrow> int \<Rightarrow> int \<Rightarrow> u16 list \<Rightarrow> u16 list res" where
  "put_half i j k d = rbind (ld d j) (\<lambda>a. rbind (ld d k) (\<lambda>b. st d i (half_sum a b)))"

definition put_four ::
  "(rat \<Rightarrow> rat \<Rightarrow> rat \<Rightarrow> rat \<Rightarrow> u16) \<Rightarrow> int \<Rightarrow> int \<Rightarrow> int \<Rightarrow> int \<Rightarrow> int \<Rightarrow> u16 list \<Rightarrow> u16 list res" where
  "put_four f i j k l m d =
     rbind (ld d j) (\<lambda>a. rbind (ld d k) (\<lambda>b. rbind (ld d l) (\<lambda>c. rbind (ld d m) (\<lambda>e.
       st d i (f (double_of_u16 a) (double_of_u16 b) (double_of_u16 c) (double_of_u16 e))))))"

text \<open>\<open>for (v = v0; v < vmax; v += 2)\<close>\<close>

function for_step2 :: "int \<Rightarrow> int \<Rightarrow> (int \<Rightarrow> 's \<Rightarrow> 's res) \<Rightarrow> 's \<Rightarrow> 's res" where
  "for_step2 v vmax body s =
     (if v < vmax then rbind (body v s) (for_step2 (v + 2) vmax body) else Inr s)"
  by pat_completeness auto
termination
  by (relation "measure (\<lambda>(v, vmax, body, s). nat (vmax - v))") auto

declare for_step2.simps [simp del]

text \<open>The bodies of the four nested loops; \<open>w\<close> is \<open>m_data.cols\<close>.\<close>

definition red_line_body :: "int \<Rightarrow> int \<Rightarrow> int \<Rightarrow> u16 list \<Rightarrow> u16 list res" where
  "red_line_body w y x d =
     (let Y_OFF = w * 3; X_OFF = 3; pos = (y * w + x) * 3 in
      rbind (put_half pos (pos - X_OFF) (pos + X_OFF) d)
            (put_half (pos + 2) (pos - Y_OFF + 2) (pos + Y_OFF + 2)))"

definition blue_line_body :: "int \<Rightarrow> int \<Rightarrow> int \<Rightarrow> u16 list \<Rightarrow> u16 list res" where
  "blue_line_body w y x d =
     (let Y_OFF = w * 3; X_OFF = 3; pos = (y * w + x) * 3 in
      rbind (put_half pos (pos - Y_OFF) (pos + Y_OFF) d)
            (put_half (pos + 2) (pos - X_OFF + 2) (pos + X_OFF + 2)))"

definition red_middle_body :: "int \<Rightarrow> int \<Rightarrow> int \<Rightarrow> u16 list \<Rightarrow> u16 list res" where
  "red_middle_body w y x d =
     (let Y_OFF = w * 3; X_OFF = 3; pos = (y * w + x) * 3 in
      rbind (put_four bilinearInterpolation pos (pos - X_OFF + Y_OFF) (pos - X_OFF - Y_OFF)
                      (pos + X_OFF + Y_OFF) (pos + X_OFF - Y_OFF) d)
            (put_four avgInterpolation (pos + 1) (pos - X_OFF + 1) (pos + X_OFF + 1)
                      (pos - Y_OFF + 1) (pos + Y_OFF + 1)))"

definition blue_middle_body :: "int \<Rightarrow> int \<Rightarrow> int \<Rightarrow> u16 list \<Rightarrow> u16 list res" where
  "blue_middle_body w y x d =
     (let Y_OFF = w * 3; X_OFF = 3; pos = (y * w + x) * 3 in
      rbind (put_four bilinearInterpolation (pos + 2) (pos - X_OFF + Y_OFF + 2)
                      (pos - X_OFF - Y_OFF + 2) (pos + X_OFF + Y_OFF + 2) (pos + X_OFF - Y_OFF + 2) d)
            (put_four avgInterpolation (pos + 1) (pos - X_OFF + 1) (pos + X_OFF + 1)
                      (pos - Y_OFF + 1) (pos + Y_OFF + 1)))"

definition demosaic_pass ::
  "(int \<Rightarrow> int \<Rightarrow> u16 list \<Rightarrow> u16 list res) \<Rightarrow> int \<Rightarrow> int \<Rightarrow> int \<Rightarrow> int \<Rightarrow> u16 list \<Rightarrow> u16 list res" where
  "demosaic_pass body y0 ROW_MAX x0 COL_MAX =
     for_step2 y0 ROW_MAX (\<lambda>y. for_step2 x0 COL_MAX (body y))"

definition demosaic_interior :: "mat \<Rightarrow> mat res" where
  "demosaic_interior m =
     (let w = int (cols m); ROW_MAX = int (rows m) - 1; COL_MAX = w - 1 in
      rbind (demosaic_pass (red_line_body w) 1 ROW_MAX 2 COL_MAX (data m)) (\<lambda>d1.
      rbind (demosaic_pass (blue_line_body w) 2 ROW_MAX 1 COL_MAX d1) (\<lambda>d2.
      rbind (demosaic_pass (red_middle_body w) 2 ROW_MAX 2 COL_MAX d2) (\<lambda>d3.
      rbind (demosaic_pass (blue_middle_body w) 1 ROW_MAX 1 COL_MAX d3) (\<lambda>d4.
      Inr (m\<lparr>data := d4\<rparr>))))))"

text \<open>OpenCV: \<open>m.row(i).copyTo(m.row(j))\<close> and \<open>m.col(i).copyTo(m.col(j))\<close>.\<close>

record cv_copy =
  copy_row :: "int \<Rightarrow> int \<Rightarrow> mat \<Rightarrow> mat res"
  copy_col :: "int \<Rightarrow> int \<Rightarrow> mat \<Rightarrow> mat res"

definition demosaic :: "cv_copy \<Rightarrow> mat \<Rightarrow> mat res" where
  "demosaic cv m =
     rbind (demosaic_interior m) (\<lambda>m0.
     let ROW_MAX = int (rows m0) - 1; COL_MAX = int (cols m0) - 1 in
     rbind (copy_row cv 1 0 m0) (\<lambda>m1.
     rbind (copy_row cv (ROW_MAX - 1) ROW_MAX m1) (\<lambda>m2.
     rbind (copy_col cv 1 0 m2) (\<lambda>m3.
     copy_col cv (COL_MAX - 1) COL_MAX m3))))"

text \<open>
  The constructor. \<open>alloc\<close> is the content of the freshly allocated \<open>cv::Mat\<close> and \<open>buf0\<close> that of
  the local \<open>buf\<close>; both are indeterminate in C++.
\<close>

definition unpack :: "u16 list \<Rightarrow> u8 list \<Rightarrow> istream \<Rightarrow> nat \<Rightarrow> nat \<Rightarrow> mat res" where
  "unpack alloc buf0 is width height =
     rbind (read_rows height width 0 \<lparr>rd_is = is, rd_buf = buf0, rd_data = alloc, rd_pos = 0\<rparr>)
       (\<lambda>r. Inr \<lparr>rows = height, cols = width, data = rd_data r\<rparr>)"

definition RawImage :: "cv_copy \<Rightarrow> u16 list \<Rightarrow> u8 list \<Rightarrow> istream \<Rightarrow> nat \<Rightarrow> nat \<Rightarrow> mat res" where
  "RawImage cv alloc buf0 is width height =
     rbind (unpack alloc buf0 is width height) (demosaic cv)"

text \<open>
  What the unpacked image holds: the samples of the file are numbered row by row, two of them in
  every three bytes, most significant bits first; sample \<open>k\<close> goes, shifted to the top of 16 bits,
  to the channel of pixel \<open>k\<close> that the Bayer filter assigns to it.
\<close>

definition sample12 :: "u8 list \<Rightarrow> nat \<Rightarrow> nat" where
  "sample12 bs k =
     (let j = 3 * (k div 2) in
      if even k then 16 * unat (bs ! j) + unat (bs ! (j + 1)) div 16
      else 256 * (unat (bs ! (j + 1)) mod 16) + unat (bs ! (j + 2)))"

definition bayer_image :: "u16 list \<Rightarrow> u8 list \<Rightarrow> nat \<Rightarrow> nat \<Rightarrow> u16 list" where
  "bayer_image alloc bs width n =
     map (\<lambda>i. let p = i div 3 in
            if p < n \<and> i mod 3 = getColorIndex (p mod width) (p div width)
            then of_nat (16 * sample12 bs p) else alloc ! i) [0..<length alloc]"

text \<open>The reader after \<open>n\<close> pixels.\<close>

definition reader_at :: "u16 list \<Rightarrow> u8 list \<Rightarrow> nat \<Rightarrow> nat \<Rightarrow> reader \<Rightarrow> bool" where
  "reader_at alloc bs width n r \<longleftrightarrow>
     rd_is r = \<lparr>is_bytes = drop (3 * (n div 2)) bs, is_fail = False\<rparr>
     \<and> rd_pos r = 3 * n \<and> rd_data r = bayer_image alloc bs width n"

text \<open>The packed form of a list of 12-bit samples: two of them in three bytes.\<close>

fun pack12 :: "nat list \<Rightarrow> u8 list" where
  "pack12 (p # q # ss) =
     of_nat (p div 16) # of_nat (16 * (p mod 16) + q div 256) # of_nat (q mod 256) # pack12 ss"
| "pack12 ss = []"

lemma length_pack12: "even (length ss) \<Longrightarrow> 2 * length (pack12 ss) = 3 * length ss"
  by (induction ss rule: pack12.induct) simp_all

lemma mask_15: "(15::'a::semiring_bit_operations) = mask 4" by (simp add: mask_numeral)
lemma mask_240: "(240::'a::semiring_bit_operations) = push_bit 4 (mask 4)" 
  by (simp add: mask_numeral push_bit_eq_mult power_numeral)
lemma nat_and_240: "(n::nat) AND 240 = 16 * (n div 16 mod 16)"
proof -
  have "n AND push_bit 4 (mask 4) = push_bit 4 (take_bit 4 (drop_bit 4 n))"
    by (rule bit_eqI) (auto simp: bit_simps)
  then show ?thesis
    by (simp add: mask_240 push_bit_eq_mult take_bit_eq_mod drop_bit_eq_div)
qed
lemma nat_and_15: "(n::nat) AND 15 = n mod 16"
  by (simp add: mask_15 flip: take_bit_eq_mask) (simp add: take_bit_eq_mod)
lemma nat_or_add: "c < 2 ^ k \<Longrightarrow> push_bit k (a::nat) OR c = 2 ^ k * a + c"
proof -
  assume "c < 2 ^ k"
  then have "take_bit k c = c" by (simp add: take_bit_nat_eq_self)
  then have "push_bit k a AND c = push_bit k a AND take_bit k c" by simp
  also have "\<dots> = 0" by (rule bit_eqI) (auto simp: bit_simps)
  finally have "push_bit k a AND c = 0" .
  then show ?thesis by (simp add: push_bit_eq_mult flip: disjunctive_add_eq_or)
qed
lemma unat_first_sample: "unat (first_sample b0 b1) = 16 * (16 * unat b0 + unat b1 div 16)"
proof -
  have "unat (push_bit 8 (ucast b0) :: u16) = push_bit 8 (unat b0)"
    unfolding unsigned_push_bit_eq unsigned_ucast_eq
    using unat_u8_less [of b0] by (simp add: take_bit_eq_mod push_bit_eq_mult)
  moreover have "unat (ucast (b1 AND 0xF0) :: u16) = 16 * (unat b1 div 16)"
    using unat_u8_less [of b1]
    by (simp add: unsigned_ucast_eq unsigned_and_eq nat_and_240 take_bit_eq_mod)
  moreover have "16 * (unat b1 div 16) < 2 ^ 8"
    using unat_u8_less [of b1] by simp
  ultimately show ?thesis
    by (simp add: first_sample_def unsigned_or_eq nat_or_add)
qed

lemma unat_second_sample: "unat (second_sample b1 b2) = 16 * (256 * (unat b1 mod 16) + unat b2)"
proof -
  have low: "unat (ucast (b1 AND 0xF) :: u16) = unat b1 mod 16"
    using unat_u8_less [of b1] by (simp add: unsigned_ucast_eq unsigned_and_eq nat_and_15 take_bit_eq_mod)
  have "unat (push_bit 12 (ucast (b1 AND 0xF)) :: u16) = push_bit 12 (unat b1 mod 16)"
    unfolding unsigned_push_bit_eq low by (simp add: take_bit_eq_mod push_bit_eq_mult)
  moreover have "unat (push_bit 4 (ucast b2) :: u16) = 16 * unat b2"
    unfolding unsigned_push_bit_eq unsigned_ucast_eq
    using unat_u8_less [of b2] by (simp add: take_bit_eq_mod push_bit_eq_mult)
  moreover have "16 * unat b2 < 2 ^ 12"
    using unat_u8_less [of b2] by simp
  ultimately show ?thesis
    by (simp only: second_sample_def unsigned_or_eq nat_or_add) simp
qed
lemma first_sample_eq: "first_sample b0 b1 = of_nat (16 * (16 * unat b0 + unat b1 div 16))"
proof -
  have "of_nat (unat (first_sample b0 b1)) = first_sample b0 b1" by simp
  then show ?thesis by (simp only: unat_first_sample)
qed

lemma second_sample_eq: "second_sample b1 b2 = of_nat (16 * (256 * (unat b1 mod 16) + unat b2))"
proof -
  have "of_nat (unat (second_sample b1 b2)) = second_sample b1 b2" by simp
  then show ?thesis by (simp only: unat_second_sample)
qed

lemma getColorIndex_less: "getColorIndex x y < 3"
  by (simp add: getColorIndex_def)

lemma length_bayer_image [simp]: "length (bayer_image alloc bs width n) = length alloc"
  by (simp add: bayer_image_def)

lemma bayer_image_0 [simp]: "bayer_image alloc bs width 0 = alloc"
  by (rule nth_equalityI) (simp_all add: bayer_image_def Let_def)

lemma bayer_image_Suc:
  assumes "3 * n + 2 < length alloc"
  shows "bayer_image alloc bs width (Suc n) =
     (bayer_image alloc bs width n)
       [3 * n + getColorIndex (n mod width) (n div width) := of_nat (16 * sample12 bs n)]"
    (is "_ = _[?k := _]")
proof (rule nth_equalityI)
  fix i assume "i < length (bayer_image alloc bs width (Suc n))"
  then have i: "i < length alloc" by simp
  have k: "?k div 3 = n" "?k mod 3 = getColorIndex (n mod width) (n div width)"
    using getColorIndex_less [of "n mod width" "n div width"] by simp_all
  have eq: "i = ?k \<longleftrightarrow> i div 3 = n \<and> i mod 3 = getColorIndex (n mod width) (n div width)"
    using k by (metis mult_div_mod_eq)
  show "bayer_image alloc bs width (Suc n) ! i =
     (bayer_image alloc bs width n)[?k := of_nat (16 * sample12 bs n)] ! i"
  proof (cases "i = ?k")
    case True
    then show ?thesis using i k by (simp add: bayer_image_def Let_def)
  next
    case False
    then show ?thesis using i eq by (auto simp: bayer_image_def Let_def less_Suc_eq)
  qed
qed simp

lemma even_width_index:
  assumes "even width" and "even x" and "x < width"
  shows "even (y * width + x)" and "(y * width + x) mod width = x"
    and "(y * width + x) div width = y" and "Suc (y * width + x) mod width = Suc x"
    and "Suc (y * width + x) div width = y"
proof -
  have "Suc x < width"
    using assms by (metis Suc_lessI even_Suc)
  then have "(y * width + Suc x) mod width = Suc x" and "(y * width + Suc x) div width = y"
    using div_mult_self3 [of width y "Suc x"] mod_mult_self3 [of y width "Suc x"] by simp_all
  then show "Suc (y * width + x) mod width = Suc x" and "Suc (y * width + x) div width = y"
    by simp_all
qed (use assms in simp_all)

lemma read_pair_step:
  assumes w: "even width" "even x" "x < width" and at: "reader_at alloc bs width (y * width + x) r"
    and room: "3 * (y * width + x) + 5 < length alloc"
    and avail: "3 * ((y * width + x) div 2) + 3 \<le> length bs"
  shows "\<exists>r'. read_pair y x r = Inr r' \<and> reader_at alloc bs width (y * width + (x + 2)) r'"
proof -
  define n where "n = y * width + x"
  note idx = even_width_index [OF w, of y, folded n_def] and room' = room [folded n_def]
  define j where "j = 3 * (n div 2)"
  have buf: "take 3 (drop j bs) = [bs ! j, bs ! Suc j, bs ! Suc (Suc j)]"
    using avail by (auto simp: j_def n_def take_Suc_conv_app_nth numeral_3_eq_3 nth_drop)
  have s1: "first_sample (bs ! j) (bs ! Suc j) = of_nat (16 * sample12 bs n)"
    using idx(1) by (simp only: first_sample_eq sample12_def Let_def j_def if_True) simp
  have s2: "second_sample (bs ! Suc j) (bs ! Suc (Suc j)) = of_nat (16 * sample12 bs (Suc n))"
    using idx(1) by (simp add: second_sample_eq sample12_def Let_def j_def del: of_nat_add of_nat_mult)
  have st1: "st (bayer_image alloc bs width n) (int (3 * n + getColorIndex x y))
      (of_nat (16 * sample12 bs n)) = Inr (bayer_image alloc bs width (Suc n))"
    using room' getColorIndex_less [of x y] by (subst st_nat) (simp_all add: bayer_image_Suc idx)
  have st2: "st (bayer_image alloc bs width (Suc n)) (int (3 * n + 3 + getColorIndex (Suc x) y))
      (of_nat (16 * sample12 bs (Suc n))) = Inr (bayer_image alloc bs width (Suc (Suc n)))"
    using room' getColorIndex_less [of "Suc x" y]
    by (subst st_nat) (simp_all add: bayer_image_Suc [of "Suc n"] idx add.commute [of 3 "3 * n"])
  have "read_pair y x r = Inr \<lparr>rd_is = \<lparr>is_bytes = drop 3 (drop j bs), is_fail = False\<rparr>,
      rd_buf = [bs ! j, bs ! Suc j, bs ! Suc (Suc j)] @ drop (Suc (Suc (Suc 0))) (rd_buf r),
      rd_data = bayer_image alloc bs width (Suc (Suc n)), rd_pos = 3 * n + 6\<rparr>"
    using at
    by (simp add: read_pair_def reader_at_def istream_read_def buf s1 s2 st1 st2
        del: of_nat_add of_nat_mult flip: n_def j_def)
  moreover have "y * width + (x + 2) = Suc (Suc n)"
    by (simp add: n_def)
  ultimately show ?thesis
    by (simp add: reader_at_def j_def add.commute)
qed
lemma read_row_done: "\<not> x < width \<Longrightarrow> read_row y width x r = Inr r"
  by (simp add: read_row.simps)

lemma read_row_correct:
  assumes w: "even width" and room: "3 * width * height = length alloc" "y < height"
    and avail: "3 * width * height \<le> 2 * length bs"
    and x: "even x" "x \<le> width" and at: "reader_at alloc bs width (y * width + x) r"
  shows "\<exists>r'. read_row y width x r = Inr r' \<and> reader_at alloc bs width (Suc y * width) r'"
  using x at
proof (induction "width - x" arbitrary: x r rule: less_induct)
  case less
  show ?case
  proof (cases "x < width")
    case False
    with less.prems show ?thesis by (simp add: read_row_done add.commute)
  next
    case True
    then have x2: "x + 2 \<le> width"
      using w less.prems(1) by (metis Suc_leI add_2_eq_Suc' even_Suc le_neq_implies_less)
    have "Suc y * width \<le> height * width"
      using room(2) by (intro mult_le_mono1) simp
    then have bound: "y * width + x + 2 \<le> height * width"
      using x2 by simp
    then have r1: "3 * (y * width + x) + 5 < length alloc"
      using room(1) by (simp add: mult.commute)
    have r2: "3 * ((y * width + x) div 2) + 3 \<le> length bs"
      using bound avail by (simp add: mult.commute)
    obtain r' where r': "read_pair y x r = Inr r'" "reader_at alloc bs width (y * width + (x + 2)) r'"
      using read_pair_step [OF w less.prems(1) True less.prems(3) r1 r2] by blast
    moreover have "\<exists>r''. read_row y width (x + 2) r' = Inr r'' \<and> reader_at alloc bs width (Suc y * width) r''"
      using less.hyps [of "x + 2" r'] True x2 less.prems(1) r'(2) by simp
    ultimately show ?thesis
      using True by (simp add: read_row.simps [of y width x])
  qed
qed

lemma read_rows_correct:
  assumes w: "even width" and room: "3 * width * height = length alloc"
    and avail: "3 * width * height \<le> 2 * length bs"
    and "y \<le> height" and "reader_at alloc bs width (y * width) r"
  shows "\<exists>r'. read_rows height width y r = Inr r' \<and> reader_at alloc bs width (height * width) r'"
  using assms(4,5)
proof (induction "height - y" arbitrary: y r)
  case 0
  then show ?case by (simp add: read_rows.simps)
next
  case (Suc k)
  then have y: "y < height" by simp
  obtain r' where r': "read_row y width 0 r = Inr r'" "reader_at alloc bs width (Suc y * width) r'"
    using read_row_correct [OF w room y avail, of 0 r] Suc.prems(2) by auto
  moreover have "\<exists>r''. read_rows height width (Suc y) r' = Inr r'' \<and> reader_at alloc bs width (height * width) r''"
    using Suc.hyps(1) [of "Suc y" r'] Suc.hyps(2) y r'(2) by simp
  ultimately show ?case
    using y by (simp add: read_rows.simps [of height width y])
qed

lemma unpack_ok:
  assumes "even width" and "length alloc = 3 * width * height"
    and "3 * width * height \<le> 2 * length bs"
  shows "unpack alloc buf0 \<lparr>is_bytes = bs, is_fail = False\<rparr> width height =
    Inr \<lparr>rows = height, cols = width, data = bayer_image alloc bs width (height * width)\<rparr>"
proof -
  have "reader_at alloc bs width (0 * width)
      \<lparr>rd_is = \<lparr>is_bytes = bs, is_fail = False\<rparr>, rd_buf = buf0, rd_data = alloc, rd_pos = 0\<rparr>"
    by (simp add: reader_at_def)
  from read_rows_correct [OF assms(1) assms(2) [symmetric] assms(3) _ this] show ?thesis
    by (auto simp: unpack_def reader_at_def)
qed

text \<open>
  C6: For an even width and a stream with enough bytes the constructor's loops never leave the
  buffer, and they leave exactly the samples of the file in it: sample \<open>k\<close> of the packed 12-bit
  stream is stored, in the top 12 bits, in the Bayer channel of pixel \<open>k\<close>; the other two channels
  keep what the allocation held.
\<close>

theorem unpack_correct:
  assumes "even width" and "length alloc = 3 * width * height"
    and "3 * width * height \<le> 2 * length bs"
  shows "unpack alloc buf0 \<lparr>is_bytes = bs, is_fail = False\<rparr> width height =
    Inr \<lparr>rows = height, cols = width, data = bayer_image alloc bs width (height * width)\<rparr>"
  using assms by (rule unpack_ok)

theorem unpack_correct_witness:
  "unpack [7, 7, 7, 7, 7, 7] [0, 0, 0] \<lparr>is_bytes = [0x12, 0x34, 0x56], is_fail = False\<rparr> 2 1 =
    Inr \<lparr>rows = 1, cols = 2, data = [7, 7, 0x1230, 7, 0x4560, 7]\<rparr>"
proof -
  have "bayer_image [7, 7, 7, 7, 7, 7] [0x12, 0x34, 0x56] 2 (1 * 2) = [7, 7, 0x1230, 7, 0x4560, 7]"
    by (simp add: bayer_image_def getColorIndex_def sample12_def upt_conv_Cons)
  then show ?thesis
    using unpack_correct [of 2 "[7, 7, 7, 7, 7, 7]" 1 "[0x12, 0x34, 0x56]" "[0, 0, 0]"] by simp
qed

lemma sample12_pack12:
  assumes "even (length ss)" and "\<forall>s \<in> set ss. s < 4096" and "k < length ss"
  shows "sample12 (pack12 ss) k = ss ! k"
  using assms
proof (induction ss arbitrary: k rule: pack12.induct)
  case (1 p q ss)
  have pq: "p < 4096" "q < 4096" using "1.prems"(2) by simp_all
  then have b: "16 * (p mod 16) + q div 256 < 256" by linarith
  show ?case
  proof (cases "k < 2")
    case True
    then have "k = 0 \<or> k = 1" by auto
    moreover have "unat (of_nat (16 * (p mod 16) + q div 256) :: u8) = 16 * (p mod 16) + q div 256"
      using b by (simp only: unsigned_of_nat take_bit_eq_mod) simp
    moreover have "unat (of_nat (p div 16) :: u8) = p div 16"
      using pq by (simp add: unsigned_of_nat take_bit_eq_mod)
    moreover have "unat (of_nat (q mod 256) :: u8) = q mod 256"
      by (simp add: unsigned_of_nat take_bit_eq_mod)
    ultimately show ?thesis
      using pq by (auto simp: sample12_def simp del: of_nat_add of_nat_mult)
  next
    case False
    then obtain j where j: "k = Suc (Suc j)" by (metis add_2_eq_Suc le_Suc_ex linorder_not_le)
    then have "sample12 (pack12 (p # q # ss)) k = sample12 (pack12 ss) j"
      by (simp add: sample12_def Let_def numeral_3_eq_3)
    then show ?thesis using 1 j by simp
  qed
qed auto

text \<open>
  Round trip of the sample format: if the stream holds the packed form of a list of 12-bit
  samples, the unpacked image has 16 times sample \<open>y * width + x\<close> in the Bayer channel of pixel
  \<open>(x, y)\<close>.
\<close>

lemma unpack_pack12:
  assumes "even width" and "length alloc = 3 * width * height" and "length ss = width * height"
    and "\<forall>s \<in> set ss. s < 4096" and "y < height" and "x < width"
  shows "\<exists>m. unpack alloc buf0 \<lparr>is_bytes = pack12 ss, is_fail = False\<rparr> width height = Inr m
    \<and> unat (data m ! ((y * width + x) * 3 + getColorIndex x y)) = 16 * ss ! (y * width + x)"
proof -
  have ev: "even (length ss)" using assms(1,3) by simp
  have len: "2 * length (pack12 ss) = 3 * length ss" using ev by (rule length_pack12)
  let ?p = "y * width + x" and ?c = "getColorIndex x y"
  have "Suc y * width \<le> height * width" using assms(5) by (intro mult_le_mono1) simp
  then have p: "?p < height * width" using assms(6) by simp
  have "?p * 3 + ?c < length alloc" using p getColorIndex_less [of x y] assms(2) by (simp add: mult.commute)
  moreover have "(?p * 3 + ?c) div 3 = ?p" "(?p * 3 + ?c) mod 3 = ?c"
    using getColorIndex_less [of x y] by (simp_all only: div_mult_self3 mod_mult_self3) simp_all
  moreover have "?p mod width = x" "?p div width = y" using assms(6) by simp_all
  moreover have s: "sample12 (pack12 ss) ?p = ss ! ?p"
    using sample12_pack12 [OF ev assms(4)] p assms(3) by (simp add: mult.commute)
  moreover have "ss ! ?p < 4096" using assms(3,4) p by (simp add: mult.commute)
  ultimately have "unat (bayer_image alloc (pack12 ss) width (height * width) ! (?p * 3 + ?c)) = 16 * ss ! ?p"
    using p by (simp add: bayer_image_def unsigned_of_nat take_bit_eq_mod flip: of_nat_mult)
  then show ?thesis
    using unpack_ok [OF assms(1,2), of "pack12 ss" buf0] len assms(3) by (simp add: mult.commute)
qed

lemma read_pair_pos:
  assumes "read_pair y x r = Inr r'"
  shows "rd_pos r' = rd_pos r + 6" and "length (rd_data r') = length (rd_data r)"
    and "rd_pos r' < length (rd_data r) + 3"
  using assms by (auto simp: read_pair_def res_simps Let_def split: prod.splits)

lemma read_pair_fault: "read_pair y x r = Inl e \<Longrightarrow> e = OutOfBounds"
  by (auto simp: read_pair_def res_simps Let_def st_def split: prod.splits if_splits)

lemma read_row_odd:
  assumes "odd width" and "even x" and "x < width" and "read_row y width x r = Inr r'"
  shows "rd_pos r' = rd_pos r + 3 * (width + 1 - x) \<and> length (rd_data r') = length (rd_data r)
    \<and> rd_pos r' < length (rd_data r) + 3"
  using assms(2-4)
proof (induction "width - x" arbitrary: x r rule: less_induct)
  case less
  from less.prems(2,3) obtain r1 where r1: "read_pair y x r = Inr r1" "read_row y width (x + 2) r1 = Inr r'"
    by (auto simp: read_row.simps [of y width x] res_simps)
  note p = read_pair_pos [OF r1(1)]
  show ?case
  proof (cases "x + 2 < width")
    case True
    have "rd_pos r' = rd_pos r1 + 3 * (width + 1 - (x + 2)) \<and> length (rd_data r') = length (rd_data r1)
        \<and> rd_pos r' < length (rd_data r1) + 3"
      by (rule less.hyps) (use True less.prems(1) r1(2) in auto)
    then show ?thesis using True p by auto
  next
    case False
    then have "width = x + 1"
      using less.prems(1,2) assms(1) by (cases "width = x + 2") auto
    then show ?thesis using r1(2) False p by (simp add: read_row_done)
  qed
qed

lemma read_row_fault: "read_row y width x r = Inl e \<Longrightarrow> e = OutOfBounds"
proof (induction y width x r rule: read_row.induct)
  case (1 y width x r)
  then show ?case
    by (auto simp: read_row.simps [of y width x] res_simps split: if_splits dest: read_pair_fault)
qed

lemma read_rows_odd:
  assumes "odd width" and "y < height" and "read_rows height width y r = Inr r'"
  shows "rd_pos r + 3 * (width + 1) * (height - y) < length (rd_data r) + 3"
  using assms(2,3)
proof (induction "height - y" arbitrary: y r rule: less_induct)
  case less
  from less.prems obtain r1 where r1: "read_row y width 0 r = Inr r1" "read_rows height width (y + 1) r1 = Inr r'"
    by (auto simp: read_rows.simps [of height width y] res_simps)
  have p: "rd_pos r1 = rd_pos r + 3 * (width + 1)" "length (rd_data r1) = length (rd_data r)"
    "rd_pos r1 < length (rd_data r) + 3"
    using read_row_odd [OF assms(1) _ _ r1(1)] assms(1) by (auto simp: odd_pos)
  show ?case
  proof (cases "y + 1 < height")
    case True
    then have "height - y = Suc (height - (y + 1))" by simp
    then show ?thesis
      using less.hyps [of "y + 1" r1] True r1(2) p by simp
  next
    case False
    then have "height - y = 1" using less.prems(1) by simp
    then show ?thesis using p by simp
  qed
qed

lemma read_rows_fault: "read_rows height width y r = Inl e \<Longrightarrow> e = OutOfBounds"
proof (induction height width y r rule: read_rows.induct)
  case (1 height width y r)
  then show ?case
    by (auto simp: read_rows.simps [of height width y] res_simps split: if_splits dest: read_row_fault)
qed

text \<open>
  The even width is necessary: with an odd one the second sample of the last pair of a row is
  written as well, so that every non-empty image overruns its buffer, whatever the stream holds.
\<close>

lemma unpack_odd_width:
  assumes "odd width" and "1 \<le> height" and "length alloc = 3 * width * height"
  shows "unpack alloc buf0 is width height = Inl OutOfBounds"
proof (cases "read_rows height width 0 \<lparr>rd_is = is, rd_buf = buf0, rd_data = alloc, rd_pos = 0\<rparr>")
  case (Inl e)
  then show ?thesis using read_rows_fault [OF Inl] by (simp add: unpack_def)
next
  case (Inr r)
  from read_rows_odd [OF assms(1) _ Inr] assms(2)
  have "3 * (width + 1) * height < length alloc + 3" by simp
  then have False using assms(2,3) by (simp add: algebra_simps)
  then show ?thesis ..
qed

end
