(* ===== verification/Demosaic.thy ===== *)
theory Demosaic
  imports Raw_Image
begin

text \<open>
  Correctness of \<open>RawImage::demosaic\<close> (\<open>src/lib/image/rawimage.cpp\<close>) against a reference
  definition: an interior pixel keeps its own Bayer sample and gets, for each of the other two
  colours, the truncated mean of the samples of that colour in its 3x3 neighbourhood
  (\<open>pixel_ref\<close>); a border pixel repeats the nearest interior pixel. The four passes of the code
  share the contract \<open>demosaic_loop\<close>, which is interpreted on each of them.
\<close>

definition cell :: "nat \<Rightarrow> nat \<Rightarrow> nat \<Rightarrow> nat \<Rightarrow> nat" where
  "cell w y x c = (y * w + x) * 3 + c"

definition bayer_mean :: "u16 list \<Rightarrow> nat \<Rightarrow> nat \<Rightarrow> nat \<Rightarrow> nat \<Rightarrow> nat" where
  "bayer_mean d w y x c =
     (let ns = [(y + i - 1, x + j - 1). i \<leftarrow> [0, 1, 2], j \<leftarrow> [0, 1, 2],
                getColorIndex (x + j - 1) (y + i - 1) = c] in
      (\<Sum>(v, u) \<leftarrow> ns. unat (d ! cell w v u c)) div length ns)"

definition fill :: "nat \<Rightarrow> nat \<Rightarrow> nat \<Rightarrow> nat set" where
  "fill w y x = cell w y x ` ({0, 1, 2} - {getColorIndex x y})"

definition mean_at :: "u16 list \<Rightarrow> nat \<Rightarrow> nat \<Rightarrow> u16" where
  "mean_at d w i = of_nat (bayer_mean d w (i div 3 div w) (i div 3 mod w) (i mod 3))"

definition painted :: "u16 list \<Rightarrow> nat \<Rightarrow> nat set \<Rightarrow> u16 list" where
  "painted d w S = map (\<lambda>i. if i \<in> S then mean_at d w i else d ! i) [0..<length d]"

definition raw_cells :: "nat \<Rightarrow> nat set" where
  "raw_cells w = {i. i mod 3 = getColorIndex (i div 3 mod w) (i div 3 div w)}"

definition every2 :: "nat \<Rightarrow> nat \<Rightarrow> nat set" where
  "every2 v vmax = {u. v \<le> u \<and> u < vmax \<and> even (u - v)}"

definition pixel_ref :: "u16 list \<Rightarrow> nat \<Rightarrow> nat \<Rightarrow> nat \<Rightarrow> nat \<Rightarrow> nat" where
  "pixel_ref d w y x c =
     (if c = getColorIndex x y then unat (d ! cell w y x c) else bayer_mean d w y x c)"

definition interior :: "nat \<Rightarrow> nat \<Rightarrow> nat set" where
  "interior h w = (\<Union>y\<in>{1..<h - 1}. \<Union>x\<in>{1..<w - 1}. fill w y x)"

definition ref_copy :: cv_copy where
  "ref_copy =
     \<lparr>copy_row = (\<lambda>i j m. if 0 \<le> i \<and> i < int (rows m) \<and> 0 \<le> j \<and> j < int (rows m)
        then Inr (m\<lparr>data := map (\<lambda>k. data m ! cell (cols m)
               (if k div 3 div cols m = nat j then nat i else k div 3 div cols m)
               (k div 3 mod cols m) (k mod 3)) [0..<length (data m)]\<rparr>)
        else Inl (Thrown ''cv::Exception'')),
      copy_col = (\<lambda>i j m. if 0 \<le> i \<and> i < int (cols m) \<and> 0 \<le> j \<and> j < int (cols m)
        then Inr (m\<lparr>data := map (\<lambda>k. data m ! cell (cols m) (k div 3 div cols m)
               (if k div 3 mod cols m = nat j then nat i else k div 3 mod cols m)
               (k mod 3)) [0..<length (data m)]\<rparr>)
        else Inl (Thrown ''cv::Exception''))\<rparr>"

lemma floor_half: "\<lfloor>1/2 * (of_nat n :: rat)\<rfloor> = int (n div 2)"
  using floor_divide_of_nat_eq [of n 2, where 'a = rat] by simp
lemma floor_quarter: "\<lfloor>1/4 * (of_nat n :: rat)\<rfloor> = int (n div 4)"
  using floor_divide_of_nat_eq [of n 4, where 'a = rat] by simp

lemma half_sum_eq: "half_sum a b = of_nat ((unat a + unat b) div 2)"
  using floor_half [of "unat a + unat b"]
  by (simp add: half_sum_def u16_of_double_def double_of_u16_def)

lemma avg_eq: "avgInterpolation (double_of_u16 a) (double_of_u16 b) (double_of_u16 c) (double_of_u16 d)
  = of_nat ((unat a + unat b + unat c + unat d) div 4)"
  using floor_quarter [of "unat a + unat b + unat c + unat d"]
  by (simp add: avgInterpolation_def u16_of_double_def double_of_u16_def)

lemma bilinear_eq: "bilinearInterpolation (double_of_u16 a) (double_of_u16 b) (double_of_u16 c) (double_of_u16 d)
  = of_nat ((unat a + unat b + unat c + unat d) div 4)"
proof -
  have "1/2 * (1/2 * (of_nat (unat a) + of_nat (unat c)) + 1/2 * (of_nat (unat b) + of_nat (unat d)))
     = 1/4 * (of_nat (unat a + unat b + unat c + unat d) :: rat)" by (simp add: field_simps)
  then show ?thesis
  using floor_quarter [of "unat a + unat b + unat c + unat d"]
  by (simp only: bilinearInterpolation_def u16_of_double_def double_of_u16_def Let_def) simp
qed

lemma cell_div_mod: "c < 3 \<Longrightarrow> cell w y x c div 3 = y * w + x" "c < 3 \<Longrightarrow> cell w y x c mod 3 = c"
  unfolding cell_def by (simp_all only: div_mult_self3 mod_mult_self3) simp_all

lemma cell_index: "x < w \<Longrightarrow> c < 3 \<Longrightarrow> cell w y x c div 3 div w = y"
  "x < w \<Longrightarrow> c < 3 \<Longrightarrow> cell w y x c div 3 mod w = x" "c < 3 \<Longrightarrow> cell w y x c mod 3 = c"
  by (simp_all add: cell_div_mod)

lemma cell_less: "x < w \<Longrightarrow> y < h \<Longrightarrow> c < 3 \<Longrightarrow> cell w y x c < h * w * 3"
proof -
  assume a: "x < w" "y < h" "c < 3"
  then have "Suc y * w \<le> h * w" by (intro mult_le_mono1) simp
  with a show ?thesis by (simp add: cell_def)
qed

lemma every2_step: "v < vmax \<Longrightarrow> every2 v vmax = insert v (every2 (v + 2) vmax)"
proof (rule set_eqI)
  fix u assume "v < vmax"
  show "u \<in> every2 v vmax \<longleftrightarrow> u \<in> insert v (every2 (v + 2) vmax)"
  proof (cases "u < v + 2")
    case True
    then have "u < v \<or> u = v \<or> u = Suc v" by auto
    then show ?thesis using \<open>v < vmax\<close> by (auto simp: every2_def)
  next
    case False
    then obtain k where "u = v + 2 + k" by (metis le_Suc_ex linorder_not_le)
    then show ?thesis by (auto simp: every2_def)
  qed
qed

lemma length_painted [simp]: "length (painted d w S) = length d"
  by (simp add: painted_def)

lemma painted_nth: "i < length d \<Longrightarrow> i \<notin> S \<Longrightarrow> painted d w S ! i = d ! i"
  by (simp add: painted_def)

lemma painted_put:
  "i < length d \<Longrightarrow> v = mean_at d w i \<Longrightarrow> (painted d w S)[i := v] = painted d w (insert i S)"
  by (rule nth_equalityI) (auto simp: painted_def nth_list_update)

lemma put_half_painted:
  assumes "i < length d" "j < length d" "k < length d" "j \<notin> S" "k \<notin> S"
    and "mean_at d w i = half_sum (d ! j) (d ! k)"
  shows "put_half (int i) (int j) (int k) (painted d w S) = Inr (painted d w (insert i S))"
  using assms by (simp add: put_half_def painted_nth painted_put)

lemma put_four_painted:
  assumes "i < length d" "j < length d" "k < length d" "l < length d" "m < length d"
    and "j \<notin> S" "k \<notin> S" "l \<notin> S" "m \<notin> S"
    and "mean_at d w i = f (double_of_u16 (d ! j)) (double_of_u16 (d ! k))
           (double_of_u16 (d ! l)) (double_of_u16 (d ! m))"
  shows "put_four f (int i) (int j) (int k) (int l) (int m) (painted d w S)
    = Inr (painted d w (insert i S))"
  using assms by (simp add: put_four_def painted_nth painted_put)

lemma raw_cell: "x < w \<Longrightarrow> cell w y x (getColorIndex x y) \<in> raw_cells w"
  using getColorIndex_less [of x y] by (simp add: raw_cells_def cell_index)

lemma mean_at_cell: "x < w \<Longrightarrow> c < 3 \<Longrightarrow> mean_at d w (cell w y x c) = of_nat (bayer_mean d w y x c)"
  by (simp add: mean_at_def cell_index)


lemma cell_walk:
  "(int v * int w + int u) * 3 = int (cell w v u 0)"
  "int (cell w v (Suc x) c) - 3 = int (cell w v x c)"
  "int (cell w v (Suc x) c) + 3 = int (cell w v (x + 2) c)"
  "int (cell w (Suc y) u c) - int w * 3 = int (cell w y u c)"
  "int (cell w (Suc y) u c) + int w * 3 = int (cell w (y + 2) u c)"
  "int (cell w v u 0) + 1 = int (cell w v u 1)"
  "int (cell w v u 0) + 2 = int (cell w v u 2)"
  by (simp_all add: cell_def ring_distribs)

lemma red_line_cells:
  "red_line_body (int w) (int (Suc y)) (int (Suc x)) d =
     rbind (put_half (int (cell w (Suc y) (Suc x) 0)) (int (cell w (Suc y) x 0))
              (int (cell w (Suc y) (x + 2) 0)) d)
           (put_half (int (cell w (Suc y) (Suc x) 2)) (int (cell w y (Suc x) 2))
              (int (cell w (y + 2) (Suc x) 2)))"
  by (simp only: red_line_body_def Let_def cell_walk)

lemma blue_line_cells:
  "blue_line_body (int w) (int (Suc y)) (int (Suc x)) d =
     rbind (put_half (int (cell w (Suc y) (Suc x) 0)) (int (cell w y (Suc x) 0))
              (int (cell w (y + 2) (Suc x) 0)) d)
           (put_half (int (cell w (Suc y) (Suc x) 2)) (int (cell w (Suc y) x 2))
              (int (cell w (Suc y) (x + 2) 2)))"
  by (simp only: blue_line_body_def Let_def cell_walk)

lemma red_middle_cells:
  "red_middle_body (int w) (int (Suc y)) (int (Suc x)) d =
     rbind (put_four bilinearInterpolation (int (cell w (Suc y) (Suc x) 0))
              (int (cell w (y + 2) x 0)) (int (cell w y x 0))
              (int (cell w (y + 2) (x + 2) 0)) (int (cell w y (x + 2) 0)) d)
           (put_four avgInterpolation (int (cell w (Suc y) (Suc x) 1))
              (int (cell w (Suc y) x 1)) (int (cell w (Suc y) (x + 2) 1))
              (int (cell w y (Suc x) 1)) (int (cell w (y + 2) (Suc x) 1)))"
  by (simp only: red_middle_body_def Let_def cell_walk)

lemma blue_middle_cells:
  "blue_middle_body (int w) (int (Suc y)) (int (Suc x)) d =
     rbind (put_four bilinearInterpolation (int (cell w (Suc y) (Suc x) 2))
              (int (cell w (y + 2) x 2)) (int (cell w y x 2))
              (int (cell w (y + 2) (x + 2) 2)) (int (cell w y (x + 2) 2)) d)
           (put_four avgInterpolation (int (cell w (Suc y) (Suc x) 1))
              (int (cell w (Suc y) x 1)) (int (cell w (Suc y) (x + 2) 1))
              (int (cell w y (Suc x) 1)) (int (cell w (y + 2) (Suc x) 1)))"
  by (simp only: blue_middle_body_def Let_def cell_walk)

lemma block_cells:
  assumes "x + 2 < w" and "y + 2 < h" and "length d = h * w * 3" and "S \<inter> raw_cells w = {}"
    and "u \<le> x + 2" and "v \<le> y + 2"
  shows "c < 3 \<Longrightarrow> cell w v u c < length d"
    and "c = getColorIndex u v \<Longrightarrow> cell w v u c \<notin> S"
  using assms cell_less [of u w v h c] raw_cell [of u w v] by auto

lemma cell_inj: "cell w y x c = cell w y x c' \<longleftrightarrow> c = c'"
  by (simp add: cell_def)

lemma cell_color_neq: "u < w \<Longrightarrow> x < w \<Longrightarrow> c < 3 \<Longrightarrow> c' < 3 \<Longrightarrow> cell w v u c = cell w y x c' \<longleftrightarrow> v = y \<and> u = x \<and> c = c'"
  by (metis cell_index)

lemmas block_simps = mean_at_cell getColorIndex_def bayer_mean_def half_sum_eq avg_eq bilinear_eq
  cell_color_neq numeral_2_eq_2 [symmetric]

lemma rbind_seq: "m = Inr d1 \<Longrightarrow> g d1 = Inr d2 \<Longrightarrow> rbind m g = Inr d2"
  by simp

lemma red_line_step:
  assumes par: "odd (Suc y)" "even (Suc x)" and w: "x + 2 < w" "y + 2 < h"
    and len: "length d = h * w * 3" and S: "S \<inter> raw_cells w = {}"
  shows "red_line_body (int w) (int (Suc y)) (int (Suc x)) (painted d w S)
    = Inr (painted d w (S \<union> fill w (Suc y) (Suc x)))"
proof -
  have eq: "S \<union> fill w (Suc y) (Suc x)
      = insert (cell w (Suc y) (Suc x) 2) (insert (cell w (Suc y) (Suc x) 0) S)"
    using par by (auto simp: fill_def getColorIndex_def)
  show ?thesis
    unfolding red_line_cells eq
    using par w by (intro put_half_painted [THEN rbind_seq] put_half_painted) (simp_all add: block_cells [OF w len S] block_simps)
qed

lemma blue_line_step:
  assumes par: "even (Suc y)" "odd (Suc x)" and w: "x + 2 < w" "y + 2 < h"
    and len: "length d = h * w * 3" and S: "S \<inter> raw_cells w = {}"
  shows "blue_line_body (int w) (int (Suc y)) (int (Suc x)) (painted d w S)
    = Inr (painted d w (S \<union> fill w (Suc y) (Suc x)))"
proof -
  have eq: "S \<union> fill w (Suc y) (Suc x)
      = insert (cell w (Suc y) (Suc x) 2) (insert (cell w (Suc y) (Suc x) 0) S)"
    using par by (auto simp: fill_def getColorIndex_def)
  show ?thesis
    unfolding blue_line_cells eq
    using par w by (intro put_half_painted [THEN rbind_seq] put_half_painted) (simp_all add: block_cells [OF w len S] block_simps)
qed

lemma red_middle_step:
  assumes par: "even (Suc y)" "even (Suc x)" and w: "x + 2 < w" "y + 2 < h"
    and len: "length d = h * w * 3" and S: "S \<inter> raw_cells w = {}"
  shows "red_middle_body (int w) (int (Suc y)) (int (Suc x)) (painted d w S)
    = Inr (painted d w (S \<union> fill w (Suc y) (Suc x)))"
proof -
  have eq: "S \<union> fill w (Suc y) (Suc x)
      = insert (cell w (Suc y) (Suc x) 1) (insert (cell w (Suc y) (Suc x) 0) S)"
    using par by (auto simp: fill_def getColorIndex_def)
  show ?thesis
    unfolding red_middle_cells eq
    using par w by (intro put_four_painted [THEN rbind_seq] put_four_painted) (simp_all add: block_cells [OF w len S] block_simps ac_simps)
qed

lemma blue_middle_step:
  assumes par: "odd (Suc y)" "odd (Suc x)" and w: "x + 2 < w" "y + 2 < h"
    and len: "length d = h * w * 3" and S: "S \<inter> raw_cells w = {}"
  shows "blue_middle_body (int w) (int (Suc y)) (int (Suc x)) (painted d w S)
    = Inr (painted d w (S \<union> fill w (Suc y) (Suc x)))"
proof -
  have eq: "S \<union> fill w (Suc y) (Suc x)
      = insert (cell w (Suc y) (Suc x) 1) (insert (cell w (Suc y) (Suc x) 2) S)"
    using par by (auto simp: fill_def getColorIndex_def)
  show ?thesis
    unfolding blue_middle_cells eq
    using par w by (intro put_four_painted [THEN rbind_seq] put_four_painted) (simp_all add: block_cells [OF w len S] block_simps ac_simps)
qed


lemma fill_raw: "x < w \<Longrightarrow> fill w y x \<inter> raw_cells w = {}"
  by (auto simp: fill_def raw_cells_def cell_index)

lemma for_step2_done: "\<not> v < vmax \<Longrightarrow> for_step2 v vmax body s = Inr s"
  by (simp add: for_step2.simps)

lemma for_step2_next: "v < vmax \<Longrightarrow> for_step2 v vmax body s = rbind (body v s) (for_step2 (v + 2) vmax body)"
  by (simp add: for_step2.simps [of v])

lemma every2_empty: "\<not> v < vmax \<Longrightarrow> every2 v vmax = {}"
  by (auto simp: every2_def)

lemma for_step2_collect:
  assumes step: "\<And>u S. v \<le> u \<Longrightarrow> u < vmax \<Longrightarrow> even (u - v) \<Longrightarrow> P S \<Longrightarrow>
      body (int u) (g S) = Inr (g (S \<union> cells u)) \<and> P (S \<union> cells u)"
    and "P S"
  shows "for_step2 (int v) (int vmax) body (g S) = Inr (g (S \<union> \<Union> (cells ` every2 v vmax)))
    \<and> P (S \<union> \<Union> (cells ` every2 v vmax))"
  using assms
proof (induction "vmax - v" arbitrary: v S rule: less_induct)
  case less
  show ?case
  proof (cases "v < vmax")
    case False
    then show ?thesis using less.prems by (simp add: for_step2_done every2_empty)
  next
    case True
    have now: "body (int v) (g S) = Inr (g (S \<union> cells v))" "P (S \<union> cells v)"
      using less.prems(1) [of v S] less.prems(2) True by auto
    have "for_step2 (int (v + 2)) (int vmax) body (g (S \<union> cells v))
        = Inr (g (S \<union> cells v \<union> \<Union> (cells ` every2 (v + 2) vmax)))
      \<and> P (S \<union> cells v \<union> \<Union> (cells ` every2 (v + 2) vmax))"
    proof (rule less.hyps)
      fix u S assume "v + 2 \<le> u" "u < vmax" "even (u - (v + 2))" "P S"
      then show "body (int u) (g S) = Inr (g (S \<union> cells u)) \<and> P (S \<union> cells u)"
        using less.prems(1) [of u S] by simp
    qed (use True now in simp_all)
    moreover have "S \<union> cells v \<union> \<Union> (cells ` every2 (v + 2) vmax) = S \<union> \<Union> (cells ` every2 v vmax)"
      by (simp add: every2_step [OF True] Un_assoc)
    ultimately show ?thesis
      using True now by (simp add: for_step2_next add.commute)
  qed
qed

locale demosaic_loop =
  fixes body :: "int \<Rightarrow> int \<Rightarrow> int \<Rightarrow> u16 list \<Rightarrow> u16 list res" and y0 x0 :: nat
  assumes body_step: "y0 \<le> y \<Longrightarrow> even (y - y0) \<Longrightarrow> x0 \<le> x \<Longrightarrow> even (x - x0) \<Longrightarrow>
      x + 1 < w \<Longrightarrow> y + 1 < h \<Longrightarrow> length d = h * w * 3 \<Longrightarrow> S \<inter> raw_cells w = {} \<Longrightarrow>
      body (int w) (int y) (int x) (painted d w S) = Inr (painted d w (S \<union> fill w y x))"
begin

lemma pass:
  assumes "length d = h * w * 3" and "S \<inter> raw_cells w = {}"
  shows "demosaic_pass (body (int w)) (int y0) (int (h - 1)) (int x0) (int (w - 1)) (painted d w S)
      = Inr (painted d w (S \<union> (\<Union>y\<in>every2 y0 (h - 1). \<Union>x\<in>every2 x0 (w - 1). fill w y x)))
    \<and> (S \<union> (\<Union>y\<in>every2 y0 (h - 1). \<Union>x\<in>every2 x0 (w - 1). fill w y x)) \<inter> raw_cells w = {}"
  unfolding demosaic_pass_def
proof (rule for_step2_collect)
  fix y S assume y: "y0 \<le> y" "y < h - 1" "even (y - y0)" and "S \<inter> raw_cells w = {}"
  then show "for_step2 (int x0) (int (w - 1)) (body (int w) (int y)) (painted d w S)
      = Inr (painted d w (S \<union> \<Union> (fill w y ` every2 x0 (w - 1))))
    \<and> (S \<union> \<Union> (fill w y ` every2 x0 (w - 1))) \<inter> raw_cells w = {}"
  proof (intro for_step2_collect)
    fix x S assume "x0 \<le> x" "x < w - 1" "even (x - x0)" "S \<inter> raw_cells w = {}"
    moreover from this have "x + 1 < w" "x < w" by simp_all
    ultimately show "body (int w) (int y) (int x) (painted d w S) = Inr (painted d w (S \<union> fill w y x))
        \<and> (S \<union> fill w y x) \<inter> raw_cells w = {}"
      using body_step [of y x w h d S] y assms(1) by (simp add: fill_raw Int_Un_distrib2)
  qed
qed (rule assms(2))

end

lemma demosaic_loopI:
  assumes step: "\<And>y x w h d S. odd (Suc y) = odd y0 \<Longrightarrow> odd (Suc x) = odd x0 \<Longrightarrow> x + 2 < w \<Longrightarrow>
      y + 2 < h \<Longrightarrow> length d = h * w * 3 \<Longrightarrow> S \<inter> raw_cells w = {} \<Longrightarrow>
      body (int w) (int (Suc y)) (int (Suc x)) (painted d w S)
        = Inr (painted d w (S \<union> fill w (Suc y) (Suc x)))"
    and pos: "1 \<le> y0" "1 \<le> x0"
  shows "demosaic_loop body y0 x0"
proof
  fix y x w h S and d :: "u16 list"
  assume yx: "y0 \<le> y" "even (y - y0)" "x0 \<le> x" "even (x - x0)"
    and rest: "x + 1 < w" "y + 1 < h" "length d = h * w * 3" "S \<inter> raw_cells w = {}"
  obtain y' x' where eq: "y = Suc y'" "x = Suc x'"
    using pos yx(1,3) by (metis One_nat_def Suc_le_D le_trans)
  have "odd (Suc y') = odd y0" "odd (Suc x') = odd x0"
    using yx unfolding eq by (auto simp: even_diff_nat)
  then show "body (int w) (int y) (int x) (painted d w S) = Inr (painted d w (S \<union> fill w y x))"
    using step [of y' x' w h d S] rest unfolding eq by simp
qed

interpretation red_line: demosaic_loop red_line_body 1 2
  by (rule demosaic_loopI) (simp_all add: red_line_step del: of_nat_Suc)

interpretation blue_line: demosaic_loop blue_line_body 2 1
  by (rule demosaic_loopI) (simp_all add: blue_line_step del: of_nat_Suc)

interpretation red_middle: demosaic_loop red_middle_body 2 2
  by (rule demosaic_loopI) (simp_all add: red_middle_step del: of_nat_Suc)

interpretation blue_middle: demosaic_loop blue_middle_body 1 1
  by (rule demosaic_loopI) (simp_all add: blue_middle_step del: of_nat_Suc)

lemma every2_cover: "every2 1 n \<union> every2 2 n = {1..<n}"
  by (auto simp: every2_def)

lemma painted_empty [simp]: "painted d w {} = d"
  by (rule nth_equalityI) (simp_all add: painted_def)

lemma demosaic_interior_painted:
  assumes "length (data m) = rows m * cols m * 3" and "1 \<le> rows m" and "1 \<le> cols m"
  shows "demosaic_interior m = Inr (m\<lparr>data := painted (data m) (cols m) (interior (rows m) (cols m))\<rparr>)"
proof -
  let ?h = "rows m" and ?w = "cols m" and ?d = "data m"
  define U where "U y0 x0 = (\<Union>y\<in>every2 y0 (?h - 1). \<Union>x\<in>every2 x0 (?w - 1). fill ?w y x)" for y0 x0
  have lim: "int ?h - 1 = int (?h - 1)" "int ?w - 1 = int (?w - 1)"
    using assms(2,3) by simp_all
  have p1: "demosaic_pass (red_line_body (int ?w)) 1 (int (?h - 1)) 2 (int (?w - 1)) ?d
      = Inr (painted ?d ?w (U 1 2))" and r1: "U 1 2 \<inter> raw_cells ?w = {}"
    using red_line.pass [OF assms(1), of "{}"] by (simp_all add: U_def)
  have p2: "demosaic_pass (blue_line_body (int ?w)) 2 (int (?h - 1)) 1 (int (?w - 1)) (painted ?d ?w (U 1 2))
      = Inr (painted ?d ?w (U 1 2 \<union> U 2 1))" and r2: "(U 1 2 \<union> U 2 1) \<inter> raw_cells ?w = {}"
    using blue_line.pass [OF assms(1) r1] by (simp_all add: U_def)
  have p3: "demosaic_pass (red_middle_body (int ?w)) 2 (int (?h - 1)) 2 (int (?w - 1)) (painted ?d ?w (U 1 2 \<union> U 2 1))
      = Inr (painted ?d ?w (U 1 2 \<union> U 2 1 \<union> U 2 2))"
    and r3: "(U 1 2 \<union> U 2 1 \<union> U 2 2) \<inter> raw_cells ?w = {}"
    using red_middle.pass [OF assms(1) r2] by (simp_all add: U_def)
  have p4: "demosaic_pass (blue_middle_body (int ?w)) 1 (int (?h - 1)) 1 (int (?w - 1))
        (painted ?d ?w (U 1 2 \<union> U 2 1 \<union> U 2 2))
      = Inr (painted ?d ?w (U 1 2 \<union> U 2 1 \<union> U 2 2 \<union> U 1 1))"
    using blue_middle.pass [OF assms(1) r3] by (simp add: U_def)
  have "U 1 2 \<union> U 2 1 \<union> U 2 2 \<union> U 1 1 = interior ?h ?w"
    unfolding U_def interior_def every2_cover [symmetric] UN_Un UN_Un_distrib by (simp only: Un_ac)
  then show ?thesis
    by (simp only: demosaic_interior_def Let_def lim p1 p2 p3 p4 rbind.simps)
qed

lemma unat_u16_le: "unat (v :: u16) \<le> 65535"
  using unsigned_less [where 'a = nat, of v] by simp

lemma sum_list_u16: "(\<Sum>(v, u) \<leftarrow> ns. unat (f v u :: u16)) \<le> 65535 * length ns"
proof (induction ns)
  case (Cons p ns)
  then show ?case using unat_u16_le [of "f (fst p) (snd p)"] by (cases p) simp
qed simp

lemma bayer_mean_le: "bayer_mean d w y x c \<le> 65535"
proof -
  have "(\<Sum>(v, u) \<leftarrow> ns. unat (d ! cell w v u c)) div length ns \<le> 65535" for ns
    using div_le_mono [OF sum_list_u16 [of "\<lambda>v u. d ! cell w v u c" ns], of "length ns"]
    by (cases "ns = []") simp_all
  then show ?thesis unfolding bayer_mean_def Let_def .
qed

lemma painted_interior_nth:
  assumes "length d = h * w * 3" and "y < h" "x < w" "c < 3"
  shows "unat (painted d w (interior h w) ! cell w y x c) =
    (if 1 \<le> y \<and> y + 1 < h \<and> 1 \<le> x \<and> x + 1 < w then pixel_ref d w y x c
     else unat (d ! cell w y x c))"
proof -
  have "cell w y x c \<in> interior h w \<longleftrightarrow> 1 \<le> y \<and> y + 1 < h \<and> 1 \<le> x \<and> x + 1 < w \<and> c \<noteq> getColorIndex x y"
    (is "_ \<longleftrightarrow> ?in")
  proof
    assume "cell w y x c \<in> interior h w"
    then obtain y' x' c' where "y' \<in> {1..<h - 1}" "x' \<in> {1..<w - 1}" "c' \<in> {0, 1, 2} - {getColorIndex x' y'}"
      and "cell w y x c = cell w y' x' c'"
      unfolding interior_def fill_def by (elim UN_E imageE) blast
    moreover from this have "y = y' \<and> x = x' \<and> c = c'"
      using assms by (subst (asm) cell_color_neq) auto
    ultimately show ?in by auto
  next
    assume ?in
    then show "cell w y x c \<in> interior h w"
      using assms(4) by (force simp: interior_def fill_def)
  qed
  moreover have "cell w y x c < length d"
    using cell_less assms by simp
  moreover have "bayer_mean d w y x c < 65536"
    using bayer_mean_le [of d w y x c] by simp
  ultimately show ?thesis
    using assms(3,4) by (auto simp: painted_def mean_at_cell pixel_ref_def unsigned_of_nat take_bit_eq_mod)
qed

text \<open>
  C7: The four interpolation passes of \<open>demosaic\<close> compute the reference. On every image whose buffer
  has the size of the image they stay inside the buffer; afterwards each interior pixel holds its
  own sample and the truncated means of its neighbours' samples, although the passes run in place,
  one after the other, and border pixels are untouched.
\<close>

theorem demosaic_interior_correct:
  assumes "length (data m) = rows m * cols m * 3" and "1 \<le> rows m" and "1 \<le> cols m"
    and "y < rows m" and "x < cols m" and "c < 3"
  shows "\<exists>d. demosaic_interior m = Inr (m\<lparr>data := d\<rparr>) \<and> length d = length (data m)
    \<and> unat (d ! cell (cols m) y x c) =
        (if 1 \<le> y \<and> y + 1 < rows m \<and> 1 \<le> x \<and> x + 1 < cols m
         then pixel_ref (data m) (cols m) y x c else unat (data m ! cell (cols m) y x c))"
  using demosaic_interior_painted [OF assms(1-3)] painted_interior_nth [OF assms(1,4-6)]
  by (intro exI [of _ "painted (data m) (cols m) (interior (rows m) (cols m))"]) simp


theorem demosaic_interior_correct_witness:
  "\<exists>d. demosaic_interior \<lparr>rows = 3, cols = 3, data = map of_nat [0..<27]\<rparr>
        = Inr (\<lparr>rows = 3, cols = 3, data = map of_nat [0..<27]\<rparr>\<lparr>data := d\<rparr>) \<and> length d = 27
    \<and> unat (d ! cell 3 1 1 2) = 14"
proof -
  have "pixel_ref (map of_nat [0..<27]) 3 1 1 2 = 14"
    by (simp add: pixel_ref_def bayer_mean_def getColorIndex_def cell_def unsigned_of_nat)
  then show ?thesis
    using demosaic_interior_correct [of "\<lparr>rows = 3, cols = 3, data = map of_nat [0..<27]\<rparr>" 1 1 2]
    by simp
qed

locale cv_mat_copy =
  fixes cv :: cv_copy
  assumes copy_row_law:
    "length (data m) = rows m * cols m * 3 \<Longrightarrow> i < rows m \<Longrightarrow> j < rows m \<Longrightarrow>
      \<exists>d. copy_row cv (int i) (int j) m = Inr (m\<lparr>data := d\<rparr>) \<and> length d = length (data m)
        \<and> (\<forall>y < rows m. \<forall>x < cols m. \<forall>c < 3. d ! cell (cols m) y x c
              = data m ! cell (cols m) (if y = j then i else y) x c)"
    and copy_col_law:
    "length (data m) = rows m * cols m * 3 \<Longrightarrow> i < cols m \<Longrightarrow> j < cols m \<Longrightarrow>
      \<exists>d. copy_col cv (int i) (int j) m = Inr (m\<lparr>data := d\<rparr>) \<and> length d = length (data m)
        \<and> (\<forall>y < rows m. \<forall>x < cols m. \<forall>c < 3. d ! cell (cols m) y x c
              = data m ! cell (cols m) y (if x = j then i else x) c)"
begin

lemma demosaic_copies:
  assumes d0: "demosaic_interior m = Inr (m\<lparr>data := d0\<rparr>)" "length d0 = rows m * cols m * 3"
    and size: "3 \<le> rows m" "3 \<le> cols m"
  shows "\<exists>d. demosaic cv m = Inr (m\<lparr>data := d\<rparr>) \<and> length d = length d0
    \<and> (\<forall>y < rows m. \<forall>x < cols m. \<forall>c < 3. d ! cell (cols m) y x c
          = d0 ! cell (cols m) (max 1 (min y (rows m - 2))) (max 1 (min x (cols m - 2))) c)"
proof -
  let ?h = "rows m" and ?w = "cols m"
  obtain d1 where d1: "copy_row cv 1 0 (m\<lparr>data := d0\<rparr>) = Inr (m\<lparr>data := d1\<rparr>)" "length d1 = ?h * ?w * 3"
    "\<forall>y < ?h. \<forall>x < ?w. \<forall>c < 3. d1 ! cell ?w y x c = d0 ! cell ?w (if y = 0 then 1 else y) x c"
    using copy_row_law [of "m\<lparr>data := d0\<rparr>" 1 0] d0 size by auto
  obtain d2 where d2: "copy_row cv (int (?h - 2)) (int (?h - 1)) (m\<lparr>data := d1\<rparr>) = Inr (m\<lparr>data := d2\<rparr>)"
    "length d2 = ?h * ?w * 3"
    "\<forall>y < ?h. \<forall>x < ?w. \<forall>c < 3. d2 ! cell ?w y x c = d1 ! cell ?w (if y = ?h - 1 then ?h - 2 else y) x c"
    using copy_row_law [of "m\<lparr>data := d1\<rparr>" "?h - 2" "?h - 1"] d1 size by auto
  obtain d3 where d3: "copy_col cv 1 0 (m\<lparr>data := d2\<rparr>) = Inr (m\<lparr>data := d3\<rparr>)" "length d3 = ?h * ?w * 3"
    "\<forall>y < ?h. \<forall>x < ?w. \<forall>c < 3. d3 ! cell ?w y x c = d2 ! cell ?w y (if x = 0 then 1 else x) c"
    using copy_col_law [of "m\<lparr>data := d2\<rparr>" 1 0] d2 size by auto
  obtain d4 where d4: "copy_col cv (int (?w - 2)) (int (?w - 1)) (m\<lparr>data := d3\<rparr>) = Inr (m\<lparr>data := d4\<rparr>)"
    "length d4 = ?h * ?w * 3"
    "\<forall>y < ?h. \<forall>x < ?w. \<forall>c < 3. d4 ! cell ?w y x c = d3 ! cell ?w y (if x = ?w - 1 then ?w - 2 else x) c"
    using copy_col_law [of "m\<lparr>data := d3\<rparr>" "?w - 2" "?w - 1"] d3 size by auto
  have "copy_row cv (int ?h - 2) (int ?h - 1) (m\<lparr>data := d1\<rparr>) = Inr (m\<lparr>data := d2\<rparr>)"
    and "copy_col cv (int ?w - 2) (int ?w - 1) (m\<lparr>data := d3\<rparr>) = Inr (m\<lparr>data := d4\<rparr>)"
    using d2(1) d4(1) size by (simp_all add: of_nat_diff)
  then have dem: "demosaic cv m = Inr (m\<lparr>data := d4\<rparr>)"
    by (simp add: demosaic_def d0(1) Let_def d1(1) d3(1))
  have "d4 ! cell ?w y x c = d0 ! cell ?w (max 1 (min y (?h - 2))) (max 1 (min x (?w - 2))) c"
    if yxc: "y < ?h" "x < ?w" "c < 3" for y x c
  proof -
    have "d4 ! cell ?w y x c = d2 ! cell ?w y (max 1 (min x (?w - 2))) c"
      using d4(3) d3(3) yxc size by auto
    also have "\<dots> = d0 ! cell ?w (max 1 (min y (?h - 2))) (max 1 (min x (?w - 2))) c"
      using d2(3) d1(3) yxc size by auto
    finally show ?thesis .
  qed
  with dem d4(2) d0(2) show ?thesis by auto
qed

lemma demosaic_borders:
  assumes len: "length (data m) = rows m * cols m * 3" and size: "3 \<le> rows m" "3 \<le> cols m"
    and yxc: "y < rows m" "x < cols m" "c < 3"
  shows "\<exists>d. demosaic cv m = Inr (m\<lparr>data := d\<rparr>) \<and> length d = length (data m)
    \<and> unat (d ! cell (cols m) y x c)
       = pixel_ref (data m) (cols m) (max 1 (min y (rows m - 2))) (max 1 (min x (cols m - 2))) c"
proof -
  let ?h = "rows m" and ?w = "cols m"
  let ?d0 = "painted (data m) ?w (interior ?h ?w)"
  have int: "demosaic_interior m = Inr (m\<lparr>data := ?d0\<rparr>)"
    using demosaic_interior_painted [OF len] size by simp
  define y1 x1 where "y1 = max 1 (min y (?h - 2))" and "x1 = max 1 (min x (?w - 2))"
  have in_yx: "1 \<le> y1" "y1 + 1 < ?h" "1 \<le> x1" "x1 + 1 < ?w"
    using size by (auto simp: y1_def x1_def)
  from demosaic_copies [OF int _ size] len obtain d
    where d: "demosaic cv m = Inr (m\<lparr>data := d\<rparr>)" "length d = length (data m)"
      and eq: "d ! cell ?w y x c = ?d0 ! cell ?w y1 x1 c"
    unfolding y1_def x1_def using yxc by auto
  have "unat (?d0 ! cell ?w y1 x1 c) = pixel_ref (data m) ?w y1 x1 c"
    using painted_interior_nth [OF len, of y1 x1 c] in_yx yxc(3) by simp
  with d eq show ?thesis
    unfolding y1_def [symmetric] x1_def [symmetric] by auto
qed

end


interpretation ref_copy: cv_mat_copy ref_copy
proof
  fix m :: mat and i j :: nat
  assume a: "length (data m) = rows m * cols m * 3"
  { assume "i < rows m" "j < rows m"
    then show "\<exists>d. copy_row ref_copy (int i) (int j) m = Inr (m\<lparr>data := d\<rparr>) \<and> length d = length (data m)
        \<and> (\<forall>y < rows m. \<forall>x < cols m. \<forall>c < 3. d ! cell (cols m) y x c
              = data m ! cell (cols m) (if y = j then i else y) x c)"
      using a by (intro exI) (auto simp: ref_copy_def cell_less cell_index)
  next
    assume "i < cols m" "j < cols m"
    then show "\<exists>d. copy_col ref_copy (int i) (int j) m = Inr (m\<lparr>data := d\<rparr>) \<and> length d = length (data m)
        \<and> (\<forall>y < rows m. \<forall>x < cols m. \<forall>c < 3. d ! cell (cols m) y x c
              = data m ! cell (cols m) y (if x = j then i else x) c)"
      using a by (intro exI) (auto simp: ref_copy_def cell_less cell_index) }
qed

text \<open>
  C8: The whole constructor. With an even width, an image of at least 3x3 pixels, enough bytes in
  the stream and row and column copies that behave as OpenCV documents them, \<open>RawImage\<close> returns an
  image of the requested size in which every channel of every pixel, borders included, is the
  reference value computed from the samples of the file, the coordinates of border pixels being
  clamped to the interior.
\<close>

theorem RawImage_correct:
  assumes "cv_mat_copy cv" and "even width" and "3 \<le> width" and "3 \<le> height"
    and "length alloc = 3 * width * height" and "3 * width * height \<le> 2 * length bs"
    and "y < height" and "x < width" and "c < 3"
  shows "\<exists>d. RawImage cv alloc buf0 \<lparr>is_bytes = bs, is_fail = False\<rparr> width height
        = Inr \<lparr>rows = height, cols = width, data = d\<rparr>
      \<and> length d = 3 * width * height
      \<and> unat (d ! cell width y x c) = pixel_ref (bayer_image alloc bs width (height * width)) width
            (max 1 (min y (height - 2))) (max 1 (min x (width - 2))) c"
proof -
  let ?m = "\<lparr>rows = height, cols = width, data = bayer_image alloc bs width (height * width)\<rparr>"
  have "unpack alloc buf0 \<lparr>is_bytes = bs, is_fail = False\<rparr> width height = Inr ?m"
    using assms(2,5,6) by (rule unpack_ok)
  then show ?thesis
    using cv_mat_copy.demosaic_borders [OF assms(1), of ?m y x c] assms(3-5,7-9)
    by (auto simp: RawImage_def)
qed

theorem RawImage_correct_witness:
  "\<exists>d. RawImage ref_copy (replicate 36 0) [0, 0, 0]
        \<lparr>is_bytes = pack12 [0, 1, 2, 3, 4, 5, 6, 7, 8, 9, 10, 11], is_fail = False\<rparr> 4 3
      = Inr \<lparr>rows = 3, cols = 4, data = d\<rparr>
    \<and> length d = 36 \<and> unat (d ! cell 4 0 0 2) = 80"
proof -
  let ?bs = "pack12 [0, 1, 2, 3, 4, 5, 6, 7, 8, 9, 10, 11]"
  have "pixel_ref (bayer_image (replicate 36 0) ?bs 4 (3 * 4)) 4 1 1 2 = 80"
    by (simp add: pixel_ref_def bayer_mean_def getColorIndex_def cell_def bayer_image_def
        sample12_def unsigned_of_nat)
  then show ?thesis
    using RawImage_correct [of ref_copy 4 3 "replicate 36 0" ?bs 0 0 2 "[0, 0, 0]"]
    by (simp add: ref_copy.cv_mat_copy_axioms)
qed

end
