(* ===== verification/Ieee_Float.thy ===== *)
theory Ieee_Float
  imports Complex_Main "HOL-Library.Log_Nat"
begin

text \<open>
  IEEE 754 arithmetic as the C++ types \<open>float\<close> (binary32) and \<open>double\<close> (binary64) have it, with
  round-to-nearest-even, gradual underflow and overflow to infinity. A datum is its value: a NaN, an
  infinity or a rational. The sign of zero is not represented: none of the modelled code divides by
  a zero it computed as a negative number, and no comparison distinguishes the two zeros.

  \<open>ilog2\<close> is the binary exponent of a positive rational, \<open>rne\<close> rounds a rational to an integer,
  halves to even, and \<open>round_to\<close> rounds to the format. The locale \<open>rounding\<close> states what the rest of
  the development needs to know about a rounding function; it is interpreted on both formats.
\<close>

datatype fl = NaN | PInf | NInf | Fin rat

record format =
  fmt_prec :: nat      \<comment> \<open>bits of the significand\<close>
  fmt_qmin :: int      \<comment> \<open>exponent of the smallest subnormal\<close>
  fmt_max :: rat       \<comment> \<open>largest finite value\<close>

definition binary32 :: format where
  "binary32 = \<lparr>fmt_prec = 24, fmt_qmin = -149, fmt_max = (2 ^ 24 - 1) * 2 ^ 104\<rparr>"

definition binary64 :: format where
  "binary64 = \<lparr>fmt_prec = 53, fmt_qmin = -1074, fmt_max = (2 ^ 53 - 1) * 2 ^ 971\<rparr>"

definition ilog2 :: "rat \<Rightarrow> int" where
  "ilog2 x = (let (n, d) = quotient_of x; k = bitlen n - bitlen d
              in if 2 powi k \<le> x then k else k - 1)"

definition rne :: "rat \<Rightarrow> int" where
  "rne y = (let f = \<lfloor>y\<rfloor>; r = y - of_int f in
            if r < 1/2 then f else if 1/2 < r then f + 1 else if even f then f else f + 1)"

definition round_pos :: "format \<Rightarrow> rat \<Rightarrow> rat" where
  "round_pos fmt x =
     (let q = max (ilog2 x - int (fmt_prec fmt) + 1) (fmt_qmin fmt)
      in of_int (rne (x / 2 powi q)) * 2 powi q)"

definition round_to :: "format \<Rightarrow> rat \<Rightarrow> rat" where
  "round_to fmt x = (if x = 0 then 0 else if 0 < x then round_pos fmt x else - round_pos fmt (- x))"

definition rnd :: "format \<Rightarrow> rat \<Rightarrow> fl" where
  "rnd fmt x = (let r = round_to fmt x in
     if r > fmt_max fmt then PInf else if r < - fmt_max fmt then NInf else Fin r)"

fun neg :: "fl \<Rightarrow> fl" where
  "neg NaN = NaN" | "neg PInf = NInf" | "neg NInf = PInf" | "neg (Fin x) = Fin (- x)"

fun fabs :: "fl \<Rightarrow> fl" where
  "fabs NaN = NaN" | "fabs PInf = PInf" | "fabs NInf = PInf" | "fabs (Fin x) = Fin \<bar>x\<bar>"

fun fadd :: "format \<Rightarrow> fl \<Rightarrow> fl \<Rightarrow> fl" where
  "fadd fmt (Fin x) (Fin y) = rnd fmt (x + y)"
| "fadd fmt NaN b = NaN"
| "fadd fmt a NaN = NaN"
| "fadd fmt PInf NInf = NaN"
| "fadd fmt NInf PInf = NaN"
| "fadd fmt PInf b = PInf"
| "fadd fmt NInf b = NInf"
| "fadd fmt (Fin x) b = b"

definition fsub :: "format \<Rightarrow> fl \<Rightarrow> fl \<Rightarrow> fl" where
  "fsub fmt a b = fadd fmt a (neg b)"

fun sign_inf :: "rat \<Rightarrow> fl" where
  "sign_inf x = (if x = 0 then NaN else if 0 < x then PInf else NInf)"

fun fmul :: "format \<Rightarrow> fl \<Rightarrow> fl \<Rightarrow> fl" where
  "fmul fmt (Fin x) (Fin y) = rnd fmt (x * y)"
| "fmul fmt NaN b = NaN"
| "fmul fmt a NaN = NaN"
| "fmul fmt PInf (Fin y) = sign_inf y"
| "fmul fmt (Fin x) PInf = sign_inf x"
| "fmul fmt NInf (Fin y) = neg (sign_inf y)"
| "fmul fmt (Fin x) NInf = neg (sign_inf x)"
| "fmul fmt PInf b = b"
| "fmul fmt NInf b = neg b"

fun fdiv :: "format \<Rightarrow> fl \<Rightarrow> fl \<Rightarrow> fl" where
  "fdiv fmt (Fin x) (Fin y) = (if y = 0 then sign_inf x else rnd fmt (x / y))"
| "fdiv fmt NaN b = NaN"
| "fdiv fmt a NaN = NaN"
| "fdiv fmt (Fin x) b = Fin 0"
| "fdiv fmt PInf (Fin y) = (if y < 0 then NInf else PInf)"
| "fdiv fmt NInf (Fin y) = (if y < 0 then PInf else NInf)"
| "fdiv fmt a b = NaN"

fun flt :: "fl \<Rightarrow> fl \<Rightarrow> bool" where
  "flt (Fin x) (Fin y) \<longleftrightarrow> x < y"
| "flt NaN b \<longleftrightarrow> False"
| "flt a NaN \<longleftrightarrow> False"
| "flt NInf b \<longleftrightarrow> b \<noteq> NInf"
| "flt a PInf \<longleftrightarrow> a \<noteq> PInf"
| "flt a b \<longleftrightarrow> False"

definition fle :: "fl \<Rightarrow> fl \<Rightarrow> bool" where
  "fle a b \<longleftrightarrow> flt a b \<or> (a = b \<and> a \<noteq> NaN)"

text \<open>Conversions: \<open>double\<close> to \<open>float\<close> rounds; \<open>float\<close> to \<open>double\<close> keeps the value.\<close>

fun to_fmt :: "format \<Rightarrow> fl \<Rightarrow> fl" where
  "to_fmt fmt (Fin x) = rnd fmt x"
| "to_fmt fmt a = a"

definition fl_of_int :: "format \<Rightarrow> int \<Rightarrow> fl" where
  "fl_of_int fmt n = rnd fmt (of_int n)"

definition flt_max32 :: fl where
  "flt_max32 = Fin (fmt_max binary32)"

lemma ilog2_bounds:
  assumes "0 < x"
  shows "2 powi ilog2 x \<le> x" and "x < 2 powi (ilog2 x + 1)"
proof -
  obtain n d where nd: "quotient_of x = (n, d)" by (cases "quotient_of x")
  then have x: "x = of_int n / of_int d" and d: "0 < d"
    by (simp_all add: quotient_of_div quotient_of_denom_pos)
  then have n: "0 < n" using assms by (simp add: zero_less_divide_iff)
  have pw: "(2::rat) powi (bitlen m - 1) \<le> of_int m \<and> of_int m < (2::rat) powi bitlen m" if "0 < m" for m
  proof -
    have "1 \<le> bitlen m" using that by (auto simp: bitlen_alt_def)
    moreover have "(of_int (2 ^ nat (bitlen m - 1)) :: rat) \<le> of_int m"
      "(of_int m :: rat) < of_int (2 ^ nat (bitlen m))"
      using bitlen_bounds [OF that] by (simp_all only: of_int_le_iff of_int_less_iff)
    ultimately show ?thesis by (simp add: power_int_def)
  qed
  define k where "k = bitlen n - bitlen d"
  have up: "x < 2 powi (k + 1)"
  proof -
    have "of_int n < (2::rat) powi (k + 1) * 2 powi (bitlen d - 1)"
      using pw [OF n] by (simp add: k_def flip: power_int_add)
    also have "\<dots> \<le> 2 powi (k + 1) * of_int d"
      using pw [OF d] by (intro mult_left_mono) simp_all
    finally show ?thesis using d by (simp add: x divide_less_eq)
  qed
  have low: "2 powi (k - 1) \<le> x"
  proof -
    have "2 powi (k - 1) * of_int d \<le> (2::rat) powi (k - 1) * 2 powi bitlen d"
      using pw [OF d] by (intro mult_left_mono) simp_all
    also have "\<dots> \<le> of_int n"
      using pw [OF n] by (simp add: k_def flip: power_int_add)
    finally show ?thesis using d by (simp add: x le_divide_eq)
  qed
  have il: "ilog2 x = (if 2 powi k \<le> x then k else k - 1)"
    by (simp add: ilog2_def nd k_def)
  show "2 powi ilog2 x \<le> x" and "x < 2 powi (ilog2 x + 1)"
    using up low by (simp_all add: il)
qed


lemma ilog2_mono: "0 < x \<Longrightarrow> x \<le> y \<Longrightarrow> ilog2 x \<le> ilog2 y"
proof (rule ccontr)
  assume x: "0 < x" "x \<le> y" and "\<not> ilog2 x \<le> ilog2 y"
  then have "(2::rat) powi (ilog2 y + 1) \<le> 2 powi ilog2 x"
    by (intro power_int_increasing) simp_all
  with ilog2_bounds(1) [OF x(1)] ilog2_bounds(2) [of y] x show False by simp
qed

lemma rne_of_int [simp]: "rne (of_int n) = n"
  by (simp add: rne_def)

lemma rne_0 [simp]: "rne 0 = 0"
  by (simp add: rne_def)

lemma rne_bounds: "of_int (rne y) \<le> y + 1/2" "y - 1/2 \<le> of_int (rne y)"
  by (auto simp: rne_def Let_def) linarith+

lemma rne_mono:
  assumes "x \<le> y" shows "rne x \<le> rne y"
proof (cases "\<lfloor>x\<rfloor> = \<lfloor>y\<rfloor>")
  case True
  then show ?thesis using assms by (simp add: rne_def Let_def)
next
  case False
  then have "\<lfloor>x\<rfloor> + 1 \<le> \<lfloor>y\<rfloor>" using floor_mono [OF assms] by simp
  moreover have "rne x \<le> \<lfloor>x\<rfloor> + 1" "\<lfloor>y\<rfloor> \<le> rne y" by (simp_all add: rne_def Let_def)
  ultimately show ?thesis by simp
qed

lemma rne_pow2: "0 \<le> j \<Longrightarrow> of_int (rne (2 powi j)) = (2 powi j :: rat)"
  using rne_of_int [of "2 ^ nat j"] by (simp add: power_int_def)

lemma pow2_diff_mult: "(2::rat) powi (k - q) * 2 powi q = 2 powi k"
  using power_int_add [of "2::rat" "k - q" q] by simp

lemma pow2_divide: "(2::rat) powi k / 2 powi q = 2 powi (k - q)"
  by (simp add: power_int_diff)

lemma round_pos_mono:
  assumes "0 < x" and "x \<le> y" and prec: "1 \<le> fmt_prec fmt"
  shows "round_pos fmt x \<le> round_pos fmt y"
proof -
  let ?p = "int (fmt_prec fmt)"
  define q where "q z = max (ilog2 z - ?p + 1) (fmt_qmin fmt)" for z
  have rp: "round_pos fmt z = of_int (rne (z / 2 powi q z)) * 2 powi q z" for z
    by (simp add: round_pos_def q_def Let_def)
  have y: "0 < y" using assms by simp
  have e: "ilog2 x \<le> ilog2 y" using assms(1,2) by (rule ilog2_mono)
  show ?thesis
  proof (cases "q x = q y")
    case True
    have "rne (x / 2 powi q y) \<le> rne (y / 2 powi q y)"
      using assms(2) by (intro rne_mono divide_right_mono) simp_all
    then show ?thesis by (simp add: rp True)
  next
    case False
    define k where "k = ilog2 y"
    have qy: "q y = k - ?p + 1" and lt: "q x < q y" and ee: "ilog2 x + 1 \<le> k"
      using e False by (auto simp: q_def k_def max_def split: if_splits)
    then have kq: "0 \<le> k - q x" "0 \<le> k - q y" using prec by simp_all
    have "x \<le> 2 powi k"
      using ilog2_bounds(2) [OF assms(1)] power_int_increasing [OF ee, of "2::rat"] by simp
    then have "x / 2 powi q x \<le> 2 powi (k - q x)"
      unfolding pow2_divide [symmetric] by (rule divide_right_mono) simp
    from rne_mono [OF this] have "of_int (rne (x / 2 powi q x)) \<le> (2 powi (k - q x) :: rat)"
      using rne_pow2 [OF kq(1)] by (metis of_int_le_iff)
    then have x_le: "round_pos fmt x \<le> 2 powi (k - q x) * 2 powi q x"
      unfolding rp by (rule mult_right_mono) simp
    have "2 powi (k - q y) \<le> y / 2 powi q y"
      unfolding pow2_divide [symmetric] k_def
      using ilog2_bounds(1) [OF y] by (rule divide_right_mono) simp
    from rne_mono [OF this] have "2 powi (k - q y) \<le> (of_int (rne (y / 2 powi q y)) :: rat)"
      using rne_pow2 [OF kq(2)] by (metis of_int_le_iff)
    then have y_ge: "2 powi (k - q y) * 2 powi q y \<le> round_pos fmt y"
      unfolding rp by (rule mult_right_mono) simp
    from x_le y_ge show ?thesis by (simp only: pow2_diff_mult)
  qed
qed

lemma round_pos_exact:
  assumes x: "x = of_int m * 2 powi j" and m: "0 < m" "m < 2 ^ fmt_prec fmt"
    and j: "fmt_qmin fmt \<le> j" and prec: "1 \<le> fmt_prec fmt"
  shows "round_pos fmt x = x"
proof -
  let ?p = "int (fmt_prec fmt)"
  define q where "q = max (ilog2 x - ?p + 1) (fmt_qmin fmt)"
  have pos: "0 < x" using x m by simp
  have "q \<le> j"
  proof (rule ccontr)
    assume "\<not> q \<le> j"
    then have q: "q = ilog2 x - ?p + 1" using j by (simp add: q_def)
    have "(2::rat) powi (q + ?p - 1) \<le> of_int m * 2 powi j"
      using ilog2_bounds(1) [OF pos] by (simp add: q x)
    also have "\<dots> < of_int (2 ^ fmt_prec fmt) * 2 powi j"
      using m(2) by (intro mult_strict_right_mono) (simp_all only: of_int_less_iff, simp)
    also have "\<dots> = 2 powi (?p + j)"
      by (simp add: power_int_add)
    also have "\<dots> \<le> 2 powi (q + ?p - 1)"
      using \<open>\<not> q \<le> j\<close> by (intro power_int_increasing) simp_all
    finally show False by simp
  qed
  then have "x / 2 powi q = of_int (m * 2 ^ nat (j - q))"
    using power_int_diff [of "2::rat" j q] by (simp add: x power_int_def)
  then have "\<exists>n. x / 2 powi q = of_int n" ..
  then obtain n where n: "x / 2 powi q = of_int n" ..
  then have "round_pos fmt x = of_int n * 2 powi q"
    by (simp add: round_pos_def Let_def flip: q_def)
  also have "\<dots> = x" using n by (simp add: divide_eq_eq)
  finally show ?thesis .
qed


lemma round_pos_nonneg: "0 < x \<Longrightarrow> 0 \<le> round_pos fmt x"
  unfolding round_pos_def Let_def
  using rne_mono [of 0] by (intro mult_nonneg_nonneg) simp_all

lemma round_to_0 [simp]: "round_to fmt 0 = 0"
  by (simp add: round_to_def)

lemma round_to_neg: "round_to fmt (- x) = - round_to fmt x"
  by (auto simp: round_to_def)

lemma round_to_mono:
  assumes "1 \<le> fmt_prec fmt" and "x \<le> y"
  shows "round_to fmt x \<le> round_to fmt y"
proof -
  consider "0 < x" | "x \<le> 0" "0 \<le> y" | "y < 0" using assms(2) by linarith
  then show ?thesis
  proof cases
    case 1
    then show ?thesis using assms round_pos_mono [of x y fmt] by (simp add: round_to_def)
  next
    case 2
    then have "round_to fmt x \<le> 0" "0 \<le> round_to fmt y"
      using round_pos_nonneg [of "- x" fmt] round_pos_nonneg [of y fmt] by (auto simp: round_to_def)
    then show ?thesis by simp
  next
    case 3
    then show ?thesis using assms round_pos_mono [of "- y" "- x" fmt] by (simp add: round_to_def)
  qed
qed

lemma round_to_exact:
  assumes "x = of_int m * 2 powi j" and "\<bar>m\<bar> < 2 ^ fmt_prec fmt" and "fmt_qmin fmt \<le> j"
    and "1 \<le> fmt_prec fmt"
  shows "round_to fmt x = x"
proof -
  consider "m = 0" | "0 < m" | "m < 0" by linarith
  then show ?thesis
  proof cases
    case 1
    then show ?thesis using assms(1) by simp
  next
    case 2
    then show ?thesis using assms round_pos_exact [of x m j fmt] by (simp add: round_to_def)
  next
    case 3
    then have "x < 0" using assms(1) by (simp add: mult_neg_pos)
    with 3 show ?thesis using assms round_pos_exact [of "- x" "- m" j fmt]
      by (simp add: round_to_def)
  qed
qed

subsection \<open>The order of the data\<close>

lemma fle_refl [simp]: "fle a a \<longleftrightarrow> a \<noteq> NaN"
  by (cases a) (auto simp: fle_def)

lemma fle_Fin [simp]: "fle (Fin x) (Fin y) \<longleftrightarrow> x \<le> y"
  by (auto simp: fle_def)

lemma fle_inf [simp]: "fle NInf b \<longleftrightarrow> b \<noteq> NaN" "fle a PInf \<longleftrightarrow> a \<noteq> NaN" "\<not> fle NaN b" "\<not> fle a NaN"
  by (cases b; auto simp: fle_def) (cases a; auto simp: fle_def)+

lemma flt_irrefl [simp]: "\<not> flt a a"
  by (cases a) auto

lemma flt_NaN [simp]: "\<not> flt a NaN" "\<not> flt NaN a"
  by (cases a; simp)+

lemma flt_trans: "flt a b \<Longrightarrow> flt b c \<Longrightarrow> flt a c"
  by (cases a; cases b; cases c) auto

lemma fle_trans: "fle a b \<Longrightarrow> fle b c \<Longrightarrow> fle a c"
  by (cases a; cases b; cases c) (auto simp: fle_def)

lemma flt_fle_trans: "flt a b \<Longrightarrow> fle b c \<Longrightarrow> flt a c"
  by (cases a; cases b; cases c) (auto simp: fle_def)

lemma fle_flt_trans: "fle a b \<Longrightarrow> flt b c \<Longrightarrow> flt a c"
  by (cases a; cases b; cases c) (auto simp: fle_def)

lemma not_flt_iff: "a \<noteq> NaN \<Longrightarrow> b \<noteq> NaN \<Longrightarrow> \<not> flt a b \<longleftrightarrow> fle b a"
  by (cases a; cases b) (auto simp: fle_def)

lemma flt_total: "a \<noteq> NaN \<Longrightarrow> b \<noteq> NaN \<Longrightarrow> flt a b \<or> a = b \<or> flt b a"
  by (cases a; cases b) auto

lemma flt_asym: "flt a b \<Longrightarrow> \<not> flt b a"
  using flt_trans flt_irrefl by blast

lemma neg_neg [simp]: "neg (neg a) = a"
  by (cases a) auto

lemma fabs_neg [simp]: "fabs (neg a) = fabs a"
  by (cases a) auto

subsection \<open>Rounding functions\<close>

text \<open>The contract of a rounding function, and what it gives for the distance of two numbers.\<close>

locale rounding =
  fixes r :: "rat \<Rightarrow> fl"
  assumes r_zero: "r 0 = Fin 0"
    and r_mono: "x \<le> y \<Longrightarrow> fle (r x) (r y)"
    and r_neg: "r (- x) = neg (r x)"
begin

lemma r_not_NaN: "r x \<noteq> NaN"
  using r_mono [of x x] by simp

lemma r_nonneg: "0 \<le> x \<Longrightarrow> fle (Fin 0) (r x)"
  using r_mono [of 0 x] by (simp add: r_zero)

lemma fabs_r: "fabs (r x) = r \<bar>x\<bar>"
proof (cases "0 \<le> x")
  case True
  then show ?thesis using r_nonneg [of x] by (cases "r x") (auto simp: fle_def)
next
  case False
  then have "fle (Fin 0) (r (- x))" by (intro r_nonneg) simp
  with False show ?thesis by (cases "r x") (auto simp: fle_def r_neg)
qed

lemma dist_mono: "\<bar>x\<bar> \<le> \<bar>y\<bar> \<Longrightarrow> fle (fabs (r x)) (fabs (r y))"
  by (simp add: fabs_r r_mono)

lemma dist_nonneg: "\<not> flt (fabs (r x)) (Fin 0)"
  using r_nonneg [of "\<bar>x\<bar>"] by (auto simp: fabs_r dest: fle_flt_trans)

end

lemma rnd_mono:
  assumes "1 \<le> fmt_prec fmt" and "0 < fmt_max fmt" and "x \<le> y"
  shows "fle (rnd fmt x) (rnd fmt y)"
  using round_to_mono [OF assms(1,3)] assms(2) by (auto simp: rnd_def Let_def)

lemma rnd_neg: "0 < fmt_max fmt \<Longrightarrow> rnd fmt (- x) = neg (rnd fmt x)"
  by (auto simp: rnd_def Let_def round_to_neg)

lemma rnd_zero: "0 < fmt_max fmt \<Longrightarrow> rnd fmt 0 = Fin 0"
  by (simp add: rnd_def)

lemma binary_format [simp]:
  "1 \<le> fmt_prec binary32" "1 \<le> fmt_prec binary64" "0 < fmt_max binary32" "0 < fmt_max binary64"
  by (simp_all add: binary32_def binary64_def)

interpretation r32: rounding "rnd binary32"
  by unfold_locales (simp_all only: rnd_mono rnd_neg rnd_zero binary_format)

interpretation r64: rounding "rnd binary64"
  by unfold_locales (simp_all only: rnd_mono rnd_neg rnd_zero binary_format)

lemma rnd32_exact:
  assumes "x = of_int m * 2 powi j" and "\<bar>m\<bar> < 2 ^ 24" and "- 149 \<le> j" and "j \<le> 104"
  shows "rnd binary32 x = Fin x"
proof -
  have "round_to binary32 x = x"
    using assms by (intro round_to_exact [of x m j]) (simp_all add: binary32_def)
  moreover have "\<bar>x\<bar> \<le> fmt_max binary32"
  proof -
    have "\<bar>m\<bar> \<le> 2 ^ 24 - 1" using assms(2) by simp
    then have "(of_int \<bar>m\<bar> :: rat) \<le> 2 ^ 24 - 1"
      by (metis (mono_tags) of_int_diff of_int_le_iff of_int_1 of_int_numeral of_int_power)
    moreover have "(2::rat) powi j \<le> 2 powi 104"
      using assms(4) by (intro power_int_increasing) simp_all
    ultimately have "of_int \<bar>m\<bar> * 2 powi j \<le> (2 ^ 24 - 1) * (2::rat) powi 104"
      by (intro mult_mono) simp_all
    then show ?thesis by (simp add: assms(1) abs_mult binary32_def)
  qed
  ultimately show ?thesis by (auto simp: rnd_def Let_def)
qed

lemma rnd32_int: "\<bar>n\<bar> < 16777216 \<Longrightarrow> rnd binary32 (of_int n) = Fin (of_int n)"
  by (rule rnd32_exact [of _ n 0]) simp_all

lemma rnd64_int:
  assumes "\<bar>n\<bar> < 2 ^ 53" shows "rnd binary64 (of_int n) = Fin (of_int n)"
proof -
  have "round_to binary64 (of_int n) = of_int n"
    using assms by (intro round_to_exact [of _ n 0]) (simp_all add: binary64_def)
  moreover have "\<bar>of_int n\<bar> \<le> fmt_max binary64"
  proof -
    have "\<bar>of_int n\<bar> \<le> (2 ^ 53 :: rat)"
      using assms by (metis le_less of_int_abs of_int_less_iff of_int_numeral of_int_power)
    also have "\<dots> \<le> fmt_max binary64" by (simp add: binary64_def)
    finally show ?thesis .
  qed
  ultimately show ?thesis by (auto simp: rnd_def Let_def)
qed

lemma ilog2_eqI: "2 powi k \<le> x \<Longrightarrow> x < 2 powi (k + 1) \<Longrightarrow> ilog2 x = k"
proof -
  assume x: "2 powi k \<le> x" "x < 2 powi (k + 1)"
  then have pos: "0 < x" by (meson less_le_trans zero_less_numeral zero_less_power_int)
  note b = ilog2_bounds [OF pos]
  have "\<not> k < ilog2 x" using x(2) b(1) power_int_increasing [of "k + 1" "ilog2 x" "2 :: rat"] by auto
  moreover have "\<not> ilog2 x < k" using x(1) b(2) power_int_increasing [of "ilog2 x + 1" k "2 :: rat"] by auto
  ultimately show ?thesis by simp
qed

text \<open>Counting in \<open>double\<close> stops at \<open>2 ^ 53\<close>.\<close>

lemma rnd64_count_end: "rnd binary64 (2 ^ 53 + 1) = Fin (2 ^ 53)"
proof -
  have il: "ilog2 (2 ^ 53 + 1 :: rat) = 53" by (rule ilog2_eqI) (simp_all add: power_int_def)
  have fl: "\<lfloor>(2 ^ 53 + 1) / 2 :: rat\<rfloor> = 2 ^ 52" by (rule floor_unique) simp_all
  have "rne ((2 ^ 53 + 1) / 2) = 2 ^ 52" unfolding rne_def fl Let_def by simp
  then have "round_pos binary64 (2 ^ 53 + 1) = 2 ^ 53"
    unfolding round_pos_def il by (simp add: binary64_def Let_def)
  moreover have "(2 ^ 53 :: rat) \<le> fmt_max binary64" by (simp add: binary64_def)
  ultimately show ?thesis by (simp add: rnd_def round_to_def Let_def)
qed

lemma rnd64_exact:
  assumes "x = of_int m * 2 powi j" and "\<bar>m\<bar> < 2 ^ 53" and "- 1074 \<le> j" and "j \<le> 971"
  shows "rnd binary64 x = Fin x"
proof -
  have "round_to binary64 x = x"
    using assms by (intro round_to_exact [of x m j]) (simp_all add: binary64_def)
  moreover have "\<bar>x\<bar> \<le> fmt_max binary64"
  proof -
    have "\<bar>m\<bar> \<le> 2 ^ 53 - 1" using assms(2) by simp
    then have "(of_int \<bar>m\<bar> :: rat) \<le> 2 ^ 53 - 1"
      by (metis (mono_tags) of_int_diff of_int_le_iff of_int_1 of_int_numeral of_int_power)
    moreover have "(2::rat) powi j \<le> 2 powi 971"
      using assms(4) by (intro power_int_increasing) simp_all
    ultimately have "of_int \<bar>m\<bar> * 2 powi j \<le> (2 ^ 53 - 1) * (2::rat) powi 971"
      by (intro mult_mono) simp_all
    then show ?thesis by (simp add: assms(1) abs_mult binary64_def)
  qed
  ultimately show ?thesis by (auto simp: rnd_def Let_def)
qed

lemma rnd64_numeral:
  "(numeral k :: int) < 2 ^ 53 \<Longrightarrow> rnd binary64 (numeral k) = Fin (numeral k)"
  using rnd64_int [of "numeral k"] by simp

lemma rnd32_numeral:
  "(numeral k :: int) < 2 ^ 24 \<Longrightarrow> rnd binary32 (numeral k) = Fin (numeral k)"
  using rnd32_int [of "numeral k"] by simp

lemma fmt_max32_eq: "fmt_max binary32 = 340282346638528859811704183484516925440"
  by (simp add: binary32_def)

end
