(* ===== verification/Float_Map.thy ===== *)
theory Float_Map
  imports Lyli_Prelude Ieee_Float "HOL-Library.Multiset"
begin

text \<open>
  \<open>std::map<float, V>\<close>, used by \<open>PointGrid\<close> and \<open>averageGrids\<close>: an association list in increasing
  order of the keys. An iterator is a position in the list, \<open>end()\<close> its length. A NaN key has no
  place in the order of the map; operations given one are undefined in C++ and a fault here
  (\<open>check_key\<close>). \<open>nearest\<close> is the search the code repeats in \<open>PointGrid::mapAddConstruct\<close>,
  \<open>PointGrid::mapAdd\<close> and \<open>insertLine\<close>: the entry below or the entry at or above a position,
  whichever is closer.
\<close>

type_synonym 'v fmap = "(fl \<times> 'v) list"

definition lower_bound :: "'v fmap \<Rightarrow> fl \<Rightarrow> nat" where
  "lower_bound m k = length (takeWhile (\<lambda>e. flt (fst e) k) m)"

definition map_erase :: "'v fmap \<Rightarrow> nat \<Rightarrow> 'v fmap" where
  "map_erase m i = take i m @ drop (Suc i) m"

text \<open>\<open>emplace\<close>, \<open>insert\<close> and their variants with a hint: the iterator to the entry with the key
  and the map, which is unchanged when the key is already there.\<close>

definition map_emplace :: "'v fmap \<Rightarrow> fl \<Rightarrow> 'v \<Rightarrow> nat \<times> 'v fmap" where
  "map_emplace m k v =
     (let i = lower_bound m k in
      if i < length m \<and> fst (m ! i) = k then (i, m) else (i, take i m @ (k, v) # drop i m))"

definition dist :: "fl \<Rightarrow> fl \<Rightarrow> fl" where
  "dist a b = fabs (fsub binary32 a b)"

definition nearest :: "'v fmap \<Rightarrow> fl \<Rightarrow> nat" where
  "nearest m position =
     (let ub = lower_bound m position;
          lb = (if ub \<noteq> 0 then ub - 1 else length m);
          diffLb = (if lb \<noteq> length m then dist (fst (m ! lb)) position else flt_max32);
          diffUb = (if ub \<noteq> length m then dist (fst (m ! ub)) position else flt_max32)
      in if flt diffLb diffUb then lb else ub)"

definition check_key :: "fl \<Rightarrow> 'a res \<Rightarrow> 'a res" where
  "check_key k m = (if k = NaN then Inl BadOrder else m)"

text \<open>The implicit conversion of a floating point value to \<open>int\<close>: the value without its fraction, undefined when
  that is not an \<open>int\<close>.\<close>

fun int_of_fl :: "fl \<Rightarrow> int res" where
  "int_of_fl (Fin x) =
     (let n = (if 0 \<le> x then \<lfloor>x\<rfloor> else \<lceil>x\<rceil>)
      in if - (2 ^ 31) \<le> n \<and> n < 2 ^ 31 then Inr n else Inl BadConversion)"
| "int_of_fl _ = Inl BadConversion"

text \<open>The order invariant of the map, and the coordinates for which distances are finite.\<close>

definition keys_ok :: "'v fmap \<Rightarrow> bool" where
  "keys_ok m \<longleftrightarrow> sorted_wrt flt (map fst m) \<and> NaN \<notin> fst ` set m"

definition coord :: "fl \<Rightarrow> bool" where
  "coord a \<longleftrightarrow> (\<exists>x. a = Fin x \<and> \<bar>x\<bar> \<le> 2 ^ 20)"

lemma dist_Fin: "dist (Fin x) (Fin y) = rnd binary32 \<bar>x - y\<bar>"
  by (simp add: dist_def fsub_def r32.fabs_r)

lemma coord_not_NaN: "coord a \<Longrightarrow> a \<noteq> NaN"
  by (auto simp: coord_def)

lemma dist_self: "coord a \<Longrightarrow> dist a a = Fin 0"
  by (auto simp: coord_def dist_Fin r32.r_zero)

lemma dist_commute: "coord a \<Longrightarrow> coord b \<Longrightarrow> dist a b = dist b a"
  by (auto simp: coord_def dist_Fin abs_minus_commute)

lemma dist_less_max:
  assumes "coord a" and "coord b"
  shows "flt (dist a b) flt_max32"
proof -
  obtain x y where ab: "a = Fin x" "b = Fin y" "\<bar>x\<bar> \<le> 2 ^ 20" "\<bar>y\<bar> \<le> 2 ^ 20"
    using assms by (auto simp: coord_def)
  then have "\<bar>x - y\<bar> \<le> of_int 2097152"
    using abs_triangle_ineq4 [of x y] by simp
  then have "fle (rnd binary32 \<bar>x - y\<bar>) (Fin (of_int 2097152))"
    using r32.r_mono rnd32_int [of 2097152] by fastforce
  then show ?thesis
    unfolding ab dist_Fin by (rule fle_flt_trans) (simp add: flt_max32_def binary32_def)
qed

lemma key_dist_nonneg: "coord a \<Longrightarrow> coord b \<Longrightarrow> fle (Fin 0) (dist a b)"
  by (auto simp: coord_def dist_Fin r32.r_nonneg)

lemma dist_NaN: "coord a \<Longrightarrow> coord b \<Longrightarrow> dist a b \<noteq> NaN"
  using dist_less_max by (metis flt_NaN(2))

lemma key_dist_mono:
  assumes "coord a" "coord b" "coord c" and "fle a b" "fle b c"
  shows "fle (dist b c) (dist a c)" and "fle (dist a b) (dist a c)"
  using assms by (auto simp: coord_def dist_Fin intro!: r32.r_mono)

lemma keys_ok_Nil [simp]: "keys_ok []"
  by (simp add: keys_ok_def)

lemma keys_ok_append:
  "keys_ok (xs @ ys) \<longleftrightarrow> keys_ok xs \<and> keys_ok ys \<and> (\<forall>a \<in> fst ` set xs. \<forall>b \<in> fst ` set ys. flt a b)"
  by (auto simp: keys_ok_def sorted_wrt_append)

lemma keys_ok_Cons:
  "keys_ok ((k, v) # m) \<longleftrightarrow> k \<noteq> NaN \<and> keys_ok m \<and> (\<forall>b \<in> fst ` set m. flt k b)"
  by (auto simp: keys_ok_def)

text \<open>A map is split by a key into what is below and what is not.\<close>

lemma lower_bound_split:
  assumes "keys_ok m" and "k \<noteq> NaN"
  shows "m = take (lower_bound m k) m @ drop (lower_bound m k) m"
    and "\<forall>e \<in> set (take (lower_bound m k) m). flt (fst e) k"
    and "\<forall>e \<in> set (drop (lower_bound m k) m). fle k (fst e)"
proof -
  show "m = take (lower_bound m k) m @ drop (lower_bound m k) m" by simp
  show "\<forall>e \<in> set (take (lower_bound m k) m). flt (fst e) k"
    unfolding lower_bound_def takeWhile_eq_take [symmetric]
    by (metis set_takeWhileD)
  have d: "drop (lower_bound m k) m = dropWhile (\<lambda>e. flt (fst e) k) m"
    by (simp add: lower_bound_def dropWhile_eq_drop)
  show "\<forall>e \<in> set (drop (lower_bound m k) m). fle k (fst e)"
    unfolding d using assms
  proof (induction m)
    case Nil
    then show ?case by simp
  next
    case (Cons e m)
    obtain a v where e: "e = (a, v)" by (cases e)
    show ?case
    proof (cases "flt a k")
      case True
      then show ?thesis using Cons e by (simp add: keys_ok_Cons)
    next
      case False
      then have "fle k a" using Cons.prems e by (simp add: keys_ok_Cons not_flt_iff)
      moreover have "\<forall>b \<in> fst ` set m. fle k b"
        using Cons.prems e calculation by (auto simp: keys_ok_Cons fle_def intro: flt_trans)
      ultimately show ?thesis using False e by auto
    qed
  qed
qed

lemma lower_bound_le: "lower_bound m k \<le> length m"
  by (simp add: lower_bound_def length_takeWhile_le)

lemma map_emplace_new:
  assumes "keys_ok m" and "k \<noteq> NaN" and "k \<notin> fst ` set m"
  shows "map_emplace m k v =
      (lower_bound m k, take (lower_bound m k) m @ (k, v) # drop (lower_bound m k) m)"
    and "keys_ok (snd (map_emplace m k v))"
proof -
  let ?i = "lower_bound m k"
  have "fst (m ! ?i) \<noteq> k" if "?i < length m"
    using assms(3) that by (metis imageI nth_mem)
  then show eq: "map_emplace m k v = (?i, take ?i m @ (k, v) # drop ?i m)"
    by (auto simp: map_emplace_def Let_def)
  note s = lower_bound_split [OF assms(1,2)]
  have "fst e \<noteq> k" if "e \<in> set m" for e using assms(3) that by force
  then have "\<forall>e \<in> set (drop ?i m). flt k (fst e)"
    using s(3) by (fastforce simp: fle_def dest: in_set_dropD)
  moreover have "keys_ok (take ?i m)" "keys_ok (drop ?i m)"
    using assms(1) keys_ok_append [of "take ?i m" "drop ?i m"] by simp_all
  ultimately show "keys_ok (snd (map_emplace m k v))"
    using s(2) assms(2) unfolding eq
    by (auto simp: keys_ok_append keys_ok_Cons intro: flt_trans)
qed

lemma map_erase_split: "i < length m \<Longrightarrow> m = take i m @ m ! i # drop (Suc i) m"
  by (simp add: id_take_nth_drop [symmetric])

lemma keys_ok_erase:
  assumes "keys_ok m" and "i < length m"
  shows "keys_ok (map_erase m i)" and "fst (m ! i) \<notin> fst ` set (map_erase m i)"
proof -
  obtain k v where kv: "m ! i = (k, v)" by (cases "m ! i")
  have "keys_ok (take i m @ (k, v) # drop (Suc i) m)"
    using assms map_erase_split [OF assms(2)] kv by simp
  then show "keys_ok (map_erase m i)" and "fst (m ! i) \<notin> fst ` set (map_erase m i)"
    by (auto simp: kv map_erase_def keys_ok_append keys_ok_Cons)
qed

lemma check_key_ok [simp]: "k \<noteq> NaN \<Longrightarrow> check_key k m = m"
  by (simp add: check_key_def)

text \<open>The search finds an entry no other entry is closer than, and an entry with the searched key
  itself if there is one.\<close>

definition fmap_coords :: "'v fmap \<Rightarrow> bool" where
  "fmap_coords m \<longleftrightarrow> (\<forall>e \<in> set m. coord (fst e))"

text \<open>The neighbours of the place of a key are the closest of either side.\<close>

lemma neighbours_closest:
  assumes ok: "keys_ok m" and cm: "fmap_coords m" and k: "coord k" and i: "i < length m"
  shows "i < lower_bound m k \<Longrightarrow> fle (dist (fst (m ! (lower_bound m k - 1))) k) (dist (fst (m ! i)) k)"
    and "lower_bound m k \<le> i \<Longrightarrow> fle (dist (fst (m ! lower_bound m k)) k) (dist (fst (m ! i)) k)"
proof -
  let ?ub = "lower_bound m k"
  note s = lower_bound_split [OF ok coord_not_NaN [OF k]]
  have c: "coord (fst (m ! j))" if "j < length m" for j
    using cm that by (simp add: fmap_coords_def)
  have self: "fle (dist (fst (m ! i)) k) (dist (fst (m ! i)) k)"
    using r32.r_not_NaN c [OF i] k by (auto simp: coord_def dist_Fin)
  have sorted: "flt (fst (m ! i)) (fst (m ! j))" if "i < j" "j < length m" for i j
    using ok that by (simp add: keys_ok_def sorted_wrt_iff_nth_less)
  show "fle (dist (fst (m ! (?ub - 1))) k) (dist (fst (m ! i)) k)" if below: "i < ?ub"
  proof (cases "i = ?ub - 1")
    case False
    have ub: "?ub - 1 < ?ub" "?ub \<le> length m" using below by (simp_all add: lower_bound_le)
    then have "m ! (?ub - 1) \<in> set (take ?ub m)" by (metis in_set_conv_nth length_take min.absorb2 nth_take)
    then have "flt (fst (m ! (?ub - 1))) k" using s(2) by blast
    moreover have "flt (fst (m ! i)) (fst (m ! (?ub - 1)))" using sorted below False ub by simp
    ultimately show ?thesis using ub i by (intro key_dist_mono c k) (auto simp: fle_def)
  qed (use self in simp)
  show "fle (dist (fst (m ! ?ub)) k) (dist (fst (m ! i)) k)" if above: "?ub \<le> i"
  proof (cases "i = ?ub")
    case False
    then have ub: "?ub < i" "?ub < length m" using above i by simp_all
    then have "m ! ?ub \<in> set (drop ?ub m)" by (simp flip: Cons_nth_drop_Suc)
    then have "fle k (fst (m ! ?ub))" using s(3) by blast
    then have "fle (dist k (fst (m ! ?ub))) (dist k (fst (m ! i)))"
      using ub i sorted [OF ub(1) i] by (intro key_dist_mono c k) (auto simp: fle_def)
    then show ?thesis using dist_commute k c ub(2) i by metis
  qed (use self in simp)
qed

lemma nearest_correct:
  assumes ok: "keys_ok m" and cm: "fmap_coords m" and k: "coord k" and ne: "m \<noteq> []"
  shows "nearest m k < length m"
    and "\<forall>e \<in> set m. fle (dist (fst (m ! nearest m k)) k) (dist (fst e) k)"
proof -
  define ub where "ub = lower_bound m k"
  note near = neighbours_closest [OF ok cm k, folded ub_def]
  have ubl: "ub \<le> length m" by (simp add: ub_def lower_bound_le)
  have c: "coord (fst (m ! i))" if "i < length m" for i
    using cm that by (simp add: fmap_coords_def)
  have cases: "nearest m k = ub - 1 \<and> 0 < ub \<and>
      (ub < length m \<longrightarrow> fle (dist (fst (m ! (ub - 1))) k) (dist (fst (m ! ub)) k))
    \<or> nearest m k = ub \<and> ub < length m \<and>
      (0 < ub \<longrightarrow> fle (dist (fst (m ! ub)) k) (dist (fst (m ! (ub - 1))) k))"
    using ne ubl dist_less_max [OF c k, of "ub - 1"] dist_NaN [OF c k, of ub]
      dist_NaN [OF c k, of "ub - 1"]
    by (cases "length m")
      (auto simp: nearest_def Let_def ub_def [symmetric] not_flt_iff fle_def [of "dist _ _"]
        dest: flt_asym)
  then show "nearest m k < length m" using ubl by auto
  show "\<forall>e \<in> set m. fle (dist (fst (m ! nearest m k)) k) (dist (fst e) k)"
  proof
    fix e assume "e \<in> set m"
    then obtain i where i: "i < length m" "e = m ! i" by (auto simp: in_set_conv_nth)
    show "fle (dist (fst (m ! nearest m k)) k) (dist (fst e) k)"
    proof (cases "i < ub")
      case True
      then show ?thesis using cases near(1) [OF i(1)] i by (auto intro: fle_trans)
    next
      case False
      then show ?thesis using cases near(2) [OF i(1)] i by (auto intro: fle_trans)
    qed
  qed
qed

text \<open>An entry that already has the searched key is the one found, so re-keying the found entry never
  meets another entry with the new key.\<close>

lemma nearest_key:
  assumes ok: "keys_ok m" and cm: "fmap_coords m" and k: "coord k" and mem: "k \<in> fst ` set m"
  shows "fst (m ! nearest m k) = k"
proof -
  define ub where "ub = lower_bound m k"
  note s = lower_bound_split [OF ok coord_not_NaN [OF k], folded ub_def]
  obtain i where i: "i < length m" "fst (m ! i) = k"
    using mem by (force simp: in_set_conv_nth)
  have "\<not> i < ub"
    using s(2) i by (metis flt_irrefl in_set_conv_nth length_take min_less_iff_conj nth_take)
  moreover have "\<not> ub < i"
  proof
    assume "ub < i"
    then have "flt (fst (m ! ub)) k"
      using ok i by (force simp: keys_ok_def sorted_wrt_iff_nth_less)
    moreover have "fle k (fst (m ! ub))"
      using s(3) i \<open>ub < i\<close> nth_mem [of 0 "drop ub m"] by simp
    ultimately show False by (metis flt_fle_trans flt_irrefl)
  qed
  ultimately have ub: "ub = i" by simp
  have "\<not> flt (dist (fst (m ! (ub - 1))) k) (Fin 0)"
    using cm i ub k key_dist_nonneg [of "fst (m ! (ub - 1))" k] by (metis coord_not_NaN diff_le_self
        fle_flt_trans flt_irrefl fmap_coords_def nth_mem order_le_less_trans)
  then show ?thesis
    using i ub k by (auto simp: nearest_def Let_def ub_def [symmetric] dist_self flt_max32_def
        binary32_def)
qed

text \<open>The sequence \<open>erase\<close>, \<open>insert\<close> that gives the found entry a new key.\<close>

lemma nearest_rekey:
  assumes ok: "keys_ok m" and cm: "fmap_coords m" and k: "coord k" and ne: "m \<noteq> []"
  defines "e \<equiv> map_erase m (nearest m k)"
  shows "map_emplace e k v =
      (lower_bound e k, take (lower_bound e k) e @ (k, v) # drop (lower_bound e k) e)"
    and "keys_ok (snd (map_emplace e k v))"
    and "fmap_coords (snd (map_emplace e k v))"
proof -
  note n = nearest_correct(1) [OF ok cm k ne]
  have e: "keys_ok e" and gone: "fst (m ! nearest m k) \<notin> fst ` set e"
    unfolding e_def using keys_ok_erase [OF ok n] by blast+
  have sub: "set e \<subseteq> set m"
    by (auto simp: e_def map_erase_def dest: in_set_takeD in_set_dropD)
  then have "k \<notin> fst ` set e"
    using gone nearest_key [OF ok cm k] by (metis image_mono subsetD)
  note new = map_emplace_new [OF e coord_not_NaN [OF k] this]
  show eq: "map_emplace e k v =
      (lower_bound e k, take (lower_bound e k) e @ (k, v) # drop (lower_bound e k) e)"
    and "keys_ok (snd (map_emplace e k v))"
    by (rule new)+
  show "fmap_coords (snd (map_emplace e k v))"
    using cm k sub unfolding eq
    by (auto simp: fmap_coords_def dest: in_set_takeD in_set_dropD)
qed

text \<open>A code equation that skips the rounding of small integers, for evaluation.\<close>

lemma dist_int_code [code]:
  "dist a b = (case (a, b) of
     (Fin x, Fin y) \<Rightarrow> (case quotient_of (x - y) of (n, d) \<Rightarrow>
        if d = 1 \<and> \<bar>n\<bar> < 16777216 then Fin (of_int \<bar>n\<bar>) else fabs (fsub binary32 a b))
   | _ \<Rightarrow> fabs (fsub binary32 a b))"
proof -
  have "dist (Fin x) (Fin y) = Fin (of_int \<bar>n\<bar>)"
    if "quotient_of (x - y) = (n, 1)" and "\<bar>n\<bar> < 16777216" for x y n
  proof -
    have "x - y = of_int n" using quotient_of_div [OF that(1)] by simp
    then have "\<bar>x - y\<bar> = of_int \<bar>n\<bar>" by simp
    then show ?thesis unfolding dist_Fin using rnd32_int [of "\<bar>n\<bar>"] that(2) by simp
  qed
  then show ?thesis by (auto simp: dist_def split: fl.split prod.split)
qed

text \<open>The map with a new entry at its place, what the operations do to the entries, and the result of
  an \<open>emplace\<close> in both cases.\<close>

definition put :: "'v fmap \<Rightarrow> fl \<Rightarrow> 'v \<Rightarrow> 'v fmap" where
  "put m k l = take (lower_bound m k) m @ (k, l) # drop (lower_bound m k) m"

lemma mset_put: "mset (put m k l) = add_mset (k, l) (mset m)"
  unfolding put_def by (metis append_take_drop_id mset.simps(2) mset_append union_mset_add_mset_right)

lemma set_put: "set (put m k l) = insert (k, l) (set m)"
  by (metis mset_put set_mset_add_mset_insert set_mset_mset)

lemma mset_erase: "i < length m \<Longrightarrow> add_mset (m ! i) (mset (map_erase m i)) = mset m"
  by (metis map_erase_def map_erase_split mset.simps(2) mset_append union_mset_add_mset_right)

lemma put_not_Nil [simp]: "put m k l \<noteq> []"
  by (simp add: put_def)

lemma map_emplace_cases:
  assumes "keys_ok m" and "k \<noteq> NaN"
  shows "snd (map_emplace m k v) = (if k \<in> fst ` set m then m else put m k v)"
proof (cases "k \<in> fst ` set m")
  case False
  then show ?thesis using map_emplace_new(1) [OF assms False] by (simp add: put_def)
next
  case True
  define i where "i = lower_bound m k"
  note s = lower_bound_split [OF assms, folded i_def]
  obtain e where e: "e \<in> set m" "fst e = k" using True by auto
  then have "e \<in> set (drop i m)"
    using s(1,2) by (metis Un_iff flt_irrefl set_append)
  then obtain f fs where f: "drop i m = f # fs" "e = f \<or> e \<in> set fs"
    by (cases "drop i m") auto
  have "keys_ok (drop i m)"
    using assms(1) keys_ok_append [of "take i m" "drop i m"] by simp
  then have "fst f = k"
    using e f s(3) by (cases f) (force simp: keys_ok_Cons dest: flt_fle_trans)
  moreover have "m ! i = f" "i < length m"
    using f by (metis hd_drop_conv_nth drop_all leI list.sel(1) list.distinct(1)) (metis f(1) drop_all leI list.distinct(1))
  ultimately show ?thesis using True by (simp add: map_emplace_def Let_def i_def [symmetric])
qed

end
