(* ===== verification/Point_Grid.thy ===== *)
theory Point_Grid
  imports Float_Map
begin

text \<open>
  \<open>lib/calibration/pointgrid\<close>: the grid of detected lens centroids, joined into horizontal and
  vertical lines.

  \<open>Point*\<close> is an address (\<open>ptr\<close>), the \<open>PointStore\<close> an association list from addresses to points,
  in an order that stands for the unspecified iteration order of the \<open>unordered_map\<close>. \<open>next\<close> is the
  address the next \<open>new Point\<close> returns. Reading through an address that is not in the storage is a
  fault. A line is a list of addresses, a \<open>TmpLineMap\<close> a map of \<open>Float_Map\<close>. The order in which
  \<open>std::sort\<close> leaves points with the same coordinate is unspecified in C++; the model keeps the
  order they had.
\<close>

type_synonym ptr = nat

datatype SubGrid = SUBGRID_A | SUBGRID_B

record Point =
  position :: "fl \<times> fl"
  horizontalLine :: nat
  verticalLine :: nat

record Line =
  subgrid :: SubGrid
  line :: "ptr list"

type_synonym PointStore = "(ptr \<times> Point) list"
type_synonym LineList = "Line list"
type_synonym TmpLineMap = "Line fmap"

record PointGrid =
  accumulator :: "ptr list"
  storage :: PointStore
  linesHorizontal :: LineList
  linesVertical :: LineList
  "next" :: ptr

definition CONSTRUCT_LIM :: fl where "CONSTRUCT_LIM = Fin 20"

definition MAX_DIFF :: fl where "MAX_DIFF = Fin 3"

definition Point_ctor :: "fl \<times> fl \<Rightarrow> Point" where
  "Point_ctor pos = \<lparr>position = pos, horizontalLine = 0, verticalLine = 0\<rparr>"

text \<open>A value-initialised \<open>Line()\<close>.\<close>

definition empty_line :: Line where
  "empty_line = \<lparr>subgrid = SUBGRID_A, line = []\<rparr>"

definition PointGrid_ctor :: PointGrid where
  "PointGrid_ctor =
     \<lparr>accumulator = [], storage = [], linesHorizontal = [], linesVertical = [], next = 0\<rparr>"

definition deref :: "PointStore \<Rightarrow> ptr \<Rightarrow> Point res" where
  "deref s p = (case map_of s p of None \<Rightarrow> Inl NullPointer | Some q \<Rightarrow> Inr q)"

definition getPosition :: "PointStore \<Rightarrow> ptr \<Rightarrow> (fl \<times> fl) res" where
  "getPosition s p = rbind (deref s p) (\<lambda>q. Inr (position q))"

text \<open>
  \<open>Point::operator=\<close>: \<open>std::swap\<close> copies through a temporary, and as \<open>Point\<close> has no move operations it
  calls this same operator for both of its assignments. Objects have addresses, \<open>sp\<close> is the first free
  one; locals are the objects from there on.
\<close>

definition Point_copy :: "Point \<Rightarrow> Point" where
  "Point_copy point = \<lparr>position = position point, horizontalLine = horizontalLine point, verticalLine = verticalLine point\<rparr>"

partial_function (option) Point_assign :: "ptr \<Rightarrow> ptr \<Rightarrow> ptr \<Rightarrow> (ptr \<Rightarrow> Point) \<Rightarrow> (ptr \<Rightarrow> Point) option" where
  "Point_assign this point sp mem =
     (if this \<noteq> point then
        (let tmp = sp; mem1 = mem(tmp := Point_copy (mem point));
             swapped = sp + 1; mem2 = mem1 (swapped := Point_copy (mem1 tmp))
         in Option.bind (Point_assign tmp this (sp + 2) mem2) (\<lambda>mem3. Point_assign this swapped (sp + 2) mem3))
      else Some mem)"

declare Point_assign.simps [code]

text \<open>The copy constructor: new points in the order of the storage, at the addresses \<open>a\<close>, \<open>a + 1\<close>,
  and so on, and \<open>pointMap\<close> from the old addresses to the new ones. \<open>pointMap[point]\<close> of an address
  that is not in the map is a null pointer.\<close>

definition copy_line :: "(ptr \<rightharpoonup> ptr) \<Rightarrow> Line \<Rightarrow> Line res" where
  "copy_line pointMap l =
     rbind (rfold (\<lambda>p acc. case pointMap p of None \<Rightarrow> Inl NullPointer | Some q \<Rightarrow> Inr (acc @ [q]))
              (line l) [])
       (\<lambda>ps. Inr \<lparr>subgrid = subgrid l, line = ps\<rparr>)"

definition copy_lines :: "(ptr \<rightharpoonup> ptr) \<Rightarrow> LineList \<Rightarrow> LineList res" where
  "copy_lines pointMap ls =
     rfold (\<lambda>l acc. rbind (copy_line pointMap l) (\<lambda>l'. Inr (acc @ [l']))) ls []"

definition PointGrid_copy :: "ptr \<Rightarrow> PointGrid \<Rightarrow> PointGrid res" where
  "PointGrid_copy a other =
     (let n = length (storage other);
          pointMap = map_of (zip (map fst (storage other)) [a..<a + n])
      in rbind (copy_lines pointMap (linesHorizontal other)) (\<lambda>h.
         rbind (copy_lines pointMap (linesVertical other)) (\<lambda>v.
           Inr \<lparr>accumulator = [], storage = zip [a..<a + n] (map snd (storage other)),
                linesHorizontal = h, linesVertical = v, next = a + n\<rparr>)))"

text \<open>The assignment operator: the accumulator of the target stays.\<close>

definition PointGrid_assign :: "ptr \<Rightarrow> PointGrid \<Rightarrow> PointGrid \<Rightarrow> PointGrid res" where
  "PointGrid_assign a g other =
     rbind (PointGrid_copy a other) (\<lambda>tmp.
       Inr (g\<lparr>storage := storage tmp, linesHorizontal := linesHorizontal tmp,
              linesVertical := linesVertical tmp, next := next tmp\<rparr>))"

definition storageAdd :: "fl \<times> fl \<Rightarrow> PointGrid \<Rightarrow> ptr \<times> PointGrid" where
  "storageAdd point g =
     (next g, g\<lparr>storage := (next g, Point_ctor point) # storage g, next := Suc (next g)\<rparr>)"

definition addPoint :: "fl \<times> fl \<Rightarrow> PointGrid \<Rightarrow> PointGrid" where
  "addPoint point g =
     (let (stored, g') = storageAdd point g in g'\<lparr>accumulator := accumulator g' @ [stored]\<rparr>)"

text \<open>\<open>it->second.line.push_back(point)\<close>\<close>

definition push_at :: "TmpLineMap \<Rightarrow> nat \<Rightarrow> ptr \<Rightarrow> TmpLineMap" where
  "push_at m i p = m[i := (fst (m ! i), (snd (m ! i))\<lparr>line := line (snd (m ! i)) @ [p]\<rparr>)]"

definition mapAddConstruct :: "TmpLineMap \<Rightarrow> fl \<Rightarrow> ptr \<Rightarrow> TmpLineMap res" where
  "mapAddConstruct lineMap pos p =
     (if lineMap = [] then
        check_key pos (case map_emplace lineMap pos empty_line of (i, m) \<Rightarrow> Inr (push_at m i p))
      else check_key pos (
        let lineIt = nearest lineMap pos in
        if lineIt = length lineMap then Inl EndIterator
        else if flt MAX_DIFF (dist (fst (lineMap ! lineIt)) pos) then
          (case map_emplace lineMap pos empty_line of (i, m) \<Rightarrow> Inr (push_at m i p))
        else
          (let l = snd (lineMap ! lineIt) in
           case map_emplace (map_erase lineMap lineIt) pos l of (i, m) \<Rightarrow> Inr (push_at m i p))))"

definition mapAdd :: "TmpLineMap \<Rightarrow> fl \<Rightarrow> ptr \<Rightarrow> TmpLineMap res" where
  "mapAdd lineMap pos p =
     check_key pos (
       let lineIt = nearest lineMap pos in
       if lineIt = length lineMap then Inl EndIterator
       else if flt (dist (fst (lineMap ! lineIt)) pos) MAX_DIFF then
         (let l = snd (lineMap ! lineIt) in
          case map_emplace (map_erase lineMap lineIt) pos l of (i, m) \<Rightarrow> Inr (push_at m i p))
       else Inr lineMap)"

text \<open>The inserters that read the key from the point: \<open>coordinate\<close> is \<open>fst\<close> for x, \<open>snd\<close> for y.\<close>

definition insert_with ::
  "(TmpLineMap \<Rightarrow> fl \<Rightarrow> ptr \<Rightarrow> TmpLineMap res) \<Rightarrow> (fl \<times> fl \<Rightarrow> fl) \<Rightarrow> PointStore
     \<Rightarrow> ptr \<Rightarrow> TmpLineMap \<Rightarrow> TmpLineMap res" where
  "insert_with f coordinate s p m = rbind (getPosition s p) (\<lambda>pos. f m (coordinate pos) p)"

text \<open>The first loop of \<open>finalize\<close>. It has no test for the end of the accumulator: reading past the
  last point is out of bounds. The result holds the points the loop left.\<close>

fun construct_loop :: "PointStore \<Rightarrow> fl \<Rightarrow> ptr list \<Rightarrow> TmpLineMap \<Rightarrow> (ptr list \<times> TmpLineMap) res" where
  "construct_loop s limit [] m = Inl OutOfBounds"
| "construct_loop s limit (p # ps) m =
     rbind (getPosition s p) (\<lambda>pos.
       if flt (snd pos) limit then rbind (mapAddConstruct m (fst pos) p) (construct_loop s limit ps)
       else Inr (p # ps, m))"

text \<open>Every line is entered again under the position of its first point. \<open>insert\<close> does nothing when
  the key is taken.\<close>

definition rekey_step ::
  "(fl \<times> fl \<Rightarrow> fl) \<Rightarrow> PointStore \<Rightarrow> fl \<times> Line \<Rightarrow> TmpLineMap \<Rightarrow> TmpLineMap res" where
  "rekey_step coordinate s entry tmp =
     (case line (snd entry) of
        [] \<Rightarrow> Inl OutOfBounds
      | p # _ \<Rightarrow> rbind (getPosition s p) (\<lambda>pos.
          check_key (coordinate pos) (Inr (snd (map_emplace tmp (coordinate pos) (snd entry))))))"

definition rekey :: "(fl \<times> fl \<Rightarrow> fl) \<Rightarrow> PointStore \<Rightarrow> TmpLineMap \<Rightarrow> TmpLineMap res" where
  "rekey coordinate s m = rfold (rekey_step coordinate s) m []"

fun insert_by :: "fl \<times> ptr \<Rightarrow> (fl \<times> ptr) list \<Rightarrow> (fl \<times> ptr) list" where
  "insert_by e [] = [e]"
| "insert_by e (f # fs) = (if flt (fst f) (fst e) then f # insert_by e fs else e # f # fs)"

definition sort_keyed :: "(fl \<times> ptr) list \<Rightarrow> (fl \<times> ptr) list" where
  "sort_keyed es = foldr insert_by es []"

definition keyed_points ::
  "(fl \<times> fl \<Rightarrow> fl) \<Rightarrow> PointStore \<Rightarrow> ptr list \<Rightarrow> (fl \<times> ptr) list res" where
  "keyed_points coordinate s ps =
     rfold (\<lambda>p acc. rbind (getPosition s p) (\<lambda>pos. Inr (acc @ [(coordinate pos, p)]))) ps []"

definition sort_line :: "(fl \<times> fl \<Rightarrow> fl) \<Rightarrow> PointStore \<Rightarrow> Line \<Rightarrow> Line res" where
  "sort_line coordinate s l =
     rbind (keyed_points coordinate s (line l)) (\<lambda>es.
       if NaN \<in> set (map fst es) then Inl BadOrder
       else Inr (l\<lparr>line := map snd (sort_keyed es)\<rparr>))"

definition sort_lines :: "(fl \<times> fl \<Rightarrow> fl) \<Rightarrow> PointStore \<Rightarrow> TmpLineMap \<Rightarrow> TmpLineMap res" where
  "sort_lines coordinate s m =
     rfold (\<lambda>entry acc. rbind (sort_line coordinate s (snd entry)) (\<lambda>l. Inr (acc @ [(fst entry, l)])))
       m []"

definition append_horizontal :: "LineList \<Rightarrow> fl \<times> Line \<Rightarrow> LineList" where
  "append_horizontal ls entry =
     ls @ [(snd entry)\<lparr>subgrid := (if even (length ls) then SUBGRID_A else SUBGRID_B)\<rparr>]"

text \<open>\<open>finalize\<close>, the part that constructs the horizontal lines.\<close>

definition construct_horizontal :: "PointGrid \<Rightarrow> LineList res" where
  "construct_horizontal g =
     (let acc = accumulator g; s = storage g; constructStart = length acc div 3 in
      rbind (ld acc (int constructStart)) (\<lambda>p0.
      rbind (getPosition s p0) (\<lambda>pos0.
      rbind (construct_loop s (fadd binary32 (snd pos0) CONSTRUCT_LIM) (drop constructStart acc) [])
        (\<lambda>(rest, m1).
      rbind (rfold (insert_with mapAdd fst s) rest m1) (\<lambda>m2.
      rbind (rekey fst s m2) (\<lambda>m3.
      rbind (rfold (insert_with mapAdd fst s) (rev (take (Suc constructStart) acc)) m3) (\<lambda>m4.
      rbind (sort_lines snd s m4) (\<lambda>m5.
      Inr (foldl append_horizontal (linesHorizontal g) m5)))))))))"

definition loop_indices :: "int \<Rightarrow> int \<Rightarrow> int list" where
  "loop_indices start end = (if end > start then [start..end - 1] else rev [end + 1..start])"

definition vertical_step ::
  "LineList \<Rightarrow> (ptr \<Rightarrow> TmpLineMap \<Rightarrow> TmpLineMap res) \<Rightarrow> int
     \<Rightarrow> TmpLineMap \<times> TmpLineMap \<Rightarrow> (TmpLineMap \<times> TmpLineMap) res" where
  "vertical_step ls inserter i ms =
     rbind (ld ls i) (\<lambda>tmpline.
       if odd i then rbind (rfold inserter (line tmpline) (snd ms)) (\<lambda>evens. Inr (fst ms, evens))
       else rbind (rfold inserter (line tmpline) (fst ms)) (\<lambda>odds. Inr (odds, snd ms)))"

definition verticalLineConstructor ::
  "LineList \<Rightarrow> int \<Rightarrow> int \<Rightarrow> (ptr \<Rightarrow> TmpLineMap \<Rightarrow> TmpLineMap res)
     \<Rightarrow> TmpLineMap \<times> TmpLineMap \<Rightarrow> (TmpLineMap \<times> TmpLineMap) res" where
  "verticalLineConstructor ls start end inserter =
     rfold (vertical_step ls inserter) (loop_indices start end)"

fun merge_lines :: "TmpLineMap \<Rightarrow> TmpLineMap \<Rightarrow> LineList" where
  "merge_lines [] [] = []"
| "merge_lines [] (e # es) = (snd e)\<lparr>subgrid := SUBGRID_B\<rparr> # merge_lines [] es"
| "merge_lines (f # fs) [] = (snd f)\<lparr>subgrid := SUBGRID_A\<rparr> # merge_lines fs []"
| "merge_lines (f # fs) (e # es) =
     (if flt (fst f) (fst e) then (snd f)\<lparr>subgrid := SUBGRID_A\<rparr> # merge_lines fs (e # es)
      else (snd e)\<lparr>subgrid := SUBGRID_B\<rparr> # merge_lines (f # fs) es)"

text \<open>\<open>finalize\<close>, the part that constructs the vertical lines out of the horizontal ones.\<close>

definition construct_vertical :: "PointStore \<Rightarrow> LineList \<Rightarrow> LineList res" where
  "construct_vertical s ls =
     (let constructStart = int (length ls div 3) in
      rbind (verticalLineConstructor ls constructStart (constructStart + 6)
               (insert_with mapAddConstruct snd s) ([], [])) (\<lambda>ms1.
      rbind (verticalLineConstructor ls (constructStart + 6) (int (length ls))
               (insert_with mapAdd snd s) ms1) (\<lambda>(odds2, evens2).
      rbind (rekey snd s odds2) (\<lambda>odds3.
      rbind (rekey snd s evens2) (\<lambda>evens3.
      rbind (verticalLineConstructor ls constructStart (- 1)
               (insert_with mapAdd snd s) (odds3, evens3)) (\<lambda>(odds4, evens4).
      rbind (sort_lines fst s odds4) (\<lambda>odds5.
      rbind (sort_lines fst s evens4) (\<lambda>evens5.
      Inr (merge_lines odds5 evens5)))))))))"

definition line_points :: "LineList \<Rightarrow> ptr set" where
  "line_points ls = (\<Union>l \<in> set ls. set (line l))"

text \<open>The points of no horizontal line leave the storage; then those of no vertical line leave the
  horizontal lines and the storage.\<close>

definition prune_line :: "ptr set \<Rightarrow> Line \<Rightarrow> PointStore \<Rightarrow> Line \<times> PointStore" where
  "prune_line testPoints l s =
     (l\<lparr>line := filter (\<lambda>p. p \<in> testPoints) (line l)\<rparr>,
      filter (\<lambda>e. fst e \<notin> set (line l) \<or> fst e \<in> testPoints) s)"

fun prune_lines :: "ptr set \<Rightarrow> LineList \<Rightarrow> PointStore \<Rightarrow> LineList \<times> PointStore" where
  "prune_lines testPoints [] s = ([], s)"
| "prune_lines testPoints (l # ls) s =
     (let (l', s') = prune_line testPoints l s; (ls', s'') = prune_lines testPoints ls s'
      in (l' # ls', s''))"

definition write_point :: "(Point \<Rightarrow> Point) \<Rightarrow> ptr \<Rightarrow> PointStore \<Rightarrow> PointStore res" where
  "write_point f p s =
     (if map_of s p = None then Inl NullPointer
      else Inr (map (\<lambda>(a, q). (a, if a = p then f q else q)) s))"

text \<open>\<open>point->verticalLine = i\<close> (and the same for the horizontal lines), for all points of all lines.\<close>

fun link_lines ::
  "(nat \<Rightarrow> Point \<Rightarrow> Point) \<Rightarrow> nat \<Rightarrow> LineList \<Rightarrow> PointStore \<Rightarrow> PointStore res" where
  "link_lines f i [] s = Inr s"
| "link_lines f i (l # ls) s =
     rbind (rfold (write_point (f i)) (line l) s) (link_lines f (Suc i) ls)"

definition finalize :: "PointGrid \<Rightarrow> PointGrid res" where
  "finalize g =
     rbind (construct_horizontal g) (\<lambda>h.
     rbind (construct_vertical (storage g) h) (\<lambda>v0.
       let v = linesVertical g @ v0;
           s1 = filter (\<lambda>e. fst e \<in> line_points h) (storage g);
           (h', s2) = prune_lines (line_points v) h s1
       in rbind (link_lines (\<lambda>i q. q\<lparr>verticalLine := i\<rparr>) 0 v s2) (\<lambda>s3.
          rbind (link_lines (\<lambda>i q. q\<lparr>horizontalLine := i\<rparr>) 0 h' s3) (\<lambda>s4.
          Inr (g\<lparr>storage := s4, linesHorizontal := h', linesVertical := v\<rparr>)))))"

definition isEmpty :: "PointGrid \<Rightarrow> bool" where
  "isEmpty g \<longleftrightarrow> linesHorizontal g = [] \<and> linesVertical g = []"

text \<open>The invariant of a line map: ordered keys, usable coordinates, no empty line.\<close>

definition lines_ok :: "TmpLineMap \<Rightarrow> bool" where
  "lines_ok m \<longleftrightarrow> keys_ok m \<and> fmap_coords m \<and> (\<forall>e \<in> set m. line (snd e) \<noteq> [])"

definition map_points :: "TmpLineMap \<Rightarrow> ptr multiset" where
  "map_points m = mset (concat (map (\<lambda>e. line (snd e)) m))"

definition points_ok :: "PointStore \<Rightarrow> ptr list \<Rightarrow> bool" where
  "points_ok s ps \<longleftrightarrow> (\<forall>p \<in> set ps. \<exists>q. map_of s p = Some q
      \<and> coord (fst (position q)) \<and> coord (snd (position q)))"

definition add_to :: "Line \<Rightarrow> ptr \<Rightarrow> Line" where
  "add_to l p = l\<lparr>line := line l @ [p]\<rparr>"

lemma map_points_simps [simp]:
  "map_points [] = {#}" "map_points ((k, l) # m) = mset (line l) + map_points m"
  "map_points (a @ b) = map_points a + map_points b"
  by (simp_all add: map_points_def)

lemma line_add_to [simp]: "line (add_to l p) = line l @ [p]" "line empty_line = []"
  by (simp_all add: add_to_def empty_line_def)

lemma lines_ok_Nil [simp]: "lines_ok []"
  by (simp add: lines_ok_def fmap_coords_def)

lemma map_points_mset: "map_points m = (\<Sum>e \<in># mset m. mset (line (snd e)))"
  by (induction m) auto

lemma push_at_emplace:
  assumes "map_emplace m k l = (lower_bound m k, put m k l)"
  shows "(case map_emplace m k l of (i, m') \<Rightarrow> Inr (push_at m' i p)) = (Inr (put m k (add_to l p)) :: TmpLineMap res)"
proof -
  have "put m k l ! lower_bound m k = (k, l)" and "length (take (lower_bound m k) m) = lower_bound m k"
    using lower_bound_le [of m k] by (auto simp: put_def nth_append)
  then show ?thesis
    unfolding assms push_at_def by (simp add: put_def add_to_def list_update_append)
qed

lemma lines_ok_put:
  assumes "keys_ok (put m k l)" "fmap_coords (put m k l)" "\<forall>e \<in> set m. line (snd e) \<noteq> []"
  shows "lines_ok (put m k (add_to l p))"
  using assms
  by (auto simp: lines_ok_def put_def keys_ok_append keys_ok_Cons fmap_coords_def
      dest: in_set_takeD in_set_dropD)

text \<open>A point is added to a line that gets the position of the point as its key, or starts a line.\<close>

lemma rekey_nearest:
  assumes "lines_ok m" "m \<noteq> []" "coord k"
  defines "e \<equiv> map_erase m (nearest m k)"
  shows "(case map_emplace e k l of (i, m') \<Rightarrow> Inr (push_at m' i p)) = (Inr (put e k (add_to l p)) :: TmpLineMap res)"
    and "lines_ok (put e k (add_to l p))"
proof -
  have m: "keys_ok m" "fmap_coords m" "\<forall>e \<in> set m. line (snd e) \<noteq> []"
    using assms(1) by (auto simp: lines_ok_def)
  note r = nearest_rekey [OF m(1,2) assms(3,2), folded e_def, folded put_def]
  show "(case map_emplace e k l of (i, m') \<Rightarrow> Inr (push_at m' i p)) = (Inr (put e k (add_to l p)) :: TmpLineMap res)"
    using r(1) by (rule push_at_emplace)
  show "lines_ok (put e k (add_to l p))"
    using r(2) [of l] r(3) [of l] m(3) unfolding r(1)
    by (intro lines_ok_put) (auto simp: e_def map_erase_def dest: in_set_takeD in_set_dropD)
qed

lemma new_line:
  assumes "lines_ok m" "k \<notin> fst ` set m" "coord k"
  shows "(case map_emplace m k empty_line of (i, m') \<Rightarrow> Inr (push_at m' i p))
      = (Inr (put m k (add_to empty_line p)) :: TmpLineMap res)"
    and "lines_ok (put m k (add_to empty_line p))"
proof -
  have m: "keys_ok m" "fmap_coords m" "\<forall>e \<in> set m. line (snd e) \<noteq> []"
    using assms(1) by (auto simp: lines_ok_def)
  note r = map_emplace_new [OF m(1) coord_not_NaN [OF assms(3)] assms(2), folded put_def]
  show "(case map_emplace m k empty_line of (i, m') \<Rightarrow> Inr (push_at m' i p))
      = (Inr (put m k (add_to empty_line p)) :: TmpLineMap res)"
    using r(1) by (rule push_at_emplace)
  show "lines_ok (put m k (add_to empty_line p))"
    using r(2) [of empty_line] m assms(3) unfolding r(1)
    by (intro lines_ok_put) (auto simp: fmap_coords_def set_put)
qed

lemma far_not_key:
  assumes "lines_ok m" "coord k" "flt MAX_DIFF (dist (fst (m ! nearest m k)) k)"
  shows "k \<notin> fst ` set m"
proof
  assume "k \<in> fst ` set m"
  then have "fst (m ! nearest m k) = k"
    using assms nearest_key by (auto simp: lines_ok_def)
  then show False using assms by (simp add: dist_self MAX_DIFF_def)
qed

lemma lines_ok_nearest: "lines_ok m \<Longrightarrow> coord k \<Longrightarrow> m \<noteq> [] \<Longrightarrow> nearest m k < length m"
  by (simp add: lines_ok_def nearest_correct)

lemma mapAddConstruct_eq:
  assumes "lines_ok m" "coord k"
  shows "mapAddConstruct m k p =
    Inr (if m = [] \<or> flt MAX_DIFF (dist (fst (m ! nearest m k)) k) then put m k (add_to empty_line p)
         else put (map_erase m (nearest m k)) k (add_to (snd (m ! nearest m k)) p))"
proof (cases "m = []")
  case True
  then show ?thesis
    using assms new_line(1) [OF assms(1) _ assms(2)] coord_not_NaN
    by (auto simp: mapAddConstruct_def)
next
  case False
  then show ?thesis
    using assms lines_ok_nearest [OF assms False] rekey_nearest(1) [OF assms(1) False assms(2)]
      new_line(1) [OF assms(1) far_not_key assms(2)] coord_not_NaN [OF assms(2)]
    by (simp add: mapAddConstruct_def Let_def)
qed

lemma mapAdd_eq:
  assumes "lines_ok m" "coord k" "m \<noteq> []"
  shows "mapAdd m k p =
    Inr (if flt (dist (fst (m ! nearest m k)) k) MAX_DIFF
         then put (map_erase m (nearest m k)) k (add_to (snd (m ! nearest m k)) p) else m)"
  using assms rekey_nearest(1) [OF assms(1,3,2)] lines_ok_nearest [OF assms] coord_not_NaN
  by (simp add: mapAdd_def Let_def)

text \<open>What both operations promise, and the loops that rely on it. \<open>pre\<close> is what the operation needs
  of the map.\<close>

locale line_inserter =
  fixes f :: "TmpLineMap \<Rightarrow> fl \<Rightarrow> ptr \<Rightarrow> TmpLineMap res" and pre :: "TmpLineMap \<Rightarrow> bool"
  assumes total: "lines_ok m \<Longrightarrow> pre m \<Longrightarrow> coord k \<Longrightarrow> \<exists>m'. f m k p = Inr m'"
    and inserts: "lines_ok m \<Longrightarrow> pre m \<Longrightarrow> coord k \<Longrightarrow> f m k p = Inr m'
      \<Longrightarrow> lines_ok m' \<and> m' \<noteq> [] \<and> length m \<le> length m'
        \<and> (map_points m' = map_points m \<or> map_points m' = add_mset p (map_points m))"
    and pre_nonempty: "m \<noteq> [] \<Longrightarrow> pre m"
begin

lemma insert_with_ok:
  assumes "points_ok s [p]" and c: "c = fst \<or> c = snd" and "lines_ok m" and "pre m"
  shows "\<exists>m'. insert_with f c s p m = Inr m' \<and> lines_ok m' \<and> m' \<noteq> [] \<and> length m \<le> length m'
      \<and> (map_points m' = map_points m \<or> map_points m' = add_mset p (map_points m))"
proof -
  obtain q where q: "map_of s p = Some q" "coord (c (position q))"
    using assms by (auto simp: points_ok_def)
  obtain m' where m': "f m (c (position q)) p = Inr m'"
    using total [OF assms(3,4) q(2)] by blast
  then show ?thesis
    using q(1) inserts [OF assms(3,4) q(2) m'] by (simp add: insert_with_def getPosition_def deref_def)
qed

lemma insert_all_ok:
  assumes "points_ok s ps" and c: "c = fst \<or> c = snd" and "lines_ok m" and "pre m" and "ps \<noteq> [] \<or> m \<noteq> []"
  shows "\<exists>m'. rfold (insert_with f c s) ps m = Inr m' \<and> lines_ok m' \<and> m' \<noteq> []
      \<and> length m \<le> length m' \<and> map_points m' \<subseteq># map_points m + mset ps"
  using assms
proof (induction ps arbitrary: m)
  case Nil
  then show ?case by simp
next
  case (Cons p ps)
  obtain m1 where m1: "insert_with f c s p m = Inr m1" "lines_ok m1" "m1 \<noteq> []" "length m \<le> length m1"
      "map_points m1 = map_points m \<or> map_points m1 = add_mset p (map_points m)"
    using insert_with_ok [of s p c m] Cons.prems by (auto simp: points_ok_def)
  obtain m' where m': "rfold (insert_with f c s) ps m1 = Inr m'" "lines_ok m'" "m' \<noteq> []"
      "length m1 \<le> length m'" "map_points m' \<subseteq># map_points m1 + mset ps"
    using Cons.IH [of m1] Cons.prems m1 pre_nonempty by (auto simp: points_ok_def)
  have "map_points m1 + mset ps \<subseteq># map_points m + mset (p # ps)"
    using m1(5) by auto
  then show ?case using m1 m' by (auto intro: subset_mset.order_trans)
qed

end

lemma put_points:
  assumes "lines_ok m" "coord k" "m \<noteq> []"
  shows "map_points (put (map_erase m (nearest m k)) k (add_to (snd (m ! nearest m k)) p))
    = add_mset p (map_points m)"
    and "length (put (map_erase m (nearest m k)) k l) = length m"
proof -
  have "mset m = add_mset (m ! nearest m k) (mset (map_erase m (nearest m k)))"
    using mset_erase lines_ok_nearest [OF assms] by metis
  then show "map_points (put (map_erase m (nearest m k)) k (add_to (snd (m ! nearest m k)) p))
    = add_mset p (map_points m)"
    by (simp add: map_points_mset mset_put)
  show "length (put (map_erase m (nearest m k)) k l) = length m"
    using lines_ok_nearest [OF assms] lower_bound_le [of "map_erase m (nearest m k)" k]
    by (simp add: put_def map_erase_def)
qed

lemma put_new_points:
  "map_points (put m k (add_to empty_line p)) = add_mset p (map_points m)"
  "length (put m k l) = Suc (length m)"
  using lower_bound_le [of m k]
  by (simp add: map_points_mset mset_put, simp add: put_def)

interpretation constructing: line_inserter mapAddConstruct "\<lambda>m. True"
proof
  fix m k p m'
  assume m: "lines_ok m" and k: "coord k"
  note eq = mapAddConstruct_eq [OF m k, of p]
  then show "\<exists>m'. mapAddConstruct m k p = Inr m'" by blast
  assume "mapAddConstruct m k p = Inr m'"
  then show "lines_ok m' \<and> m' \<noteq> [] \<and> length m \<le> length m'
      \<and> (map_points m' = map_points m \<or> map_points m' = add_mset p (map_points m))"
    using eq new_line(2) [OF m _ k, of p] far_not_key [OF m k] rekey_nearest(2) [OF m _ k]
      put_points [OF m k] put_new_points [of m k]
    by (auto split: if_splits simp: put_def)
qed simp

interpretation adding: line_inserter mapAdd "\<lambda>m. m \<noteq> []"
proof
  fix m k p m'
  assume m: "lines_ok m" and ne: "m \<noteq> []" and k: "coord k"
  note eq = mapAdd_eq [OF m k ne, of p]
  then show "\<exists>m'. mapAdd m k p = Inr m'" by blast
  assume "mapAdd m k p = Inr m'"
  then show "lines_ok m' \<and> m' \<noteq> [] \<and> length m \<le> length m'
      \<and> (map_points m' = map_points m \<or> map_points m' = add_mset p (map_points m))"
    using eq m ne rekey_nearest(2) [OF m ne k] put_points [OF m k ne]
    by (auto split: if_splits simp: put_def)
qed simp

text \<open>The address map of the copy constructor.\<close>

lemma copy_line_map:
  assumes "\<forall>p \<in> set (line l). pm p = Some (f p)"
  shows "copy_line pm l = Inr \<lparr>subgrid = subgrid l, line = map f (line l)\<rparr>"
proof -
  have "rfold (\<lambda>p acc. case pm p of None \<Rightarrow> Inl NullPointer | Some q \<Rightarrow> Inr (acc @ [q])) ps acc
      = (Inr (acc @ map f ps) :: ptr list res)" if "\<forall>p \<in> set ps. pm p = Some (f p)" for ps acc
    using that by (induction ps arbitrary: acc) auto
  then show ?thesis using assms by (simp add: copy_line_def)
qed

lemma copy_lines_map:
  assumes "\<forall>l \<in> set ls. \<forall>p \<in> set (line l). pm p = Some (f p)"
  shows "copy_lines pm ls = Inr (map (\<lambda>l. \<lparr>subgrid = subgrid l, line = map f (line l)\<rparr>) ls)"
proof -
  have "rfold (\<lambda>l acc. rbind (copy_line pm l) (\<lambda>l'. Inr (acc @ [l']))) ls acc
      = (Inr (acc @ map (\<lambda>l. \<lparr>subgrid = subgrid l, line = map f (line l)\<rparr>) ls) :: LineList res)" for acc
    using assms by (induction ls arbitrary: acc) (auto simp: copy_line_map [of _ pm f])
  then show ?thesis by (simp add: copy_lines_def)
qed

lemma map_of_zip_index:
  assumes "distinct ks" and "length ks = length vs"
  shows "i < length ks \<Longrightarrow> map_of (zip ks vs) (ks ! i) = Some (vs ! i)"
  using assms by (simp add: map_of_zip_nth)

text \<open>
  C10: \<open>PointGrid::mapAddConstruct\<close>. On a well-formed line map and an image coordinate the operation
  succeeds and keeps the map well-formed. When every line is more than \<open>MAX_DIFF\<close> away it starts a
  new line with the point; otherwise the point goes to the end of a line no other line is closer
  than, and this line gets the position of the point as its new key. All other lines stay.
\<close>
theorem mapAddConstruct_correct:
  assumes "lines_ok m" and "coord k"
  shows "\<exists>m'. mapAddConstruct m k p = Inr m' \<and> lines_ok m' \<and>
    (if \<forall>e \<in> set m. flt MAX_DIFF (dist (fst e) k)
     then mset m' = add_mset (k, \<lparr>subgrid = SUBGRID_A, line = [p]\<rparr>) (mset m)
     else \<exists>e \<in> set m. (\<forall>e' \<in> set m. fle (dist (fst e) k) (dist (fst e') k))
       \<and> \<not> flt MAX_DIFF (dist (fst e) k)
       \<and> mset m' = add_mset (k, (snd e)\<lparr>line := line (snd e) @ [p]\<rparr>) (mset m - {#e#}))"
proof -
  let ?e = "m ! nearest m k"
  obtain m' where m': "mapAddConstruct m k p = Inr m'" "lines_ok m'"
    using constructing.total [OF assms(1) _ assms(2)] constructing.inserts [OF assms(1) _ assms(2)] by blast
  note eq = mapAddConstruct_eq [OF assms, of p, unfolded m'(1)]
  have l: "add_to empty_line p = \<lparr>subgrid = SUBGRID_A, line = [p]\<rparr>"
    by (simp add: add_to_def empty_line_def)
  show ?thesis
  proof (cases "m = []")
    case True
    then show ?thesis using m' eq by (simp add: put_def l)
  next
    case False
    have n: "nearest m k < length m" "\<forall>e' \<in> set m. fle (dist (fst ?e) k) (dist (fst e') k)"
      using nearest_correct [of m k] assms False unfolding lines_ok_def by blast+
    then have far: "(\<forall>e \<in> set m. flt MAX_DIFF (dist (fst e) k)) \<longleftrightarrow> flt MAX_DIFF (dist (fst ?e) k)"
      by (auto intro: flt_fle_trans)
    have "mset (map_erase m (nearest m k)) = mset m - {#?e#}"
      using mset_erase [OF n(1)] by (metis add_mset_remove_trivial)
    then show ?thesis
      using m' eq False n far by (auto simp: mset_put add_to_def empty_line_def intro!: bexI [of _ ?e])
  qed
qed

theorem mapAddConstruct_correct_witness:
  "\<exists>m'. mapAddConstruct [(Fin 1, \<lparr>subgrid = SUBGRID_A, line = [7]\<rparr>)] (Fin 2) 8 = Inr m' \<and> lines_ok m'"
proof -
  have "lines_ok [(Fin 1, \<lparr>subgrid = SUBGRID_A, line = [7]\<rparr>)]"
    by (simp add: lines_ok_def keys_ok_Cons fmap_coords_def coord_def)
  moreover have "coord (Fin 2)" by (simp add: coord_def)
  ultimately show ?thesis using mapAddConstruct_correct by blast
qed

text \<open>The copy, with the map from the old addresses to the new ones.\<close>

lemma PointGrid_copy_ok:
  assumes d: "distinct (map fst (storage g))"
    and ls: "\<forall>l \<in> set (linesHorizontal g) \<union> set (linesVertical g). set (line l) \<subseteq> fst ` set (storage g)"
  shows "\<exists>f g'. PointGrid_copy a g = Inr g' \<and> map fst (storage g') = [a..<next g'] \<and> bij_betw f (fst ` set (storage g)) {a..<next g'}
    \<and> (\<forall>p \<in> fst ` set (storage g). map_of (storage g') (f p) = map_of (storage g) p)
    \<and> linesHorizontal g' = map (\<lambda>l. l\<lparr>line := map f (line l)\<rparr>) (linesHorizontal g)
    \<and> linesVertical g' = map (\<lambda>l. l\<lparr>line := map f (line l)\<rparr>) (linesVertical g)
    \<and> accumulator g' = []"
proof -
  define n where "n = length (storage g)"
  define ks where "ks = map fst (storage g)"
  define pm where "pm = map_of (zip ks [a..<a + n])"
  define f where "f = (\<lambda>p. the (pm p))"
  have ks: "distinct ks" "length ks = n" "set ks = fst ` set (storage g)"
    using d by (auto simp: ks_def n_def)
  have at: "pm (ks ! i) = Some (a + i)" if "i < n" for i
    using map_of_zip_index [of ks "[a..<a + n]" i] ks that by (simp add: pm_def)
  then have some: "pm p = Some (f p)" if "p \<in> set ks" for p
    using that ks(2) by (auto simp: f_def in_set_conv_nth)
  have f: "f (ks ! i) = a + i" if "i < n" for i using at [OF that] by (simp add: f_def)
  have bij: "bij_betw f (set ks) {a..<a + n}"
  proof (rule bij_betw_byWitness [where f' = "\<lambda>q. ks ! (q - a)"])
    show "\<forall>p \<in> set ks. ks ! (f p - a) = p" using f ks(2) by (auto simp: in_set_conv_nth)
    show "\<forall>q \<in> {a..<a + n}. f (ks ! (q - a)) = q" using f by auto
    show "f ` set ks \<subseteq> {a..<a + n}" using f ks(2) by (auto simp: in_set_conv_nth)
    show "(\<lambda>q. ks ! (q - a)) ` {a..<a + n} \<subseteq> set ks" using ks(2) by auto
  qed
  have "map_of (zip [a..<a + n] (map snd (storage g))) (f p) = map_of (storage g) p"
    if p: "p \<in> set ks" for p
  proof -
    obtain i where i: "i < n" "p = ks ! i" using p ks(2) by (auto simp: in_set_conv_nth)
    then have "p = fst (storage g ! i)" by (simp add: ks_def n_def)
    then have "map_of (storage g) p = Some (snd (storage g ! i))"
      using d i by (intro map_of_is_SomeI) (auto simp: n_def)
    moreover have "map_of (zip [a..<a + n] (map snd (storage g))) ([a..<a + n] ! i) = Some (map snd (storage g) ! i)"
      using i by (intro map_of_zip_index) (auto simp: n_def)
    ultimately show ?thesis using f i by (simp add: n_def)
  qed
  then have same: "\<forall>p \<in> set ks. map_of (zip [a..<a + n] (map snd (storage g))) (f p) = map_of (storage g) p"
    by blast
  have lines: "\<forall>l \<in> set ls. \<forall>p \<in> set (line l). pm p = Some (f p)"
    if "set ls \<subseteq> set (linesHorizontal g) \<union> set (linesVertical g)" for ls
    using that ls some unfolding ks(3) [symmetric] by blast
  have upd: "\<lparr>subgrid = subgrid l, line = map f (line l)\<rparr> = l\<lparr>line := map f (line l)\<rparr>" for l :: Line
    by simp
  define g' where "g' = \<lparr>accumulator = [], storage = zip [a..<a + n] (map snd (storage g)),
      linesHorizontal = map (\<lambda>l. l\<lparr>line := map f (line l)\<rparr>) (linesHorizontal g),
      linesVertical = map (\<lambda>l. l\<lparr>line := map f (line l)\<rparr>) (linesVertical g), next = a + n\<rparr>"
  have "PointGrid_copy a g = Inr g'"
    using copy_lines_map [OF lines, of "linesHorizontal g"] copy_lines_map [OF lines, of "linesVertical g"]
    by (simp add: PointGrid_copy_def Let_def pm_def ks_def n_def upd g'_def)
  moreover have "map fst (storage g') = [a..<next g']" by (simp add: g'_def n_def)
  moreover have "next g' = a + n" "storage g' = zip [a..<a + n] (map snd (storage g))" "accumulator g' = []"
      "linesHorizontal g' = map (\<lambda>l. l\<lparr>line := map f (line l)\<rparr>) (linesHorizontal g)"
      "linesVertical g' = map (\<lambda>l. l\<lparr>line := map f (line l)\<rparr>) (linesVertical g)"
    by (simp_all add: g'_def)
  ultimately show ?thesis
    using bij same unfolding ks(3) by (intro exI [of _ f] exI [of _ g'] conjI) metis+
qed

text \<open>
  C12: the copy constructor of \<open>PointGrid\<close> is a deep copy. For a grid whose lines only have points of
  its storage there is a one-to-one map of the old addresses to the new ones, the points at
  corresponding addresses are equal, the lines have the corresponding addresses in the same order
  and the same subgrids, and the accumulator is not copied.
\<close>
theorem PointGrid_copy_correct:
  assumes d: "distinct (map fst (storage g))"
    and ls: "\<forall>l \<in> set (linesHorizontal g) \<union> set (linesVertical g). set (line l) \<subseteq> fst ` set (storage g)"
  shows "\<exists>f g'. PointGrid_copy a g = Inr g' \<and> bij_betw f (fst ` set (storage g)) {a..<next g'}
    \<and> (\<forall>p \<in> fst ` set (storage g). map_of (storage g') (f p) = map_of (storage g) p)
    \<and> linesHorizontal g' = map (\<lambda>l. l\<lparr>line := map f (line l)\<rparr>) (linesHorizontal g)
    \<and> linesVertical g' = map (\<lambda>l. l\<lparr>line := map f (line l)\<rparr>) (linesVertical g)
    \<and> accumulator g' = []"
  using PointGrid_copy_ok [OF assms] by blast

definition two_points :: PointGrid where
  "two_points = \<lparr>accumulator = [3], storage = [(3, Point_ctor (Fin 1, Fin 2)), (5, Point_ctor (Fin 1, Fin 9))],
     linesHorizontal = [\<lparr>subgrid = SUBGRID_B, line = [5, 3]\<rparr>], linesVertical = [], next = 6\<rparr>"

theorem PointGrid_copy_correct_witness:
  "\<exists>g'. PointGrid_copy 6 two_points = Inr g' \<and> accumulator g' = []"
proof -
  have "distinct (map fst (storage two_points))"
    and "\<forall>l \<in> set (linesHorizontal two_points) \<union> set (linesVertical two_points).
      set (line l) \<subseteq> fst ` set (storage two_points)"
    by (simp_all add: two_points_def)
  then show ?thesis using PointGrid_copy_correct [of two_points 6] by blast
qed

subsection \<open>Assigning points\<close>

text \<open>
  Assigning a point to another one never returns: the operator swaps through itself.\<close>

lemma Point_assign_forever:
  assumes "this < sp" and "point < sp" and "this \<noteq> point"
  shows "Point_assign this point sp mem = None"
proof (rule ccontr)
  assume "Point_assign this point sp mem \<noteq> None"
  then obtain r where r: "Point_assign this point sp mem = Some r" by blast
  have "this < sp \<longrightarrow> point < sp \<longrightarrow> this = point"
  proof (rule Point_assign.raw_induct [OF _ r], intro impI, rule ccontr)
    fix f :: "ptr \<Rightarrow> ptr \<Rightarrow> ptr \<Rightarrow> (ptr \<Rightarrow> Point) \<Rightarrow> (ptr \<Rightarrow> Point) option" and this point sp mem r
    assume IH: "\<And>a b c d y. f a b c d = Some y \<Longrightarrow> a < c \<longrightarrow> b < c \<longrightarrow> a = b"
      and less: "this < sp" "point < sp" and diff: "this \<noteq> point"
      and body: "(if this \<noteq> point then
        (let tmp = sp; mem1 = mem(tmp := Point_copy (mem point));
             swapped = sp + 1; mem2 = mem1 (swapped := Point_copy (mem1 tmp))
         in Option.bind (f tmp this (sp + 2) mem2) (\<lambda>mem3. f this swapped (sp + 2) mem3))
       else Some mem) = Some r"
    let ?m = "mem(sp := Point_copy (mem point), sp + 1 := Point_copy (Point_copy (mem point)))"
    have "f sp this (sp + 2) ?m \<noteq> None" using body diff by (auto simp: Let_def Option.bind_eq_Some_conv)
    then obtain mem3 where "f sp this (sp + 2) ?m = Some mem3" by blast
    from IH [OF this] less(1) have "sp = this" by simp
    then show False using less(1) by simp
  qed
  then show False using assms by simp
qed

lemma Point_assign_forever_example:
  "Point_assign 0 1 2 (\<lambda>_. Point_ctor (Fin 3, Fin 4)) = None"
  using Point_assign_forever [of 0 2 1] by simp

lemma Point_assign_same: "Point_assign this this sp mem = Some mem"
  by (simp add: Point_assign.simps)

end
