(* ===== verification/Grid_Finalize.thy ===== *)
theory Grid_Finalize
  imports Point_Grid
begin

text \<open>
  Correctness of \<open>PointGrid::finalize\<close>: each of its phases returns, and what the finished grid
  satisfies.
\<close>

definition pos_of :: "PointStore \<Rightarrow> ptr \<Rightarrow> fl \<times> fl" where
  "pos_of s p = position (the (map_of s p))"

definition sorted_on :: "(fl \<times> fl \<Rightarrow> fl) \<Rightarrow> PointStore \<Rightarrow> ptr list \<Rightarrow> bool" where
  "sorted_on c s ps \<longleftrightarrow> sorted_wrt (\<lambda>p q. fle (c (pos_of s p)) (c (pos_of s q))) ps"

lemma points_ok_Cons: "points_ok s (p # ps) \<longleftrightarrow> points_ok s [p] \<and> points_ok s ps"
  by (auto simp: points_ok_def)

lemma points_ok_subset: "points_ok s ps \<Longrightarrow> set qs \<subseteq> set ps \<Longrightarrow> points_ok s qs"
  by (auto simp: points_ok_def)

lemma getPosition_ok: "points_ok s ps \<Longrightarrow> p \<in> set ps \<Longrightarrow> getPosition s p = Inr (pos_of s p)"
  by (auto simp: points_ok_def getPosition_def deref_def pos_of_def)

lemma pos_of_coord:
  "points_ok s ps \<Longrightarrow> p \<in> set ps \<Longrightarrow> c = fst \<or> c = snd \<Longrightarrow> coord (c (pos_of s p))"
  by (auto simp: points_ok_def pos_of_def)

subsection \<open>Sorting\<close>

lemma mset_insert_by: "mset (insert_by e fs) = add_mset e (mset fs)"
  by (induction fs) auto

lemma sorted_insert_by:
  assumes "sorted_wrt (\<lambda>a b. fle (fst a) (fst b)) fs" and "NaN \<notin> fst ` set (e # fs)"
  shows "sorted_wrt (\<lambda>a b. fle (fst a) (fst b)) (insert_by e fs)"
  using assms
proof (induction fs)
  case Nil
  then show ?case by simp
next
  case (Cons f fs)
  have set: "set (insert_by e fs) = insert e (set fs)"
    using mset_insert_by by (metis set_mset_add_mset_insert set_mset_mset)
  show ?case
  proof (cases "flt (fst f) (fst e)")
    case True
    then show ?thesis using Cons set by (auto simp: fle_def)
  next
    case False
    then have "fle (fst e) (fst f)" using Cons.prems not_flt_iff [of "fst f" "fst e"] by auto
    then show ?thesis using Cons.prems False by (auto intro: fle_trans)
  qed
qed

lemma mset_sort_keyed: "mset (sort_keyed es) = mset es"
  by (induction es) (simp_all add: sort_keyed_def mset_insert_by)

lemma sorted_sort_keyed:
  "NaN \<notin> fst ` set es \<Longrightarrow> sorted_wrt (\<lambda>a b. fle (fst a) (fst b)) (sort_keyed es)"
proof (induction es)
  case Nil
  then show ?case by (simp add: sort_keyed_def)
next
  case (Cons e es)
  have "set (sort_keyed es) = set es" using mset_sort_keyed by (metis set_mset_mset)
  then show ?case using Cons sorted_insert_by [of "sort_keyed es" e]
    by (simp add: sort_keyed_def)
qed

lemma keyed_points_ok:
  assumes "points_ok s ps"
  shows "keyed_points c s ps = Inr (map (\<lambda>p. (c (pos_of s p), p)) ps)"
proof -
  have "rfold (\<lambda>p acc. rbind (getPosition s p) (\<lambda>pos. Inr (acc @ [(c pos, p)]))) ps acc
      = Inr (acc @ map (\<lambda>p. (c (pos_of s p), p)) ps)" for acc
    using assms
  proof (induction ps arbitrary: acc)
    case Nil
    then show ?case by simp
  next
    case (Cons p ps)
    then show ?case
      using getPosition_ok [OF Cons.prems, of p] by (simp add: points_ok_Cons [of s p ps])
  qed
  then show ?thesis by (simp add: keyed_points_def)
qed

lemma sort_line_ok:
  assumes "points_ok s (line l)" and c: "c = fst \<or> c = snd"
  shows "\<exists>l'. sort_line c s l = Inr l' \<and> subgrid l' = subgrid l \<and> mset (line l') = mset (line l)
      \<and> sorted_on c s (line l')"
proof -
  let ?es = "map (\<lambda>p. (c (pos_of s p), p)) (line l)"
  let ?ss = "sort_keyed ?es"
  have nan: "NaN \<notin> fst ` set ?es"
    using pos_of_coord [OF assms(1) _ c] coord_not_NaN by force
  have set: "set ?ss = set ?es" using mset_sort_keyed by (metis set_mset_mset)
  have mset: "mset (map snd ?ss) = mset (line l)"
    unfolding mset_map mset_sort_keyed by (simp add: comp_def flip: mset_map)
  have "sorted_wrt (\<lambda>p q. fle (c (pos_of s p)) (c (pos_of s q))) (map snd ?ss)"
    unfolding sorted_wrt_map
    by (rule sorted_wrt_mono_rel [OF _ sorted_sort_keyed [OF nan]]) (use set in auto)
  then show ?thesis
    using nan mset by (auto simp: sort_line_def keyed_points_ok [OF assms(1)] sorted_on_def image_comp)
qed

definition sorted_entry :: "(fl \<times> fl \<Rightarrow> fl) \<Rightarrow> PointStore \<Rightarrow> fl \<times> Line \<Rightarrow> fl \<times> Line \<Rightarrow> bool" where
  "sorted_entry c s e e' \<longleftrightarrow> fst e' = fst e \<and> mset (line (snd e')) = mset (line (snd e))
      \<and> sorted_on c s (line (snd e'))"

lemma sort_lines_ok:
  assumes "\<forall>e \<in> set m. points_ok s (line (snd e))" and c: "c = fst \<or> c = snd"
  shows "\<exists>m'. sort_lines c s m = Inr m' \<and> list_all2 (sorted_entry c s) m m'"
proof -
  have "\<exists>m'. rfold (\<lambda>entry acc. rbind (sort_line c s (snd entry)) (\<lambda>l. Inr (acc @ [(fst entry, l)]))) m acc
      = Inr (acc @ m') \<and> list_all2 (sorted_entry c s) m m'" for acc
    using assms
  proof (induction m arbitrary: acc)
    case Nil
    then show ?case by simp
  next
    case (Cons e m)
    obtain l where l: "sort_line c s (snd e) = Inr l" "sorted_entry c s e (fst e, l)"
      using sort_line_ok [of s "snd e" c] Cons.prems by (auto simp: sorted_entry_def)
    obtain m' where "rfold (\<lambda>entry acc. rbind (sort_line c s (snd entry)) (\<lambda>l. Inr (acc @ [(fst entry, l)]))) m
        (acc @ [(fst e, l)]) = Inr ((acc @ [(fst e, l)]) @ m')" "list_all2 (sorted_entry c s) m m'"
      using Cons.IH [of "acc @ [(fst e, l)]"] Cons.prems by auto
    then show ?case using l by (intro exI [of _ "(fst e, l) # m'"]) simp
  qed
  from this [of "[]"] show ?thesis by (auto simp: sort_lines_def)
qed

subsection \<open>Re-keying\<close>

definition key_points :: "TmpLineMap \<Rightarrow> ptr set" where
  "key_points m = (\<Union>e \<in> set m. set (line (snd e)))"

lemma set_map_points [simp]: "set_mset (map_points m) = key_points m"
  by (auto simp: map_points_def key_points_def)

lemma key_points_Nil [simp]: "key_points [] = {}"
  by (simp add: key_points_def)

lemma key_points_mono:
  "map_points m' \<subseteq># map_points m \<Longrightarrow> key_points m' \<subseteq> key_points m"
  "map_points m' \<subseteq># map_points m + mset ps \<Longrightarrow> key_points m' \<subseteq> key_points m \<union> set ps"
  by (drule set_mset_mono, simp)+

lemma points_ok_key: "points_ok s ps \<Longrightarrow> key_points m \<subseteq> set ps \<Longrightarrow> \<forall>e \<in> set m. points_ok s (line (snd e))"
  by (auto simp: points_ok_def key_points_def)

lemma lines_ok_emplace:
  assumes "lines_ok m" "coord k" "line l \<noteq> []"
  shows "lines_ok (snd (map_emplace m k l))"
proof (cases "k \<in> fst ` set m")
  case False
  have "keys_ok (put m k l)"
    using assms map_emplace_new [of m k l] False coord_not_NaN by (auto simp: lines_ok_def put_def)
  then show ?thesis
    using assms False coord_not_NaN [OF assms(2)]
    by (simp add: map_emplace_cases lines_ok_def fmap_coords_def set_put)
qed (use assms coord_not_NaN in \<open>auto simp: map_emplace_cases lines_ok_def\<close>)

lemma rekey_ok:
  assumes "\<forall>e \<in> set m. line (snd e) \<noteq> [] \<and> points_ok s (line (snd e))" and c: "c = fst \<or> c = snd"
  shows "\<exists>m'. rekey c s m = Inr m' \<and> lines_ok m' \<and> (m \<noteq> [] \<longrightarrow> m' \<noteq> [])
      \<and> map_points m' \<subseteq># map_points m"
proof -
  have "\<exists>m'. rfold (rekey_step c s) m tmp = Inr m' \<and> lines_ok m' \<and> (m \<noteq> [] \<or> tmp \<noteq> [] \<longrightarrow> m' \<noteq> [])
      \<and> map_points m' \<subseteq># map_points tmp + map_points m" if "lines_ok tmp" for tmp
    using assms(1) that
  proof (induction m arbitrary: tmp)
    case Nil
    then show ?case by simp
  next
    case (Cons e m)
    obtain p ps where ps: "line (snd e) = p # ps" using Cons.prems by (cases "line (snd e)") auto
    let ?k = "c (pos_of s p)"
    let ?t = "snd (map_emplace tmp ?k (snd e))"
    have k: "coord ?k" and g: "getPosition s p = Inr (pos_of s p)"
      using Cons.prems ps pos_of_coord [OF _ _ c] getPosition_ok by (metis list.set_intros(1))+
    have t: "lines_ok ?t" using lines_ok_emplace Cons.prems k by simp
    have tn: "?t \<noteq> []" and tp: "map_points ?t \<subseteq># map_points tmp + mset (line (snd e))"
      using Cons.prems(2) k coord_not_NaN
      by (auto simp: map_emplace_cases lines_ok_def mset_put map_points_mset)
    obtain m' where m': "rfold (rekey_step c s) m ?t = Inr m'" "lines_ok m'" "m' \<noteq> []"
        "map_points m' \<subseteq># map_points ?t + map_points m"
      using Cons.IH [of ?t] Cons.prems t tn by auto
    have "map_points ?t + map_points m \<subseteq># map_points tmp + map_points (e # m)"
      using tp by (cases e) (simp add: ac_simps)
    then have "map_points m' \<subseteq># map_points tmp + map_points (e # m)"
      using m'(4) by (rule subset_mset.order_trans [rotated])
    moreover have "rekey_step c s e tmp = Inr ?t"
      using ps g k coord_not_NaN by (simp add: rekey_step_def)
    ultimately show ?case using m' by simp
  qed
  from this [of "[]"] show ?thesis by (auto simp: rekey_def)
qed

subsection \<open>The horizontal lines\<close>

lemma below_limit: "coord y \<Longrightarrow> flt y (fadd binary32 y CONSTRUCT_LIM)"
proof -
  assume "coord y"
  then obtain x where x: "y = Fin x" "\<bar>x\<bar> \<le> 2 ^ 20" by (auto simp: coord_def)
  define n where "n = \<lfloor>x\<rfloor> + 20"
  have n: "of_int n \<le> x + 20" "x < of_int n" by (simp_all add: n_def) linarith+
  have "of_int \<bar>n\<bar> < (16777216 :: rat)" using n x(2) by (simp add: abs_le_iff abs_less_iff)
  then have "rnd binary32 (of_int n) = Fin (of_int n)" by (intro rnd32_int) simp
  then have "fle (Fin (of_int n)) (rnd binary32 (x + 20))" using r32.r_mono [OF n(1)] by simp
  then show ?thesis using n(2) unfolding x(1) CONSTRUCT_LIM_def fadd.simps
    by (auto intro: flt_fle_trans [of _ "Fin (of_int n)"])
qed

lemma construct_loop_ok:
  assumes "points_ok s ps" and "lines_ok m" and "\<exists>p \<in> set ps. \<not> flt (snd (pos_of s p)) limit"
  shows "\<exists>bef rest m'. construct_loop s limit ps m = Inr (rest, m') \<and> ps = bef @ rest
      \<and> lines_ok m' \<and> map_points m' \<subseteq># map_points m + mset bef
      \<and> (flt (snd (pos_of s (hd ps))) limit \<or> m \<noteq> [] \<longrightarrow> m' \<noteq> [])"
  using assms
proof (induction ps arbitrary: m)
  case Nil
  then show ?case by simp
next
  case (Cons p ps)
  note g = getPosition_ok [OF Cons.prems(1), of p]
  show ?case
  proof (cases "flt (snd (pos_of s p)) limit")
    case False
    then show ?thesis using g Cons.prems by (intro exI [of _ "[]"] exI [of _ "p # ps"] exI [of _ m]) auto
  next
    case True
    have k: "coord (fst (pos_of s p))" using pos_of_coord [OF Cons.prems(1), of p fst] by simp
    obtain m1 where m1: "mapAddConstruct m (fst (pos_of s p)) p = Inr m1"
      using constructing.total [OF Cons.prems(2) _ k] by auto
    note i = constructing.inserts [OF Cons.prems(2) TrueI k m1]
    have "\<exists>p \<in> set ps. \<not> flt (snd (pos_of s p)) limit" using Cons.prems(3) True by auto
    then obtain bef rest m' where r: "construct_loop s limit ps m1 = Inr (rest, m')" "ps = bef @ rest"
        "lines_ok m'" "map_points m' \<subseteq># map_points m1 + mset bef" "m' \<noteq> []"
      using Cons.IH [of m1] Cons.prems(1) i by (auto simp: points_ok_Cons [of s p ps])
    have "map_points m1 + mset bef \<subseteq># map_points m + mset (p # bef)" using i by auto
    then have "map_points m' \<subseteq># map_points m + mset (p # bef)"
      using r(4) by (rule subset_mset.order_trans [rotated])
    then show ?thesis
      using g True m1 r by (intro exI [of _ "p # bef"] exI [of _ rest] exI [of _ m']) simp
  qed
qed

text \<open>A loop that finds no point far enough below its start reads past the end of the accumulator.\<close>

lemma construct_loop_overrun:
  assumes "points_ok s ps" and "lines_ok m" and "\<forall>p \<in> set ps. flt (snd (pos_of s p)) limit"
  shows "construct_loop s limit ps m = Inl OutOfBounds"
  using assms
proof (induction ps arbitrary: m)
  case Nil
  then show ?case by simp
next
  case (Cons p ps)
  have k: "coord (fst (pos_of s p))" using pos_of_coord [OF Cons.prems(1), of p fst] by simp
  obtain m1 where m1: "mapAddConstruct m (fst (pos_of s p)) p = Inr m1"
    using constructing.total [OF Cons.prems(2) _ k] by auto
  then show ?case
    using getPosition_ok [OF Cons.prems(1), of p] constructing.inserts [OF Cons.prems(2) TrueI k m1]
      Cons by (auto simp: points_ok_Cons [of s p ps])
qed

definition parity_subgrid :: "nat \<Rightarrow> SubGrid" where
  "parity_subgrid i = (if even i then SUBGRID_A else SUBGRID_B)"

lemma foldl_append_horizontal:
  "foldl append_horizontal ls m =
     ls @ map (\<lambda>(i, e). (snd e)\<lparr>subgrid := parity_subgrid i\<rparr>) (enumerate (length ls) m)"
  by (induction m arbitrary: ls) (auto simp: append_horizontal_def parity_subgrid_def)

lemma line_points_append_horizontal:
  "line_points (foldl append_horizontal ls m) = line_points ls \<union> key_points m"
  by (induction m arbitrary: ls) (auto simp: append_horizontal_def line_points_def key_points_def)

lemma length_append_horizontal [simp]:
  "length (foldl append_horizontal ls m) = length ls + length m"
  by (simp add: foldl_append_horizontal)

lemma line_points_Nil [simp]: "line_points [] = {}"
  by (simp add: line_points_def)

text \<open>A grid between its construction and \<open>finalize\<close>, and the point that ends the first loop.\<close>

definition building :: "PointGrid \<Rightarrow> bool" where
  "building g \<longleftrightarrow> points_ok (storage g) (accumulator g)
      \<and> linesHorizontal g = [] \<and> linesVertical g = []"

definition start_limit :: "PointGrid \<Rightarrow> fl" where
  "start_limit g = fadd binary32
     (snd (pos_of (storage g) (accumulator g ! (length (accumulator g) div 3)))) CONSTRUCT_LIM"

definition stops :: "PointGrid \<Rightarrow> bool" where
  "stops g \<longleftrightarrow> (\<exists>p \<in> set (drop (length (accumulator g) div 3) (accumulator g)).
      \<not> flt (snd (pos_of (storage g) p)) (start_limit g))"

definition horizontal_ok :: "PointStore \<Rightarrow> ptr set \<Rightarrow> LineList \<Rightarrow> bool" where
  "horizontal_ok s ps h \<longleftrightarrow> h \<noteq> [] \<and> line_points h \<subseteq> ps
     \<and> (\<forall>i < length h. line (h ! i) \<noteq> [] \<and> sorted_on snd s (line (h ! i))
          \<and> subgrid (h ! i) = parity_subgrid i)"

lemma sorted_entries:
  assumes "list_all2 (sorted_entry c s) m m'"
  shows "key_points m' = key_points m" and "length m' = length m" and "map fst m' = map fst m"
    and "\<forall>i < length m. sorted_on c s (line (snd (m' ! i))) \<and> (line (snd (m' ! i)) = [] \<longleftrightarrow> line (snd (m ! i)) = [])"
  using assms
  by (induction rule: list_all2_induct)
    (auto simp: sorted_entry_def key_points_def nth_Cons split: nat.split dest: mset_eq_setD)

lemma construct_horizontal_ok:
  assumes g: "building g" and stop: "stops g"
  shows "\<exists>h. construct_horizontal g = Inr h \<and> horizontal_ok (storage g) (set (accumulator g)) h"
proof -
  let ?acc = "accumulator g" and ?s = "storage g"
  let ?cs = "length ?acc div 3" and ?m5 = "\<lambda>m. foldl append_horizontal [] m"
  have ok: "points_ok ?s ?acc" and H: "linesHorizontal g = []" using g by (auto simp: building_def)
  have sub: "points_ok ?s ps" if "set ps \<subseteq> set ?acc" for ps using points_ok_subset [OF ok that] .
  have cs: "?cs < length ?acc" using stop by (cases ?acc) (auto simp: stops_def)
  then have p0: "?acc ! ?cs \<in> set ?acc" "hd (drop ?cs ?acc) = ?acc ! ?cs"
    by (simp_all add: hd_drop_conv_nth)
  have "flt (snd (pos_of ?s (hd (drop ?cs ?acc)))) (start_limit g)"
    unfolding start_limit_def p0(2) using pos_of_coord [OF ok p0(1), of snd] by (simp add: below_limit)
  then obtain bef rest m1 where m1: "construct_loop ?s (start_limit g) (drop ?cs ?acc) [] = Inr (rest, m1)"
      "drop ?cs ?acc = bef @ rest" "lines_ok m1" "m1 \<noteq> []" "map_points m1 \<subseteq># map_points [] + mset bef"
    using construct_loop_ok [OF sub [of "drop ?cs ?acc"] lines_ok_Nil, of "start_limit g"] stop
    unfolding stops_def set_drop_subset by (metis set_drop_subset)
  have br: "set bef \<subseteq> set ?acc" "set rest \<subseteq> set ?acc"
    using m1(2) set_drop_subset [of ?cs ?acc] by auto
  obtain m2 where m2: "rfold (insert_with mapAdd fst ?s) rest m1 = Inr m2" "lines_ok m2" "m2 \<noteq> []"
      "map_points m2 \<subseteq># map_points m1 + mset rest"
    using adding.insert_all_ok [OF sub [OF br(2)] _ m1(3,4), of fst] m1(4) by auto
  have k2: "key_points m2 \<subseteq> set ?acc"
    using key_points_mono(2) [OF m1(5)] key_points_mono(2) [OF m2(4)] br key_points_Nil by blast
  obtain m3 where m3: "rekey fst ?s m2 = Inr m3" "lines_ok m3" "m3 \<noteq> []" "map_points m3 \<subseteq># map_points m2"
    using rekey_ok [of m2 ?s fst] m2(2,3) points_ok_key [OF ok k2] by (auto simp: lines_ok_def)
  obtain m4 where m4: "rfold (insert_with mapAdd fst ?s) (rev (take (Suc ?cs) ?acc)) m3 = Inr m4"
      "lines_ok m4" "m4 \<noteq> []" "map_points m4 \<subseteq># map_points m3 + mset (rev (take (Suc ?cs) ?acc))"
    using adding.insert_all_ok [OF sub [of "rev (take (Suc ?cs) ?acc)"] _ m3(2,3), of fst] m3(3)
    by (auto simp: set_take_subset)
  have k4: "key_points m4 \<subseteq> set ?acc"
    using key_points_mono(2) [OF m4(4)] key_points_mono(1) [OF m3(4)] k2 set_take_subset [of "Suc ?cs" ?acc]
    by auto
  obtain m5 where m5: "sort_lines snd ?s m4 = Inr m5" "list_all2 (sorted_entry snd ?s) m4 m5"
    using sort_lines_ok [OF points_ok_key [OF ok k4], of snd] by auto
  have "construct_horizontal g = Inr (foldl append_horizontal [] m5)"
    using cs p0(1) m1(1) m2(1) m3(1) m4(1) m5(1) H getPosition_ok [OF ok p0(1)]
    by (simp add: construct_horizontal_def start_limit_def Let_def)
  moreover have "horizontal_ok ?s (set ?acc) (foldl append_horizontal [] m5)"
    unfolding horizontal_ok_def length_0_conv [symmetric, of "foldl _ _ _"]
      line_points_append_horizontal length_append_horizontal
    using sorted_entries [OF m5(2)] m4(2,3) k4
    by (simp add: lines_ok_def nth_enumerate_eq) (simp add: foldl_append_horizontal nth_enumerate_eq)
  ultimately show ?thesis by blast
qed

lemma construct_horizontal_overrun:
  assumes g: "building g" and "\<not> stops g"
  shows "construct_horizontal g = Inl OutOfBounds"
proof -
  let ?acc = "accumulator g" and ?cs = "length (accumulator g) div 3"
  have ok: "points_ok (storage g) ?acc" using g by (auto simp: building_def)
  show ?thesis
  proof (cases "?acc = []")
    case True
    then show ?thesis by (simp add: construct_horizontal_def ld_def)
  next
    case False
    then have cs: "?cs < length ?acc" by (cases ?acc) auto
    have "construct_loop (storage g) (start_limit g) (drop ?cs ?acc) [] = Inl OutOfBounds"
      using assms(2) points_ok_subset [OF ok set_drop_subset]
      by (intro construct_loop_overrun) (auto simp: stops_def)
    then show ?thesis
      using cs getPosition_ok [OF ok nth_mem [OF cs]]
      by (simp add: construct_horizontal_def start_limit_def Let_def)
  qed
qed

subsection \<open>The vertical lines\<close>

definition row_points :: "(nat \<Rightarrow> bool) \<Rightarrow> LineList \<Rightarrow> ptr set" where
  "row_points P ls = (\<Union>i \<in> {i. i < length ls \<and> P i}. set (line (ls ! i)))"

lemma row_points_nth: "i < length ls \<Longrightarrow> P i \<Longrightarrow> set (line (ls ! i)) \<subseteq> row_points P ls"
  by (auto simp: row_points_def)

lemma set_loop_indices:
  "set (loop_indices a b) = (if b > a then {a..<b} else {b<..a})"
  by (auto simp: loop_indices_def)

context line_inserter
begin

definition rows_inserted :: "LineList \<Rightarrow> int list \<Rightarrow> TmpLineMap \<times> TmpLineMap \<Rightarrow> TmpLineMap \<times> TmpLineMap \<Rightarrow> bool" where
  "rows_inserted ls is ms ms' \<longleftrightarrow> lines_ok (fst ms') \<and> lines_ok (snd ms')
     \<and> pre (fst ms') \<and> pre (snd ms')
     \<and> (fst ms \<noteq> [] \<or> (\<exists>i \<in> set is. even i) \<longrightarrow> fst ms' \<noteq> [])
     \<and> (snd ms \<noteq> [] \<or> (\<exists>i \<in> set is. odd i) \<longrightarrow> snd ms' \<noteq> [])
     \<and> key_points (fst ms') \<subseteq> key_points (fst ms) \<union> row_points even ls
     \<and> key_points (snd ms') \<subseteq> key_points (snd ms) \<union> row_points odd ls"

lemma vertical_step_ok:
  assumes i: "0 \<le> i" "nat i < length ls" and ls: "\<forall>l \<in> set ls. line l \<noteq> [] \<and> points_ok s (line l)"
    and c: "c = fst \<or> c = snd" and ms: "lines_ok (fst ms)" "lines_ok (snd ms)" "pre (fst ms)" "pre (snd ms)"
  shows "\<exists>ms'. vertical_step ls (insert_with f c s) i ms = Inr ms' \<and> rows_inserted ls [i] ms ms'"
proof -
  have l: "ld ls i = Inr (ls ! nat i)" "line (ls ! nat i) \<noteq> []" "points_ok s (line (ls ! nat i))"
    using i ls by (auto simp: ld_def)
  show ?thesis
  proof (cases "odd i")
    case True
    obtain m' where m': "rfold (insert_with f c s) (line (ls ! nat i)) (snd ms) = Inr m'" "lines_ok m'"
        "m' \<noteq> []" "map_points m' \<subseteq># map_points (snd ms) + mset (line (ls ! nat i))"
      using insert_all_ok [OF l(3) c ms(2,4)] l(2) by auto
    have "odd (nat i)" using True i by (simp add: even_nat_iff)
    then show ?thesis
      using m' True l(1) ms pre_nonempty key_points_mono(2) [OF m'(4)] row_points_nth [OF i(2), of odd]
      by (auto simp: vertical_step_def rows_inserted_def)
  next
    case False
    obtain m' where m': "rfold (insert_with f c s) (line (ls ! nat i)) (fst ms) = Inr m'" "lines_ok m'"
        "m' \<noteq> []" "map_points m' \<subseteq># map_points (fst ms) + mset (line (ls ! nat i))"
      using insert_all_ok [OF l(3) c ms(1,3)] l(2) by auto
    have "even (nat i)" using False i by (simp add: even_nat_iff)
    then show ?thesis
      using m' False l(1) ms pre_nonempty key_points_mono(2) [OF m'(4)] row_points_nth [OF i(2), of even]
      by (auto simp: vertical_step_def rows_inserted_def)
  qed
qed

lemma vertical_rows_ok:
  assumes "\<forall>i \<in> set is. 0 \<le> i \<and> nat i < length ls" and ls: "\<forall>l \<in> set ls. line l \<noteq> [] \<and> points_ok s (line l)"
    and c: "c = fst \<or> c = snd" and "lines_ok (fst ms)" "lines_ok (snd ms)" "pre (fst ms)" "pre (snd ms)"
  shows "\<exists>ms'. rfold (vertical_step ls (insert_with f c s)) is ms = Inr ms' \<and> rows_inserted ls is ms ms'"
  using assms(1,4-)
proof (induction "is" arbitrary: ms)
  case Nil
  then show ?case by (simp add: rows_inserted_def)
next
  case (Cons i "is")
  obtain ms1 where 1: "vertical_step ls (insert_with f c s) i ms = Inr ms1" "rows_inserted ls [i] ms ms1"
    using vertical_step_ok [OF _ _ ls c Cons.prems(2-5), of i] Cons.prems(1) by auto
  have "lines_ok (fst ms1)" "lines_ok (snd ms1)" "pre (fst ms1)" "pre (snd ms1)"
    using 1(2) by (simp_all add: rows_inserted_def)
  from Cons.IH [OF _ this] obtain ms' where 2: "rfold (vertical_step ls (insert_with f c s)) is ms1 = Inr ms'"
      "rows_inserted ls is ms1 ms'"
    using Cons.prems(1) by auto
  have "rows_inserted ls (i # is) ms ms'"
    using 1(2) 2(2) unfolding rows_inserted_def by auto
  then show ?case using 1 2 by simp
qed

end

definition vertical_ok :: "PointStore \<Rightarrow> LineList \<Rightarrow> LineList \<Rightarrow> bool" where
  "vertical_ok s h v \<longleftrightarrow> v \<noteq> [] \<and> (\<forall>l \<in> set v. line l \<noteq> [] \<and> sorted_on fst s (line l)
     \<and> set (line l) \<subseteq> row_points (\<lambda>i. parity_subgrid i = subgrid l) h)"

lemma set_merge_lines:
  "set (merge_lines a b) =
     (\<lambda>e. (snd e)\<lparr>subgrid := SUBGRID_A\<rparr>) ` set a \<union> (\<lambda>e. (snd e)\<lparr>subgrid := SUBGRID_B\<rparr>) ` set b"
  by (induction a b rule: merge_lines.induct) auto

lemma row_points_subgrid:
  "row_points (\<lambda>i. parity_subgrid i = SUBGRID_A) h = row_points even h"
  "row_points (\<lambda>i. parity_subgrid i = SUBGRID_B) h = row_points odd h"
  by (auto simp: row_points_def parity_subgrid_def split: if_splits)

lemma merged_ok:
  assumes "list_all2 (sorted_entry fst s) a a'" "list_all2 (sorted_entry fst s) b b'"
    and "lines_ok a" "lines_ok b" "a \<noteq> []"
    and "key_points a \<subseteq> row_points even h" "key_points b \<subseteq> row_points odd h"
  shows "vertical_ok s h (merge_lines a' b')"
proof -
  have e: "line (snd e) \<noteq> [] \<and> sorted_on fst s (line (snd e)) \<and> set (line (snd e)) \<subseteq> key_points m"
    if "list_all2 (sorted_entry fst s) m m'" "lines_ok m" "e \<in> set m'" for m m' e
    using sorted_entries [OF that(1)] that(2,3) unfolding lines_ok_def
    by (metis (no_types, lifting) UN_upper in_set_conv_nth key_points_def nth_mem)
  have "a' \<noteq> []" using assms(1,5) by auto
  moreover have "merge_lines a' b' \<noteq> [] \<longleftrightarrow> a' \<noteq> [] \<or> b' \<noteq> []"
    using set_merge_lines [of a' b'] by (metis image_is_empty set_empty Un_empty)
  moreover have "line (snd e) \<noteq> [] \<and> sorted_on fst s (line (snd e)) \<and> set (line (snd e)) \<subseteq> row_points even h"
    if "e \<in> set a'" for e using e [OF assms(1,3) that] assms(6) by blast
  moreover have "line (snd e) \<noteq> [] \<and> sorted_on fst s (line (snd e)) \<and> set (line (snd e)) \<subseteq> row_points odd h"
    if "e \<in> set b'" for e using e [OF assms(2,4) that] assms(7) by blast
  ultimately show ?thesis
    unfolding vertical_ok_def set_merge_lines by (simp add: row_points_subgrid ball_Un)
qed

lemma row_points_subset: "row_points P h \<subseteq> line_points h"
  by (force simp: row_points_def line_points_def)

lemma both_parities: "(\<exists>i \<in> {a..<a + 6 :: int}. even i) \<and> (\<exists>i \<in> {a..<a + 6}. odd i)"
proof -
  have "a \<in> {a..<a + 6}" "a + 1 \<in> {a..<a + 6}" "even (a + 1) \<longleftrightarrow> odd a" by auto
  then show ?thesis by blast
qed

lemma construct_vertical_ok:
  assumes s: "points_ok s ps" and h: "horizontal_ok s (set ps) h" and n: "8 \<le> length h"
  shows "\<exists>v. construct_vertical s h = Inr v \<and> vertical_ok s h v"
proof -
  let ?cs = "int (length h div 3)"
  have ls: "\<forall>l \<in> set h. line l \<noteq> [] \<and> points_ok s (line l)"
    using h by (auto simp: horizontal_ok_def line_points_def in_set_conv_nth intro: points_ok_subset [OF s])
  have n6: "?cs + 6 \<le> int (length h)" using n by linarith
  have key: "points_ok s (line (snd e))" if "key_points m \<subseteq> row_points P h" "e \<in> set m" for m P e
  proof (rule points_ok_subset [OF s])
    show "set (line (snd e)) \<subseteq> set ps"
      using that row_points_subset [of P h] h by (auto simp: key_points_def horizontal_ok_def)
  qed
  have r: "\<forall>i \<in> set (loop_indices ?cs (?cs + 6)). 0 \<le> i \<and> nat i < length h"
    "\<forall>i \<in> set (loop_indices (?cs + 6) (int (length h))). 0 \<le> i \<and> nat i < length h"
    "\<forall>i \<in> set (loop_indices ?cs (- 1)). 0 \<le> i \<and> nat i < length h"
    using n6 by (auto simp: set_loop_indices)
  obtain ms1 where 1: "verticalLineConstructor h ?cs (?cs + 6) (insert_with mapAddConstruct snd s) ([], []) = Inr ms1"
      "constructing.rows_inserted h (loop_indices ?cs (?cs + 6)) ([], []) ms1"
    using constructing.vertical_rows_ok [OF r(1) ls, of snd "([], [])"]
    by (auto simp: verticalLineConstructor_def)
  have "(\<exists>i \<in> {?cs..<?cs + 6}. even i) \<and> (\<exists>i \<in> {?cs..<?cs + 6}. odd i)"
    by (rule both_parities)
  then have ne1: "fst ms1 \<noteq> []" "snd ms1 \<noteq> []"
    using 1(2) by (auto simp: constructing.rows_inserted_def set_loop_indices)
  obtain ms2 where 2: "verticalLineConstructor h (?cs + 6) (int (length h)) (insert_with mapAdd snd s) ms1 = Inr ms2"
      "adding.rows_inserted h (loop_indices (?cs + 6) (int (length h))) ms1 ms2"
    using adding.vertical_rows_ok [OF r(2) ls, of snd ms1] 1(2) ne1
    by (auto simp: verticalLineConstructor_def constructing.rows_inserted_def)
  have k2: "key_points (fst ms2) \<subseteq> row_points even h" "key_points (snd ms2) \<subseteq> row_points odd h"
    using 1(2) 2(2) by (auto simp: constructing.rows_inserted_def adding.rows_inserted_def)
  obtain a3 where a3: "rekey snd s (fst ms2) = Inr a3" "lines_ok a3" "a3 \<noteq> []" "map_points a3 \<subseteq># map_points (fst ms2)"
    using rekey_ok [of "fst ms2" s snd] 2(2) key [OF k2(1)]
    by (auto simp: adding.rows_inserted_def lines_ok_def)
  obtain b3 where b3: "rekey snd s (snd ms2) = Inr b3" "lines_ok b3" "b3 \<noteq> []" "map_points b3 \<subseteq># map_points (snd ms2)"
    using rekey_ok [of "snd ms2" s snd] 2(2) key [OF k2(2)]
    by (auto simp: adding.rows_inserted_def lines_ok_def)
  obtain ms4 where 4: "verticalLineConstructor h ?cs (- 1) (insert_with mapAdd snd s) (a3, b3) = Inr ms4"
      "adding.rows_inserted h (loop_indices ?cs (- 1)) (a3, b3) ms4"
    using adding.vertical_rows_ok [OF r(3) ls, of snd "(a3, b3)"] a3 b3
    by (auto simp: verticalLineConstructor_def)
  have k4: "key_points (fst ms4) \<subseteq> row_points even h" "key_points (snd ms4) \<subseteq> row_points odd h"
    using 4(2) k2 key_points_mono(1) [OF a3(4)] key_points_mono(1) [OF b3(4)]
    by (auto simp: adding.rows_inserted_def)
  obtain a5 where a5: "sort_lines fst s (fst ms4) = Inr a5" "list_all2 (sorted_entry fst s) (fst ms4) a5"
    using sort_lines_ok [of "fst ms4" s fst] key [OF k4(1)] by auto
  obtain b5 where b5: "sort_lines fst s (snd ms4) = Inr b5" "list_all2 (sorted_entry fst s) (snd ms4) b5"
    using sort_lines_ok [of "snd ms4" s fst] key [OF k4(2)] by auto
  have "construct_vertical s h = Inr (merge_lines a5 b5)"
    using 1(1) 2(1) a3(1) b3(1) 4(1) a5(1) b5(1)
    by (cases ms2, cases ms4) (simp add: construct_vertical_def Let_def)
  moreover have "vertical_ok s h (merge_lines a5 b5)"
    using merged_ok [OF a5(2) b5(2) _ _ _ k4] 4(2) a3(3) by (simp add: adding.rows_inserted_def)
  ultimately show ?thesis by blast
qed

lemma construct_vertical_overrun:
  assumes s: "points_ok s ps" and h: "horizontal_ok s (set ps) h" and n: "length h < 8"
  shows "construct_vertical s h = Inl OutOfBounds"
proof -
  let ?cs = "int (length h div 3)" and ?n = "int (length h)"
  have ls: "\<forall>l \<in> set h. line l \<noteq> [] \<and> points_ok s (line l)"
    using h by (auto simp: horizontal_ok_def line_points_def in_set_conv_nth intro: points_ok_subset [OF s])
  have split: "loop_indices ?cs (?cs + 6) = [?cs..?n - 1] @ ?n # [?n + 1..?cs + 5]"
  proof -
    have "?cs \<le> ?n" "?n \<le> ?cs + 5" using n by linarith+
    from upto_split3 [OF this] show ?thesis by (simp add: loop_indices_def add.commute)
  qed
  have "\<forall>i \<in> set [?cs..?n - 1]. 0 \<le> i \<and> nat i < length h" by auto
  from constructing.vertical_rows_ok [OF this ls, of snd "([], [])"]
  obtain ms where "rfold (vertical_step h (insert_with mapAddConstruct snd s)) [?cs..?n - 1] ([], []) = Inr ms"
    by auto
  then show ?thesis
    by (simp add: construct_vertical_def verticalLineConstructor_def split rfold_append vertical_step_def
        ld_def)
qed

subsection \<open>Removal of points and links\<close>

lemma prune_lines_eq:
  "prune_lines T h s = (map (\<lambda>l. l\<lparr>line := filter (\<lambda>p. p \<in> T) (line l)\<rparr>) h,
     filter (\<lambda>e. fst e \<notin> line_points h \<or> fst e \<in> T) s)"
  by (induction h arbitrary: s)
    (auto simp: prune_line_def Let_def line_points_def intro: filter_cong)

lemma map_of_filter_key:
  "map_of (filter (\<lambda>e. P (fst e)) s) p = (if P p then map_of s p else None)"
  by (induction s) auto

lemma write_point_ok:
  assumes "map_of s p \<noteq> None"
  shows "\<exists>s'. write_point f p s = Inr s'
    \<and> (\<forall>x. map_of s' x = (if x = p then map_option f (map_of s x) else map_of s x))"
proof -
  have "map_of (map (\<lambda>(a, q). (a, if a = p then f q else q)) s) x
      = (if x = p then map_option f (map_of s x) else map_of s x)" for x
    by (induction s) auto
  then show ?thesis using assms by (simp add: write_point_def)
qed

lemma write_points_ok:
  assumes "\<forall>p \<in> set ps. map_of s p \<noteq> None" and "\<And>q. f (f q) = f q"
  shows "\<exists>s'. rfold (write_point f) ps s = Inr s'
    \<and> (\<forall>x. map_of s' x = (if x \<in> set ps then map_option f (map_of s x) else map_of s x))"
  using assms(1)
proof (induction ps arbitrary: s)
  case Nil
  then show ?case by simp
next
  case (Cons p ps)
  obtain s1 where 1: "write_point f p s = Inr s1"
      "\<forall>x. map_of s1 x = (if x = p then map_option f (map_of s x) else map_of s x)"
    using write_point_ok [of s p f] Cons.prems by auto
  then have "\<forall>p \<in> set ps. map_of s1 p \<noteq> None" using Cons.prems by auto
  then obtain s' where "rfold (write_point f) ps s1 = Inr s'"
      "\<forall>x. map_of s' x = (if x \<in> set ps then map_option f (map_of s1 x) else map_of s1 x)"
    using Cons.IH [of s1] by auto
  then show ?case using 1 assms(2) by (auto simp: option.map_comp comp_def)
qed

text \<open>After the linking every point of a line carries the number of a line it is on.\<close>

lemma link_lines_ok:
  assumes "\<forall>p \<in> line_points ls. map_of s p \<noteq> None" and f: "\<And>i j q. f i (f j q) = f i q"
  shows "\<exists>s'. link_lines f i ls s = Inr s' \<and> (\<forall>x. if x \<in> line_points ls
      then \<exists>k < length ls. x \<in> set (line (ls ! k)) \<and> map_of s' x = map_option (f (i + k)) (map_of s x)
      else map_of s' x = map_of s x)"
  using assms(1)
proof (induction ls arbitrary: s i)
  case Nil
  then show ?case by simp
next
  case (Cons l ls)
  obtain s1 where 1: "rfold (write_point (f i)) (line l) s = Inr s1"
      "\<forall>x. map_of s1 x = (if x \<in> set (line l) then map_option (f i) (map_of s x) else map_of s x)"
    using write_points_ok [of "line l" s "f i"] Cons.prems f by (auto simp: line_points_def)
  then have "\<forall>p \<in> line_points ls. map_of s1 p \<noteq> None" using Cons.prems by (auto simp: line_points_def)
  from Cons.IH [OF this] obtain s' where 2: "link_lines f (Suc i) ls s1 = Inr s'"
      "\<forall>x. if x \<in> line_points ls then \<exists>k < length ls. x \<in> set (line (ls ! k))
        \<and> map_of s' x = map_option (f (Suc i + k)) (map_of s1 x) else map_of s' x = map_of s1 x"
    by blast
  have "if x \<in> line_points (l # ls) then \<exists>k < length (l # ls). x \<in> set (line ((l # ls) ! k))
      \<and> map_of s' x = map_option (f (i + k)) (map_of s x) else map_of s' x = map_of s x" for x
  proof (cases "x \<in> line_points ls")
    case True
    then obtain k where "k < length ls" "x \<in> set (line (ls ! k))"
        "map_of s' x = map_option (f (Suc i + k)) (map_of s1 x)" using 2(2) by meson
    then show ?thesis using True 1(2) f
      by (auto simp: line_points_def option.map_comp comp_def intro!: exI [of _ "Suc k"])
  next
    case False
    then show ?thesis using 1(2) 2(2) by (auto simp: line_points_def intro: exI [of _ 0])
  qed
  moreover have "link_lines f i (l # ls) s = Inr s'" using 1(1) 2(1) by simp
  ultimately show ?case by blast
qed

subsection \<open>The finished grid\<close>

text \<open>The storage holds exactly the points of the horizontal lines, which are those of the vertical
  lines; every point carries the number of a horizontal and of a vertical line it is on; the
  subgrids alternate over the horizontal lines; horizontal lines are sorted by y, vertical lines by
  x; every point of a vertical line is on a horizontal line of the same subgrid.\<close>

definition grid_ok :: "PointGrid \<Rightarrow> bool" where
  "grid_ok g \<longleftrightarrow>
     dom (map_of (storage g)) = line_points (linesHorizontal g)
   \<and> dom (map_of (storage g)) = line_points (linesVertical g)
   \<and> (\<forall>p q. map_of (storage g) p = Some q \<longrightarrow>
        horizontalLine q < length (linesHorizontal g) \<and> verticalLine q < length (linesVertical g)
        \<and> p \<in> set (line (linesHorizontal g ! horizontalLine q))
        \<and> p \<in> set (line (linesVertical g ! verticalLine q)))
   \<and> (\<forall>i < length (linesHorizontal g). subgrid (linesHorizontal g ! i) = parity_subgrid i
        \<and> sorted_on snd (storage g) (line (linesHorizontal g ! i)))
   \<and> (\<forall>l \<in> set (linesVertical g). line l \<noteq> [] \<and> sorted_on fst (storage g) (line l)
        \<and> (\<forall>p \<in> set (line l). \<exists>l' \<in> set (linesHorizontal g). p \<in> set (line l') \<and> subgrid l' = subgrid l))"

definition same_positions :: "PointStore \<Rightarrow> PointStore \<Rightarrow> bool" where
  "same_positions s s' \<longleftrightarrow>
     (\<forall>p q. map_of s' p = Some q \<longrightarrow> (\<exists>q0. map_of s p = Some q0 \<and> position q = position q0))"

lemma same_positions_sorted:
  assumes "same_positions s s'" "set ps \<subseteq> dom (map_of s')" "sorted_on c s ps"
  shows "sorted_on c s' ps"
proof -
  have "pos_of s' p = pos_of s p" if "p \<in> set ps" for p
    using assms(1,2) that by (fastforce simp: same_positions_def pos_of_def)
  then show ?thesis
    using assms(3) unfolding sorted_on_def by (auto elim!: sorted_wrt_mono_rel [rotated])
qed

lemma sorted_on_filter: "sorted_on c s ps \<Longrightarrow> sorted_on c s (filter P ps)"
  by (simp add: sorted_on_def sorted_wrt_filter)

lemma line_points_filter:
  "line_points (map (\<lambda>l. l\<lparr>line := filter (\<lambda>p. p \<in> T) (line l)\<rparr>) h) = line_points h \<inter> T"
  by (auto simp: line_points_def)

text \<open>The linking of both kinds of lines.\<close>

lemma link_both:
  assumes d: "dom (map_of s) = line_points h" "dom (map_of s) = line_points v"
  shows "\<exists>s3 s4. link_lines (\<lambda>i q. q\<lparr>verticalLine := i\<rparr>) 0 v s = Inr s3
    \<and> link_lines (\<lambda>i q. q\<lparr>horizontalLine := i\<rparr>) 0 h s3 = Inr s4
    \<and> dom (map_of s4) = dom (map_of s) \<and> same_positions s s4
    \<and> (\<forall>p q. map_of s4 p = Some q \<longrightarrow> horizontalLine q < length h \<and> verticalLine q < length v
        \<and> p \<in> set (line (h ! horizontalLine q)) \<and> p \<in> set (line (v ! verticalLine q)))"
proof -
  obtain s3 where 3: "link_lines (\<lambda>i q. q\<lparr>verticalLine := i\<rparr>) 0 v s = Inr s3"
      "\<forall>x. if x \<in> line_points v then \<exists>k < length v. x \<in> set (line (v ! k))
        \<and> map_of s3 x = map_option (\<lambda>q. q\<lparr>verticalLine := 0 + k\<rparr>) (map_of s x)
       else map_of s3 x = map_of s x"
    using link_lines_ok [of v s "\<lambda>i q. q\<lparr>verticalLine := i\<rparr>" 0] d by auto
  have "map_of s3 x = None \<longleftrightarrow> map_of s x = None" for x
    using 3(2) [rule_format, of x] by (auto split: if_splits)
  then have d3: "dom (map_of s3) = line_points h"
    using d(1) unfolding dom_def by simp
  obtain s4 where 4: "link_lines (\<lambda>i q. q\<lparr>horizontalLine := i\<rparr>) 0 h s3 = Inr s4"
      "\<forall>x. if x \<in> line_points h then \<exists>k < length h. x \<in> set (line (h ! k))
        \<and> map_of s4 x = map_option (\<lambda>q. q\<lparr>horizontalLine := 0 + k\<rparr>) (map_of s3 x)
       else map_of s4 x = map_of s3 x"
    using link_lines_ok [of h s3 "\<lambda>i q. q\<lparr>horizontalLine := i\<rparr>" 0] d3 by auto
  have both: "\<exists>q k j. map_of s p = Some q \<and> k < length v \<and> p \<in> set (line (v ! k)) \<and> j < length h
      \<and> p \<in> set (line (h ! j)) \<and> map_of s4 p = Some (q\<lparr>verticalLine := k, horizontalLine := j\<rparr>)"
    if "p \<in> line_points h" for p
    using 3(2) [rule_format, of p] 4(2) [rule_format, of p] d that by fastforce
  have out: "map_of s4 p = None" if "p \<notin> line_points h" for p
    using 4(2) [rule_format, of p] d3 that by (auto simp: domIff)
  have "dom (map_of s4) = dom (map_of s)"
    using both out unfolding d(1) by (force simp: domIff)
  moreover have "same_positions s s4"
    unfolding same_positions_def using both out by (metis (no_types, lifting) Point.select_convs(1)
        Point.surjective Point.update_convs(2,3) option.distinct(1) option.inject)
  moreover have "\<forall>p q. map_of s4 p = Some q \<longrightarrow> horizontalLine q < length h \<and> verticalLine q < length v
        \<and> p \<in> set (line (h ! horizontalLine q)) \<and> p \<in> set (line (v ! verticalLine q))"
  proof (intro allI impI)
    fix p q assume q: "map_of s4 p = Some q"
    then have "p \<in> line_points h" using out by force
    from both [OF this] q show "horizontalLine q < length h \<and> verticalLine q < length v
        \<and> p \<in> set (line (h ! horizontalLine q)) \<and> p \<in> set (line (v ! verticalLine q))" by auto
  qed
  ultimately show ?thesis using 3(1) 4(1) by blast
qed

text \<open>The lines behind \<open>finalize\<close>: the horizontal ones without the points that no vertical line has.\<close>

lemma pruned_rows:
  assumes "horizontal_ok s A h" and "same_positions s s'" and "V \<subseteq> dom (map_of s')"
    and "h' = map (\<lambda>l. l\<lparr>line := filter (\<lambda>p. p \<in> V) (line l)\<rparr>) h" and "i < length h'"
  shows "subgrid (h' ! i) = parity_subgrid i \<and> sorted_on snd s' (line (h' ! i))"
proof -
  have i: "i < length h" using assms(4,5) by simp
  have "set (filter (\<lambda>p. p \<in> V) (line (h ! i))) \<subseteq> dom (map_of s')" using assms(3) by auto
  then show ?thesis
    using assms(1) same_positions_sorted [OF assms(2)] i by (simp add: assms(4) horizontal_ok_def sorted_on_filter)
qed

lemma linked_columns:
  assumes v: "vertical_ok s h v" "l \<in> set v" and "same_positions s s'" and "line_points v \<subseteq> dom (map_of s')"
    and h': "h' = map (\<lambda>l. l\<lparr>line := filter (\<lambda>p. p \<in> line_points v) (line l)\<rparr>) h" "\<forall>i < length h'. subgrid (h' ! i) = parity_subgrid i"
  shows "line l \<noteq> [] \<and> sorted_on fst s' (line l) \<and> (\<forall>p \<in> set (line l). \<exists>l' \<in> set h'. p \<in> set (line l') \<and> subgrid l' = subgrid l)"
proof -
  have vl: "line l \<noteq> []" "sorted_on fst s (line l)" "set (line l) \<subseteq> row_points (\<lambda>i. parity_subgrid i = subgrid l) h"
    using v by (auto simp: vertical_ok_def)
  have sub: "set (line l) \<subseteq> line_points v" using v(2) by (auto simp: line_points_def)
  have "\<exists>l' \<in> set h'. p \<in> set (line l') \<and> subgrid l' = subgrid l" if p: "p \<in> set (line l)" for p
  proof -
    obtain i where i: "i < length h" "parity_subgrid i = subgrid l" "p \<in> set (line (h ! i))"
      using vl(3) p by (auto simp: row_points_def)
    then have "i < length h'" by (simp add: h'(1))
    then have "subgrid (h' ! i) = subgrid l" "h' ! i \<in> set h'" using h'(2) i(2) by simp_all
    moreover have "p \<in> set (line (h' ! i))" using sub p i by (auto simp: h'(1))
    ultimately show ?thesis by blast
  qed
  then show ?thesis using vl(1) same_positions_sorted [OF assms(3) _ vl(2)] sub assms(4) by blast
qed

lemma finalize_ok:
  assumes g: "building g" and stop: "stops g"
    and h: "construct_horizontal g = Inr h" and n: "8 \<le> length h"
  shows "\<exists>g'. finalize g = Inr g' \<and> grid_ok g' \<and> same_positions (storage g) (storage g')
    \<and> length (linesHorizontal g') = length h"
proof -
  let ?s = "storage g"
  have acc: "points_ok ?s (accumulator g)" and V: "linesVertical g = []" using g by (auto simp: building_def)
  have hok: "horizontal_ok ?s (set (accumulator g)) h" using construct_horizontal_ok [OF g stop] h by simp
  obtain v where v: "construct_vertical ?s h = Inr v" "vertical_ok ?s h v"
    using construct_vertical_ok [OF acc hok n] by blast
  let ?h = "map (\<lambda>l. l\<lparr>line := filter (\<lambda>p. p \<in> line_points v) (line l)\<rparr>) h"
  let ?s2 = "filter (\<lambda>e. fst e \<notin> line_points h \<or> fst e \<in> line_points v)
     (filter (\<lambda>e. fst e \<in> line_points h) ?s)"
  have vh: "line_points v \<subseteq> line_points h"
    using v(2) row_points_subset by (fastforce simp: vertical_ok_def line_points_def [of v])
  have m2: "map_of ?s2 p = (if p \<in> line_points v then map_of ?s p else None)" for p
    unfolding map_of_filter_key [of "\<lambda>p. p \<notin> line_points h \<or> p \<in> line_points v"]
      map_of_filter_key [of "\<lambda>p. p \<in> line_points h"] using vh by auto
  have "map_of ?s p \<noteq> None" if "p \<in> line_points v" for p
    using that vh hok acc unfolding horizontal_ok_def points_ok_def by blast
  then have d2: "dom (map_of ?s2) = line_points v" using m2 by (auto simp: dom_def)
  have hv: "line_points ?h = line_points v" using vh unfolding line_points_filter by blast
  obtain s3 s4 where l: "link_lines (\<lambda>i q. q\<lparr>verticalLine := i\<rparr>) 0 v ?s2 = Inr s3"
      "link_lines (\<lambda>i q. q\<lparr>horizontalLine := i\<rparr>) 0 ?h s3 = Inr s4"
      "dom (map_of s4) = line_points v" "same_positions ?s2 s4"
      "\<forall>p q. map_of s4 p = Some q \<longrightarrow> horizontalLine q < length ?h \<and> verticalLine q < length v
        \<and> p \<in> set (line (?h ! horizontalLine q)) \<and> p \<in> set (line (v ! verticalLine q))"
    using link_both [of ?s2 ?h v] d2 hv by auto
  define g' where "g' = g\<lparr>storage := s4, linesHorizontal := ?h, linesVertical := v\<rparr>"
  have "finalize g = Inr g'"
    using h v(1) l(1,2) V by (simp add: finalize_def prune_lines_eq g'_def)
  moreover have same: "same_positions ?s s4"
    using l(4) m2 by (auto simp: same_positions_def split: if_splits)
  moreover have "grid_ok g'"
  proof -
    define h' where "h' = ?h"
    have V: "line_points v \<subseteq> dom (map_of s4)" using l(3) by simp
    have H: "\<forall>i < length h'. subgrid (h' ! i) = parity_subgrid i \<and> sorted_on snd s4 (line (h' ! i))"
      using pruned_rows [OF hok same V h'_def] by blast
    have L: "\<forall>l \<in> set v. line l \<noteq> [] \<and> sorted_on fst s4 (line l) \<and> (\<forall>p \<in> set (line l). \<exists>l' \<in> set h'. p \<in> set (line l') \<and> subgrid l' = subgrid l)"
      using linked_columns [OF v(2) _ same V h'_def] H by blast
    show ?thesis using L H l(3,5) hv unfolding grid_ok_def g'_def h'_def [symmetric] by simp
  qed
  ultimately show ?thesis by (auto simp: g'_def)
qed

subsection \<open>Properties\<close>

text \<open>A grid of eight horizontal lines for the examples.\<close>

definition sample_points :: "(fl \<times> fl) list" where
  "sample_points = [(Fin 0, Fin 0), (Fin 10, Fin 5), (Fin 20, Fin 0), (Fin 30, Fin 5),
     (Fin 0, Fin 10), (Fin 10, Fin 15), (Fin 20, Fin 10), (Fin 30, Fin 15), (Fin 40, Fin 10),
     (Fin 50, Fin 15), (Fin 60, Fin 10), (Fin 70, Fin 15), (Fin 0, Fin 30)]"

definition sample_grid :: PointGrid where
  "sample_grid = fold addPoint sample_points PointGrid_ctor"

lemma storage_sample_grid:
  "storage sample_grid = rev (zip [0..<13] (map Point_ctor sample_points))"
  "accumulator sample_grid = [0..<13]" "linesHorizontal sample_grid = []" "linesVertical sample_grid = []"
  by code_simp+

lemma building_sample_grid: "building sample_grid"
  by (simp add: building_def storage_sample_grid points_ok_def sample_points_def Point_ctor_def
      coord_def upt_conv_Cons)

lemma stops_sample_grid: "stops sample_grid"
  by (simp add: stops_def start_limit_def storage_sample_grid pos_of_def sample_points_def Point_ctor_def
      upt_conv_Cons CONSTRUCT_LIM_def) code_simp

lemma sample_grid_lines: "\<exists>h. construct_horizontal sample_grid = Inr h \<and> length h = 8"
proof -
  have "(case construct_horizontal sample_grid of Inr h \<Rightarrow> length h = 8 | _ \<Rightarrow> False)"
    by code_simp
  then show ?thesis by (auto split: sum.splits)
qed

text \<open>
  C9: \<open>PointGrid::finalize\<close>. A grid whose points have image coordinates, which has a point at
  least \<open>CONSTRUCT_LIM\<close> below the start point of the construction and for which at least eight
  horizontal lines are found, is finalized without a fault. In the finished grid the storage holds
  exactly the points on horizontal lines and exactly the points on vertical lines, every point is
  linked to a horizontal and a vertical line it is on, the subgrids of the horizontal lines
  alternate, horizontal lines are sorted by y and vertical lines by x, a vertical line only has
  points of horizontal lines of its own subgrid, and no point has moved.
\<close>
theorem finalize_correct:
  assumes "building g" and "stops g" and "construct_horizontal g = Inr h" and "8 \<le> length h"
  shows "\<exists>g'. finalize g = Inr g' \<and> grid_ok g' \<and> same_positions (storage g) (storage g')
    \<and> length (linesHorizontal g') = length h"
  using assms by (rule finalize_ok)

theorem finalize_correct_witness:
  "\<exists>h g'. construct_horizontal sample_grid = Inr h \<and> 8 \<le> length h
     \<and> finalize sample_grid = Inr g' \<and> grid_ok g'"
  using sample_grid_lines finalize_correct [OF building_sample_grid stops_sample_grid] by fastforce

text \<open>
  C11: the first loop of \<open>finalize\<close> has no end test. When no point from the start of the
  construction on lies \<open>CONSTRUCT_LIM\<close> or more below the start point (in particular for a grid
  with no points), \<open>finalize\<close> reads outside the accumulator.
\<close>
theorem finalize_overrun:
  assumes "building g" and "\<not> stops g"
  shows "finalize g = Inl OutOfBounds"
  using construct_horizontal_overrun [OF assms] by (simp add: finalize_def)

theorem finalize_overrun_witness:
  "finalize (addPoint (Fin 3, Fin 4) PointGrid_ctor) = Inl OutOfBounds"
proof (rule finalize_overrun)
  show "building (addPoint (Fin 3, Fin 4) PointGrid_ctor)"
    by (simp add: building_def addPoint_def storageAdd_def PointGrid_ctor_def points_ok_def
        Point_ctor_def coord_def)
  have "flt (Fin 4) (fadd binary32 (Fin 4) CONSTRUCT_LIM)" by (rule below_limit) (simp add: coord_def)
  then show "\<not> stops (addPoint (Fin 3, Fin 4) PointGrid_ctor)"
    by (simp add: stops_def start_limit_def addPoint_def storageAdd_def PointGrid_ctor_def pos_of_def
        Point_ctor_def)
qed

text \<open>
  The vertical lines are constructed from six horizontal lines that start a third into the
  list. With fewer than eight horizontal lines \<open>finalize\<close> reads outside \<open>linesHorizontal\<close>.
\<close>
lemma finalize_few_lines:
  assumes "building g" and "stops g" and "construct_horizontal g = Inr h" and "length h < 8"
  shows "finalize g = Inl OutOfBounds"
proof -
  have "points_ok (storage g) (accumulator g)" using assms(1) by (simp add: building_def)
  moreover have "horizontal_ok (storage g) (set (accumulator g)) h"
    using construct_horizontal_ok [OF assms(1,2)] assms(3) by simp
  ultimately have "construct_vertical (storage g) h = Inl OutOfBounds"
    using assms(4) by (rule construct_vertical_overrun)
  then show ?thesis using assms(3) by (simp add: finalize_def)
qed

definition short_grid :: PointGrid where
  "short_grid = addPoint (Fin 3, Fin 40) (addPoint (Fin 3, Fin 4) PointGrid_ctor)"

lemma finalize_few_lines_example:
  "\<exists>h. construct_horizontal short_grid = Inr h \<and> length h < 8 \<and> finalize short_grid = Inl OutOfBounds"
proof -
  have "building short_grid"
    by (simp add: building_def short_grid_def addPoint_def storageAdd_def PointGrid_ctor_def
        points_ok_def Point_ctor_def coord_def)
  moreover have "stops short_grid"
    by (simp add: stops_def short_grid_def start_limit_def addPoint_def storageAdd_def
        PointGrid_ctor_def pos_of_def Point_ctor_def CONSTRUCT_LIM_def) code_simp
  moreover have "(case construct_horizontal short_grid of Inr h \<Rightarrow> length h < 8 | _ \<Rightarrow> False)"
    by code_simp
  ultimately show ?thesis using finalize_few_lines [of short_grid] by (auto split: sum.splits)
qed

text \<open>The start point of the construction is added a second time by the reverse loop, and the
  points of the start line a second time to the vertical lines.\<close>

lemma finalize_duplicates:
  "\<exists>g'. finalize sample_grid = Inr g'
     \<and> (\<exists>l \<in> set (linesHorizontal g'). \<not> distinct (line l)) \<and> (\<exists>l \<in> set (linesVertical g'). \<not> distinct (line l))"
proof -
  have "(case finalize sample_grid of Inl _ \<Rightarrow> False | Inr g' \<Rightarrow>
      list_ex (\<lambda>l. \<not> distinct (line l)) (linesHorizontal g') \<and> list_ex (\<lambda>l. \<not> distinct (line l)) (linesVertical g'))"
    by code_simp
  then show ?thesis by (auto simp: list_ex_iff split: sum.splits)
qed

end
