(* ===== verification/Line_Grid.thy ===== *)
theory Line_Grid
  imports Grid_Finalize
begin

text \<open>
  \<open>lib/calibration/linegrid\<close> and \<open>gridmapper\<close>: the grid reduced to one position per line, and the
  tables that map the line numbers of one grid to those of another. \<open>LineGrid_ctor\<close> is the
  constructor from a \<open>PointGrid\<close>; its sums are accumulated in \<open>double\<close> and the quotient is converted
  to the \<open>float\<close> of \<open>LineGrid::Line\<close>.
\<close>

record LLine =
  l_subgrid :: SubGrid
  l_position :: fl

record LineGrid =
  horizonalLines :: "LLine list"
  verticalLines :: "LLine list"

definition LLine_ctor :: LLine where
  "LLine_ctor = \<lparr>l_subgrid = SUBGRID_A, l_position = Fin 0\<rparr>"

definition LineGrid_empty :: LineGrid where
  "LineGrid_empty = \<lparr>horizonalLines = [], verticalLines = []\<rparr>"

text \<open>One addition of the loops over the points of a line: \<open>sum += \<dots>; count += 1.0\<close>.\<close>

definition sum_step ::
  "(fl \<times> fl \<Rightarrow> fl) \<Rightarrow> PointStore \<Rightarrow> ptr list \<Rightarrow> nat \<Rightarrow> fl \<times> fl \<Rightarrow> (fl \<times> fl) res" where
  "sum_step coordinate s ps i acc =
     rbind (ld ps (int i)) (\<lambda>p. rbind (getPosition s p) (\<lambda>pos.
       Inr (fadd binary64 (fst acc) (coordinate pos), fadd binary64 (snd acc) (Fin 1))))"

definition average_over ::
  "(fl \<times> fl \<Rightarrow> fl) \<Rightarrow> PointStore \<Rightarrow> ptr list \<Rightarrow> nat list \<Rightarrow> fl res" where
  "average_over coordinate s ps is =
     rbind (rfold (sum_step coordinate s ps) is (Fin 0, Fin 0))
       (\<lambda>(sum, count). Inr (to_fmt binary32 (fdiv binary64 sum count)))"

text \<open>The indices of the two loops: the middle third, and every second index of it from an even
  one on.\<close>

definition horizontal_indices :: "nat \<Rightarrow> nat list" where
  "horizontal_indices n = [n div 3..<2 * n div 3]"

function every_second :: "nat \<Rightarrow> nat \<Rightarrow> nat list" where
  "every_second i n = (if i < n then i # every_second (i + 2) n else [])"
  by auto
termination by (relation "measure (\<lambda>(i, n). n - i)") auto

declare every_second.simps [simp del]

definition vertical_indices :: "nat \<Rightarrow> nat list" where
  "vertical_indices n =
     (let start = n div 3; start = (if even start then start else start - 1)
      in every_second start (2 * n div 3))"

definition horizontal_line :: "PointStore \<Rightarrow> Line \<Rightarrow> LLine res" where
  "horizontal_line s l =
     rbind (average_over fst s (line l) (horizontal_indices (length (line l)))) (\<lambda>pos.
       Inr \<lparr>l_subgrid = subgrid l, l_position = pos\<rparr>)"

definition vertical_line :: "PointStore \<Rightarrow> Line \<Rightarrow> LLine res" where
  "vertical_line s l =
     rbind (average_over snd s (line l) (vertical_indices (length (line l)))) (\<lambda>pos.
       Inr \<lparr>l_subgrid = subgrid l, l_position = pos\<rparr>)"

definition push_lines :: "(Line \<Rightarrow> LLine res) \<Rightarrow> LineList \<Rightarrow> LLine list res" where
  "push_lines f ls = rfold (\<lambda>l acc. rbind (f l) (\<lambda>l'. Inr (acc @ [l']))) ls []"

definition LineGrid_ctor :: "PointGrid \<Rightarrow> LineGrid res" where
  "LineGrid_ctor g =
     rbind (push_lines (horizontal_line (storage g)) (linesHorizontal g)) (\<lambda>h.
     rbind (push_lines (vertical_line (storage g)) (linesVertical g)) (\<lambda>v.
       Inr \<lparr>horizonalLines = h, verticalLines = v\<rparr>))"

subsection \<open>GridMapper\<close>

record GridMapper =
  horizontalMapping :: "nat list"
  verticalMapping :: "nat list"

definition GridMapper_ctor :: "nat \<Rightarrow> nat \<Rightarrow> GridMapper" where
  "GridMapper_ctor horizontalSize verticalSize =
     \<lparr>horizontalMapping = replicate horizontalSize 0, verticalMapping = replicate verticalSize 0\<rparr>"

definition mapHorizontal :: "GridMapper \<Rightarrow> nat \<Rightarrow> nat res" where
  "mapHorizontal g from =
     rassert (from < length (horizontalMapping g)) (Inr (horizontalMapping g ! from))"

definition mapVertical :: "GridMapper \<Rightarrow> nat \<Rightarrow> nat res" where
  "mapVertical g from =
     rassert (from < length (verticalMapping g)) (Inr (verticalMapping g ! from))"

definition set_mapHorizontal :: "nat \<Rightarrow> nat \<Rightarrow> GridMapper \<Rightarrow> GridMapper res" where
  "set_mapHorizontal from to g =
     rassert (from < length (horizontalMapping g))
       (Inr (g\<lparr>horizontalMapping := (horizontalMapping g)[from := to]\<rparr>))"

definition set_mapVertical :: "nat \<Rightarrow> nat \<Rightarrow> GridMapper \<Rightarrow> GridMapper res" where
  "set_mapVertical from to g =
     rassert (from < length (verticalMapping g))
       (Inr (g\<lparr>verticalMapping := (verticalMapping g)[from := to]\<rparr>))"

subsection \<open>Averages\<close>

lemma every_second_less: "i \<in> set (every_second a n) \<Longrightarrow> a \<le> i \<and> i < n"
proof (induction a n rule: every_second.induct)
  case (1 a n)
  then show ?case by (subst (asm) (2) every_second.simps) (auto split: if_splits)
qed

lemma every_second_Nil: "every_second a n = [] \<longleftrightarrow> n \<le> a"
  by (subst every_second.simps) auto

lemma index_bounds:
  "i \<in> set (horizontal_indices n) \<Longrightarrow> i < n" "i \<in> set (vertical_indices n) \<Longrightarrow> i < n"
  by (auto simp: horizontal_indices_def vertical_indices_def Let_def dest!: every_second_less
      split: if_splits)

lemma horizontal_indices_Nil: "horizontal_indices n = [] \<longleftrightarrow> n \<le> 1"
  unfolding horizontal_indices_def upt_eq_Nil_conv by presburger

lemma vertical_indices_Nil: "vertical_indices n = [] \<longleftrightarrow> n \<le> 1"
proof (cases "n \<le> 1")
  case True
  then have "n = 0 \<or> n = 1" by auto
  then show ?thesis by (auto simp: vertical_indices_def Let_def every_second_Nil)
next
  case False
  then have "n div 3 < 2 * n div 3"
    using horizontal_indices_Nil [of n] by (simp add: horizontal_indices_def)
  then show ?thesis using False by (auto simp: vertical_indices_def Let_def every_second_Nil)
qed

lemma add_number: "a \<noteq> NaN \<Longrightarrow> fadd binary64 a (Fin x) \<noteq> NaN"
  by (cases a) (auto simp: r64.r_not_NaN)

text \<open>The counter after some additions. It stops growing at \<open>2 ^ 53\<close>.\<close>

definition counted :: "fl \<Rightarrow> bool" where
  "counted c \<longleftrightarrow> (\<exists>x. c = Fin x \<and> 1 \<le> x \<and> x \<le> 2 ^ 53)"

lemma rnd64_count: "rnd binary64 1 = Fin 1" "rnd binary64 (2 ^ 53 + 1) = Fin (2 ^ 53)"
  using rnd64_int [of 1] rnd64_count_end by simp_all

lemma counted_Suc:
  assumes "c = Fin 0 \<or> counted c" shows "counted (fadd binary64 c (Fin 1))"
proof -
  obtain x where c: "c = Fin x" and x: "0 \<le> x" "x \<le> 2 ^ 53" using assms by (auto simp: counted_def)
  have "fle (rnd binary64 1) (rnd binary64 (x + 1))" "fle (rnd binary64 (x + 1)) (rnd binary64 (2 ^ 53 + 1))"
    using x by (auto intro!: r64.r_mono)
  then show ?thesis
    unfolding c fadd.simps rnd64_count counted_def by (cases "rnd binary64 (x + 1)") (auto simp: fle_def)
qed

lemma divide_number: "a \<noteq> NaN \<Longrightarrow> counted c \<Longrightarrow> fdiv binary64 a c \<noteq> NaN"
  by (cases a) (auto simp: counted_def r64.r_not_NaN)

lemma to_fmt_NaN: "to_fmt binary32 a = NaN \<longleftrightarrow> a = NaN"
  by (cases a) (auto simp: r32.r_not_NaN)

text \<open>The average over some indices of a line whose points are valid: a number, unless there is
  nothing to average.\<close>

lemma average_over_ok:
  assumes ok: "points_ok s ps" and "\<forall>i \<in> set is. i < length ps" and c: "c = fst \<or> c = snd"
  shows "\<exists>a. average_over c s ps is = Inr a \<and> (a = NaN \<longleftrightarrow> is = [])"
proof -
  have "\<exists>s' c'. rfold (sum_step c s ps) is acc = Inr (s', c') \<and> s' \<noteq> NaN
      \<and> (if is = [] then (s', c') = acc else counted c')"
    if "fst acc \<noteq> NaN" "snd acc = Fin 0 \<or> counted (snd acc)" for acc
    using assms(2) that
  proof (induction "is" arbitrary: acc)
    case Nil
    then show ?case by (cases acc) auto
  next
    case (Cons i "is")
    have i: "i < length ps" using Cons.prems(1) by simp
    then have p: "ps ! i \<in> set ps" by simp
    obtain x where x: "c (pos_of s (ps ! i)) = Fin x"
      using pos_of_coord [OF ok p c] by (auto simp: coord_def)
    define acc' where "acc' = (fadd binary64 (fst acc) (Fin x), fadd binary64 (snd acc) (Fin 1))"
    have step: "sum_step c s ps i acc = Inr acc'"
      using i getPosition_ok [OF ok p] x by (simp add: sum_step_def acc'_def)
    have "fst acc' \<noteq> NaN" "counted (snd acc')"
      using add_number counted_Suc Cons.prems(2,3) by (auto simp: acc'_def)
    with Cons.IH [of acc'] Cons.prems(1) step show ?case
      by (cases acc') (auto split: if_splits)
  qed
  from this [of "(Fin 0, Fin 0)"] obtain s' c' where
    r: "rfold (sum_step c s ps) is (Fin 0, Fin 0) = Inr (s', c')" "s' \<noteq> NaN"
      "if is = [] then (s', c') = (Fin 0, Fin 0) else counted c'"
    by auto
  then show ?thesis
    using divide_number [of s' c'] by (auto simp: average_over_def to_fmt_NaN split: if_splits)
qed

lemma push_lines_ok:
  assumes "\<forall>l \<in> set ls. \<exists>l'. f l = Inr l' \<and> R l l'"
  shows "\<exists>ls'. push_lines f ls = Inr ls' \<and> list_all2 R ls ls'"
proof -
  have "\<exists>ls'. rfold (\<lambda>l acc. rbind (f l) (\<lambda>l'. Inr (acc @ [l']))) ls acc = Inr (acc @ ls')
      \<and> list_all2 R ls ls'" for acc
    using assms
  proof (induction ls arbitrary: acc)
    case Nil
    then show ?case by simp
  next
    case (Cons l ls)
    then obtain l' where l': "f l = Inr l'" "R l l'" by auto
    obtain ls' where "rfold (\<lambda>l acc. rbind (f l) (\<lambda>l'. Inr (acc @ [l']))) ls (acc @ [l'])
        = Inr ((acc @ [l']) @ ls')" "list_all2 R ls ls'"
      using Cons.IH [of "acc @ [l']"] Cons.prems by auto
    then show ?case using l' by (intro exI [of _ "l' # ls'"]) simp
  qed
  from this [of "[]"] show ?thesis by (simp add: push_lines_def)
qed

text \<open>
  C13: \<open>LineGrid::LineGrid(const PointGrid&)\<close> on a grid whose lines only have points of the storage,
  with image coordinates: the constructor reads no point outside its line and gives one line per
  line of the grid, in order and of the same subgrid. The position of a line is a number exactly
  when the line has two points or more: a line with fewer points (which \<open>finalize\<close> can leave) gets
  a NaN.
\<close>
theorem LineGrid_ctor_correct:
  assumes "\<forall>l \<in> set (linesHorizontal g) \<union> set (linesVertical g). points_ok (storage g) (line l)"
  shows "\<exists>lg. LineGrid_ctor g = Inr lg
    \<and> list_all2 (\<lambda>l l'. l_subgrid l' = subgrid l \<and> (l_position l' = NaN \<longleftrightarrow> length (line l) < 2))
        (linesHorizontal g) (horizonalLines lg)
    \<and> list_all2 (\<lambda>l l'. l_subgrid l' = subgrid l \<and> (l_position l' = NaN \<longleftrightarrow> length (line l) < 2))
        (linesVertical g) (verticalLines lg)"
proof -
  let ?R = "\<lambda>l l'. l_subgrid l' = subgrid l \<and> (l_position l' = NaN \<longleftrightarrow> length (line l) < 2)"
  have "\<exists>l'. horizontal_line (storage g) l = Inr l' \<and> ?R l l'" if "points_ok (storage g) (line l)" for l
    using average_over_ok [OF that, of "horizontal_indices (length (line l))" fst]
    by (auto simp: horizontal_line_def index_bounds horizontal_indices_Nil)
  moreover have "\<exists>l'. vertical_line (storage g) l = Inr l' \<and> ?R l l'" if "points_ok (storage g) (line l)" for l
    using average_over_ok [OF that, of "vertical_indices (length (line l))" snd]
    by (auto simp: vertical_line_def index_bounds vertical_indices_Nil)
  ultimately obtain h v where
      "push_lines (horizontal_line (storage g)) (linesHorizontal g) = Inr h" "list_all2 ?R (linesHorizontal g) h"
      "push_lines (vertical_line (storage g)) (linesVertical g) = Inr v" "list_all2 ?R (linesVertical g) v"
    using push_lines_ok [of "linesHorizontal g" "horizontal_line (storage g)" ?R]
      push_lines_ok [of "linesVertical g" "vertical_line (storage g)" ?R] assms by (meson UnCI)
  then show ?thesis by (simp add: LineGrid_ctor_def)
qed

definition line_sample :: PointGrid where
  "line_sample = \<lparr>accumulator = [], storage = [(0, Point_ctor (Fin 1, Fin 2)), (1, Point_ctor (Fin 1, Fin 4))],
     linesHorizontal = [\<lparr>subgrid = SUBGRID_B, line = [0, 1]\<rparr>, \<lparr>subgrid = SUBGRID_A, line = [0]\<rparr>],
     linesVertical = [], next = 2\<rparr>"

theorem LineGrid_ctor_correct_witness:
  "\<exists>lg. LineGrid_ctor line_sample = Inr lg \<and> length (horizonalLines lg) = 2
     \<and> l_position (horizonalLines lg ! 0) \<noteq> NaN \<and> l_position (horizonalLines lg ! 1) = NaN"
proof -
  have "\<forall>l \<in> set (linesHorizontal line_sample) \<union> set (linesVertical line_sample).
      points_ok (storage line_sample) (line l)"
    by (simp add: line_sample_def points_ok_def Point_ctor_def coord_def)
  from LineGrid_ctor_correct [OF this] show ?thesis
    by (auto simp: line_sample_def list_all2_Cons1)
qed

end
