(* ===== verification/Grid_Math.thy ===== *)
theory Grid_Math
  imports Line_Grid
begin

text \<open>
  \<open>lib/calibration/gridmath\<close> and \<open>mathutil\<close>: the average of several line grids with the mapping of
  their lines to it, and the filtered average of numbers.

  A \<open>LineMap\<close> is a map of \<open>Float_Map\<close>, the counter of an entry is the 32-bit \<open>unsigned int\<close> of the
  code. \<open>std::sqrt\<close> is a parameter.
\<close>

definition LIMIT_HORIZONTAL :: fl where "LIMIT_HORIZONTAL = Fin 17"

definition LIMIT_VERTICAL :: fl where "LIMIT_VERTICAL = Fin 8"

type_synonym Referee = "nat \<times> nat"

record LineEntry =
  e_line :: LLine
  e_counter :: u32
  e_referees :: "Referee list"

type_synonym LineMap = "LineEntry fmap"

definition LineEntry_ctor :: "LLine \<Rightarrow> Referee \<Rightarrow> LineEntry" where
  "LineEntry_ctor l r = \<lparr>e_line = l, e_counter = 1, e_referees = [r]\<rparr>"

text \<open>\<open>entry.counter*denom*entry.line.position + line.position*denom\<close> in \<open>double\<close>.\<close>

definition merge_position :: "u32 \<Rightarrow> fl \<Rightarrow> fl \<Rightarrow> fl" where
  "merge_position counter old new =
     (let c = fl_of_int binary64 (uint counter);
          denom = fdiv binary64 (Fin 1) (fadd binary64 c (Fin 1))
      in to_fmt binary32 (fadd binary64 (fmul binary64 (fmul binary64 c denom) old)
           (fmul binary64 new denom)))"

definition merge_entry :: "LineEntry \<Rightarrow> LLine \<Rightarrow> Referee \<Rightarrow> LineEntry" where
  "merge_entry entry l r =
     entry\<lparr>e_line := (e_line entry)\<lparr>l_position :=
               merge_position (e_counter entry) (l_position (e_line entry)) (l_position l)\<rparr>,
           e_counter := e_counter entry + 1,
           e_referees := e_referees entry @ [r]\<rparr>"

definition insertLine :: "fl \<Rightarrow> LLine \<Rightarrow> Referee \<Rightarrow> LineMap \<Rightarrow> LineMap res" where
  "insertLine limit l r m =
     check_key (l_position l) (
       let lineIt = nearest m (l_position l) in
       if lineIt = length m then Inl EndIterator
       else if flt (dist (fst (m ! lineIt)) (l_position l)) limit then
         (let entry = merge_entry (snd (m ! lineIt)) l r in
          check_key (l_position (e_line entry))
            (Inr (snd (map_emplace (map_erase m lineIt) (l_position (e_line entry)) entry))))
       else Inr (snd (map_emplace m (l_position l) (LineEntry_ctor l r))))"

text \<open>The loops over the lines of one grid: the first grid and the others.\<close>

definition number_lines :: "nat \<Rightarrow> LLine list \<Rightarrow> (LLine \<times> Referee) list" where
  "number_lines gridIndex ls = zip ls (map (\<lambda>i. (gridIndex, i)) [0..<length ls])"

definition first_lines :: "LLine list \<Rightarrow> LineMap res" where
  "first_lines ls =
     rfold (\<lambda>(l, r) m. check_key (l_position l)
         (Inr (snd (map_emplace m (l_position l) (LineEntry_ctor l r)))))
       (number_lines 0 ls) []"

definition insert_lines :: "fl \<Rightarrow> nat \<Rightarrow> LLine list \<Rightarrow> LineMap \<Rightarrow> LineMap res" where
  "insert_lines limit gridIndex ls =
     rfold (\<lambda>(l, r). insertLine limit l r) (number_lines gridIndex ls)"

fun insert_grids :: "nat \<Rightarrow> LineGrid list \<Rightarrow> LineMap \<times> LineMap \<Rightarrow> (LineMap \<times> LineMap) res" where
  "insert_grids gridIndex [] ms = Inr ms"
| "insert_grids gridIndex (g # gs) ms =
     rbind (insert_lines LIMIT_HORIZONTAL gridIndex (horizonalLines g) (fst ms)) (\<lambda>h.
     rbind (insert_lines LIMIT_VERTICAL gridIndex (verticalLines g) (snd ms)) (\<lambda>v.
       insert_grids (Suc gridIndex) gs (h, v)))"

text \<open>The entries found in more than half of the grids become lines of the average; \<open>f\<close> is
  \<open>mapHorizontal\<close> or \<open>mapVertical\<close>.\<close>

definition store_mapping ::
  "(nat \<Rightarrow> nat \<Rightarrow> GridMapper \<Rightarrow> GridMapper res) \<Rightarrow> nat \<Rightarrow> Referee \<Rightarrow> GridMapper list
     \<Rightarrow> GridMapper list res" where
  "store_mapping f lineIndex r mappers =
     rbind (ld mappers (int (fst r))) (\<lambda>mp. rbind (f (snd r) lineIndex mp) (\<lambda>mp'.
       Inr (mappers[fst r := mp'])))"

definition collect_entry ::
  "(nat \<Rightarrow> nat \<Rightarrow> GridMapper \<Rightarrow> GridMapper res) \<Rightarrow> nat \<Rightarrow> fl \<times> LineEntry
     \<Rightarrow> LLine list \<times> GridMapper list \<Rightarrow> (LLine list \<times> GridMapper list) res" where
  "collect_entry f n entry acc =
     (if n div 2 < unat (e_counter (snd entry)) then
        rbind (rfold (store_mapping f (length (fst acc))) (e_referees (snd entry)) (snd acc))
          (\<lambda>mappers. Inr (fst acc @ [e_line (snd entry)], mappers))
      else Inr acc)"

definition averageGrids :: "LineGrid list \<Rightarrow> (LineGrid \<times> GridMapper list) res" where
  "averageGrids grids =
     (case grids of [] \<Rightarrow> Inl OutOfBounds | g # gs \<Rightarrow>
        rbind (first_lines (horizonalLines g)) (\<lambda>h0.
        rbind (first_lines (verticalLines g)) (\<lambda>v0.
        rbind (insert_grids 1 gs (h0, v0)) (\<lambda>(h, v).
          let n = length grids;
              mappers = map (\<lambda>g. GridMapper_ctor (length (horizonalLines g)) (length (verticalLines g))) grids
          in rbind (rfold (collect_entry set_mapHorizontal n) h ([], mappers)) (\<lambda>(hs, mappers1).
             rbind (rfold (collect_entry set_mapVertical n) v ([], mappers1)) (\<lambda>(vs, mappers2).
               Inr (\<lparr>horizonalLines = hs, verticalLines = vs\<rparr>, mappers2)))))))"

subsection \<open>mathutil.h\<close>

definition sgn_fl :: "fl \<Rightarrow> int" where
  "sgn_fl val = (if flt (Fin 0) val then 1 else 0) - (if flt val (Fin 0) then 1 else 0)"

definition moments_step :: "format \<Rightarrow> fl \<Rightarrow> fl \<times> fl \<Rightarrow> fl \<times> fl" where
  "moments_step fmt val acc =
     (fadd binary64 (fst acc) (fmul fmt val val), fadd binary64 (snd acc) val)"

definition filter_step :: "fl \<Rightarrow> fl \<Rightarrow> fl \<Rightarrow> fl \<times> nat \<Rightarrow> fl \<times> nat" where
  "filter_step mean limit val acc =
     (if fle (fabs (fsub binary64 val mean)) limit then (fadd binary64 (fst acc) val, Suc (snd acc)) else acc)"

definition filteredAverage :: "(fl \<Rightarrow> fl) \<Rightarrow> format \<Rightarrow> fl list \<Rightarrow> fl \<Rightarrow> fl" where
  "filteredAverage sqrt_fn fmt container sigmaLimit =
     (let (sum2, sum1) = fold (moments_step fmt) container (Fin 0, Fin 0);
          n = fl_of_int binary64 (int (length container));
          mean = fdiv binary64 sum1 n;
          mean2 = fdiv binary64 sum2 n;
          sigma = sqrt_fn (fsub binary64 mean2 (fmul binary64 mean mean));
          limit = fmul binary64 sigmaLimit sigma;
          (sum, count) = fold (filter_step mean limit) container (Fin 0, 0)
      in to_fmt fmt (fdiv binary64 sum (fl_of_int binary64 (int count))))"

subsection \<open>The entries of the map\<close>

text \<open>The line an entry stands for: the running mean over its referees, with the subgrid of the
  first one.\<close>

fun running_line :: "(Referee \<Rightarrow> LLine) \<Rightarrow> u32 \<Rightarrow> LLine \<Rightarrow> Referee list \<Rightarrow> LLine" where
  "running_line f c l [] = l"
| "running_line f c l (r # rs) =
     running_line f (c + 1) (l\<lparr>l_position := merge_position c (l_position l) (l_position (f r))\<rparr>) rs"

definition mean_line :: "(Referee \<Rightarrow> LLine) \<Rightarrow> Referee list \<Rightarrow> LLine" where
  "mean_line f rs = running_line f 1 (f (hd rs)) (tl rs)"

definition refs :: "LineMap \<Rightarrow> Referee multiset" where
  "refs m = (\<Sum>e \<in># mset m. mset (e_referees (snd e)))"

definition entry_ok :: "(Referee \<Rightarrow> LLine) \<Rightarrow> fl \<times> LineEntry \<Rightarrow> bool" where
  "entry_ok f e \<longleftrightarrow> fst e = l_position (e_line (snd e)) \<and> e_referees (snd e) \<noteq> []
     \<and> e_counter (snd e) = of_nat (length (e_referees (snd e)))
     \<and> e_line (snd e) = mean_line f (e_referees (snd e))"

definition entries_ok :: "(Referee \<Rightarrow> LLine) \<Rightarrow> Referee set \<Rightarrow> LineMap \<Rightarrow> bool" where
  "entries_ok f S m \<longleftrightarrow> keys_ok m \<and> (\<forall>e \<in> set m. entry_ok f e)
     \<and> (\<forall>r. count (refs m) r \<le> (if r \<in> S then 1 else 0))"

lemma running_line_snoc:
  "running_line f c l (rs @ [r]) = (running_line f c l rs)\<lparr>l_position :=
     merge_position (c + of_nat (length rs)) (l_position (running_line f c l rs)) (l_position (f r))\<rparr>"
  by (induction rs arbitrary: c l) (simp_all add: add.assoc)

lemma mean_line_snoc:
  "rs \<noteq> [] \<Longrightarrow> mean_line f (rs @ [r]) = (mean_line f rs)\<lparr>l_position :=
     merge_position (of_nat (length rs)) (l_position (mean_line f rs)) (l_position (f r))\<rparr>"
  by (cases rs) (simp_all add: mean_line_def running_line_snoc)

lemma refs_put: "refs (put m k e) = mset (e_referees e) + refs m"
  by (simp add: refs_def mset_put)

lemma refs_erase: "i < length m \<Longrightarrow> refs m = mset (e_referees (snd (m ! i))) + refs (map_erase m i)"
  by (simp add: refs_def flip: mset_erase [of i m])

lemma set_erase: "set (map_erase m i) \<subseteq> set m"
  by (auto simp: map_erase_def dest: in_set_takeD in_set_dropD)

lemma entry_ok_new: "entry_ok f (l_position (f r), LineEntry_ctor (f r) r)"
  by (simp add: entry_ok_def LineEntry_ctor_def mean_line_def)

lemma entry_ok_merge:
  assumes "entry_ok f e"
  shows "entry_ok f (l_position (e_line (merge_entry (snd e) (f r) r)), merge_entry (snd e) (f r) r)"
  using assms by (simp add: entry_ok_def merge_entry_def mean_line_snoc)

lemma entries_ok_emplace:
  assumes "entries_ok f S m" and "k \<noteq> NaN" and "entry_ok f (k, e)"
    and "\<forall>x. count (mset (e_referees e) + refs m) x \<le> (if x \<in> S' then 1 else 0)"
  shows "entries_ok f S' (snd (map_emplace m k e))"
proof (cases "k \<in> fst ` set m")
  case True
  moreover have "count (refs m) x \<le> count (mset (e_referees e) + refs m) x" for x by simp
  ultimately show ?thesis
    using assms unfolding entries_ok_def map_emplace_cases [OF conjunct1 [OF assms(1) [unfolded entries_ok_def]] assms(2)]
    by (simp only: if_True) (meson le_trans)
next
  case False
  have ok: "keys_ok m" using assms(1) by (simp add: entries_ok_def)
  have "keys_ok (put m k e)"
    using map_emplace_new [OF ok assms(2) False, of e] by (simp add: put_def)
  then show ?thesis
    using assms False by (simp add: map_emplace_cases ok entries_ok_def refs_put set_put)
qed

lemma entries_ok_erase:
  assumes "entries_ok f S m" "i < length m"
  shows "entries_ok f S (map_erase m i)"
proof -
  have "count (refs (map_erase m i)) r \<le> count (refs m) r" for r
    by (simp add: refs_erase [OF assms(2)])
  then show ?thesis
    using assms keys_ok_erase(1) [of m i] set_erase [of m i]
    unfolding entries_ok_def by (meson le_trans subsetD)
qed

lemma count_add_ref:
  assumes "entries_ok f S m" "r \<notin> S"
  shows "\<forall>x. count (add_mset r (refs m)) x \<le> (if x \<in> insert r S then 1 else 0)"
proof
  fix x
  have "count (refs m) x \<le> (if x \<in> S then 1 else 0)"
    using assms(1) unfolding entries_ok_def by blast
  then show "count (add_mset r (refs m)) x \<le> (if x \<in> insert r S then 1 else 0)"
    using assms(2) by (cases "x = r") auto
qed

lemma entries_ok_new:
  assumes "entries_ok f S m" "r \<notin> S" "l_position (f r) \<noteq> NaN"
  shows "entries_ok f (insert r S) (snd (map_emplace m (l_position (f r)) (LineEntry_ctor (f r) r)))"
  using assms(1,3) entry_ok_new
proof (rule entries_ok_emplace)
  show "\<forall>x. count (mset (e_referees (LineEntry_ctor (f r) r)) + refs m) x \<le> (if x \<in> insert r S then 1 else 0)"
    using count_add_ref [OF assms(1,2)] by (simp add: LineEntry_ctor_def)
qed

lemma insertLine_ok:
  assumes m: "entries_ok f S m" and "insertLine limit (f r) r m = Inr m'" and r: "r \<notin> S"
  shows "entries_ok f (insert r S) m'"
proof -
  let ?i = "nearest m (l_position (f r))"
  let ?e = "merge_entry (snd (m ! ?i)) (f r) r"
  have nan: "l_position (f r) \<noteq> NaN" and i: "?i \<noteq> length m"
    using assms(2) by (auto simp: insertLine_def check_key_def Let_def split: if_splits)
  show ?thesis
  proof (cases "flt (dist (fst (m ! ?i)) (l_position (f r))) limit")
    case True
    have il: "?i < length m"
      using i lower_bound_le [of m "l_position (f r)"] by (auto simp: nearest_def Let_def split: if_splits)
    have m': "m' = snd (map_emplace (map_erase m ?i) (l_position (e_line ?e)) ?e)" "l_position (e_line ?e) \<noteq> NaN"
      using assms(2) nan i True by (auto simp: insertLine_def check_key_def Let_def split: if_splits)
    have "entries_ok f S (map_erase m ?i)" using m il by (rule entries_ok_erase)
    moreover have "entry_ok f (m ! ?i)" using m il by (simp add: entries_ok_def)
    moreover have "mset (e_referees ?e) + refs (map_erase m ?i) = add_mset r (refs m)"
      using refs_erase [OF il] by (simp add: merge_entry_def)
    ultimately show ?thesis
      unfolding m'(1) using count_add_ref [OF m r] m'(2) entry_ok_merge [of f "m ! ?i" r]
      by (intro entries_ok_emplace [of f S]) simp_all
  next
    case False
    then have "m' = snd (map_emplace m (l_position (f r)) (LineEntry_ctor (f r) r))"
      using assms(2) nan i by (simp add: insertLine_def Let_def)
    then show ?thesis using entries_ok_new [OF m r nan] by simp
  qed
qed

definition numbered :: "(Referee \<Rightarrow> LLine) \<Rightarrow> (LLine \<times> Referee) list \<Rightarrow> bool" where
  "numbered f xs \<longleftrightarrow> (\<forall>x \<in> set xs. fst x = f (snd x)) \<and> distinct (map snd xs)"

lemma insert_fold_ok:
  assumes "entries_ok f S m" and "rfold (\<lambda>(l, r). insertLine limit l r) xs m = Inr m'"
    and "numbered f xs" and "S \<inter> snd ` set xs = {}"
  shows "entries_ok f (S \<union> snd ` set xs) m'"
  using assms
proof (induction xs arbitrary: m S)
  case Nil
  then show ?case by simp
next
  case (Cons x xs)
  obtain l r where x: "x = (l, r)" by (cases x)
  have l: "l = f r" and n: "numbered f xs" "r \<notin> snd ` set xs" using Cons.prems(3) by (auto simp: x numbered_def)
  obtain m1 where m1: "insertLine limit (f r) r m = Inr m1" "rfold (\<lambda>(l, r). insertLine limit l r) xs m1 = Inr m'"
    using Cons.prems(2) by (auto simp: x l res_simps)
  have "entries_ok f (insert r S) m1" using insertLine_ok [OF Cons.prems(1) m1(1)] Cons.prems(4) x by auto
  from Cons.IH [OF this m1(2) n(1)] show ?case using Cons.prems(4) n(2) x by auto
qed

lemma first_fold_ok:
  assumes "entries_ok f S m" and "rfold (\<lambda>(l, r) m. check_key (l_position l)
         (Inr (snd (map_emplace m (l_position l) (LineEntry_ctor l r))))) xs m = Inr m'"
    and "numbered f xs" and "S \<inter> snd ` set xs = {}"
  shows "entries_ok f (S \<union> snd ` set xs) m'"
  using assms
proof (induction xs arbitrary: m S)
  case Nil
  then show ?case by simp
next
  case (Cons x xs)
  obtain l r where x: "x = (l, r)" by (cases x)
  have l: "l = f r" and n: "numbered f xs" "r \<notin> snd ` set xs" using Cons.prems(3) by (auto simp: x numbered_def)
  define m1 where "m1 = snd (map_emplace m (l_position (f r)) (LineEntry_ctor (f r) r))"
  have nan: "l_position (f r) \<noteq> NaN" using Cons.prems(2) by (auto simp: x l check_key_def)
  then have "entries_ok f (insert r S) m1"
    unfolding m1_def using Cons.prems(1,4) x by (intro entries_ok_new) auto
  moreover have "rfold (\<lambda>(l, r) m. check_key (l_position l)
         (Inr (snd (map_emplace m (l_position l) (LineEntry_ctor l r))))) xs m1 = Inr m'"
    using Cons.prems(2) nan by (simp add: x l m1_def)
  ultimately show ?case using Cons.IH [OF _ _ n(1), of "insert r S" m1] Cons.prems(4) n(2) x by auto
qed

definition line_of :: "(LineGrid \<Rightarrow> LLine list) \<Rightarrow> LineGrid list \<Rightarrow> Referee \<Rightarrow> LLine" where
  "line_of sel grids r = sel (grids ! fst r) ! snd r"

definition refs_below :: "(LineGrid \<Rightarrow> LLine list) \<Rightarrow> LineGrid list \<Rightarrow> nat \<Rightarrow> Referee set" where
  "refs_below sel grids n = {(g, l). g < n \<and> l < length (sel (grids ! g))}"

lemma set_number_lines: "snd ` set (number_lines g ls) = {(g, l) | l. l < length ls}"
proof -
  have "map snd (number_lines g ls) = map (\<lambda>i. (g, i)) [0..<length ls]" by (simp add: number_lines_def)
  from arg_cong [OF this, of set] show ?thesis by auto
qed

lemma numbered_lines:
  "sel (grids ! g) = ls \<Longrightarrow> numbered (line_of sel grids) (number_lines g ls)"
  by (auto simp: numbered_def number_lines_def line_of_def in_set_zip distinct_map inj_on_def)

lemma refs_below_Suc:
  "refs_below sel grids (Suc n) = refs_below sel grids n \<union> snd ` set (number_lines n (sel (grids ! n)))"
  by (auto simp: refs_below_def set_number_lines less_Suc_eq)

lemma refs_below_disjoint: "refs_below sel grids n \<inter> snd ` set (number_lines n ls) = {}"
  by (auto simp: refs_below_def set_number_lines)

lemma insert_grids_ok:
  assumes "insert_grids n gs ms = Inr ms'" and "drop n grids = gs"
    and "entries_ok (line_of horizonalLines grids) (refs_below horizonalLines grids n) (fst ms)"
    and "entries_ok (line_of verticalLines grids) (refs_below verticalLines grids n) (snd ms)"
  shows "entries_ok (line_of horizonalLines grids) (refs_below horizonalLines grids (n + length gs)) (fst ms')
    \<and> entries_ok (line_of verticalLines grids) (refs_below verticalLines grids (n + length gs)) (snd ms')"
  using assms
proof (induction n gs ms rule: insert_grids.induct)
  case (1 n ms)
  then show ?case by simp
next
  case (2 n g gs ms)
  have g: "grids ! n = g" "drop (Suc n) grids = gs"
    using 2(3) by (metis drop_eq_Nil leI list.distinct(1) nth_via_drop) (metis 2(3) drop_Suc list.sel(3) tl_drop)
  obtain h v where hv: "insert_lines LIMIT_HORIZONTAL n (horizonalLines g) (fst ms) = Inr h"
      "insert_lines LIMIT_VERTICAL n (verticalLines g) (snd ms) = Inr v"
      "insert_grids (Suc n) gs (h, v) = Inr ms'"
    using 2(2) by (auto simp: res_simps)
  have "entries_ok (line_of horizonalLines grids) (refs_below horizonalLines grids (Suc n)) h"
    unfolding refs_below_Suc g(1)
    by (rule insert_fold_ok [OF 2(4) hv(1) [unfolded insert_lines_def]])
      (simp_all add: numbered_lines g refs_below_disjoint)
  moreover have "entries_ok (line_of verticalLines grids) (refs_below verticalLines grids (Suc n)) v"
    unfolding refs_below_Suc g(1)
    by (rule insert_fold_ok [OF 2(5) hv(2) [unfolded insert_lines_def]])
      (simp_all add: numbered_lines g refs_below_disjoint)
  ultimately show ?case using 2(1) [OF hv(1,2)] hv(3) g(2) by simp
qed

lemma first_lines_ok:
  assumes "first_lines ls = Inr m" and "sel (grids ! 0) = ls"
  shows "entries_ok (line_of sel grids) (refs_below sel grids 1) m"
proof -
  have "entries_ok (line_of sel grids) {} []" by (simp add: entries_ok_def refs_def)
  from first_fold_ok [OF this assms(1) [unfolded first_lines_def] numbered_lines [of sel grids 0, OF assms(2)]]
  show ?thesis using refs_below_Suc [of sel grids 0] assms(2) by (simp add: refs_below_def)
qed

subsection \<open>The mapping\<close>

definition mapping_of :: "(GridMapper \<Rightarrow> nat list) \<Rightarrow> GridMapper list \<Rightarrow> Referee \<Rightarrow> nat option" where
  "mapping_of get mappers r =
     (if fst r < length mappers \<and> snd r < length (get (mappers ! fst r))
      then Some (get (mappers ! fst r) ! snd r) else None)"

definition kept :: "nat \<Rightarrow> LineMap \<Rightarrow> LineMap" where
  "kept n m = filter (\<lambda>e. n div 2 < unat (e_counter (snd e))) m"

text \<open>What the two setters of \<open>GridMapper\<close> have in common.\<close>

locale mapping_table =
  fixes setter :: "nat \<Rightarrow> nat \<Rightarrow> GridMapper \<Rightarrow> GridMapper res"
    and get :: "GridMapper \<Rightarrow> nat list" and other :: "GridMapper \<Rightarrow> nat list"
  assumes setter: "setter from to g = Inr g' \<Longrightarrow>
      from < length (get g) \<and> get g' = (get g)[from := to] \<and> other g' = other g"
begin

lemma store_mapping_ok:
  assumes "store_mapping setter k r mps = Inr mps'"
  shows "mapping_of get mps' = (mapping_of get mps)(r \<mapsto> k)" and "r \<in> dom (mapping_of get mps)"
    and "map other mps' = map other mps"
proof -
  obtain mp where r: "fst r < length mps" and mp: "setter (snd r) k (mps ! fst r) = Inr mp" "mps' = mps[fst r := mp]"
    using assms by (auto simp: store_mapping_def res_simps)
  note s = setter [OF mp(1)]
  show "mapping_of get mps' = (mapping_of get mps)(r \<mapsto> k)"
    using r s by (cases r) (auto simp: mapping_of_def mp(2) fun_eq_iff nth_list_update)
  show "r \<in> dom (mapping_of get mps)" using r s by (simp add: mapping_of_def dom_def)
  show "map other mps' = map other mps"
    using r s by (simp add: mp(2) map_update) (metis list_update_id map_update nth_map)
qed

lemma store_all_ok:
  assumes "rfold (store_mapping setter k) rs mps = Inr mps'"
  shows "mapping_of get mps' = (\<lambda>x. if x \<in> set rs then Some k else mapping_of get mps x)"
    and "set rs \<subseteq> dom (mapping_of get mps)" and "map other mps' = map other mps"
proof -
  have "mapping_of get mps' = (\<lambda>x. if x \<in> set rs then Some k else mapping_of get mps x)
    \<and> set rs \<subseteq> dom (mapping_of get mps) \<and> map other mps' = map other mps"
    using assms
  proof (induction rs arbitrary: mps)
    case Nil
    then show ?case by simp
  next
    case (Cons r rs)
    then obtain mps1 where 1: "store_mapping setter k r mps = Inr mps1"
        "rfold (store_mapping setter k) rs mps1 = Inr mps'"
      by (auto simp: res_simps)
    note s = store_mapping_ok [OF 1(1)]
    note ih = Cons.IH [OF 1(2)]
    have "dom (mapping_of get mps1) = dom (mapping_of get mps)" using s(1,2) by auto
    then have "set (r # rs) \<subseteq> dom (mapping_of get mps)" using ih s(2) by simp
    moreover have "mapping_of get mps' = (\<lambda>x. if x \<in> set (r # rs) then Some k else mapping_of get mps x)"
      using ih s(1) by auto
    ultimately show ?case using ih s(3) by simp
  qed
  then show "mapping_of get mps' = (\<lambda>x. if x \<in> set rs then Some k else mapping_of get mps x)"
    and "set rs \<subseteq> dom (mapping_of get mps)" and "map other mps' = map other mps"
    by blast+
qed

lemma collect_ok:
  assumes "rfold (collect_entry setter n) m acc = Inr acc'" and "\<forall>r. count (refs m) r \<le> 1"
  shows "fst acc' = fst acc @ map (\<lambda>e. e_line (snd e)) (kept n m)
    \<and> map other (snd acc') = map other (snd acc)
    \<and> dom (mapping_of get (snd acc')) = dom (mapping_of get (snd acc))
    \<and> (\<forall>x. x \<notin># refs (kept n m) \<longrightarrow> mapping_of get (snd acc') x = mapping_of get (snd acc) x)
    \<and> (\<forall>i < length (kept n m). \<forall>x \<in> set (e_referees (snd (kept n m ! i))).
         mapping_of get (snd acc') x = Some (length (fst acc) + i))"
  using assms
proof (induction m arbitrary: acc)
  case Nil
  then show ?case by (simp add: kept_def refs_def)
next
  case (Cons e m)
  have cnt: "count (mset (e_referees (snd e))) r + count (refs m) r \<le> 1" for r
    using spec [OF Cons.prems(2), of r] by (simp add: refs_def)
  then have m: "\<forall>r. count (refs m) r \<le> 1" by (metis add_leE)
  show ?case
  proof (cases "n div 2 < unat (e_counter (snd e))")
    case False
    then show ?thesis using Cons.IH [OF _ m] Cons.prems(1) by (simp add: collect_entry_def kept_def)
  next
    case True
    then obtain mps where mps: "rfold (store_mapping setter (length (fst acc))) (e_referees (snd e)) (snd acc) = Inr mps"
        "rfold (collect_entry setter n) m (fst acc @ [e_line (snd e)], mps) = Inr acc'"
      using Cons.prems(1) by (auto simp: collect_entry_def [of setter n e] res_simps)
    note s = store_all_ok [OF mps(1)]
    note ih = Cons.IH [OF mps(2) m, unfolded fst_conv snd_conv]
    have ih_out: "mapping_of get (snd acc') x = mapping_of get mps x" if "x \<notin># refs (kept n m)" for x
      using ih that by blast
    have kept: "kept n (e # m) = e # kept n m" using True by (simp add: kept_def)
    have ref: "x \<notin># refs (kept n m)" if "x \<in> set (e_referees (snd e))" for x
    proof
      assume "x \<in># refs (kept n m)"
      then have "x \<in># refs m" by (force simp: refs_def kept_def)
      then have "1 \<le> count (refs m) x" by simp
      moreover have "1 \<le> count (mset (e_referees (snd e))) x" using that by (simp add: Suc_le_eq count_greater_zero_iff)
      ultimately show False using cnt [of x] by linarith
    qed
    have dom: "dom (mapping_of get mps) = dom (mapping_of get (snd acc))"
      using s(2) by (auto simp: s(1) dom_def split: if_splits)
    have out: "mapping_of get (snd acc') x = mapping_of get (snd acc) x" if "x \<notin># refs (e # kept n m)" for x
      using ih_out [of x] that by (simp add: s(1) refs_def)
    have "mapping_of get (snd acc') x = Some (length (fst acc) + i)"
      if "i < length (e # kept n m)" "x \<in> set (e_referees (snd ((e # kept n m) ! i)))" for i x
    proof (cases i)
      case 0
      then show ?thesis using ih_out [of x] ref that by (simp add: s(1))
    next
      case (Suc j)
      then show ?thesis using ih that by simp
    qed
    then show ?thesis using ih dom out s(3) unfolding kept by simp
  qed
qed

end

interpretation horizontal_table: mapping_table set_mapHorizontal horizontalMapping verticalMapping
  by unfold_locales (auto simp: set_mapHorizontal_def rassert_def split: if_splits)

interpretation vertical_table: mapping_table set_mapVertical verticalMapping horizontalMapping
  by unfold_locales (auto simp: set_mapVertical_def rassert_def split: if_splits)

subsection \<open>averageGrids\<close>

text \<open>What the average of some grids is for one direction: lines in increasing order, each the running
  mean of the lines that refer to it, of which there are more than half as many as grids, no line
  referring to two of them; the mapping takes every line that refers to an average line to its
  number, and all other lines to 0.\<close>

definition averaged ::
  "(LineGrid \<Rightarrow> LLine list) \<Rightarrow> LineGrid list \<Rightarrow> LLine list \<Rightarrow> (Referee \<Rightarrow> nat option) \<Rightarrow> bool" where
  "averaged sel grids ls mapping \<longleftrightarrow> sorted_wrt flt (map l_position ls)
     \<and> dom mapping = refs_below sel grids (length grids)
     \<and> (\<exists>rss. length rss = length ls \<and> distinct (concat rss)
         \<and> (\<forall>i < length ls. length grids div 2 < length (rss ! i)
              \<and> ls ! i = mean_line (line_of sel grids) (rss ! i)
              \<and> (\<forall>r \<in> set (rss ! i). mapping r = Some i))
         \<and> (\<forall>r \<in> dom mapping - set (concat rss). mapping r = Some 0))"

lemma keys_ok_filter: "keys_ok m \<Longrightarrow> keys_ok (filter P m)"
  by (induction m) (auto simp: keys_ok_Cons)

lemma refs_mono: "(\<Sum>e \<in># filter_mset P M. mset (f e)) \<subseteq># (\<Sum>e \<in># M. mset (f e))"
  by (induction M) (auto intro: subset_mset.add_mono subset_mset.add_increasing)

lemma finite_refs_below: "finite (refs_below sel grids n)"
proof -
  have "refs_below sel grids n = (SIGMA g:{..<n}. {..<length (sel (grids ! g))})"
    by (auto simp: refs_below_def)
  then show ?thesis by simp
qed

lemma refs_concat: "refs m = mset (concat (map (\<lambda>e. e_referees (snd e)) m))"
  by (induction m) (simp_all add: refs_def)

lemma distinct_countI:
  assumes "\<And>r. count (mset xs) r \<le> (if r \<in> S then 1 else 0)" shows "distinct xs"
proof -
  have "count (mset xs) r \<le> 1" for r using assms [of r] by (rule order_trans) simp
  then show ?thesis
  proof (induction xs)
    case Nil
    then show ?case by simp
  next
    case (Cons x xs)
    have "count (mset xs) r \<le> 1" for r using Cons.prems [of r] by (rule order_trans [rotated]) simp
    moreover have "count (mset xs) x = 0" using Cons.prems [of x] by simp
    ultimately show ?case using Cons.IH by (metis count_mset_0_iff distinct.simps(2))
  qed
qed

lemma entries_ok_count: "entries_ok f S m \<Longrightarrow> count (refs m) r \<le> 1"
proof -
  assume "entries_ok f S m"
  then have "count (refs m) r \<le> (if r \<in> S then 1 else 0)" unfolding entries_ok_def by blast
  then show ?thesis by (cases "r \<in> S") auto
qed

lemma averagedI:
  assumes m: "entries_ok (line_of sel grids) (refs_below sel grids (length grids)) m"
    and small: "card (refs_below sel grids (length grids)) < 2 ^ 32"
    and dom: "dom mapping = refs_below sel grids (length grids)"
    and out: "\<forall>x \<in> dom mapping. x \<notin># refs (kept (length grids) m) \<longrightarrow> mapping x = Some 0"
    and inn: "\<forall>i < length (kept (length grids) m). \<forall>x \<in> set (e_referees (snd (kept (length grids) m ! i))).
         mapping x = Some i"
  shows "averaged sel grids (map (\<lambda>e. e_line (snd e)) (kept (length grids) m)) mapping"
proof -
  let ?k = "kept (length grids) m" and ?S = "refs_below sel grids (length grids)"
  define rss where "rss = map (\<lambda>e. e_referees (snd e)) ?k"
  have refs_k: "refs ?k = mset (concat rss)"
    unfolding rss_def by (rule refs_concat)
  have cnt: "count (refs m) r \<le> (if r \<in> ?S then 1 else 0)" for r using m unfolding entries_ok_def by blast
  have sub: "refs ?k \<subseteq># refs m"
    unfolding refs_def kept_def by (simp add: refs_mono)
  have le: "count (mset (concat rss)) r \<le> (if r \<in> ?S then 1 else 0)" for r
    using cnt [of r] mset_subset_eq_count [OF sub, of r] unfolding refs_k by linarith
  then have dist: "distinct (concat rss)"
    by (rule distinct_countI)
  have in_S: "set (concat rss) \<subseteq> ?S"
  proof
    fix r assume "r \<in> set (concat rss)"
    then have "0 < count (mset (concat rss)) r" by (simp only: count_mset_gt_0)
    then show "r \<in> ?S" using le [of r] by (cases "r \<in> ?S") auto
  qed
  have ent: "entry_ok (line_of sel grids) (?k ! i)" if "i < length ?k" for i
    using m nth_mem [OF that] unfolding entries_ok_def kept_def by auto
  have len: "length (rss ! i) = unat (e_counter (snd (?k ! i)))" if i: "i < length ?k" for i
  proof -
    have mem: "rss ! i \<in> set rss" using i by (simp add: rss_def)
    have "length (rss ! i) = card (set (rss ! i))"
      using dist mem by (metis distinct_card distinct_concat_iff)
    also have "\<dots> \<le> card ?S" using in_S mem by (intro card_mono finite_refs_below) auto
    finally have "length (rss ! i) < 2 ^ 32" using small by simp
    moreover have "e_counter (snd (?k ! i)) = of_nat (length (rss ! i))"
      using ent [OF i] i by (simp add: entry_ok_def rss_def)
    ultimately show ?thesis by (simp add: unsigned_of_nat take_bit_nat_eq_self)
  qed
  have big: "length grids div 2 < length (rss ! i)" if "i < length ?k" for i
    using len [OF that] nth_mem [OF that] by (simp add: kept_def)
  have "keys_ok ?k" using m unfolding entries_ok_def kept_def by (simp add: keys_ok_filter)
  moreover have "map l_position (map (\<lambda>e. e_line (snd e)) ?k) = map fst ?k"
    using ent by (intro nth_equalityI) (auto simp: entry_ok_def)
  ultimately have "sorted_wrt flt (map l_position (map (\<lambda>e. e_line (snd e)) ?k))"
    by (simp only: keys_ok_def)
  moreover have "mean_line (line_of sel grids) (rss ! i) = e_line (snd (?k ! i))" if "i < length ?k" for i
    using ent [OF that] that by (simp add: entry_ok_def rss_def)
  moreover have "\<forall>r \<in> set (rss ! i). mapping r = Some i" if "i < length ?k" for i
    using inn that by (simp add: rss_def)
  moreover have "\<forall>r \<in> dom mapping - set (concat rss). mapping r = Some 0"
    using out unfolding refs_k by simp
  moreover have "length rss = length ?k" by (simp add: rss_def)
  ultimately show ?thesis
    unfolding averaged_def using dom dist big by (intro conjI exI [of _ rss]) simp_all
qed

lemma mapping_of_ctor:
  "mapping_of horizontalMapping
     (map (\<lambda>g. GridMapper_ctor (length (horizonalLines g)) (length (verticalLines g))) grids) =
     (\<lambda>r. if r \<in> refs_below horizonalLines grids (length grids) then Some 0 else None)"
  "mapping_of verticalMapping
     (map (\<lambda>g. GridMapper_ctor (length (horizonalLines g)) (length (verticalLines g))) grids) =
     (\<lambda>r. if r \<in> refs_below verticalLines grids (length grids) then Some 0 else None)"
  by (auto simp: mapping_of_def fun_eq_iff refs_below_def GridMapper_ctor_def)

lemma mapping_of_cong: "map get mps' = map get mps \<Longrightarrow> mapping_of get mps' = mapping_of get mps"
  by (rule ext) (metis (mono_tags, lifting) length_map mapping_of_def nth_map)

definition mapped :: "LineGrid list \<Rightarrow> (LineGrid \<Rightarrow> LLine list) \<Rightarrow> LineMap \<Rightarrow> (Referee \<Rightarrow> nat option) \<Rightarrow> bool" where
  "mapped grids sel m mapping \<longleftrightarrow> dom mapping = refs_below sel grids (length grids)
     \<and> (\<forall>x \<in> dom mapping. x \<notin># refs (kept (length grids) m) \<longrightarrow> mapping x = Some 0)
     \<and> (\<forall>i < length (kept (length grids) m). \<forall>x \<in> set (e_referees (snd (kept (length grids) m ! i))). mapping x = Some i)"

text \<open>The maps of lines at the end, and the lines and mappers made from them.\<close>

lemma averageGrids_parts:
  assumes "averageGrids grids = Inr (avg, mappers)"
  obtains h v where "entries_ok (line_of horizonalLines grids) (refs_below horizonalLines grids (length grids)) h"
    and "entries_ok (line_of verticalLines grids) (refs_below verticalLines grids (length grids)) v"
    and "horizonalLines avg = map (\<lambda>e. e_line (snd e)) (kept (length grids) h)"
    and "verticalLines avg = map (\<lambda>e. e_line (snd e)) (kept (length grids) v)"
    and "mapped grids horizonalLines h (mapping_of horizontalMapping mappers)"
    and "mapped grids verticalLines v (mapping_of verticalMapping mappers)"
proof -
  let ?m0 = "map (\<lambda>g. GridMapper_ctor (length (horizonalLines g)) (length (verticalLines g))) grids"
  let ?n = "length grids"
  obtain g gs where grids: "grids = g # gs" using assms by (cases grids) (auto simp: averageGrids_def)
  obtain h0 v0 h v hs m1 vs where
    a: "first_lines (horizonalLines g) = Inr h0" "first_lines (verticalLines g) = Inr v0"
      "insert_grids 1 gs (h0, v0) = Inr (h, v)"
      "rfold (collect_entry set_mapHorizontal ?n) h ([], ?m0) = Inr (hs, m1)"
      "rfold (collect_entry set_mapVertical ?n) v ([], m1) = Inr (vs, mappers)"
      "avg = \<lparr>horizonalLines = hs, verticalLines = vs\<rparr>"
    using assms by (auto simp: averageGrids_def grids res_simps)
  have ok: "entries_ok (line_of horizonalLines grids) (refs_below horizonalLines grids ?n) h"
    "entries_ok (line_of verticalLines grids) (refs_below verticalLines grids ?n) v"
    using insert_grids_ok [OF a(3), of grids] first_lines_ok [OF a(1), of horizonalLines grids]
      first_lines_ok [OF a(2), of verticalLines grids] by (simp_all add: grids)
  have cnt: "\<forall>r. count (refs h) r \<le> 1" "\<forall>r. count (refs v) r \<le> 1"
    using ok entries_ok_count by blast+
  note ch = horizontal_table.collect_ok [OF a(4) cnt(1), unfolded mapping_of_ctor fst_conv snd_conv]
  note cv = vertical_table.collect_ok [OF a(5) cnt(2), unfolded fst_conv snd_conv]
  have h2: "mapping_of horizontalMapping mappers = mapping_of horizontalMapping m1"
    using cv by (intro mapping_of_cong) simp
  have v1: "mapping_of verticalMapping m1 = mapping_of verticalMapping ?m0"
    using ch by (intro mapping_of_cong) simp
  have hs: "hs = map (\<lambda>e. e_line (snd e)) (kept ?n h)" and vs: "vs = map (\<lambda>e. e_line (snd e)) (kept ?n v)"
    using ch cv by simp_all
  have d: "dom (\<lambda>r. if r \<in> S then Some (0 :: nat) else None) = S" for S :: "Referee set"
    by (auto simp: dom_def)
  have "mapped grids horizonalLines h (mapping_of horizontalMapping mappers)"
    unfolding h2 mapped_def using ch d by auto
  moreover have "mapped grids verticalLines v (mapping_of verticalMapping mappers)"
    unfolding mapped_def using cv [unfolded v1 mapping_of_ctor] d by auto
  ultimately show thesis using that [OF ok] hs vs a(6) by simp
qed

lemma averageGrids_ok:
  assumes "averageGrids grids = Inr (avg, mappers)"
    and "card (refs_below horizonalLines grids (length grids)) < 2 ^ 32"
    and "card (refs_below verticalLines grids (length grids)) < 2 ^ 32"
  shows "averaged horizonalLines grids (horizonalLines avg) (mapping_of horizontalMapping mappers)
    \<and> averaged verticalLines grids (verticalLines avg) (mapping_of verticalMapping mappers)"
proof (rule averageGrids_parts [OF assms(1)])
  fix h v
  assume "entries_ok (line_of horizonalLines grids) (refs_below horizonalLines grids (length grids)) h"
    and "entries_ok (line_of verticalLines grids) (refs_below verticalLines grids (length grids)) v"
    and "horizonalLines avg = map (\<lambda>e. e_line (snd e)) (kept (length grids) h)"
    and "verticalLines avg = map (\<lambda>e. e_line (snd e)) (kept (length grids) v)"
    and "mapped grids horizonalLines h (mapping_of horizontalMapping mappers)"
    and "mapped grids verticalLines v (mapping_of verticalMapping mappers)"
  then show ?thesis using averagedI [of horizonalLines grids h] averagedI [of verticalLines grids v] assms(2,3)
    by (simp add: mapped_def)
qed

text \<open>
  C14: \<open>averageGrids\<close>. When the function returns, the horizontal and the vertical lines of the average
  are in strictly increasing order of their positions; each is the running mean of the input lines
  that refer to it, of which there are more than half as many as there are grids; no input line
  refers to two average lines; and the mapper of each grid takes a line to the number of the
  average line it refers to, and a line that refers to none to 0.
\<close>
theorem averageGrids_correct:
  assumes "averageGrids grids = Inr (avg, mappers)"
    and "card (refs_below horizonalLines grids (length grids)) < 2 ^ 32"
    and "card (refs_below verticalLines grids (length grids)) < 2 ^ 32"
  shows "averaged horizonalLines grids (horizonalLines avg) (mapping_of horizontalMapping mappers)
    \<and> averaged verticalLines grids (verticalLines avg) (mapping_of verticalMapping mappers)"
  using averageGrids_ok [OF assms] .

lemma rnd64_half: "rnd binary64 (1 / 2) = Fin (1 / 2)"
  by (rule rnd64_exact [of _ 1 "-1"]) simp_all

lemma rnd64_one: "rnd binary64 1 = Fin 1" "rnd binary64 0 = Fin 0"
  using rnd64_int [of 1] rnd64_int [of 0] by simp_all

lemma merge_sample:
  "merge_position 1 (Fin 8) (Fin 10) = Fin 9" "merge_position 1 (Fin 100) (Fin 102) = Fin 101"
  "merge_position 1 (Fin 0) (Fin 0) = Fin 0"
  by (simp_all add: merge_position_def fl_of_int_def rnd64_one rnd64_half rnd64_numeral rnd32_numeral r32.r_zero)

definition two_grids :: "LineGrid list" where
  "two_grids = [\<lparr>horizonalLines = [\<lparr>l_subgrid = SUBGRID_A, l_position = Fin 8\<rparr>], verticalLines = []\<rparr>,
     \<lparr>horizonalLines = [\<lparr>l_subgrid = SUBGRID_A, l_position = Fin 10\<rparr>], verticalLines = []\<rparr>]"

text \<open>Three grids, of which the second has two lines close to each other that the others do not have.\<close>

definition three_grids :: "LineGrid list" where
  "three_grids = [\<lparr>horizonalLines = [\<lparr>l_subgrid = SUBGRID_A, l_position = Fin 0\<rparr>], verticalLines = []\<rparr>,
     \<lparr>horizonalLines = [\<lparr>l_subgrid = SUBGRID_A, l_position = Fin 100\<rparr>, \<lparr>l_subgrid = SUBGRID_B, l_position = Fin 102\<rparr>],
       verticalLines = []\<rparr>,
     \<lparr>horizonalLines = [\<lparr>l_subgrid = SUBGRID_A, l_position = Fin 0\<rparr>], verticalLines = []\<rparr>]"

lemmas average_eval = averageGrids_def first_lines_def number_lines_def insert_lines_def insertLine_def
  map_emplace_def map_erase_def lower_bound_def nearest_def dist_Fin LIMIT_HORIZONTAL_def merge_entry_def
  LineEntry_ctor_def collect_entry_def GridMapper_ctor_def store_mapping_def ld_def set_mapHorizontal_def
  check_key_def flt_max32_def merge_sample fmt_max32_eq r32.r_zero rnd32_numeral

lemma two_grids_average:
  "averageGrids two_grids =
     Inr (\<lparr>horizonalLines = [\<lparr>l_subgrid = SUBGRID_A, l_position = Fin 9\<rparr>], verticalLines = []\<rparr>,
       [GridMapper_ctor 1 0, GridMapper_ctor 1 0])"
  by (simp add: two_grids_def average_eval Let_def)

theorem averageGrids_correct_witness:
  "averaged horizonalLines two_grids [\<lparr>l_subgrid = SUBGRID_A, l_position = Fin 9\<rparr>]
     (mapping_of horizontalMapping [GridMapper_ctor 1 0, GridMapper_ctor 1 0])"
proof -
  have len: "length two_grids = 2" by (simp add: two_grids_def)
  have "refs_below horizonalLines two_grids 2 \<subseteq> {(0, 0), (1, 0)}" "refs_below verticalLines two_grids 2 = {}"
    by (auto simp: refs_below_def two_grids_def nth_Cons' split: if_splits)
  then have "card (refs_below horizonalLines two_grids (length two_grids)) < 2 ^ 32"
    "card (refs_below verticalLines two_grids (length two_grids)) < 2 ^ 32"
    using card_mono [of "{(0, 0), (1, 0)} :: Referee set" "refs_below horizonalLines two_grids 2"]
    by (simp_all add: len)
  from averageGrids_correct [OF two_grids_average this] show ?thesis by simp
qed

text \<open>Two lines of one grid that are merged count twice, so a line that one grid of three has is
  kept.\<close>

lemma averageGrids_counts_lines:
  "\<exists>avg mappers. averageGrids three_grids = Inr (avg, mappers)
     \<and> \<lparr>l_subgrid = SUBGRID_A, l_position = Fin 101\<rparr> \<in> set (horizonalLines avg)"
  by (simp add: three_grids_def average_eval Let_def)

text \<open>
  \<open>insertLine\<close> dereferences the end iterator of an empty map. When the first grid has no lines
  and the second one has a horizontal line, \<open>averageGrids\<close> does.
\<close>
lemma averageGrids_empty_first:
  assumes "horizonalLines g1 = l # ls" and "l_position l \<noteq> NaN"
  shows "averageGrids (LineGrid_empty # g1 # gs) = Inl EndIterator"
proof -
  obtain xs where "number_lines 1 (horizonalLines g1) = (l, (1, 0)) # xs"
    using assms(1) by (simp add: number_lines_def upt_conv_Cons del: upt_Suc)
  then show ?thesis
    using assms(2) by (simp add: averageGrids_def LineGrid_empty_def first_lines_def number_lines_def [of _ "[]"]
        insert_lines_def insertLine_def nearest_def lower_bound_def Let_def)
qed

subsection \<open>The filtered average\<close>

definition close_to :: "fl \<Rightarrow> fl \<Rightarrow> fl \<Rightarrow> bool" where
  "close_to mean limit val \<longleftrightarrow> fle (fabs (fsub binary64 val mean)) limit"

definition sum_fl :: "fl list \<Rightarrow> fl" where
  "sum_fl xs = foldl (fadd binary64) (Fin 0) xs"

definition mean_fl :: "fl list \<Rightarrow> fl" where
  "mean_fl xs = fdiv binary64 (sum_fl xs) (fl_of_int binary64 (int (length xs)))"

lemma fold_moments:
  "fold (moments_step fmt) xs (a, b) = (foldl (fadd binary64) a (map (\<lambda>v. fmul fmt v v) xs), foldl (fadd binary64) b xs)"
  by (induction xs arbitrary: a b) (simp_all add: moments_step_def)

lemma fold_filter:
  "fold (filter_step mean limit) xs (a, n) =
     (foldl (fadd binary64) a (filter (close_to mean limit) xs), n + length (filter (close_to mean limit) xs))"
  by (induction xs arbitrary: a n) (simp_all add: filter_step_def close_to_def)

lemma zero_by_zero: "fdiv binary64 (Fin 0) (fl_of_int binary64 0) = NaN"
  by (simp add: fl_of_int_def r64.r_zero)

text \<open>
  C15: \<open>filteredAverage\<close> is the mean of the values that are within \<open>sigmaLimit\<close> standard deviations of
  the mean of all values; it is a NaN for an empty container, and whenever the computed standard
  deviation is a NaN, because then no value passes the filter.
\<close>
theorem filteredAverage_correct:
  "filteredAverage sqrt_fn fmt xs sigmaLimit =
     (let sigma = sqrt_fn (fsub binary64 (mean_fl (map (\<lambda>v. fmul fmt v v) xs))
                     (fmul binary64 (mean_fl xs) (mean_fl xs)));
          kept = filter (close_to (mean_fl xs) (fmul binary64 sigmaLimit sigma)) xs
      in to_fmt fmt (mean_fl kept))
   \<and> filteredAverage sqrt_fn fmt [] sigmaLimit = NaN
   \<and> (fmul binary64 sigmaLimit (sqrt_fn (fsub binary64 (mean_fl (map (\<lambda>v. fmul fmt v v) xs))
         (fmul binary64 (mean_fl xs) (mean_fl xs)))) = NaN
      \<longrightarrow> filteredAverage sqrt_fn fmt xs sigmaLimit = NaN)"
  by (simp add: filteredAverage_def fold_moments fold_filter mean_fl_def sum_fl_def Let_def zero_by_zero
      close_to_def)

theorem filteredAverage_correct_witness:
  "filteredAverage (\<lambda>_. NaN) binary64 [Fin 1, Fin 2] (Fin 2) = NaN"
  by (rule filteredAverage_correct [THEN conjunct2, THEN conjunct2, THEN mp]) simp

end
