(* ===== verification/Json_Lib.thy ===== *)
theory Json_Lib
  imports Lyli_Prelude Ieee_Float "HOL-Library.AList"
begin

text \<open>
  The JSON library (jsoncpp, third party) as an interface: a record of the operations of
  \<open>Json::Value\<close> the program calls, and the locale \<open>json_lib\<close> with what the program relies on. Values
  are members of an abstract type. \<open>j_get\<close> is the constant index operator (a missing member reads as
  null), \<open>j_set\<close> an assignment through the other one, which makes the member; \<open>resolve\<close> follows a
  chain of non-constant index operators and returns the value at its end and the tree, in which the
  members on the way exist now. \<open>tree_json\<close> is a concrete JSON tree that satisfies the laws.
\<close>

datatype seg = K string | I nat

fun same_kind :: "seg \<Rightarrow> seg \<Rightarrow> bool" where
  "same_kind (K a) (K b) \<longleftrightarrow> True"
| "same_kind (I a) (I b) \<longleftrightarrow> True"
| "same_kind _ _ \<longleftrightarrow> False"

record 'j json_ops =
  j_null :: 'j
  j_object :: 'j
  j_array :: 'j
  j_int :: "int \<Rightarrow> 'j"
  j_real :: "fl \<Rightarrow> 'j"
  j_string :: "string \<Rightarrow> 'j"
  j_get :: "seg \<Rightarrow> 'j \<Rightarrow> 'j res"
  j_set :: "seg \<Rightarrow> 'j \<Rightarrow> 'j \<Rightarrow> 'j res"
  j_size :: "'j \<Rightarrow> nat"
  j_isArray :: "'j \<Rightarrow> bool"
  as_int :: "'j \<Rightarrow> int res"
  as_float :: "'j \<Rightarrow> fl res"
  as_double :: "'j \<Rightarrow> fl res"
  as_string :: "'j \<Rightarrow> string res"
  as_bool :: "'j \<Rightarrow> bool res"

fun resolve :: "'j json_ops \<Rightarrow> seg list \<Rightarrow> 'j \<Rightarrow> ('j \<times> 'j) res" where
  "resolve J [] v = Inr (v, v)"
| "resolve J (s # p) v =
     rbind (j_get J s v) (\<lambda>c. rbind (resolve J p c) (\<lambda>(x, c').
       rbind (j_set J s c' v) (\<lambda>v'. Inr (x, v'))))"

text \<open>An assignment at the end of a chain of index operators.\<close>

fun j_put :: "'j json_ops \<Rightarrow> seg list \<Rightarrow> 'j \<Rightarrow> 'j \<Rightarrow> 'j res" where
  "j_put J [] x v = Inr x"
| "j_put J (s # p) x v =
     rbind (j_get J s v) (\<lambda>c. rbind (j_put J p x c) (\<lambda>c'. j_set J s c' v))"

text \<open>What an object and an array hold.\<close>

definition is_obj :: "'j json_ops \<Rightarrow> 'j \<Rightarrow> (string \<Rightarrow> 'j) \<Rightarrow> bool" where
  "is_obj J v f \<longleftrightarrow> (\<forall>k. j_get J (K k) v = Inr (f k))"

definition is_list :: "'j json_ops \<Rightarrow> 'j \<Rightarrow> 'j list \<Rightarrow> bool" where
  "is_list J v xs \<longleftrightarrow> j_isArray J v \<and> j_size J v = length xs
     \<and> (\<forall>i. j_get J (I i) v = Inr (if i < length xs then xs ! i else j_null J))"

text \<open>Two chains of index operators that treat the nodes they share in the same way, the second
  not ending above the end of the first.\<close>

fun compatible :: "seg list \<Rightarrow> seg list \<Rightarrow> bool" where
  "compatible [] q \<longleftrightarrow> True"
| "compatible (s # p) [] \<longleftrightarrow> False"
| "compatible (s # p) (t # q) \<longleftrightarrow> same_kind s t \<and> (s = t \<longrightarrow> compatible p q)"

locale json_lib =
  fixes J :: "'j json_ops"
  assumes get_null: "j_get J s (j_null J) = Inr (j_null J)"
    and get_set: "j_set J s c v = Inr v' \<Longrightarrow> j_get J s v' = Inr c"
    and get_set_other: "j_set J s c v = Inr v' \<Longrightarrow> same_kind s t \<Longrightarrow> s \<noteq> t
      \<Longrightarrow> j_get J t v = Inr d \<Longrightarrow> j_get J t v' = Inr d"
    and set_total: "j_get J s v = Inr d \<Longrightarrow> \<exists>v'. j_set J s c v = Inr v'"
    and get_object: "j_get J (K k) (j_object J) = Inr (j_null J)"
    and get_array: "j_get J (I n) (j_array J) = Inr (j_null J)"
    and size_array: "j_size J (j_array J) = 0"
    and size_set: "j_isArray J v \<Longrightarrow> j_set J (I n) c v = Inr v' \<Longrightarrow>
      j_isArray J v' \<and> j_size J v' = max (j_size J v) (Suc n)"
    and is_array: "j_isArray J (j_array J)"
    and int_of_int: "- (2 ^ 31) \<le> i \<Longrightarrow> i < 2 ^ 31 \<Longrightarrow> as_int J (j_int J i) = Inr i"
    and int_range: "as_int J v = Inr i \<Longrightarrow> - (2 ^ 31) \<le> i \<and> i < 2 ^ 31"
    and double_of_int: "- (2 ^ 31) \<le> i \<Longrightarrow> i < 2 ^ 31 \<Longrightarrow> as_double J (j_int J i) = Inr (Fin (of_int i))"
    and float_of_real: "as_float J (j_real J x) = Inr (to_fmt binary32 x)"
    and double_of_real: "as_double J (j_real J x) = Inr x"
    and string_of_string: "as_string J (j_string J str) = Inr str"
    and null_defaults: "as_int J (j_null J) = Inr 0" "as_float J (j_null J) = Inr (Fin 0)"
      "as_string J (j_null J) = Inr ''''" "as_bool J (j_null J) = Inr False"
begin

text \<open>A chain on a null value ends at a null value.\<close>

lemma resolve_null: "\<exists>v'. resolve J p (j_null J) = Inr (j_null J, v')"
proof (induction p)
  case Nil
  then show ?case by simp
next
  case (Cons s p)
  then obtain c' where "resolve J p (j_null J) = Inr (j_null J, c')" by blast
  then show ?case using set_total [OF get_null [of s], of c'] by (auto simp: get_null)
qed

text \<open>Following a chain does not change what another chain finds, although it changes the tree.\<close>

lemma resolve_frame:
  assumes "resolve J p v = Inr (x, v')" and "resolve J q v = Inr (y, w)" and "compatible p q"
  shows "\<exists>w'. resolve J q v' = Inr (y, w')"
  using assms
proof (induction p q arbitrary: v x v' w rule: compatible.induct)
  case (1 q)
  then show ?case by auto
next
  case (2 s p)
  then show ?case by simp
next
  case (3 s p t q)
  obtain c c' where c: "j_get J s v = Inr c" "resolve J p c = Inr (x, c')" "j_set J s c' v = Inr v'"
    using 3(2) by (auto simp: res_simps)
  obtain d d' where d: "j_get J t v = Inr d" "resolve J q d = Inr (y, d')" "j_set J t d' v = Inr w"
    using 3(3) by (auto simp: res_simps)
  obtain e where "j_get J t v' = Inr e" "\<exists>e'. resolve J q e = Inr (y, e')"
  proof (cases "s = t")
    case True
    then have "\<exists>e'. resolve J q c' = Inr (y, e')"
      using 3(1) [OF True c(2), of d'] c(1) d 3(4) by simp
    then show ?thesis using that get_set [OF c(3)] True by blast
  next
    case False
    then show ?thesis using that [of d] get_set_other [OF c(3) _ False d(1)] d(2) 3(4) by auto
  qed
  then show ?case using set_total [of t v' e] by (auto simp: res_simps)
qed

lemma is_obj_object: "is_obj J (j_object J) (\<lambda>_. j_null J)"
  by (simp add: is_obj_def get_object)

lemma is_obj_null: "is_obj J (j_null J) (\<lambda>_. j_null J)"
  by (simp add: is_obj_def get_null)

lemma is_obj_set:
  assumes "is_obj J v f"
  shows "\<exists>v'. j_set J (K k) c v = Inr v' \<and> is_obj J v' (f(k := c))"
proof -
  obtain v' where v': "j_set J (K k) c v = Inr v'"
    using set_total [of "K k" v "f k" c] assms by (auto simp: is_obj_def)
  have "j_get J (K k') v' = Inr ((f(k := c)) k')" for k'
    using get_set [OF v'] get_set_other [OF v', of "K k'" "f k'"] assms by (auto simp: is_obj_def)
  then show ?thesis using v' by (auto simp: is_obj_def)
qed

lemma is_list_array: "is_list J (j_array J) []"
  by (simp add: is_list_def get_array size_array is_array)

lemma is_list_set:
  assumes "is_list J v xs" and "i \<le> length xs"
  shows "\<exists>v'. j_set J (I i) c v = Inr v' \<and> is_list J v' (if i < length xs then xs[i := c] else xs @ [c])"
proof -
  have g: "j_get J (I n) v = Inr (if n < length xs then xs ! n else j_null J)" for n
    using assms(1) by (simp add: is_list_def)
  obtain v' where v': "j_set J (I i) c v = Inr v'" using set_total [OF g] by blast
  have "j_get J (I n) v' = Inr (if n < max (length xs) (Suc i) then
      (if i < length xs then xs[i := c] else xs @ [c]) ! n else j_null J)" for n
    using get_set [OF v'] get_set_other [OF v', of "I n"] g [of n] assms(2)
    by (cases "n = i") (auto simp: nth_append nth_list_update)
  then show ?thesis
    using v' size_set [OF _ v'] assms by (auto simp: is_list_def max_def split: if_splits)
qed

end

subsection \<open>A JSON tree\<close>

datatype json = JNull | JBool bool | JInt int | JReal fl | JStr string
  | JArr "json list" | JObj "(string \<times> json) list"

fun tree_get :: "seg \<Rightarrow> json \<Rightarrow> json res" where
  "tree_get s JNull = Inr JNull"
| "tree_get (K k) (JObj kvs) = Inr (case map_of kvs k of None \<Rightarrow> JNull | Some v \<Rightarrow> v)"
| "tree_get (I n) (JArr vs) = Inr (if n < length vs then vs ! n else JNull)"
| "tree_get s v = Inl (Thrown ''requires objectValue or arrayValue'')"

fun tree_set :: "seg \<Rightarrow> json \<Rightarrow> json \<Rightarrow> json res" where
  "tree_set (K k) c JNull = Inr (JObj [(k, c)])"
| "tree_set (I n) c JNull = Inr (JArr (replicate n JNull @ [c]))"
| "tree_set (K k) c (JObj kvs) = Inr (JObj (AList.update k c kvs))"
| "tree_set (I n) c (JArr vs) =
     Inr (JArr (if n < length vs then vs[n := c] else vs @ replicate (n - length vs) JNull @ [c]))"
| "tree_set s c v = Inl (Thrown ''requires objectValue or arrayValue'')"

fun tree_size :: "json \<Rightarrow> nat" where
  "tree_size (JArr vs) = length vs"
| "tree_size (JObj kvs) = length kvs"
| "tree_size v = 0"

fun tree_int :: "json \<Rightarrow> int res" where
  "tree_int JNull = Inr 0"
| "tree_int (JBool b) = Inr (if b then 1 else 0)"
| "tree_int (JInt n) = (if - (2 ^ 31) \<le> n \<and> n < 2 ^ 31 then Inr n else Inl (Thrown ''out of Int range''))"
| "tree_int v = Inl (Thrown ''Value is not convertible to Int.'')"

fun tree_double :: "json \<Rightarrow> fl res" where
  "tree_double JNull = Inr (Fin 0)"
| "tree_double (JBool b) = Inr (Fin (if b then 1 else 0))"
| "tree_double (JInt n) = Inr (fl_of_int binary64 n)"
| "tree_double (JReal x) = Inr x"
| "tree_double v = Inl (Thrown ''Value is not convertible to double.'')"

fun tree_string :: "json \<Rightarrow> string res" where
  "tree_string JNull = Inr ''''"
| "tree_string (JStr s) = Inr s"
| "tree_string (JBool b) = Inr (if b then ''true'' else ''false'')"
| "tree_string v = Inl (Thrown ''Type is not convertible to string'')"

fun tree_bool :: "json \<Rightarrow> bool res" where
  "tree_bool JNull = Inr False"
| "tree_bool (JBool b) = Inr b"
| "tree_bool (JInt n) = Inr (n \<noteq> 0)"
| "tree_bool v = Inl (Thrown ''Value is not convertible to bool.'')"

definition tree_json :: "json json_ops" where
  "tree_json = \<lparr>j_null = JNull, j_object = JObj [], j_array = JArr [], j_int = JInt, j_real = JReal,
     j_string = JStr, j_get = tree_get, j_set = tree_set, j_size = tree_size,
     j_isArray = (\<lambda>v. case v of JArr _ \<Rightarrow> True | _ \<Rightarrow> False), as_int = tree_int,
     as_float = (\<lambda>v. rbind (tree_double v) (\<lambda>x. Inr (to_fmt binary32 x))), as_double = tree_double,
     as_string = tree_string, as_bool = tree_bool\<rparr>"

lemma tree_get_set: "tree_set s c v = Inr v' \<Longrightarrow> tree_get s v' = Inr c"
  by (cases s; cases v) (auto simp: update_conv' nth_append)

lemma tree_get_set_other:
  "tree_set s c v = Inr v' \<Longrightarrow> same_kind s t \<Longrightarrow> s \<noteq> t \<Longrightarrow> tree_get t v = Inr d \<Longrightarrow> tree_get t v' = Inr d"
  by (cases s; cases t; cases v) (auto simp: update_conv' nth_append nth_Cons' split: if_splits)

lemma tree_set_total: "tree_get s v = Inr d \<Longrightarrow> \<exists>v'. tree_set s c v = Inr v'"
  by (cases s; cases v) auto

interpretation tree: json_lib tree_json
proof
  show "\<exists>v'. j_set tree_json s c v = Inr v'" if "j_get tree_json s v = Inr d" for s v d c
    using that tree_set_total by (simp add: tree_json_def)
  show "j_get tree_json s v' = Inr c" if "j_set tree_json s c v = Inr v'" for s c v v'
    using that tree_get_set by (simp add: tree_json_def)
  show "j_get tree_json t v' = Inr d"
    if "j_set tree_json s c v = Inr v'" "same_kind s t" "s \<noteq> t" "j_get tree_json t v = Inr d" for s c v v' t d
    using that tree_get_set_other by (simp add: tree_json_def)
  show "j_isArray tree_json v' \<and> j_size tree_json v' = max (j_size tree_json v) (Suc n)"
    if "j_isArray tree_json v" "j_set tree_json (I n) c v = Inr v'" for v n c v'
    using that by (cases v) (auto simp: tree_json_def)
  show "as_double tree_json (j_int tree_json n) = Inr (Fin (of_int n))" if "- (2 ^ 31) \<le> n" "n < 2 ^ 31" for n
    using that rnd64_int [of n] by (simp add: tree_json_def fl_of_int_def abs_less_iff)
  show "- (2 ^ 31) \<le> n \<and> n < 2 ^ 31" if "as_int tree_json v = Inr n" for v n
    using that by (cases v) (auto simp: tree_json_def split: if_splits)
qed (simp_all add: tree_json_def rnd32_int [of 0, simplified])

end
