(* ===== verification/Metadata.thy ===== *)
theory Metadata
  imports Json_Lib
begin

text \<open>
  \<open>lib/image/metadata\<close>: typed access to the metadata file of a picture. \<open>ValuePtr\<close> is a shared
  pointer to the parsed JSON tree, modelled as an address in a memory, or the null pointer of a
  default-constructed object; every class of the accessor hierarchy holds one. The accessors go
  through the non-constant index operator of \<open>Json::Value\<close>, so they return the value read and the
  memory in which the members on the path exist (\<open>Json_Lib.resolve\<close>). The parser of the library is
  a parameter of \<open>read\<close>.
\<close>

type_synonym ValuePtr = "nat option"
type_synonym 'j memory = "nat \<rightharpoonup> 'j"

datatype Metadata = Metadata (m_root: ValuePtr)

definition Metadata_ctor :: Metadata where
  "Metadata_ctor = Metadata None"

text \<open>\<open>addr\<close> is the address \<open>std::make_shared\<close> returns. The success of the parser is not looked at.\<close>

definition read :: "('s \<Rightarrow> 'j) \<Rightarrow> nat \<Rightarrow> 's \<Rightarrow> 'j memory \<Rightarrow> Metadata \<times> 'j memory" where
  "read parse addr is mem = (Metadata (Some addr), mem(addr \<mapsto> parse is))"

definition deref_root :: "ValuePtr \<Rightarrow> 'j memory \<Rightarrow> 'j res" where
  "deref_root p mem =
     (case p of None \<Rightarrow> Inl NullPointer
      | Some a \<Rightarrow> (case mem a of None \<Rightarrow> Inl NullPointer | Some v \<Rightarrow> Inr v))"

definition access ::
  "'j json_ops \<Rightarrow> ('j \<Rightarrow> 'a res) \<Rightarrow> seg list \<Rightarrow> ValuePtr \<Rightarrow> 'j memory \<Rightarrow> ('a \<times> 'j memory) res" where
  "access J conv path p mem =
     rbind (deref_root p mem) (\<lambda>root. rbind (resolve J path root) (\<lambda>(x, root').
       rbind (conv x) (\<lambda>r. Inr (r, mem(the p \<mapsto> root')))))"

definition frame_path :: "seg list" where
  "frame_path = [K ''master'', K ''picture'', K ''frameArray'', I 0, K ''frame'']"

definition meta :: "seg list \<Rightarrow> seg list" where
  "meta p = frame_path @ K ''metadata'' # p"

definition priv :: "seg list \<Rightarrow> seg list" where
  "priv p = frame_path @ K ''privateMetadata'' # p"

subsection \<open>Generated accessors\<close>

datatype Image = Image (Image_m_root: ValuePtr)

definition Image_getWidth ::
  "'j json_ops \<Rightarrow> Image \<Rightarrow> 'j memory \<Rightarrow> (int \<times> 'j memory) res" where
  "Image_getWidth J h =
     access J (as_int J) (meta [K ''image'', K ''width'']) (Image_m_root h)"

definition Image_getHeight ::
  "'j json_ops \<Rightarrow> Image \<Rightarrow> 'j memory \<Rightarrow> (int \<times> 'j memory) res" where
  "Image_getHeight J h =
     access J (as_int J) (meta [K ''image'', K ''height'']) (Image_m_root h)"

definition Image_getOrientation ::
  "'j json_ops \<Rightarrow> Image \<Rightarrow> 'j memory \<Rightarrow> (int \<times> 'j memory) res" where
  "Image_getOrientation J h =
     access J (as_int J) (meta [K ''image'', K ''orientation'']) (Image_m_root h)"

definition Image_getRepresentation ::
  "'j json_ops \<Rightarrow> Image \<Rightarrow> 'j memory \<Rightarrow> (string \<times> 'j memory) res" where
  "Image_getRepresentation J h =
     access J (as_string J) (meta [K ''image'', K ''representation'']) (Image_m_root h)"

datatype Image_Rawdetails = Image_Rawdetails (Image_Rawdetails_m_root: ValuePtr)

datatype Image_Rawdetails_Pixelformat = Image_Rawdetails_Pixelformat (Image_Rawdetails_Pixelformat_m_root: ValuePtr)

definition Image_Rawdetails_Pixelformat_getRightshift ::
  "'j json_ops \<Rightarrow> Image_Rawdetails_Pixelformat \<Rightarrow> 'j memory \<Rightarrow> (int \<times> 'j memory) res" where
  "Image_Rawdetails_Pixelformat_getRightshift J h =
     access J (as_int J) (meta [K ''image'', K ''rawDetails'', K ''pixelFormat'', K ''rightShift'']) (Image_Rawdetails_Pixelformat_m_root h)"

datatype Image_Rawdetails_Pixelformat_Black = Image_Rawdetails_Pixelformat_Black (Image_Rawdetails_Pixelformat_Black_m_root: ValuePtr)

definition Image_Rawdetails_Pixelformat_Black_getR ::
  "'j json_ops \<Rightarrow> Image_Rawdetails_Pixelformat_Black \<Rightarrow> 'j memory \<Rightarrow> (int \<times> 'j memory) res" where
  "Image_Rawdetails_Pixelformat_Black_getR J h =
     access J (as_int J) (meta [K ''image'', K ''rawDetails'', K ''pixelFormat'', K ''black'', K ''r'']) (Image_Rawdetails_Pixelformat_Black_m_root h)"

definition Image_Rawdetails_Pixelformat_Black_getGr ::
  "'j json_ops \<Rightarrow> Image_Rawdetails_Pixelformat_Black \<Rightarrow> 'j memory \<Rightarrow> (int \<times> 'j memory) res" where
  "Image_Rawdetails_Pixelformat_Black_getGr J h =
     access J (as_int J) (meta [K ''image'', K ''rawDetails'', K ''pixelFormat'', K ''black'', K ''gr'']) (Image_Rawdetails_Pixelformat_Black_m_root h)"

definition Image_Rawdetails_Pixelformat_Black_getGb ::
  "'j json_ops \<Rightarrow> Image_Rawdetails_Pixelformat_Black \<Rightarrow> 'j memory \<Rightarrow> (int \<times> 'j memory) res" where
  "Image_Rawdetails_Pixelformat_Black_getGb J h =
     access J (as_int J) (meta [K ''image'', K ''rawDetails'', K ''pixelFormat'', K ''black'', K ''gb'']) (Image_Rawdetails_Pixelformat_Black_m_root h)"

definition Image_Rawdetails_Pixelformat_Black_getB ::
  "'j json_ops \<Rightarrow> Image_Rawdetails_Pixelformat_Black \<Rightarrow> 'j memory \<Rightarrow> (int \<times> 'j memory) res" where
  "Image_Rawdetails_Pixelformat_Black_getB J h =
     access J (as_int J) (meta [K ''image'', K ''rawDetails'', K ''pixelFormat'', K ''black'', K ''b'']) (Image_Rawdetails_Pixelformat_Black_m_root h)"

definition Image_Rawdetails_Pixelformat_getBlack :: "Image_Rawdetails_Pixelformat \<Rightarrow> Image_Rawdetails_Pixelformat_Black" where
  "Image_Rawdetails_Pixelformat_getBlack h = Image_Rawdetails_Pixelformat_Black (Image_Rawdetails_Pixelformat_m_root h)"

datatype Image_Rawdetails_Pixelformat_White = Image_Rawdetails_Pixelformat_White (Image_Rawdetails_Pixelformat_White_m_root: ValuePtr)

definition Image_Rawdetails_Pixelformat_White_getR ::
  "'j json_ops \<Rightarrow> Image_Rawdetails_Pixelformat_White \<Rightarrow> 'j memory \<Rightarrow> (int \<times> 'j memory) res" where
  "Image_Rawdetails_Pixelformat_White_getR J h =
     access J (as_int J) (meta [K ''image'', K ''rawDetails'', K ''pixelFormat'', K ''white'', K ''r'']) (Image_Rawdetails_Pixelformat_White_m_root h)"

definition Image_Rawdetails_Pixelformat_White_getGr ::
  "'j json_ops \<Rightarrow> Image_Rawdetails_Pixelformat_White \<Rightarrow> 'j memory \<Rightarrow> (int \<times> 'j memory) res" where
  "Image_Rawdetails_Pixelformat_White_getGr J h =
     access J (as_int J) (meta [K ''image'', K ''rawDetails'', K ''pixelFormat'', K ''white'', K ''gr'']) (Image_Rawdetails_Pixelformat_White_m_root h)"

definition Image_Rawdetails_Pixelformat_White_getGb ::
  "'j json_ops \<Rightarrow> Image_Rawdetails_Pixelformat_White \<Rightarrow> 'j memory \<Rightarrow> (int \<times> 'j memory) res" where
  "Image_Rawdetails_Pixelformat_White_getGb J h =
     access J (as_int J) (meta [K ''image'', K ''rawDetails'', K ''pixelFormat'', K ''white'', K ''gb'']) (Image_Rawdetails_Pixelformat_White_m_root h)"

definition Image_Rawdetails_Pixelformat_White_getB ::
  "'j json_ops \<Rightarrow> Image_Rawdetails_Pixelformat_White \<Rightarrow> 'j memory \<Rightarrow> (int \<times> 'j memory) res" where
  "Image_Rawdetails_Pixelformat_White_getB J h =
     access J (as_int J) (meta [K ''image'', K ''rawDetails'', K ''pixelFormat'', K ''white'', K ''b'']) (Image_Rawdetails_Pixelformat_White_m_root h)"

definition Image_Rawdetails_Pixelformat_getWhite :: "Image_Rawdetails_Pixelformat \<Rightarrow> Image_Rawdetails_Pixelformat_White" where
  "Image_Rawdetails_Pixelformat_getWhite h = Image_Rawdetails_Pixelformat_White (Image_Rawdetails_Pixelformat_m_root h)"

definition Image_Rawdetails_getPixelformat :: "Image_Rawdetails \<Rightarrow> Image_Rawdetails_Pixelformat" where
  "Image_Rawdetails_getPixelformat h = Image_Rawdetails_Pixelformat (Image_Rawdetails_m_root h)"

datatype Image_Rawdetails_Pixelpacking = Image_Rawdetails_Pixelpacking (Image_Rawdetails_Pixelpacking_m_root: ValuePtr)

definition Image_Rawdetails_Pixelpacking_getEndianness ::
  "'j json_ops \<Rightarrow> Image_Rawdetails_Pixelpacking \<Rightarrow> 'j memory \<Rightarrow> (string \<times> 'j memory) res" where
  "Image_Rawdetails_Pixelpacking_getEndianness J h =
     access J (as_string J) (meta [K ''image'', K ''rawDetails'', K ''pixelPacking'', K ''endianness'']) (Image_Rawdetails_Pixelpacking_m_root h)"

definition Image_Rawdetails_Pixelpacking_getBitsperpixel ::
  "'j json_ops \<Rightarrow> Image_Rawdetails_Pixelpacking \<Rightarrow> 'j memory \<Rightarrow> (int \<times> 'j memory) res" where
  "Image_Rawdetails_Pixelpacking_getBitsperpixel J h =
     access J (as_int J) (meta [K ''image'', K ''rawDetails'', K ''pixelPacking'', K ''bitsPerPixel'']) (Image_Rawdetails_Pixelpacking_m_root h)"

definition Image_Rawdetails_getPixelpacking :: "Image_Rawdetails \<Rightarrow> Image_Rawdetails_Pixelpacking" where
  "Image_Rawdetails_getPixelpacking h = Image_Rawdetails_Pixelpacking (Image_Rawdetails_m_root h)"

datatype Image_Rawdetails_Mosaic = Image_Rawdetails_Mosaic (Image_Rawdetails_Mosaic_m_root: ValuePtr)

definition Image_Rawdetails_Mosaic_getTile ::
  "'j json_ops \<Rightarrow> Image_Rawdetails_Mosaic \<Rightarrow> 'j memory \<Rightarrow> (string \<times> 'j memory) res" where
  "Image_Rawdetails_Mosaic_getTile J h =
     access J (as_string J) (meta [K ''image'', K ''rawDetails'', K ''mosaic'', K ''tile'']) (Image_Rawdetails_Mosaic_m_root h)"

definition Image_Rawdetails_Mosaic_getUpperleftpixel ::
  "'j json_ops \<Rightarrow> Image_Rawdetails_Mosaic \<Rightarrow> 'j memory \<Rightarrow> (string \<times> 'j memory) res" where
  "Image_Rawdetails_Mosaic_getUpperleftpixel J h =
     access J (as_string J) (meta [K ''image'', K ''rawDetails'', K ''mosaic'', K ''upperLeftPixel'']) (Image_Rawdetails_Mosaic_m_root h)"

definition Image_Rawdetails_getMosaic :: "Image_Rawdetails \<Rightarrow> Image_Rawdetails_Mosaic" where
  "Image_Rawdetails_getMosaic h = Image_Rawdetails_Mosaic (Image_Rawdetails_m_root h)"

definition Image_getRawdetails :: "Image \<Rightarrow> Image_Rawdetails" where
  "Image_getRawdetails h = Image_Rawdetails (Image_m_root h)"

datatype Image_Color = Image_Color (Image_Color_m_root: ValuePtr)

definition Image_Color_getGamma ::
  "'j json_ops \<Rightarrow> Image_Color \<Rightarrow> 'j memory \<Rightarrow> (fl \<times> 'j memory) res" where
  "Image_Color_getGamma J h =
     access J (as_float J) (meta [K ''image'', K ''color'', K ''gamma'']) (Image_Color_m_root h)"

datatype Image_Color_Whitebalancegain = Image_Color_Whitebalancegain (Image_Color_Whitebalancegain_m_root: ValuePtr)

definition Image_Color_Whitebalancegain_getR ::
  "'j json_ops \<Rightarrow> Image_Color_Whitebalancegain \<Rightarrow> 'j memory \<Rightarrow> (fl \<times> 'j memory) res" where
  "Image_Color_Whitebalancegain_getR J h =
     access J (as_float J) (meta [K ''image'', K ''color'', K ''whiteBalanceGain'', K ''r'']) (Image_Color_Whitebalancegain_m_root h)"

definition Image_Color_Whitebalancegain_getGr ::
  "'j json_ops \<Rightarrow> Image_Color_Whitebalancegain \<Rightarrow> 'j memory \<Rightarrow> (fl \<times> 'j memory) res" where
  "Image_Color_Whitebalancegain_getGr J h =
     access J (as_float J) (meta [K ''image'', K ''color'', K ''whiteBalanceGain'', K ''gr'']) (Image_Color_Whitebalancegain_m_root h)"

definition Image_Color_Whitebalancegain_getGb ::
  "'j json_ops \<Rightarrow> Image_Color_Whitebalancegain \<Rightarrow> 'j memory \<Rightarrow> (fl \<times> 'j memory) res" where
  "Image_Color_Whitebalancegain_getGb J h =
     access J (as_float J) (meta [K ''image'', K ''color'', K ''whiteBalanceGain'', K ''gb'']) (Image_Color_Whitebalancegain_m_root h)"

definition Image_Color_Whitebalancegain_getB ::
  "'j json_ops \<Rightarrow> Image_Color_Whitebalancegain \<Rightarrow> 'j memory \<Rightarrow> (fl \<times> 'j memory) res" where
  "Image_Color_Whitebalancegain_getB J h =
     access J (as_float J) (meta [K ''image'', K ''color'', K ''whiteBalanceGain'', K ''b'']) (Image_Color_Whitebalancegain_m_root h)"

definition Image_Color_getWhitebalancegain :: "Image_Color \<Rightarrow> Image_Color_Whitebalancegain" where
  "Image_Color_getWhitebalancegain h = Image_Color_Whitebalancegain (Image_Color_m_root h)"

definition Image_getColor :: "Image \<Rightarrow> Image_Color" where
  "Image_getColor h = Image_Color (Image_m_root h)"

definition Image_getModulationexposurebias ::
  "'j json_ops \<Rightarrow> Image \<Rightarrow> 'j memory \<Rightarrow> (fl \<times> 'j memory) res" where
  "Image_getModulationexposurebias J h =
     access J (as_float J) (meta [K ''image'', K ''modulationExposureBias'']) (Image_m_root h)"

definition Image_getLimitexposurebias ::
  "'j json_ops \<Rightarrow> Image \<Rightarrow> 'j memory \<Rightarrow> (fl \<times> 'j memory) res" where
  "Image_getLimitexposurebias J h =
     access J (as_float J) (meta [K ''image'', K ''limitExposureBias'']) (Image_m_root h)"

definition Metadata_getImage :: "Metadata \<Rightarrow> Image" where
  "Metadata_getImage h = Image (m_root h)"

datatype Devices = Devices (Devices_m_root: ValuePtr)

datatype Devices_Clock = Devices_Clock (Devices_Clock_m_root: ValuePtr)

definition Devices_Clock_getZulutime ::
  "'j json_ops \<Rightarrow> Devices_Clock \<Rightarrow> 'j memory \<Rightarrow> (string \<times> 'j memory) res" where
  "Devices_Clock_getZulutime J h =
     access J (as_string J) (meta [K ''devices'', K ''clock'', K ''zuluTime'']) (Devices_Clock_m_root h)"

definition Devices_getClock :: "Devices \<Rightarrow> Devices_Clock" where
  "Devices_getClock h = Devices_Clock (Devices_m_root h)"

datatype Devices_Sensor = Devices_Sensor (Devices_Sensor_m_root: ValuePtr)

definition Devices_Sensor_getBitsperpixel ::
  "'j json_ops \<Rightarrow> Devices_Sensor \<Rightarrow> 'j memory \<Rightarrow> (int \<times> 'j memory) res" where
  "Devices_Sensor_getBitsperpixel J h =
     access J (as_int J) (meta [K ''devices'', K ''sensor'', K ''bitsPerPixel'']) (Devices_Sensor_m_root h)"

datatype Devices_Sensor_Mosaic = Devices_Sensor_Mosaic (Devices_Sensor_Mosaic_m_root: ValuePtr)

definition Devices_Sensor_Mosaic_getTile ::
  "'j json_ops \<Rightarrow> Devices_Sensor_Mosaic \<Rightarrow> 'j memory \<Rightarrow> (string \<times> 'j memory) res" where
  "Devices_Sensor_Mosaic_getTile J h =
     access J (as_string J) (meta [K ''devices'', K ''sensor'', K ''mosaic'', K ''tile'']) (Devices_Sensor_Mosaic_m_root h)"

definition Devices_Sensor_Mosaic_getUpperleftpixel ::
  "'j json_ops \<Rightarrow> Devices_Sensor_Mosaic \<Rightarrow> 'j memory \<Rightarrow> (string \<times> 'j memory) res" where
  "Devices_Sensor_Mosaic_getUpperleftpixel J h =
     access J (as_string J) (meta [K ''devices'', K ''sensor'', K ''mosaic'', K ''upperLeftPixel'']) (Devices_Sensor_Mosaic_m_root h)"

definition Devices_Sensor_getMosaic :: "Devices_Sensor \<Rightarrow> Devices_Sensor_Mosaic" where
  "Devices_Sensor_getMosaic h = Devices_Sensor_Mosaic (Devices_Sensor_m_root h)"

definition Devices_Sensor_getIso ::
  "'j json_ops \<Rightarrow> Devices_Sensor \<Rightarrow> 'j memory \<Rightarrow> (int \<times> 'j memory) res" where
  "Devices_Sensor_getIso J h =
     access J (as_int J) (meta [K ''devices'', K ''sensor'', K ''iso'']) (Devices_Sensor_m_root h)"

datatype Devices_Sensor_Analoggain = Devices_Sensor_Analoggain (Devices_Sensor_Analoggain_m_root: ValuePtr)

definition Devices_Sensor_Analoggain_getR ::
  "'j json_ops \<Rightarrow> Devices_Sensor_Analoggain \<Rightarrow> 'j memory \<Rightarrow> (fl \<times> 'j memory) res" where
  "Devices_Sensor_Analoggain_getR J h =
     access J (as_float J) (meta [K ''devices'', K ''sensor'', K ''analogGain'', K ''r'']) (Devices_Sensor_Analoggain_m_root h)"

definition Devices_Sensor_Analoggain_getGr ::
  "'j json_ops \<Rightarrow> Devices_Sensor_Analoggain \<Rightarrow> 'j memory \<Rightarrow> (fl \<times> 'j memory) res" where
  "Devices_Sensor_Analoggain_getGr J h =
     access J (as_float J) (meta [K ''devices'', K ''sensor'', K ''analogGain'', K ''gr'']) (Devices_Sensor_Analoggain_m_root h)"

definition Devices_Sensor_Analoggain_getGb ::
  "'j json_ops \<Rightarrow> Devices_Sensor_Analoggain \<Rightarrow> 'j memory \<Rightarrow> (fl \<times> 'j memory) res" where
  "Devices_Sensor_Analoggain_getGb J h =
     access J (as_float J) (meta [K ''devices'', K ''sensor'', K ''analogGain'', K ''gb'']) (Devices_Sensor_Analoggain_m_root h)"

definition Devices_Sensor_Analoggain_getB ::
  "'j json_ops \<Rightarrow> Devices_Sensor_Analoggain \<Rightarrow> 'j memory \<Rightarrow> (fl \<times> 'j memory) res" where
  "Devices_Sensor_Analoggain_getB J h =
     access J (as_float J) (meta [K ''devices'', K ''sensor'', K ''analogGain'', K ''b'']) (Devices_Sensor_Analoggain_m_root h)"

definition Devices_Sensor_getAnaloggain :: "Devices_Sensor \<Rightarrow> Devices_Sensor_Analoggain" where
  "Devices_Sensor_getAnaloggain h = Devices_Sensor_Analoggain (Devices_Sensor_m_root h)"

definition Devices_Sensor_getPixelpitch ::
  "'j json_ops \<Rightarrow> Devices_Sensor \<Rightarrow> 'j memory \<Rightarrow> (fl \<times> 'j memory) res" where
  "Devices_Sensor_getPixelpitch J h =
     access J (as_float J) (meta [K ''devices'', K ''sensor'', K ''pixelPitch'']) (Devices_Sensor_m_root h)"

definition Devices_getSensor :: "Devices \<Rightarrow> Devices_Sensor" where
  "Devices_getSensor h = Devices_Sensor (Devices_m_root h)"

datatype Devices_Lens = Devices_Lens (Devices_Lens_m_root: ValuePtr)

definition Devices_Lens_getInfinitylambda ::
  "'j json_ops \<Rightarrow> Devices_Lens \<Rightarrow> 'j memory \<Rightarrow> (fl \<times> 'j memory) res" where
  "Devices_Lens_getInfinitylambda J h =
     access J (as_float J) (meta [K ''devices'', K ''lens'', K ''infinityLambda'']) (Devices_Lens_m_root h)"

definition Devices_Lens_getFocallength ::
  "'j json_ops \<Rightarrow> Devices_Lens \<Rightarrow> 'j memory \<Rightarrow> (fl \<times> 'j memory) res" where
  "Devices_Lens_getFocallength J h =
     access J (as_float J) (meta [K ''devices'', K ''lens'', K ''focalLength'']) (Devices_Lens_m_root h)"

definition Devices_Lens_getZoomstep ::
  "'j json_ops \<Rightarrow> Devices_Lens \<Rightarrow> 'j memory \<Rightarrow> (int \<times> 'j memory) res" where
  "Devices_Lens_getZoomstep J h =
     access J (as_int J) (meta [K ''devices'', K ''lens'', K ''zoomStep'']) (Devices_Lens_m_root h)"

definition Devices_Lens_getFocusstep ::
  "'j json_ops \<Rightarrow> Devices_Lens \<Rightarrow> 'j memory \<Rightarrow> (int \<times> 'j memory) res" where
  "Devices_Lens_getFocusstep J h =
     access J (as_int J) (meta [K ''devices'', K ''lens'', K ''focusStep'']) (Devices_Lens_m_root h)"

definition Devices_Lens_getFnumber ::
  "'j json_ops \<Rightarrow> Devices_Lens \<Rightarrow> 'j memory \<Rightarrow> (fl \<times> 'j memory) res" where
  "Devices_Lens_getFnumber J h =
     access J (as_float J) (meta [K ''devices'', K ''lens'', K ''fNumber'']) (Devices_Lens_m_root h)"

definition Devices_Lens_getTemperature ::
  "'j json_ops \<Rightarrow> Devices_Lens \<Rightarrow> 'j memory \<Rightarrow> (fl \<times> 'j memory) res" where
  "Devices_Lens_getTemperature J h =
     access J (as_float J) (meta [K ''devices'', K ''lens'', K ''temperature'']) (Devices_Lens_m_root h)"

definition Devices_Lens_getTemperatureadc ::
  "'j json_ops \<Rightarrow> Devices_Lens \<Rightarrow> 'j memory \<Rightarrow> (int \<times> 'j memory) res" where
  "Devices_Lens_getTemperatureadc J h =
     access J (as_int J) (meta [K ''devices'', K ''lens'', K ''temperatureAdc'']) (Devices_Lens_m_root h)"

definition Devices_Lens_getZoomstepperoffset ::
  "'j json_ops \<Rightarrow> Devices_Lens \<Rightarrow> 'j memory \<Rightarrow> (int \<times> 'j memory) res" where
  "Devices_Lens_getZoomstepperoffset J h =
     access J (as_int J) (meta [K ''devices'', K ''lens'', K ''zoomStepperOffset'']) (Devices_Lens_m_root h)"

definition Devices_Lens_getFocusstepperoffset ::
  "'j json_ops \<Rightarrow> Devices_Lens \<Rightarrow> 'j memory \<Rightarrow> (int \<times> 'j memory) res" where
  "Devices_Lens_getFocusstepperoffset J h =
     access J (as_int J) (meta [K ''devices'', K ''lens'', K ''focusStepperOffset'']) (Devices_Lens_m_root h)"

datatype Devices_Lens_Exitpupiloffset = Devices_Lens_Exitpupiloffset (Devices_Lens_Exitpupiloffset_m_root: ValuePtr)

definition Devices_Lens_Exitpupiloffset_getZ ::
  "'j json_ops \<Rightarrow> Devices_Lens_Exitpupiloffset \<Rightarrow> 'j memory \<Rightarrow> (fl \<times> 'j memory) res" where
  "Devices_Lens_Exitpupiloffset_getZ J h =
     access J (as_float J) (meta [K ''devices'', K ''lens'', K ''exitPupilOffset'', K ''z'']) (Devices_Lens_Exitpupiloffset_m_root h)"

definition Devices_Lens_getExitpupiloffset :: "Devices_Lens \<Rightarrow> Devices_Lens_Exitpupiloffset" where
  "Devices_Lens_getExitpupiloffset h = Devices_Lens_Exitpupiloffset (Devices_Lens_m_root h)"

definition Devices_getLens :: "Devices \<Rightarrow> Devices_Lens" where
  "Devices_getLens h = Devices_Lens (Devices_m_root h)"

datatype Devices_Ndfilter = Devices_Ndfilter (Devices_Ndfilter_m_root: ValuePtr)

definition Devices_Ndfilter_getExposurebias ::
  "'j json_ops \<Rightarrow> Devices_Ndfilter \<Rightarrow> 'j memory \<Rightarrow> (fl \<times> 'j memory) res" where
  "Devices_Ndfilter_getExposurebias J h =
     access J (as_float J) (meta [K ''devices'', K ''ndfilter'', K ''exposureBias'']) (Devices_Ndfilter_m_root h)"

definition Devices_getNdfilter :: "Devices \<Rightarrow> Devices_Ndfilter" where
  "Devices_getNdfilter h = Devices_Ndfilter (Devices_m_root h)"

datatype Devices_Shutter = Devices_Shutter (Devices_Shutter_m_root: ValuePtr)

definition Devices_Shutter_getMechanism ::
  "'j json_ops \<Rightarrow> Devices_Shutter \<Rightarrow> 'j memory \<Rightarrow> (string \<times> 'j memory) res" where
  "Devices_Shutter_getMechanism J h =
     access J (as_string J) (meta [K ''devices'', K ''shutter'', K ''mechanism'']) (Devices_Shutter_m_root h)"

definition Devices_Shutter_getFrameexposureduration ::
  "'j json_ops \<Rightarrow> Devices_Shutter \<Rightarrow> 'j memory \<Rightarrow> (fl \<times> 'j memory) res" where
  "Devices_Shutter_getFrameexposureduration J h =
     access J (as_float J) (meta [K ''devices'', K ''shutter'', K ''frameExposureDuration'']) (Devices_Shutter_m_root h)"

definition Devices_Shutter_getPixelexposureduration ::
  "'j json_ops \<Rightarrow> Devices_Shutter \<Rightarrow> 'j memory \<Rightarrow> (fl \<times> 'j memory) res" where
  "Devices_Shutter_getPixelexposureduration J h =
     access J (as_float J) (meta [K ''devices'', K ''shutter'', K ''pixelExposureDuration'']) (Devices_Shutter_m_root h)"

definition Devices_getShutter :: "Devices \<Rightarrow> Devices_Shutter" where
  "Devices_getShutter h = Devices_Shutter (Devices_m_root h)"

datatype Devices_Soc = Devices_Soc (Devices_Soc_m_root: ValuePtr)

definition Devices_Soc_getTemperature ::
  "'j json_ops \<Rightarrow> Devices_Soc \<Rightarrow> 'j memory \<Rightarrow> (fl \<times> 'j memory) res" where
  "Devices_Soc_getTemperature J h =
     access J (as_float J) (meta [K ''devices'', K ''soc'', K ''temperature'']) (Devices_Soc_m_root h)"

definition Devices_Soc_getTemperatureadc ::
  "'j json_ops \<Rightarrow> Devices_Soc \<Rightarrow> 'j memory \<Rightarrow> (int \<times> 'j memory) res" where
  "Devices_Soc_getTemperatureadc J h =
     access J (as_int J) (meta [K ''devices'', K ''soc'', K ''temperatureAdc'']) (Devices_Soc_m_root h)"

definition Devices_getSoc :: "Devices \<Rightarrow> Devices_Soc" where
  "Devices_getSoc h = Devices_Soc (Devices_m_root h)"

datatype Devices_Accelerometer = Devices_Accelerometer (Devices_Accelerometer_m_root: ValuePtr)

datatype Devices_Accelerometer_Samplearray = Devices_Accelerometer_Samplearray (Devices_Accelerometer_Samplearray_m_root: ValuePtr)

definition Devices_Accelerometer_Samplearray_getX ::
  "'j json_ops \<Rightarrow> Devices_Accelerometer_Samplearray \<Rightarrow> 'j memory \<Rightarrow> (fl \<times> 'j memory) res" where
  "Devices_Accelerometer_Samplearray_getX J h =
     access J (as_float J) (meta [K ''devices'', K ''accelerometer'', K ''sampleArray'', I 0, K ''x'']) (Devices_Accelerometer_Samplearray_m_root h)"

definition Devices_Accelerometer_Samplearray_getY ::
  "'j json_ops \<Rightarrow> Devices_Accelerometer_Samplearray \<Rightarrow> 'j memory \<Rightarrow> (fl \<times> 'j memory) res" where
  "Devices_Accelerometer_Samplearray_getY J h =
     access J (as_float J) (meta [K ''devices'', K ''accelerometer'', K ''sampleArray'', I 0, K ''y'']) (Devices_Accelerometer_Samplearray_m_root h)"

definition Devices_Accelerometer_Samplearray_getZ ::
  "'j json_ops \<Rightarrow> Devices_Accelerometer_Samplearray \<Rightarrow> 'j memory \<Rightarrow> (fl \<times> 'j memory) res" where
  "Devices_Accelerometer_Samplearray_getZ J h =
     access J (as_float J) (meta [K ''devices'', K ''accelerometer'', K ''sampleArray'', I 0, K ''z'']) (Devices_Accelerometer_Samplearray_m_root h)"

definition Devices_Accelerometer_Samplearray_getTime ::
  "'j json_ops \<Rightarrow> Devices_Accelerometer_Samplearray \<Rightarrow> 'j memory \<Rightarrow> (fl \<times> 'j memory) res" where
  "Devices_Accelerometer_Samplearray_getTime J h =
     access J (as_float J) (meta [K ''devices'', K ''accelerometer'', K ''sampleArray'', I 0, K ''time'']) (Devices_Accelerometer_Samplearray_m_root h)"

definition Devices_Accelerometer_getSamplearray :: "Devices_Accelerometer \<Rightarrow> Devices_Accelerometer_Samplearray" where
  "Devices_Accelerometer_getSamplearray h = Devices_Accelerometer_Samplearray (Devices_Accelerometer_m_root h)"

definition Devices_getAccelerometer :: "Devices \<Rightarrow> Devices_Accelerometer" where
  "Devices_getAccelerometer h = Devices_Accelerometer (Devices_m_root h)"

datatype Devices_Mla = Devices_Mla (Devices_Mla_m_root: ValuePtr)

definition Devices_Mla_getTiling ::
  "'j json_ops \<Rightarrow> Devices_Mla \<Rightarrow> 'j memory \<Rightarrow> (string \<times> 'j memory) res" where
  "Devices_Mla_getTiling J h =
     access J (as_string J) (meta [K ''devices'', K ''mla'', K ''tiling'']) (Devices_Mla_m_root h)"

definition Devices_Mla_getLenspitch ::
  "'j json_ops \<Rightarrow> Devices_Mla \<Rightarrow> 'j memory \<Rightarrow> (fl \<times> 'j memory) res" where
  "Devices_Mla_getLenspitch J h =
     access J (as_float J) (meta [K ''devices'', K ''mla'', K ''lensPitch'']) (Devices_Mla_m_root h)"

definition Devices_Mla_getRotation ::
  "'j json_ops \<Rightarrow> Devices_Mla \<Rightarrow> 'j memory \<Rightarrow> (fl \<times> 'j memory) res" where
  "Devices_Mla_getRotation J h =
     access J (as_float J) (meta [K ''devices'', K ''mla'', K ''rotation'']) (Devices_Mla_m_root h)"

definition Devices_Mla_getConfig ::
  "'j json_ops \<Rightarrow> Devices_Mla \<Rightarrow> 'j memory \<Rightarrow> (string \<times> 'j memory) res" where
  "Devices_Mla_getConfig J h =
     access J (as_string J) (meta [K ''devices'', K ''mla'', K ''config'']) (Devices_Mla_m_root h)"

datatype Devices_Mla_Scalefactor = Devices_Mla_Scalefactor (Devices_Mla_Scalefactor_m_root: ValuePtr)

definition Devices_Mla_Scalefactor_getX ::
  "'j json_ops \<Rightarrow> Devices_Mla_Scalefactor \<Rightarrow> 'j memory \<Rightarrow> (fl \<times> 'j memory) res" where
  "Devices_Mla_Scalefactor_getX J h =
     access J (as_float J) (meta [K ''devices'', K ''mla'', K ''scaleFactor'', K ''x'']) (Devices_Mla_Scalefactor_m_root h)"

definition Devices_Mla_Scalefactor_getY ::
  "'j json_ops \<Rightarrow> Devices_Mla_Scalefactor \<Rightarrow> 'j memory \<Rightarrow> (fl \<times> 'j memory) res" where
  "Devices_Mla_Scalefactor_getY J h =
     access J (as_float J) (meta [K ''devices'', K ''mla'', K ''scaleFactor'', K ''y'']) (Devices_Mla_Scalefactor_m_root h)"

definition Devices_Mla_getScalefactor :: "Devices_Mla \<Rightarrow> Devices_Mla_Scalefactor" where
  "Devices_Mla_getScalefactor h = Devices_Mla_Scalefactor (Devices_Mla_m_root h)"

datatype Devices_Mla_Sensoroffset = Devices_Mla_Sensoroffset (Devices_Mla_Sensoroffset_m_root: ValuePtr)

definition Devices_Mla_Sensoroffset_getX ::
  "'j json_ops \<Rightarrow> Devices_Mla_Sensoroffset \<Rightarrow> 'j memory \<Rightarrow> (fl \<times> 'j memory) res" where
  "Devices_Mla_Sensoroffset_getX J h =
     access J (as_float J) (meta [K ''devices'', K ''mla'', K ''sensorOffset'', K ''x'']) (Devices_Mla_Sensoroffset_m_root h)"

definition Devices_Mla_Sensoroffset_getY ::
  "'j json_ops \<Rightarrow> Devices_Mla_Sensoroffset \<Rightarrow> 'j memory \<Rightarrow> (fl \<times> 'j memory) res" where
  "Devices_Mla_Sensoroffset_getY J h =
     access J (as_float J) (meta [K ''devices'', K ''mla'', K ''sensorOffset'', K ''y'']) (Devices_Mla_Sensoroffset_m_root h)"

definition Devices_Mla_Sensoroffset_getZ ::
  "'j json_ops \<Rightarrow> Devices_Mla_Sensoroffset \<Rightarrow> 'j memory \<Rightarrow> (fl \<times> 'j memory) res" where
  "Devices_Mla_Sensoroffset_getZ J h =
     access J (as_float J) (meta [K ''devices'', K ''mla'', K ''sensorOffset'', K ''z'']) (Devices_Mla_Sensoroffset_m_root h)"

definition Devices_Mla_getSensoroffset :: "Devices_Mla \<Rightarrow> Devices_Mla_Sensoroffset" where
  "Devices_Mla_getSensoroffset h = Devices_Mla_Sensoroffset (Devices_Mla_m_root h)"

definition Devices_getMla :: "Devices \<Rightarrow> Devices_Mla" where
  "Devices_getMla h = Devices_Mla (Devices_m_root h)"

definition Metadata_getDevices :: "Metadata \<Rightarrow> Devices" where
  "Metadata_getDevices h = Devices (m_root h)"

datatype Modes = Modes (Modes_m_root: ValuePtr)

definition Modes_getCreative ::
  "'j json_ops \<Rightarrow> Modes \<Rightarrow> 'j memory \<Rightarrow> (string \<times> 'j memory) res" where
  "Modes_getCreative J h =
     access J (as_string J) (meta [K ''modes'', K ''creative'']) (Modes_m_root h)"

definition Modes_getManualcontrols ::
  "'j json_ops \<Rightarrow> Modes \<Rightarrow> 'j memory \<Rightarrow> (bool \<times> 'j memory) res" where
  "Modes_getManualcontrols J h =
     access J (as_bool J) (meta [K ''modes'', K ''manualControls'']) (Modes_m_root h)"

definition Modes_getExposuredurationmode ::
  "'j json_ops \<Rightarrow> Modes \<Rightarrow> 'j memory \<Rightarrow> (string \<times> 'j memory) res" where
  "Modes_getExposuredurationmode J h =
     access J (as_string J) (meta [K ''modes'', K ''exposureDurationMode'']) (Modes_m_root h)"

definition Modes_getExposuredurationspec ::
  "'j json_ops \<Rightarrow> Modes \<Rightarrow> 'j memory \<Rightarrow> (fl \<times> 'j memory) res" where
  "Modes_getExposuredurationspec J h =
     access J (as_float J) (meta [K ''modes'', K ''exposureDurationSpec'']) (Modes_m_root h)"

definition Modes_getIsomode ::
  "'j json_ops \<Rightarrow> Modes \<Rightarrow> 'j memory \<Rightarrow> (string \<times> 'j memory) res" where
  "Modes_getIsomode J h =
     access J (as_string J) (meta [K ''modes'', K ''isoMode'']) (Modes_m_root h)"

definition Modes_getIsospec ::
  "'j json_ops \<Rightarrow> Modes \<Rightarrow> 'j memory \<Rightarrow> (fl \<times> 'j memory) res" where
  "Modes_getIsospec J h =
     access J (as_float J) (meta [K ''modes'', K ''isoSpec'']) (Modes_m_root h)"

definition Modes_getNdfiltermode ::
  "'j json_ops \<Rightarrow> Modes \<Rightarrow> 'j memory \<Rightarrow> (string \<times> 'j memory) res" where
  "Modes_getNdfiltermode J h =
     access J (as_string J) (meta [K ''modes'', K ''ndFilterMode'']) (Modes_m_root h)"

definition Modes_getExposurelock ::
  "'j json_ops \<Rightarrow> Modes \<Rightarrow> 'j memory \<Rightarrow> (bool \<times> 'j memory) res" where
  "Modes_getExposurelock J h =
     access J (as_bool J) (meta [K ''modes'', K ''exposureLock'']) (Modes_m_root h)"

definition Modes_getOverscan ::
  "'j json_ops \<Rightarrow> Modes \<Rightarrow> 'j memory \<Rightarrow> (fl \<times> 'j memory) res" where
  "Modes_getOverscan J h =
     access J (as_float J) (meta [K ''modes'', K ''overscan'']) (Modes_m_root h)"

definition Metadata_getModes :: "Metadata \<Rightarrow> Modes" where
  "Metadata_getModes h = Modes (m_root h)"

datatype Camera = Camera (Camera_m_root: ValuePtr)

definition Camera_getMake ::
  "'j json_ops \<Rightarrow> Camera \<Rightarrow> 'j memory \<Rightarrow> (string \<times> 'j memory) res" where
  "Camera_getMake J h =
     access J (as_string J) (meta [K ''camera'', K ''make'']) (Camera_m_root h)"

definition Camera_getModel ::
  "'j json_ops \<Rightarrow> Camera \<Rightarrow> 'j memory \<Rightarrow> (string \<times> 'j memory) res" where
  "Camera_getModel J h =
     access J (as_string J) (meta [K ''camera'', K ''model'']) (Camera_m_root h)"

definition Camera_getFirmware ::
  "'j json_ops \<Rightarrow> Camera \<Rightarrow> 'j memory \<Rightarrow> (string \<times> 'j memory) res" where
  "Camera_getFirmware J h =
     access J (as_string J) (meta [K ''camera'', K ''firmware'']) (Camera_m_root h)"

definition Metadata_getCamera :: "Metadata \<Rightarrow> Camera" where
  "Metadata_getCamera h = Camera (m_root h)"

datatype Privatemetadata = Privatemetadata (Privatemetadata_m_root: ValuePtr)

datatype Privatemetadata_Devices = Privatemetadata_Devices (Privatemetadata_Devices_m_root: ValuePtr)

datatype Privatemetadata_Devices_Sensor = Privatemetadata_Devices_Sensor (Privatemetadata_Devices_Sensor_m_root: ValuePtr)

definition Privatemetadata_Devices_Sensor_getSensorserial ::
  "'j json_ops \<Rightarrow> Privatemetadata_Devices_Sensor \<Rightarrow> 'j memory \<Rightarrow> (string \<times> 'j memory) res" where
  "Privatemetadata_Devices_Sensor_getSensorserial J h =
     access J (as_string J) (priv [K ''devices'', K ''sensor'', K ''sensorSerial'']) (Privatemetadata_Devices_Sensor_m_root h)"

definition Privatemetadata_Devices_getSensor :: "Privatemetadata_Devices \<Rightarrow> Privatemetadata_Devices_Sensor" where
  "Privatemetadata_Devices_getSensor h = Privatemetadata_Devices_Sensor (Privatemetadata_Devices_m_root h)"

definition Privatemetadata_getDevices :: "Privatemetadata \<Rightarrow> Privatemetadata_Devices" where
  "Privatemetadata_getDevices h = Privatemetadata_Devices (Privatemetadata_m_root h)"

datatype Privatemetadata_Camera = Privatemetadata_Camera (Privatemetadata_Camera_m_root: ValuePtr)

definition Privatemetadata_Camera_getSerialnumber ::
  "'j json_ops \<Rightarrow> Privatemetadata_Camera \<Rightarrow> 'j memory \<Rightarrow> (string \<times> 'j memory) res" where
  "Privatemetadata_Camera_getSerialnumber J h =
     access J (as_string J) (priv [K ''camera'', K ''serialNumber'']) (Privatemetadata_Camera_m_root h)"

definition Privatemetadata_getCamera :: "Privatemetadata \<Rightarrow> Privatemetadata_Camera" where
  "Privatemetadata_getCamera h = Privatemetadata_Camera (Privatemetadata_m_root h)"

definition Metadata_getPrivatemetadata :: "Metadata \<Rightarrow> Privatemetadata" where
  "Metadata_getPrivatemetadata h = Privatemetadata (m_root h)"

subsection \<open>All accessors\<close>

datatype field = FInt int | FFloat fl | FString string | FBool bool

definition as_field :: "('a \<Rightarrow> field) \<Rightarrow> ('a \<times> 'j memory) res \<Rightarrow> (field \<times> 'j memory) res" where
  "as_field f r = rbind r (\<lambda>(x, mem). Inr (f x, mem))"

text \<open>Every accessor of the hierarchy, reached from the \<open>Metadata\<close> object.\<close>

definition getters :: "'j json_ops \<Rightarrow> (Metadata \<Rightarrow> 'j memory \<Rightarrow> (field \<times> 'j memory) res) list" where
  "getters J = [
     \<lambda>m mem. as_field FInt (Image_getWidth J (Metadata_getImage m) mem),
     \<lambda>m mem. as_field FInt (Image_getHeight J (Metadata_getImage m) mem),
     \<lambda>m mem. as_field FInt (Image_getOrientation J (Metadata_getImage m) mem),
     \<lambda>m mem. as_field FString (Image_getRepresentation J (Metadata_getImage m) mem),
     \<lambda>m mem. as_field FInt (Image_Rawdetails_Pixelformat_getRightshift J (Image_Rawdetails_getPixelformat (Image_getRawdetails (Metadata_getImage m))) mem),
     \<lambda>m mem. as_field FInt (Image_Rawdetails_Pixelformat_Black_getR J (Image_Rawdetails_Pixelformat_getBlack (Image_Rawdetails_getPixelformat (Image_getRawdetails (Metadata_getImage m)))) mem),
     \<lambda>m mem. as_field FInt (Image_Rawdetails_Pixelformat_Black_getGr J (Image_Rawdetails_Pixelformat_getBlack (Image_Rawdetails_getPixelformat (Image_getRawdetails (Metadata_getImage m)))) mem),
     \<lambda>m mem. as_field FInt (Image_Rawdetails_Pixelformat_Black_getGb J (Image_Rawdetails_Pixelformat_getBlack (Image_Rawdetails_getPixelformat (Image_getRawdetails (Metadata_getImage m)))) mem),
     \<lambda>m mem. as_field FInt (Image_Rawdetails_Pixelformat_Black_getB J (Image_Rawdetails_Pixelformat_getBlack (Image_Rawdetails_getPixelformat (Image_getRawdetails (Metadata_getImage m)))) mem),
     \<lambda>m mem. as_field FInt (Image_Rawdetails_Pixelformat_White_getR J (Image_Rawdetails_Pixelformat_getWhite (Image_Rawdetails_getPixelformat (Image_getRawdetails (Metadata_getImage m)))) mem),
     \<lambda>m mem. as_field FInt (Image_Rawdetails_Pixelformat_White_getGr J (Image_Rawdetails_Pixelformat_getWhite (Image_Rawdetails_getPixelformat (Image_getRawdetails (Metadata_getImage m)))) mem),
     \<lambda>m mem. as_field FInt (Image_Rawdetails_Pixelformat_White_getGb J (Image_Rawdetails_Pixelformat_getWhite (Image_Rawdetails_getPixelformat (Image_getRawdetails (Metadata_getImage m)))) mem),
     \<lambda>m mem. as_field FInt (Image_Rawdetails_Pixelformat_White_getB J (Image_Rawdetails_Pixelformat_getWhite (Image_Rawdetails_getPixelformat (Image_getRawdetails (Metadata_getImage m)))) mem),
     \<lambda>m mem. as_field FString (Image_Rawdetails_Pixelpacking_getEndianness J (Image_Rawdetails_getPixelpacking (Image_getRawdetails (Metadata_getImage m))) mem),
     \<lambda>m mem. as_field FInt (Image_Rawdetails_Pixelpacking_getBitsperpixel J (Image_Rawdetails_getPixelpacking (Image_getRawdetails (Metadata_getImage m))) mem),
     \<lambda>m mem. as_field FString (Image_Rawdetails_Mosaic_getTile J (Image_Rawdetails_getMosaic (Image_getRawdetails (Metadata_getImage m))) mem),
     \<lambda>m mem. as_field FString (Image_Rawdetails_Mosaic_getUpperleftpixel J (Image_Rawdetails_getMosaic (Image_getRawdetails (Metadata_getImage m))) mem),
     \<lambda>m mem. as_field FFloat (Image_Color_getGamma J (Image_getColor (Metadata_getImage m)) mem),
     \<lambda>m mem. as_field FFloat (Image_Color_Whitebalancegain_getR J (Image_Color_getWhitebalancegain (Image_getColor (Metadata_getImage m))) mem),
     \<lambda>m mem. as_field FFloat (Image_Color_Whitebalancegain_getGr J (Image_Color_getWhitebalancegain (Image_getColor (Metadata_getImage m))) mem),
     \<lambda>m mem. as_field FFloat (Image_Color_Whitebalancegain_getGb J (Image_Color_getWhitebalancegain (Image_getColor (Metadata_getImage m))) mem),
     \<lambda>m mem. as_field FFloat (Image_Color_Whitebalancegain_getB J (Image_Color_getWhitebalancegain (Image_getColor (Metadata_getImage m))) mem),
     \<lambda>m mem. as_field FFloat (Image_getModulationexposurebias J (Metadata_getImage m) mem),
     \<lambda>m mem. as_field FFloat (Image_getLimitexposurebias J (Metadata_getImage m) mem),
     \<lambda>m mem. as_field FString (Devices_Clock_getZulutime J (Devices_getClock (Metadata_getDevices m)) mem),
     \<lambda>m mem. as_field FInt (Devices_Sensor_getBitsperpixel J (Devices_getSensor (Metadata_getDevices m)) mem),
     \<lambda>m mem. as_field FString (Devices_Sensor_Mosaic_getTile J (Devices_Sensor_getMosaic (Devices_getSensor (Metadata_getDevices m))) mem),
     \<lambda>m mem. as_field FString (Devices_Sensor_Mosaic_getUpperleftpixel J (Devices_Sensor_getMosaic (Devices_getSensor (Metadata_getDevices m))) mem),
     \<lambda>m mem. as_field FInt (Devices_Sensor_getIso J (Devices_getSensor (Metadata_getDevices m)) mem),
     \<lambda>m mem. as_field FFloat (Devices_Sensor_Analoggain_getR J (Devices_Sensor_getAnaloggain (Devices_getSensor (Metadata_getDevices m))) mem),
     \<lambda>m mem. as_field FFloat (Devices_Sensor_Analoggain_getGr J (Devices_Sensor_getAnaloggain (Devices_getSensor (Metadata_getDevices m))) mem),
     \<lambda>m mem. as_field FFloat (Devices_Sensor_Analoggain_getGb J (Devices_Sensor_getAnaloggain (Devices_getSensor (Metadata_getDevices m))) mem),
     \<lambda>m mem. as_field FFloat (Devices_Sensor_Analoggain_getB J (Devices_Sensor_getAnaloggain (Devices_getSensor (Metadata_getDevices m))) mem),
     \<lambda>m mem. as_field FFloat (Devices_Sensor_getPixelpitch J (Devices_getSensor (Metadata_getDevices m)) mem),
     \<lambda>m mem. as_field FFloat (Devices_Lens_getInfinitylambda J (Devices_getLens (Metadata_getDevices m)) mem),
     \<lambda>m mem. as_field FFloat (Devices_Lens_getFocallength J (Devices_getLens (Metadata_getDevices m)) mem),
     \<lambda>m mem. as_field FInt (Devices_Lens_getZoomstep J (Devices_getLens (Metadata_getDevices m)) mem),
     \<lambda>m mem. as_field FInt (Devices_Lens_getFocusstep J (Devices_getLens (Metadata_getDevices m)) mem),
     \<lambda>m mem. as_field FFloat (Devices_Lens_getFnumber J (Devices_getLens (Metadata_getDevices m)) mem),
     \<lambda>m mem. as_field FFloat (Devices_Lens_getTemperature J (Devices_getLens (Metadata_getDevices m)) mem),
     \<lambda>m mem. as_field FInt (Devices_Lens_getTemperatureadc J (Devices_getLens (Metadata_getDevices m)) mem),
     \<lambda>m mem. as_field FInt (Devices_Lens_getZoomstepperoffset J (Devices_getLens (Metadata_getDevices m)) mem),
     \<lambda>m mem. as_field FInt (Devices_Lens_getFocusstepperoffset J (Devices_getLens (Metadata_getDevices m)) mem),
     \<lambda>m mem. as_field FFloat (Devices_Lens_Exitpupiloffset_getZ J (Devices_Lens_getExitpupiloffset (Devices_getLens (Metadata_getDevices m))) mem),
     \<lambda>m mem. as_field FFloat (Devices_Ndfilter_getExposurebias J (Devices_getNdfilter (Metadata_getDevices m)) mem),
     \<lambda>m mem. as_field FString (Devices_Shutter_getMechanism J (Devices_getShutter (Metadata_getDevices m)) mem),
     \<lambda>m mem. as_field FFloat (Devices_Shutter_getFrameexposureduration J (Devices_getShutter (Metadata_getDevices m)) mem),
     \<lambda>m mem. as_field FFloat (Devices_Shutter_getPixelexposureduration J (Devices_getShutter (Metadata_getDevices m)) mem),
     \<lambda>m mem. as_field FFloat (Devices_Soc_getTemperature J (Devices_getSoc (Metadata_getDevices m)) mem),
     \<lambda>m mem. as_field FInt (Devices_Soc_getTemperatureadc J (Devices_getSoc (Metadata_getDevices m)) mem),
     \<lambda>m mem. as_field FFloat (Devices_Accelerometer_Samplearray_getX J (Devices_Accelerometer_getSamplearray (Devices_getAccelerometer (Metadata_getDevices m))) mem),
     \<lambda>m mem. as_field FFloat (Devices_Accelerometer_Samplearray_getY J (Devices_Accelerometer_getSamplearray (Devices_getAccelerometer (Metadata_getDevices m))) mem),
     \<lambda>m mem. as_field FFloat (Devices_Accelerometer_Samplearray_getZ J (Devices_Accelerometer_getSamplearray (Devices_getAccelerometer (Metadata_getDevices m))) mem),
     \<lambda>m mem. as_field FFloat (Devices_Accelerometer_Samplearray_getTime J (Devices_Accelerometer_getSamplearray (Devices_getAccelerometer (Metadata_getDevices m))) mem),
     \<lambda>m mem. as_field FString (Devices_Mla_getTiling J (Devices_getMla (Metadata_getDevices m)) mem),
     \<lambda>m mem. as_field FFloat (Devices_Mla_getLenspitch J (Devices_getMla (Metadata_getDevices m)) mem),
     \<lambda>m mem. as_field FFloat (Devices_Mla_getRotation J (Devices_getMla (Metadata_getDevices m)) mem),
     \<lambda>m mem. as_field FString (Devices_Mla_getConfig J (Devices_getMla (Metadata_getDevices m)) mem),
     \<lambda>m mem. as_field FFloat (Devices_Mla_Scalefactor_getX J (Devices_Mla_getScalefactor (Devices_getMla (Metadata_getDevices m))) mem),
     \<lambda>m mem. as_field FFloat (Devices_Mla_Scalefactor_getY J (Devices_Mla_getScalefactor (Devices_getMla (Metadata_getDevices m))) mem),
     \<lambda>m mem. as_field FFloat (Devices_Mla_Sensoroffset_getX J (Devices_Mla_getSensoroffset (Devices_getMla (Metadata_getDevices m))) mem),
     \<lambda>m mem. as_field FFloat (Devices_Mla_Sensoroffset_getY J (Devices_Mla_getSensoroffset (Devices_getMla (Metadata_getDevices m))) mem),
     \<lambda>m mem. as_field FFloat (Devices_Mla_Sensoroffset_getZ J (Devices_Mla_getSensoroffset (Devices_getMla (Metadata_getDevices m))) mem),
     \<lambda>m mem. as_field FString (Modes_getCreative J (Metadata_getModes m) mem),
     \<lambda>m mem. as_field FBool (Modes_getManualcontrols J (Metadata_getModes m) mem),
     \<lambda>m mem. as_field FString (Modes_getExposuredurationmode J (Metadata_getModes m) mem),
     \<lambda>m mem. as_field FFloat (Modes_getExposuredurationspec J (Metadata_getModes m) mem),
     \<lambda>m mem. as_field FString (Modes_getIsomode J (Metadata_getModes m) mem),
     \<lambda>m mem. as_field FFloat (Modes_getIsospec J (Metadata_getModes m) mem),
     \<lambda>m mem. as_field FString (Modes_getNdfiltermode J (Metadata_getModes m) mem),
     \<lambda>m mem. as_field FBool (Modes_getExposurelock J (Metadata_getModes m) mem),
     \<lambda>m mem. as_field FFloat (Modes_getOverscan J (Metadata_getModes m) mem),
     \<lambda>m mem. as_field FString (Camera_getMake J (Metadata_getCamera m) mem),
     \<lambda>m mem. as_field FString (Camera_getModel J (Metadata_getCamera m) mem),
     \<lambda>m mem. as_field FString (Camera_getFirmware J (Metadata_getCamera m) mem),
     \<lambda>m mem. as_field FString (Privatemetadata_Devices_Sensor_getSensorserial J (Privatemetadata_Devices_getSensor (Privatemetadata_getDevices (Metadata_getPrivatemetadata m))) mem),
     \<lambda>m mem. as_field FString (Privatemetadata_Camera_getSerialnumber J (Privatemetadata_getCamera (Metadata_getPrivatemetadata m)) mem)]"

text \<open>The same as a table of types and paths.\<close>

datatype kind = FInt_kind | FFloat_kind | FString_kind | FBool_kind

fun field_conv :: "'j json_ops \<Rightarrow> kind \<Rightarrow> 'j \<Rightarrow> field res" where
  "field_conv J FInt_kind v = rbind (as_int J v) (\<lambda>x. Inr (FInt x))"
| "field_conv J FFloat_kind v = rbind (as_float J v) (\<lambda>x. Inr (FFloat x))"
| "field_conv J FString_kind v = rbind (as_string J v) (\<lambda>x. Inr (FString x))"
| "field_conv J FBool_kind v = rbind (as_bool J v) (\<lambda>x. Inr (FBool x))"

definition getter_table :: "(kind \<times> seg list) list" where
  "getter_table = [
     (FInt_kind, meta [K ''image'', K ''width'']),
     (FInt_kind, meta [K ''image'', K ''height'']),
     (FInt_kind, meta [K ''image'', K ''orientation'']),
     (FString_kind, meta [K ''image'', K ''representation'']),
     (FInt_kind, meta [K ''image'', K ''rawDetails'', K ''pixelFormat'', K ''rightShift'']),
     (FInt_kind, meta [K ''image'', K ''rawDetails'', K ''pixelFormat'', K ''black'', K ''r'']),
     (FInt_kind, meta [K ''image'', K ''rawDetails'', K ''pixelFormat'', K ''black'', K ''gr'']),
     (FInt_kind, meta [K ''image'', K ''rawDetails'', K ''pixelFormat'', K ''black'', K ''gb'']),
     (FInt_kind, meta [K ''image'', K ''rawDetails'', K ''pixelFormat'', K ''black'', K ''b'']),
     (FInt_kind, meta [K ''image'', K ''rawDetails'', K ''pixelFormat'', K ''white'', K ''r'']),
     (FInt_kind, meta [K ''image'', K ''rawDetails'', K ''pixelFormat'', K ''white'', K ''gr'']),
     (FInt_kind, meta [K ''image'', K ''rawDetails'', K ''pixelFormat'', K ''white'', K ''gb'']),
     (FInt_kind, meta [K ''image'', K ''rawDetails'', K ''pixelFormat'', K ''white'', K ''b'']),
     (FString_kind, meta [K ''image'', K ''rawDetails'', K ''pixelPacking'', K ''endianness'']),
     (FInt_kind, meta [K ''image'', K ''rawDetails'', K ''pixelPacking'', K ''bitsPerPixel'']),
     (FString_kind, meta [K ''image'', K ''rawDetails'', K ''mosaic'', K ''tile'']),
     (FString_kind, meta [K ''image'', K ''rawDetails'', K ''mosaic'', K ''upperLeftPixel'']),
     (FFloat_kind, meta [K ''image'', K ''color'', K ''gamma'']),
     (FFloat_kind, meta [K ''image'', K ''color'', K ''whiteBalanceGain'', K ''r'']),
     (FFloat_kind, meta [K ''image'', K ''color'', K ''whiteBalanceGain'', K ''gr'']),
     (FFloat_kind, meta [K ''image'', K ''color'', K ''whiteBalanceGain'', K ''gb'']),
     (FFloat_kind, meta [K ''image'', K ''color'', K ''whiteBalanceGain'', K ''b'']),
     (FFloat_kind, meta [K ''image'', K ''modulationExposureBias'']),
     (FFloat_kind, meta [K ''image'', K ''limitExposureBias'']),
     (FString_kind, meta [K ''devices'', K ''clock'', K ''zuluTime'']),
     (FInt_kind, meta [K ''devices'', K ''sensor'', K ''bitsPerPixel'']),
     (FString_kind, meta [K ''devices'', K ''sensor'', K ''mosaic'', K ''tile'']),
     (FString_kind, meta [K ''devices'', K ''sensor'', K ''mosaic'', K ''upperLeftPixel'']),
     (FInt_kind, meta [K ''devices'', K ''sensor'', K ''iso'']),
     (FFloat_kind, meta [K ''devices'', K ''sensor'', K ''analogGain'', K ''r'']),
     (FFloat_kind, meta [K ''devices'', K ''sensor'', K ''analogGain'', K ''gr'']),
     (FFloat_kind, meta [K ''devices'', K ''sensor'', K ''analogGain'', K ''gb'']),
     (FFloat_kind, meta [K ''devices'', K ''sensor'', K ''analogGain'', K ''b'']),
     (FFloat_kind, meta [K ''devices'', K ''sensor'', K ''pixelPitch'']),
     (FFloat_kind, meta [K ''devices'', K ''lens'', K ''infinityLambda'']),
     (FFloat_kind, meta [K ''devices'', K ''lens'', K ''focalLength'']),
     (FInt_kind, meta [K ''devices'', K ''lens'', K ''zoomStep'']),
     (FInt_kind, meta [K ''devices'', K ''lens'', K ''focusStep'']),
     (FFloat_kind, meta [K ''devices'', K ''lens'', K ''fNumber'']),
     (FFloat_kind, meta [K ''devices'', K ''lens'', K ''temperature'']),
     (FInt_kind, meta [K ''devices'', K ''lens'', K ''temperatureAdc'']),
     (FInt_kind, meta [K ''devices'', K ''lens'', K ''zoomStepperOffset'']),
     (FInt_kind, meta [K ''devices'', K ''lens'', K ''focusStepperOffset'']),
     (FFloat_kind, meta [K ''devices'', K ''lens'', K ''exitPupilOffset'', K ''z'']),
     (FFloat_kind, meta [K ''devices'', K ''ndfilter'', K ''exposureBias'']),
     (FString_kind, meta [K ''devices'', K ''shutter'', K ''mechanism'']),
     (FFloat_kind, meta [K ''devices'', K ''shutter'', K ''frameExposureDuration'']),
     (FFloat_kind, meta [K ''devices'', K ''shutter'', K ''pixelExposureDuration'']),
     (FFloat_kind, meta [K ''devices'', K ''soc'', K ''temperature'']),
     (FInt_kind, meta [K ''devices'', K ''soc'', K ''temperatureAdc'']),
     (FFloat_kind, meta [K ''devices'', K ''accelerometer'', K ''sampleArray'', I 0, K ''x'']),
     (FFloat_kind, meta [K ''devices'', K ''accelerometer'', K ''sampleArray'', I 0, K ''y'']),
     (FFloat_kind, meta [K ''devices'', K ''accelerometer'', K ''sampleArray'', I 0, K ''z'']),
     (FFloat_kind, meta [K ''devices'', K ''accelerometer'', K ''sampleArray'', I 0, K ''time'']),
     (FString_kind, meta [K ''devices'', K ''mla'', K ''tiling'']),
     (FFloat_kind, meta [K ''devices'', K ''mla'', K ''lensPitch'']),
     (FFloat_kind, meta [K ''devices'', K ''mla'', K ''rotation'']),
     (FString_kind, meta [K ''devices'', K ''mla'', K ''config'']),
     (FFloat_kind, meta [K ''devices'', K ''mla'', K ''scaleFactor'', K ''x'']),
     (FFloat_kind, meta [K ''devices'', K ''mla'', K ''scaleFactor'', K ''y'']),
     (FFloat_kind, meta [K ''devices'', K ''mla'', K ''sensorOffset'', K ''x'']),
     (FFloat_kind, meta [K ''devices'', K ''mla'', K ''sensorOffset'', K ''y'']),
     (FFloat_kind, meta [K ''devices'', K ''mla'', K ''sensorOffset'', K ''z'']),
     (FString_kind, meta [K ''modes'', K ''creative'']),
     (FBool_kind, meta [K ''modes'', K ''manualControls'']),
     (FString_kind, meta [K ''modes'', K ''exposureDurationMode'']),
     (FFloat_kind, meta [K ''modes'', K ''exposureDurationSpec'']),
     (FString_kind, meta [K ''modes'', K ''isoMode'']),
     (FFloat_kind, meta [K ''modes'', K ''isoSpec'']),
     (FString_kind, meta [K ''modes'', K ''ndFilterMode'']),
     (FBool_kind, meta [K ''modes'', K ''exposureLock'']),
     (FFloat_kind, meta [K ''modes'', K ''overscan'']),
     (FString_kind, meta [K ''camera'', K ''make'']),
     (FString_kind, meta [K ''camera'', K ''model'']),
     (FString_kind, meta [K ''camera'', K ''firmware'']),
     (FString_kind, priv [K ''devices'', K ''sensor'', K ''sensorSerial'']),
     (FString_kind, priv [K ''camera'', K ''serialNumber''])]"

lemmas accessor_defs =
  Image_getWidth_def Image_getHeight_def Image_getOrientation_def Image_getRepresentation_def
  Image_Rawdetails_Pixelformat_getRightshift_def Image_Rawdetails_Pixelformat_Black_getR_def
  Image_Rawdetails_Pixelformat_Black_getGr_def Image_Rawdetails_Pixelformat_Black_getGb_def
  Image_Rawdetails_Pixelformat_Black_getB_def Image_Rawdetails_Pixelformat_getBlack_def
  Image_Rawdetails_Pixelformat_White_getR_def Image_Rawdetails_Pixelformat_White_getGr_def
  Image_Rawdetails_Pixelformat_White_getGb_def Image_Rawdetails_Pixelformat_White_getB_def
  Image_Rawdetails_Pixelformat_getWhite_def Image_Rawdetails_getPixelformat_def
  Image_Rawdetails_Pixelpacking_getEndianness_def
  Image_Rawdetails_Pixelpacking_getBitsperpixel_def Image_Rawdetails_getPixelpacking_def
  Image_Rawdetails_Mosaic_getTile_def Image_Rawdetails_Mosaic_getUpperleftpixel_def
  Image_Rawdetails_getMosaic_def Image_getRawdetails_def Image_Color_getGamma_def
  Image_Color_Whitebalancegain_getR_def Image_Color_Whitebalancegain_getGr_def
  Image_Color_Whitebalancegain_getGb_def Image_Color_Whitebalancegain_getB_def
  Image_Color_getWhitebalancegain_def Image_getColor_def Image_getModulationexposurebias_def
  Image_getLimitexposurebias_def Metadata_getImage_def Devices_Clock_getZulutime_def
  Devices_getClock_def Devices_Sensor_getBitsperpixel_def Devices_Sensor_Mosaic_getTile_def
  Devices_Sensor_Mosaic_getUpperleftpixel_def Devices_Sensor_getMosaic_def
  Devices_Sensor_getIso_def Devices_Sensor_Analoggain_getR_def
  Devices_Sensor_Analoggain_getGr_def Devices_Sensor_Analoggain_getGb_def
  Devices_Sensor_Analoggain_getB_def Devices_Sensor_getAnaloggain_def
  Devices_Sensor_getPixelpitch_def Devices_getSensor_def Devices_Lens_getInfinitylambda_def
  Devices_Lens_getFocallength_def Devices_Lens_getZoomstep_def Devices_Lens_getFocusstep_def
  Devices_Lens_getFnumber_def Devices_Lens_getTemperature_def Devices_Lens_getTemperatureadc_def
  Devices_Lens_getZoomstepperoffset_def Devices_Lens_getFocusstepperoffset_def
  Devices_Lens_Exitpupiloffset_getZ_def Devices_Lens_getExitpupiloffset_def Devices_getLens_def
  Devices_Ndfilter_getExposurebias_def Devices_getNdfilter_def Devices_Shutter_getMechanism_def
  Devices_Shutter_getFrameexposureduration_def Devices_Shutter_getPixelexposureduration_def
  Devices_getShutter_def Devices_Soc_getTemperature_def Devices_Soc_getTemperatureadc_def
  Devices_getSoc_def Devices_Accelerometer_Samplearray_getX_def
  Devices_Accelerometer_Samplearray_getY_def Devices_Accelerometer_Samplearray_getZ_def
  Devices_Accelerometer_Samplearray_getTime_def Devices_Accelerometer_getSamplearray_def
  Devices_getAccelerometer_def Devices_Mla_getTiling_def Devices_Mla_getLenspitch_def
  Devices_Mla_getRotation_def Devices_Mla_getConfig_def Devices_Mla_Scalefactor_getX_def
  Devices_Mla_Scalefactor_getY_def Devices_Mla_getScalefactor_def
  Devices_Mla_Sensoroffset_getX_def Devices_Mla_Sensoroffset_getY_def
  Devices_Mla_Sensoroffset_getZ_def Devices_Mla_getSensoroffset_def Devices_getMla_def
  Metadata_getDevices_def Modes_getCreative_def Modes_getManualcontrols_def
  Modes_getExposuredurationmode_def Modes_getExposuredurationspec_def Modes_getIsomode_def
  Modes_getIsospec_def Modes_getNdfiltermode_def Modes_getExposurelock_def Modes_getOverscan_def
  Metadata_getModes_def Camera_getMake_def Camera_getModel_def Camera_getFirmware_def
  Metadata_getCamera_def Privatemetadata_Devices_Sensor_getSensorserial_def
  Privatemetadata_Devices_getSensor_def Privatemetadata_getDevices_def
  Privatemetadata_Camera_getSerialnumber_def Privatemetadata_getCamera_def
  Metadata_getPrivatemetadata_def

lemma as_field_access:
  "as_field FInt (access J (as_int J) p r mem) = access J (field_conv J FInt_kind) p r mem"
  "as_field FFloat (access J (as_float J) p r mem) = access J (field_conv J FFloat_kind) p r mem"
  "as_field FString (access J (as_string J) p r mem) = access J (field_conv J FString_kind) p r mem"
  "as_field FBool (access J (as_bool J) p r mem) = access J (field_conv J FBool_kind) p r mem"
  by (simp_all add: as_field_def access_def rbind_assoc split_def)

lemma getters_table:
  "getters J = map (\<lambda>(k, p) m mem. access J (field_conv J k) p (m_root m) mem) getter_table"
  by (simp add: getters_def getter_table_def accessor_defs as_field_access)

lemma same_kind_refl [simp]: "same_kind s s"
  by (cases s) simp_all

lemma compatible_append: "compatible (r @ p) (r @ q) \<longleftrightarrow> compatible p q"
  by (induction r) simp_all

text \<open>An array is indexed by a number and an object by a name; the members the paths end at are
  never on the way to another one.\<close>

fun shaped :: "seg \<Rightarrow> seg list \<Rightarrow> bool" where
  "shaped prev [] \<longleftrightarrow> True"
| "shaped prev (s # p) \<longleftrightarrow>
     ((case s of I n \<Rightarrow> True | K k \<Rightarrow> False) = (prev \<in> {K ''frameArray'', K ''sampleArray''})) \<and> shaped s p"

definition inner_keys :: "seg list" where
  "inner_keys = [
     K ''metadata'', K ''image'', K ''rawDetails'', K ''pixelFormat'',
     K ''black'', K ''white'', K ''pixelPacking'', K ''mosaic'',
     K ''color'', K ''whiteBalanceGain'', K ''devices'', K ''clock'',
     K ''sensor'', K ''analogGain'', K ''lens'', K ''exitPupilOffset'',
     K ''ndfilter'', K ''shutter'', K ''soc'', K ''accelerometer'',
     K ''sampleArray'', I 0, K ''mla'', K ''scaleFactor'',
     K ''sensorOffset'', K ''modes'', K ''camera'', K ''privateMetadata'']"

definition proper :: "seg list \<Rightarrow> bool" where
  "proper p \<longleftrightarrow> p \<noteq> [] \<and> last p \<notin> set inner_keys \<and> set (butlast p) \<subseteq> set inner_keys"

lemma compatibleI:
  assumes "shaped prev p" "shaped prev q" "proper p" "proper q"
  shows "compatible p q"
  using assms
proof (induction p q arbitrary: prev rule: compatible.induct)
  case (3 s p t q)
  have kind: "same_kind s t" using 3(2,3) by (cases s; cases t) auto
  have "compatible p q" if eq: "s = t"
  proof (cases "p = []")
    case False
    then have "s \<in> set inner_keys" "proper p" using 3(4) by (auto simp: proper_def)
    then have "q \<noteq> []" "proper q" using 3(5) eq by (auto simp: proper_def split: if_splits)
    then show ?thesis using 3(1) [OF eq, of s] 3(2,3) \<open>proper p\<close> eq by simp
  qed simp
  then show ?case using kind by simp
qed (auto simp: proper_def)

lemma table_paths: "list_all (\<lambda>(k, p). take 5 p = frame_path) getter_table"
  by (simp add: getter_table_def meta_def priv_def frame_path_def)

lemma table_tails: "list_all (\<lambda>(k, p). shaped (K []) (drop 5 p) \<and> proper (drop 5 p)) getter_table"
  by code_simp

lemma table_compatible:
  assumes "(k, p) \<in> set getter_table" and "(l, q) \<in> set getter_table"
  shows "compatible p q"
proof -
  have "take 5 p = frame_path" "take 5 q = frame_path"
    using assms table_paths by (metis (mono_tags, lifting) case_prodD list_all_iff)+
  then have p: "p = frame_path @ drop 5 p" and q: "q = frame_path @ drop 5 q"
    by (metis append_take_drop_id)+
  have "shaped (K []) (drop 5 p) \<and> proper (drop 5 p)" "shaped (K []) (drop 5 q) \<and> proper (drop 5 q)"
    using assms table_tails by (metis (mono_tags, lifting) case_prodD list_all_iff)+
  then have "compatible (drop 5 p) (drop 5 q)" using compatibleI by blast
  then show ?thesis using p q compatible_append by metis
qed

text \<open>
  C16: the accessors of \<open>Metadata\<close>, of which there are 77, go through the non-constant index operator
  and so change the shared JSON tree. Still, no accessor changes what any accessor returns
  afterwards.
\<close>
theorem getters_frame:
  assumes "json_lib J" and "f \<in> set (getters J)" and "g \<in> set (getters J)"
    and "f m mem = Inr (x, mem')" and "g m mem = Inr (y, mem1)"
  shows "\<exists>mem2. g m mem' = Inr (y, mem2)"
proof -
  obtain k p where p: "(k, p) \<in> set getter_table" "f = (\<lambda>m mem. access J (field_conv J k) p (m_root m) mem)"
    using assms(2) by (auto simp: getters_table)
  obtain l q where q: "(l, q) \<in> set getter_table" "g = (\<lambda>m mem. access J (field_conv J l) q (m_root m) mem)"
    using assms(3) by (auto simp: getters_table)
  obtain a v where a: "m_root m = Some a" "mem a = Some v"
    using assms(4) by (auto simp: p(2) access_def deref_root_def res_simps split: option.splits)
  obtain u v' where u: "resolve J p v = Inr (u, v')" "mem' = mem(a \<mapsto> v')"
    using assms(4) a by (auto simp: p(2) access_def deref_root_def res_simps)
  obtain w v1 where w: "resolve J q v = Inr (w, v1)" "field_conv J l w = Inr y"
    using assms(5) a by (auto simp: q(2) access_def deref_root_def res_simps)
  obtain v2 where "resolve J q v' = Inr (w, v2)"
    using json_lib.resolve_frame [OF assms(1) u(1) w(1) table_compatible [OF p(1) q(1)]] by blast
  then show ?thesis using a u(2) w(2) by (simp add: q(2) access_def deref_root_def)
qed

text \<open>
  a picture whose metadata does not parse is not reported: \<open>read\<close> ignores the result of the
  parser. When the parser leaves a null value, all accessors return, and give 0, an empty string or
  false.
\<close>
lemma getters_default:
  assumes "json_lib J" and "parse is = j_null J" and "f \<in> set (getters J)"
  shows "\<exists>x mem'. (case read parse addr is mem of (m, mem0) \<Rightarrow> f m mem0) = Inr (x, mem')
    \<and> x \<in> {FInt 0, FFloat (Fin 0), FString [], FBool False}"
proof -
  obtain k p where p: "(k, p) \<in> set getter_table" "f = (\<lambda>m mem. access J (field_conv J k) p (m_root m) mem)"
    using assms(3) by (auto simp: getters_table)
  obtain v' where "resolve J p (j_null J) = Inr (j_null J, v')"
    using json_lib.resolve_null [OF assms(1)] by blast
  moreover have "\<exists>x. field_conv J k (j_null J) = Inr x \<and> x \<in> {FInt 0, FFloat (Fin 0), FString [], FBool False}"
    using json_lib.null_defaults [OF assms(1)] by (cases k) simp_all
  ultimately show ?thesis
    using assms(2) by (auto simp: p(2) read_def access_def deref_root_def)
qed

text \<open>
  every accessor of a default-constructed \<open>Metadata\<close> dereferences a null pointer.
\<close>
lemma getters_null:
  assumes "f \<in> set (getters J)"
  shows "f Metadata_ctor mem = Inl NullPointer"
  using assms by (auto simp: getters_table Metadata_ctor_def access_def deref_root_def)

lemma width_getter: "(\<lambda>m mem. as_field FInt (Image_getWidth J (Metadata_getImage m) mem)) \<in> set (getters J)"
  "(\<lambda>m mem. as_field FInt (Image_getHeight J (Metadata_getImage m) mem)) \<in> set (getters J)"
  by (simp_all add: getters_def)

text \<open>A small tree for the examples: a picture with a width and no height.\<close>

definition sample_tree :: json where
  "sample_tree = foldr (\<lambda>s v. case s of K k \<Rightarrow> JObj [(k, v)] | I n \<Rightarrow> JArr [v])
     (meta [K ''image'', K ''width'']) (JInt 3280)"

lemma sample_getters:
  "\<exists>mem'. Image_getWidth tree_json (Metadata_getImage (Metadata (Some 0))) [0 \<mapsto> sample_tree] = Inr (3280, mem')"
  "\<exists>mem'. Image_getHeight tree_json (Metadata_getImage (Metadata (Some 0))) [0 \<mapsto> sample_tree] = Inr (0, mem')"
  by (simp_all add: Image_getWidth_def Image_getHeight_def Metadata_getImage_def access_def deref_root_def
      sample_tree_def meta_def frame_path_def tree_json_def)

theorem getters_frame_witness:
  "\<exists>mem' mem2. Image_getHeight tree_json (Metadata_getImage (Metadata (Some 0))) [0 \<mapsto> sample_tree] = Inr (0, mem')
     \<and> as_field FInt (Image_getWidth tree_json (Metadata_getImage (Metadata (Some 0))) mem') = Inr (FInt 3280, mem2)"
proof -
  obtain mem' where h: "Image_getHeight tree_json (Metadata_getImage (Metadata (Some 0))) [0 \<mapsto> sample_tree] = Inr (0, mem')"
    using sample_getters by blast
  obtain mem1 where w: "Image_getWidth tree_json (Metadata_getImage (Metadata (Some 0))) [0 \<mapsto> sample_tree] = Inr (3280, mem1)"
    using sample_getters by blast
  have "\<exists>mem2. as_field FInt (Image_getWidth tree_json (Metadata_getImage (Metadata (Some 0))) mem') = Inr (FInt 3280, mem2)"
    using getters_frame [OF tree.json_lib_axioms width_getter(2) width_getter(1), of "Metadata (Some 0)"
        "[0 \<mapsto> sample_tree]" "FInt 0" mem' "FInt 3280" mem1] h w by (simp add: as_field_def)
  then show ?thesis using h by blast
qed

end
