(* ===== verification/Calibration_Data.thy ===== *)
theory Calibration_Data
  imports Grid_Math Json_Lib
begin

text \<open>
  \<open>lib/calibration/calibrationdata\<close> and \<open>serialization\<close>, with the serialization of \<open>LineGrid\<close>: the
  results of a calibration and their JSON form.

  The classes keep their members behind a pointer to an \<open>Impl\<close>; the model keeps the members. A
  \<open>cv::Mat\<close> of type \<open>CV_64F\<close> with two dimensions is the list of its rows. An \<open>int\<close> that was never
  written is \<open>None\<close>.
\<close>

record dmat =
  d_cols :: nat
  d_rows :: "fl list list"

record ArrayParameters =
  m_grid :: LineGrid
  m_translation :: "fl \<times> fl"
  m_rotation :: fl

record LensParameters =
  m_cameraMatrix :: dmat
  m_distCoeffs :: dmat

record LensConfiguration =
  m_zoom :: "int option"
  m_focus :: "int option"

type_synonym LensCalibration = "(LensConfiguration \<times> LensParameters) list"

record CalibrationData =
  m_serial :: string
  m_array :: ArrayParameters
  m_lens :: LensCalibration

definition empty_mat :: dmat where
  "empty_mat = \<lparr>d_cols = 0, d_rows = []\<rparr>"

definition ArrayParameters_ctor :: ArrayParameters where
  "ArrayParameters_ctor = \<lparr>m_grid = LineGrid_empty, m_translation = (Fin 0, Fin 0), m_rotation = Fin 0\<rparr>"

definition LensParameters_ctor :: LensParameters where
  "LensParameters_ctor = \<lparr>m_cameraMatrix = empty_mat, m_distCoeffs = empty_mat\<rparr>"

definition LensConfiguration_ctor :: LensConfiguration where
  "LensConfiguration_ctor = \<lparr>m_zoom = None, m_focus = None\<rparr>"

definition LensConfiguration_of :: "int \<Rightarrow> int \<Rightarrow> LensConfiguration" where
  "LensConfiguration_of zoom focus = \<lparr>m_zoom = Some zoom, m_focus = Some focus\<rparr>"

definition getZoomStep :: "LensConfiguration \<Rightarrow> int res" where
  "getZoomStep c = (case m_zoom c of None \<Rightarrow> Inl Uninitialised | Some z \<Rightarrow> Inr z)"

definition getFocusStep :: "LensConfiguration \<Rightarrow> int res" where
  "getFocusStep c = (case m_focus c of None \<Rightarrow> Inl Uninitialised | Some z \<Rightarrow> Inr z)"

definition CalibrationData_ctor :: CalibrationData where
  "CalibrationData_ctor = \<lparr>m_serial = [], m_array = ArrayParameters_ctor, m_lens = []\<rparr>"

text \<open>The comparison the lens parameters are sorted with.\<close>

definition lens_less :: "LensConfiguration \<Rightarrow> LensConfiguration \<Rightarrow> bool res" where
  "lens_less a b =
     rbind (getZoomStep a) (\<lambda>az. rbind (getZoomStep b) (\<lambda>bz.
       if az < bz then Inr True
       else if az = bz then rbind (getFocusStep a) (\<lambda>af. rbind (getFocusStep b) (\<lambda>bf. Inr (af < bf)))
       else Inr False))"

fun insert_lens ::
  "LensConfiguration \<times> LensParameters \<Rightarrow> LensCalibration \<Rightarrow> LensCalibration res" where
  "insert_lens e [] = Inr [e]"
| "insert_lens e (f # fs) =
     rbind (lens_less (fst f) (fst e)) (\<lambda>less.
       if less then rbind (insert_lens e fs) (\<lambda>gs. Inr (f # gs)) else Inr (e # f # fs))"

fun sort_lens :: "LensCalibration \<Rightarrow> LensCalibration res" where
  "sort_lens [] = Inr []"
| "sort_lens (e # es) = rbind (sort_lens es) (insert_lens e)"

definition CalibrationData_of :: "string \<Rightarrow> ArrayParameters \<Rightarrow> LensCalibration \<Rightarrow> CalibrationData res" where
  "CalibrationData_of serial array lens =
     rbind (sort_lens lens) (\<lambda>l. Inr \<lparr>m_serial = serial, m_array = array, m_lens = l\<rparr>)"

subsection \<open>serialization.h, serialization.cpp\<close>

text \<open>The two assertions fail for a default-constructed \<open>cv::Mat\<close>, which has no dimensions and another type. It is
  the matrix without rows and columns; all other matrices of the model are two-dimensional and of type \<open>CV_64F\<close>.\<close>

definition two_dims :: "dmat \<Rightarrow> bool" where
  "two_dims mat \<longleftrightarrow> \<not> (d_rows mat = [] \<and> d_cols mat = 0)"

definition serialize_mat :: "'j json_ops \<Rightarrow> dmat \<Rightarrow> 'j res" where
  "serialize_mat J mat =
     rassert (two_dims mat)
       (rfold (\<lambda>(i, row) root.
           rbind (j_set J (I i) (j_array J) root) (\<lambda>root1.
             rfold (\<lambda>(j, x). j_put J [I i, I j] (j_real J x)) (enumerate 0 row) root1))
         (enumerate 0 (d_rows mat)) (j_array J))"

definition deserialize_row :: "'j json_ops \<Rightarrow> 'j \<Rightarrow> nat \<Rightarrow> nat \<Rightarrow> fl list res" where
  "deserialize_row J v cols i =
     rfold (\<lambda>j acc. rbind (j_get J (I i) v) (\<lambda>r. rbind (j_get J (I j) r) (\<lambda>c.
         rbind (as_double J c) (\<lambda>x. Inr (acc @ [x])))))
       [0..<cols] []"

definition deserialize_mat :: "'j json_ops \<Rightarrow> 'j \<Rightarrow> dmat res" where
  "deserialize_mat J v =
     rassert (j_isArray J v)
       (if j_size J v = 0 then Inl AssertFailure
        else rbind (j_get J (I 0) v) (\<lambda>v0. rassert (j_isArray J v0)
          (rbind (rfold (\<lambda>i acc. rbind (deserialize_row J v (j_size J v0) i) (\<lambda>row. Inr (acc @ [row])))
             [0..<j_size J v] [])
           (\<lambda>rows. Inr \<lparr>d_cols = j_size J v0, d_rows = rows\<rparr>))))"

definition serialize_vec :: "'j json_ops \<Rightarrow> fl \<times> fl \<Rightarrow> 'j res" where
  "serialize_vec J vec =
     rbind (j_set J (I 0) (j_real J (fst vec)) (j_array J)) (\<lambda>root.
       j_set J (I 1) (j_real J (snd vec)) root)"

definition deserialize_vec :: "'j json_ops \<Rightarrow> 'j \<Rightarrow> (fl \<times> fl) res" where
  "deserialize_vec J v =
     rbind (j_get J (I 0) v) (\<lambda>a. rbind (as_float J a) (\<lambda>x.
     rbind (j_get J (I 1) v) (\<lambda>b. rbind (as_float J b) (\<lambda>y. Inr (x, y)))))"

subsection \<open>LineGrid\<close>

fun int_of_subgrid :: "SubGrid \<Rightarrow> int" where
  "int_of_subgrid SUBGRID_A = 0"
| "int_of_subgrid SUBGRID_B = 1"

definition subgrid_of_int :: "int \<Rightarrow> SubGrid res" where
  "subgrid_of_int n = (if n = 0 then Inr SUBGRID_A else if n = 1 then Inr SUBGRID_B else Inl BadEnum)"

definition LLine_serialize :: "'j json_ops \<Rightarrow> LLine \<Rightarrow> 'j res" where
  "LLine_serialize J l =
     rbind (j_set J (K ''subgrid'') (j_int J (int_of_subgrid (l_subgrid l))) (j_object J)) (\<lambda>root.
       j_set J (K ''position'') (j_real J (l_position l)) root)"

definition LLine_deserialize :: "'j json_ops \<Rightarrow> 'j \<Rightarrow> LLine res" where
  "LLine_deserialize J v =
     rbind (j_get J (K ''subgrid'') v) (\<lambda>a. rbind (as_int J a) (\<lambda>n. rbind (subgrid_of_int n) (\<lambda>sub.
     rbind (j_get J (K ''position'') v) (\<lambda>b. rbind (as_float J b) (\<lambda>x.
       Inr \<lparr>l_subgrid = sub, l_position = x\<rparr>)))))"

definition serialize_lines :: "'j json_ops \<Rightarrow> string \<Rightarrow> LLine list \<Rightarrow> 'j \<Rightarrow> 'j res" where
  "serialize_lines J k ls v =
     rbind (j_set J (K k) (j_array J) v)
       (rfold (\<lambda>(i, l) root. rbind (LLine_serialize J l) (\<lambda>lv. j_put J [K k, I i] lv root)) (enumerate 0 ls))"

definition LineGrid_serialize :: "'j json_ops \<Rightarrow> LineGrid \<Rightarrow> 'j res" where
  "LineGrid_serialize J g =
     rbind (serialize_lines J ''horizontal'' (horizonalLines g) (j_object J))
       (serialize_lines J ''vertical'' (verticalLines g))"

definition deserialize_lines :: "'j json_ops \<Rightarrow> string \<Rightarrow> 'j \<Rightarrow> LLine list \<Rightarrow> LLine list res" where
  "deserialize_lines J k v ls =
     rbind (j_get J (K k) v) (\<lambda>arr.
       rfold (\<lambda>i acc. rbind (j_get J (I i) arr) (\<lambda>lv. rbind (LLine_deserialize J lv) (\<lambda>l. Inr (acc @ [l]))))
         [0..<j_size J arr] ls)"

definition LineGrid_deserialize :: "'j json_ops \<Rightarrow> 'j \<Rightarrow> LineGrid \<Rightarrow> LineGrid res" where
  "LineGrid_deserialize J v g =
     rbind (deserialize_lines J ''horizontal'' v (horizonalLines g)) (\<lambda>h.
     rbind (deserialize_lines J ''vertical'' v (verticalLines g)) (\<lambda>w.
       Inr \<lparr>horizonalLines = h, verticalLines = w\<rparr>))"

subsection \<open>calibrationdata.cpp\<close>

definition ArrayParameters_serialize :: "'j json_ops \<Rightarrow> ArrayParameters \<Rightarrow> 'j res" where
  "ArrayParameters_serialize J a =
     rbind (serialize_vec J (m_translation a)) (\<lambda>t.
     rbind (j_set J (K ''translation'') t (j_object J)) (\<lambda>root1.
     rbind (j_set J (K ''rotation'') (j_real J (m_rotation a)) root1) (\<lambda>root2.
     rbind (LineGrid_serialize J (m_grid a)) (\<lambda>g. j_set J (K ''grid'') g root2))))"

definition ArrayParameters_deserialize :: "'j json_ops \<Rightarrow> 'j \<Rightarrow> ArrayParameters \<Rightarrow> ArrayParameters res" where
  "ArrayParameters_deserialize J v a =
     rbind (j_get J (K ''translation'') v) (\<lambda>tv. rbind (deserialize_vec J tv) (\<lambda>t.
     rbind (j_get J (K ''rotation'') v) (\<lambda>rv. rbind (as_double J rv) (\<lambda>r.
     rbind (j_get J (K ''grid'') v) (\<lambda>gv. rbind (LineGrid_deserialize J gv (m_grid a)) (\<lambda>g.
       Inr \<lparr>m_grid = g, m_translation = t, m_rotation = r\<rparr>))))))"

definition LensParameters_serialize :: "'j json_ops \<Rightarrow> LensParameters \<Rightarrow> 'j res" where
  "LensParameters_serialize J p =
     rbind (serialize_mat J (m_cameraMatrix p)) (\<lambda>c.
     rbind (j_set J (K ''cameraMatrix'') c (j_object J)) (\<lambda>root.
     rbind (serialize_mat J (m_distCoeffs p)) (\<lambda>d. j_set J (K ''distCoeffs'') d root)))"

definition LensParameters_deserialize :: "'j json_ops \<Rightarrow> 'j \<Rightarrow> LensParameters res" where
  "LensParameters_deserialize J v =
     rbind (j_get J (K ''cameraMatrix'') v) (\<lambda>cv. rbind (deserialize_mat J cv) (\<lambda>c.
     rbind (j_get J (K ''distCoeffs'') v) (\<lambda>dv. rbind (deserialize_mat J dv) (\<lambda>d.
       Inr \<lparr>m_cameraMatrix = c, m_distCoeffs = d\<rparr>))))"

definition LensConfiguration_serialize :: "'j json_ops \<Rightarrow> LensConfiguration \<Rightarrow> 'j res" where
  "LensConfiguration_serialize J c =
     rbind (getZoomStep c) (\<lambda>z. rbind (j_set J (K ''zoomStep'') (j_int J z) (j_object J)) (\<lambda>root.
     rbind (getFocusStep c) (\<lambda>f. j_set J (K ''focusStep'') (j_int J f) root)))"

definition LensConfiguration_deserialize :: "'j json_ops \<Rightarrow> 'j \<Rightarrow> LensConfiguration res" where
  "LensConfiguration_deserialize J v =
     rbind (j_get J (K ''zoomStep'') v) (\<lambda>zv. rbind (as_double J zv) (\<lambda>zx. rbind (int_of_fl zx) (\<lambda>z.
     rbind (j_get J (K ''focusStep'') v) (\<lambda>fv. rbind (as_double J fv) (\<lambda>fx. rbind (int_of_fl fx) (\<lambda>f.
       Inr (LensConfiguration_of z f)))))))"

definition serialize_lens_entry ::
  "'j json_ops \<Rightarrow> nat \<times> LensConfiguration \<times> LensParameters \<Rightarrow> 'j \<Rightarrow> 'j res" where
  "serialize_lens_entry J e v =
     rbind (LensConfiguration_serialize J (fst (snd e))) (\<lambda>c.
     rbind (j_put J [K ''lens'', I (fst e), K ''configuration''] c v) (\<lambda>root1.
     rbind (LensParameters_serialize J (snd (snd e))) (\<lambda>p.
       j_put J [K ''lens'', I (fst e), K ''parameters''] p root1)))"

definition CalibrationData_serialize :: "'j json_ops \<Rightarrow> CalibrationData \<Rightarrow> 'j res" where
  "CalibrationData_serialize J d =
     rbind (j_set J (K ''serial'') (j_string J (m_serial d)) (j_object J)) (\<lambda>root1.
     rbind (ArrayParameters_serialize J (m_array d)) (\<lambda>a.
     rbind (j_set J (K ''array'') a root1) (\<lambda>root2.
     rbind (j_set J (K ''lens'') (j_array J) root2) (\<lambda>root3.
       rfold (serialize_lens_entry J) (enumerate 0 (m_lens d)) root3))))"

definition deserialize_lens_entry ::
  "'j json_ops \<Rightarrow> 'j \<Rightarrow> nat \<Rightarrow> LensCalibration \<Rightarrow> LensCalibration res" where
  "deserialize_lens_entry J lensRoot i acc =
     rbind (j_get J (I i) lensRoot) (\<lambda>e.
     rbind (j_get J (K ''configuration'') e) (\<lambda>cv. rbind (LensConfiguration_deserialize J cv) (\<lambda>c.
     rbind (j_get J (K ''parameters'') e) (\<lambda>pv. rbind (LensParameters_deserialize J pv) (\<lambda>p.
       Inr (acc @ [(c, p)]))))))"

definition CalibrationData_deserialize :: "'j json_ops \<Rightarrow> 'j \<Rightarrow> CalibrationData \<Rightarrow> CalibrationData res" where
  "CalibrationData_deserialize J v d =
     rbind (j_get J (K ''serial'') v) (\<lambda>sv. rbind (as_string J sv) (\<lambda>s.
     rbind (j_get J (K ''array'') v) (\<lambda>av. rbind (ArrayParameters_deserialize J av (m_array d)) (\<lambda>a.
     rbind (j_get J (K ''lens'') v) (\<lambda>lensRoot.
     rbind (rfold (deserialize_lens_entry J lensRoot) [0..<j_size J lensRoot] (m_lens d)) (\<lambda>l.
       Inr \<lparr>m_serial = s, m_array = a, m_lens = l\<rparr>))))))"

subsection \<open>Round trip\<close>

definition is_float :: "fl \<Rightarrow> bool" where
  "is_float x \<longleftrightarrow> to_fmt binary32 x = x"

definition is_int32 :: "int \<Rightarrow> bool" where
  "is_int32 n \<longleftrightarrow> - (2 ^ 31) \<le> n \<and> n < 2 ^ 31"

definition mat_ok :: "dmat \<Rightarrow> bool" where
  "mat_ok m \<longleftrightarrow> d_rows m \<noteq> [] \<and> (\<forall>r \<in> set (d_rows m). length r = d_cols m)"

definition grid_floats :: "LineGrid \<Rightarrow> bool" where
  "grid_floats g \<longleftrightarrow> (\<forall>l \<in> set (horizonalLines g) \<union> set (verticalLines g). is_float (l_position l))"

definition lens_ok :: "LensConfiguration \<times> LensParameters \<Rightarrow> bool" where
  "lens_ok e \<longleftrightarrow> (\<exists>z f. fst e = LensConfiguration_of z f \<and> is_int32 z \<and> is_int32 f)
     \<and> mat_ok (m_cameraMatrix (snd e)) \<and> mat_ok (m_distCoeffs (snd e))"

definition storable :: "CalibrationData \<Rightarrow> bool" where
  "storable d \<longleftrightarrow> grid_floats (m_grid (m_array d)) \<and> is_float (fst (m_translation (m_array d)))
     \<and> is_float (snd (m_translation (m_array d))) \<and> (\<forall>e \<in> set (m_lens d). lens_ok e)"

lemma int_of_fl_int: "is_int32 n \<Longrightarrow> int_of_fl (Fin (of_int n)) = Inr n"
  by (simp add: is_int32_def Let_def)

lemma subgrid_round: "subgrid_of_int (int_of_subgrid s) = Inr s"
  by (cases s) (simp_all add: subgrid_of_int_def)

declare j_put.simps [simp del]

lemma same_data:
  "d\<lparr>m_array := (m_array d)\<lparr>m_grid := \<lparr>horizonalLines = horizonalLines (m_grid (m_array d)),
     verticalLines = verticalLines (m_grid (m_array d))\<rparr>\<rparr>\<rparr> = d"
  by (cases d; cases "m_array d"; cases "m_grid (m_array d)") simp

context json_lib
begin

text \<open>What the JSON values of the parts hold.\<close>

definition rep_line :: "'j \<Rightarrow> LLine \<Rightarrow> bool" where
  "rep_line v l \<longleftrightarrow> (\<exists>f. is_obj J v f \<and> f ''subgrid'' = j_int J (int_of_subgrid (l_subgrid l))
     \<and> f ''position'' = j_real J (l_position l))"

definition rep_list :: "('j \<Rightarrow> 'a \<Rightarrow> bool) \<Rightarrow> 'j \<Rightarrow> 'a list \<Rightarrow> bool" where
  "rep_list R v xs \<longleftrightarrow> (\<exists>vs. is_list J v vs \<and> list_all2 R vs xs)"

lemma is_objD: "is_obj J v f \<Longrightarrow> j_get J (K k) v = Inr (f k)"
  by (simp add: is_obj_def)

lemma is_listD:
  "is_list J v xs \<Longrightarrow> j_get J (I i) v = Inr (if i < length xs then xs ! i else j_null J)"
  by (simp add: is_list_def)

lemma rep_list_Nil: "rep_list R (j_array J) []"
  using is_list_array by (auto simp: rep_list_def)

lemma rep_list_set:
  assumes "rep_list R v xs" "R c x"
  shows "\<exists>v'. j_set J (I (length xs)) c v = Inr v' \<and> rep_list R v' (xs @ [x])"
proof -
  obtain vs where vs: "is_list J v vs" "list_all2 R vs xs" using assms(1) by (auto simp: rep_list_def)
  then have "length vs = length xs" by (simp add: list_all2_lengthD)
  then obtain v' where "j_set J (I (length xs)) c v = Inr v'" "is_list J v' (vs @ [c])"
    using is_list_set [OF vs(1), of "length xs" c] by auto
  then show ?thesis using vs assms(2) by (auto simp: rep_list_def intro!: exI [of _ "vs @ [c]"] list_all2_appendI)
qed

text \<open>A loop that assigns the members of an array one after the other, and one that reads them.\<close>

lemma fold_put_ok:
  assumes "is_obj J v f" and "rep_list R (f k) zs" and "\<forall>x \<in> set xs. \<exists>c. ser x = Inr c \<and> R c x"
  shows "\<exists>v' a. rfold (\<lambda>(i, x) w. rbind (ser x) (\<lambda>c. j_put J [K k, I i] c w)) (enumerate (length zs) xs) v = Inr v'
    \<and> is_obj J v' (f(k := a)) \<and> rep_list R a (zs @ xs)"
  using assms
proof (induction xs arbitrary: v f zs)
  case Nil
  then show ?case by (intro exI [of _ v] exI [of _ "f k"]) simp
next
  case (Cons x xs)
  obtain c where c: "ser x = Inr c" "R c x" using Cons.prems(3) by auto
  obtain a where a: "j_set J (I (length zs)) c (f k) = Inr a" "rep_list R a (zs @ [x])"
    using rep_list_set [OF Cons.prems(2) c(2)] by blast
  obtain d where d: "j_get J (I (length zs)) (f k) = Inr d"
    using Cons.prems(2) by (auto simp: rep_list_def is_list_def)
  obtain v1 where v1: "j_set J (K k) a v = Inr v1" "is_obj J v1 (f(k := a))"
    using is_obj_set [OF Cons.prems(1)] by blast
  have put: "j_put J [K k, I (length zs)] c v = Inr v1"
    using is_objD [OF Cons.prems(1), of k] a(1) v1(1) d by (simp add: j_put.simps)
  obtain v' b where "rfold (\<lambda>(i, x) w. rbind (ser x) (\<lambda>c. j_put J [K k, I i] c w)) (enumerate (length (zs @ [x])) xs) v1 = Inr v'"
      "is_obj J v' ((f(k := a))(k := b))" "rep_list R b ((zs @ [x]) @ xs)"
    using Cons.IH [OF v1(2), of "zs @ [x]"] a(2) Cons.prems(3)
    by (simp only: fun_upd_same) (meson list.set_intros(2))
  then have "rfold (\<lambda>(i, x) w. rbind (ser x) (\<lambda>c. j_put J [K k, I i] c w)) (enumerate (length zs) (x # xs)) v = Inr v'
      \<and> is_obj J v' (f(k := b)) \<and> rep_list R b (zs @ x # xs)"
    using c(1) put by simp
  then show ?case by blast
qed

lemma fold_read_ok:
  assumes "rep_list R v xs" and "\<And>c x. x \<in> set xs \<Longrightarrow> R c x \<Longrightarrow> des c = Inr x"
  shows "rfold (\<lambda>i acc. rbind (j_get J (I i) v) (\<lambda>c. rbind (des c) (\<lambda>x. Inr (acc @ [x])))) [0..<j_size J v] acc
    = Inr (acc @ xs)"
proof -
  obtain vs where vs: "is_list J v vs" "list_all2 R vs xs" using assms(1) by (auto simp: rep_list_def)
  have "rfold (\<lambda>i acc. rbind (j_get J (I i) v) (\<lambda>c. rbind (des c) (\<lambda>x. Inr (acc @ [x])))) [0..<n] acc
      = Inr (acc @ take n xs)" if "n \<le> length xs" for n
    using that
  proof (induction n)
    case 0
    then show ?case by simp
  next
    case (Suc n)
    have "R (vs ! n) (xs ! n)" "length vs = length xs" using vs(2) Suc.prems by (auto simp: list_all2_conv_all_nth)
    then have "j_get J (I n) v = Inr (vs ! n)" "des (vs ! n) = Inr (xs ! n)"
      using is_listD [OF vs(1), of n] Suc.prems assms(2) [of "xs ! n" "vs ! n"] by auto
    then show ?case using Suc by (simp add: rfold_append take_Suc_conv_app_nth)
  qed
  moreover have "j_size J v = length xs" using vs by (auto simp: is_list_def list_all2_lengthD)
  ultimately show ?thesis by simp
qed

lemma line_serialize: "\<exists>v. LLine_serialize J l = Inr v \<and> rep_line v l"
proof -
  obtain r where r: "j_set J (K ''subgrid'') (j_int J (int_of_subgrid (l_subgrid l))) (j_object J) = Inr r"
      "is_obj J r ((\<lambda>_. j_null J)(''subgrid'' := j_int J (int_of_subgrid (l_subgrid l))))"
    using is_obj_set [OF is_obj_object] by blast
  from is_obj_set [OF r(2), of "''position''" "j_real J (l_position l)"] obtain v where
    v: "j_set J (K ''position'') (j_real J (l_position l)) r = Inr v"
      "is_obj J v ((\<lambda>_. j_null J)(''subgrid'' := j_int J (int_of_subgrid (l_subgrid l)),
         ''position'' := j_real J (l_position l)))"
    by blast
  have "rep_line v l" unfolding rep_line_def by (intro exI conjI, rule v(2)) simp_all
  then show ?thesis using r(1) v(1) by (simp add: LLine_serialize_def)
qed

lemma line_deserialize: "rep_line v l \<Longrightarrow> is_float (l_position l) \<Longrightarrow> LLine_deserialize J v = Inr l"
proof -
  assume "rep_line v l" and fl: "is_float (l_position l)"
  then obtain f where f: "is_obj J v f" "f ''subgrid'' = j_int J (int_of_subgrid (l_subgrid l))"
      "f ''position'' = j_real J (l_position l)" by (auto simp: rep_line_def)
  have "as_int J (j_int J (int_of_subgrid (l_subgrid l))) = Inr (int_of_subgrid (l_subgrid l))"
    by (rule int_of_int) (cases "l_subgrid l"; simp)+
  then show ?thesis using f fl
    by (simp add: LLine_deserialize_def is_objD [OF f(1)] subgrid_round float_of_real is_float_def)
qed

lemma lines_serialize:
  assumes "is_obj J v f"
  shows "\<exists>v' a. serialize_lines J k ls v = Inr v' \<and> is_obj J v' (f(k := a)) \<and> rep_list rep_line a ls"
proof -
  obtain r where r: "j_set J (K k) (j_array J) v = Inr r" "is_obj J r (f(k := j_array J))"
    using is_obj_set [OF assms] by blast
  then show ?thesis
    using fold_put_ok [OF r(2), of rep_line k "[]" ls "LLine_serialize J"] rep_list_Nil line_serialize
    by (auto simp: serialize_lines_def)
qed

definition rep_grid :: "'j \<Rightarrow> LineGrid \<Rightarrow> bool" where
  "rep_grid v g \<longleftrightarrow> (\<exists>f. is_obj J v f \<and> rep_list rep_line (f ''horizontal'') (horizonalLines g)
     \<and> rep_list rep_line (f ''vertical'') (verticalLines g))"

lemma grid_serialize: "\<exists>v. LineGrid_serialize J g = Inr v \<and> rep_grid v g"
proof -
  obtain r a where r: "serialize_lines J ''horizontal'' (horizonalLines g) (j_object J) = Inr r"
      "is_obj J r ((\<lambda>_. j_null J)(''horizontal'' := a))" "rep_list rep_line a (horizonalLines g)"
    using lines_serialize [OF is_obj_object] by blast
  from lines_serialize [OF r(2), of "''vertical''" "verticalLines g"] show ?thesis
    using r(1,3) by (force simp: LineGrid_serialize_def rep_grid_def)
qed

lemma grid_deserialize:
  assumes "rep_grid v g" "grid_floats g"
  shows "LineGrid_deserialize J v g0 = Inr \<lparr>horizonalLines = horizonalLines g0 @ horizonalLines g,
     verticalLines = verticalLines g0 @ verticalLines g\<rparr>"
proof -
  obtain f where f: "is_obj J v f" "rep_list rep_line (f ''horizontal'') (horizonalLines g)"
      "rep_list rep_line (f ''vertical'') (verticalLines g)" using assms(1) by (auto simp: rep_grid_def)
  have fl: "is_float (l_position l)" if "l \<in> set (horizonalLines g) \<union> set (verticalLines g)" for l
    using assms(2) that by (simp add: grid_floats_def)
  show ?thesis
    using fold_read_ok [OF f(2), of "LLine_deserialize J"] fold_read_ok [OF f(3), of "LLine_deserialize J"]
      line_deserialize fl
    by (simp add: LineGrid_deserialize_def deserialize_lines_def is_objD [OF f(1)])
qed

definition rep_real :: "'j \<Rightarrow> fl \<Rightarrow> bool" where
  "rep_real v x \<longleftrightarrow> v = j_real J x"

definition rep_mat :: "'j \<Rightarrow> dmat \<Rightarrow> bool" where
  "rep_mat v m \<longleftrightarrow> rep_list (rep_list rep_real) v (d_rows m)"

lemma fold_row_ok:
  assumes "is_list J v vs" and "i < length vs" and "rep_list rep_real (vs ! i) zs"
  shows "\<exists>v' a. rfold (\<lambda>(j, x). j_put J [I i, I j] (j_real J x)) (enumerate (length zs) xs) v = Inr v'
    \<and> is_list J v' (vs[i := a]) \<and> rep_list rep_real a (zs @ xs)"
  using assms
proof (induction xs arbitrary: v vs zs)
  case Nil
  then show ?case by (intro exI [of _ v] exI [of _ "vs ! i"]) simp
next
  case (Cons x xs)
  obtain a where a: "j_set J (I (length zs)) (j_real J x) (vs ! i) = Inr a" "rep_list rep_real a (zs @ [x])"
    using rep_list_set [OF Cons.prems(3), of "j_real J x" x] by (auto simp: rep_real_def [of "j_real J x" x])
  obtain d where d: "j_get J (I (length zs)) (vs ! i) = Inr d"
    using Cons.prems(3) by (auto simp: rep_list_def is_list_def)
  obtain v1 where v1: "j_set J (I i) a v = Inr v1" "is_list J v1 (vs[i := a])"
    using is_list_set [OF Cons.prems(1), of i a] Cons.prems(2) by auto
  have put: "j_put J [I i, I (length zs)] (j_real J x) v = Inr v1"
    using is_listD [OF Cons.prems(1), of i] Cons.prems(2) a(1) v1(1) d by (simp add: j_put.simps)
  obtain v' b where "rfold (\<lambda>(j, x). j_put J [I i, I j] (j_real J x)) (enumerate (length (zs @ [x])) xs) v1 = Inr v'"
      "is_list J v' ((vs[i := a])[i := b])" "rep_list rep_real b ((zs @ [x]) @ xs)"
    using Cons.IH [OF v1(2), of "zs @ [x]"] a(2) Cons.prems(2) by auto
  then show ?case using put by auto
qed

lemma mat_serialize: "mat_ok m \<Longrightarrow> \<exists>v. serialize_mat J m = Inr v \<and> rep_mat v m"
proof -
  let ?step = "\<lambda>(i, row) root. rbind (j_set J (I i) (j_array J) root) (\<lambda>root1.
     rfold (\<lambda>(j, x). j_put J [I i, I j] (j_real J x)) (enumerate 0 row) root1)"
  have "\<exists>v'. rfold ?step (enumerate (length zs) rows) v = Inr v' \<and> rep_list (rep_list rep_real) v' (zs @ rows)"
    if "rep_list (rep_list rep_real) v zs" for v zs rows
    using that
  proof (induction rows arbitrary: v zs)
    case Nil
    then show ?case by simp
  next
    case (Cons row rows)
    obtain vs where vs: "is_list J v vs" "list_all2 (rep_list rep_real) vs zs"
      using Cons.prems unfolding rep_list_def [of "rep_list rep_real"] by blast
    have len: "length vs = length zs" using vs(2) by (rule list_all2_lengthD)
    obtain v1 where v1: "j_set J (I (length zs)) (j_array J) v = Inr v1" "is_list J v1 (vs @ [j_array J])"
      using is_list_set [OF vs(1), of "length zs" "j_array J"] len by auto
    obtain v2 a where v2: "rfold (\<lambda>(j, x). j_put J [I (length zs), I j] (j_real J x)) (enumerate 0 row) v1 = Inr v2"
        "is_list J v2 ((vs @ [j_array J])[length zs := a])" "rep_list rep_real a row"
      using fold_row_ok [OF v1(2), of "length zs" "[]" row] len rep_list_Nil by (auto simp: nth_append)
    have "rep_list (rep_list rep_real) v2 (zs @ [row])"
      unfolding rep_list_def [of "rep_list rep_real"]
      using v2(2,3) vs(2) len by (intro exI [of _ "vs @ [a]"]) (simp add: list_update_append list_all2_appendI)
    from Cons.IH [OF this] v1(1) v2(1) show ?case by auto
  qed
  from this [OF rep_list_Nil, of "d_rows m"] show "mat_ok m \<Longrightarrow> ?thesis"
    by (auto simp: serialize_mat_def rep_mat_def rassert_def two_dims_def mat_ok_def)
qed

lemma mat_deserialize:
  assumes "rep_mat v m" "mat_ok m"
  shows "deserialize_mat J v = Inr m"
proof -
  obtain vs where vs: "is_list J v vs" "list_all2 (rep_list rep_real) vs (d_rows m)"
    using assms(1) unfolding rep_mat_def rep_list_def [of "rep_list rep_real"] by blast
  have len: "length vs = length (d_rows m)" using vs(2) by (rule list_all2_lengthD)
  have ne: "0 < length (d_rows m)" using assms(2) by (simp add: mat_ok_def)
  have row: "rep_list rep_real (vs ! i) (d_rows m ! i)" "length (d_rows m ! i) = d_cols m" if "i < length (d_rows m)" for i
    using vs(2) that assms(2) by (auto simp: list_all2_conv_all_nth mat_ok_def)
  have size: "j_isArray J (vs ! i)" "j_size J (vs ! i) = d_cols m" if "i < length (d_rows m)" for i
    using row [OF that] by (auto simp: rep_list_def is_list_def list_all2_lengthD)
  have get: "j_get J (I i) v = Inr (vs ! i)" if "i < length (d_rows m)" for i
    using is_listD [OF vs(1), of i] that len by simp
  have "deserialize_row J v (d_cols m) i = Inr (d_rows m ! i)" if i: "i < length (d_rows m)" for i
    using fold_read_ok [OF row(1) [OF i], of "as_double J" "[]"] size(2) [OF i] get [OF i]
    by (simp add: deserialize_row_def rep_real_def double_of_real)
  then have "rfold (\<lambda>i acc. rbind (deserialize_row J v (d_cols m) i) (\<lambda>row. Inr (acc @ [row]))) [0..<n] []
      = Inr (take n (d_rows m))" if "n \<le> length (d_rows m)" for n
    using that by (induction n) (simp_all add: rfold_append take_Suc_conv_app_nth)
  from this [of "length (d_rows m)"] show ?thesis
    using vs(1) len ne size [OF ne] get [OF ne]
    by (simp add: deserialize_mat_def is_list_def)
qed

lemma vec_serialize: "\<exists>v. serialize_vec J p = Inr v \<and> is_list J v [j_real J (fst p), j_real J (snd p)]"
proof -
  obtain r where r: "j_set J (I 0) (j_real J (fst p)) (j_array J) = Inr r" "is_list J r [j_real J (fst p)]"
    using is_list_set [OF is_list_array, of 0 "j_real J (fst p)"] by auto
  from is_list_set [OF r(2), of 1 "j_real J (snd p)"] show ?thesis
    using r(1) by (auto simp: serialize_vec_def)
qed

lemma vec_deserialize:
  "is_list J v [j_real J (fst p), j_real J (snd p)] \<Longrightarrow> is_float (fst p) \<Longrightarrow> is_float (snd p)
    \<Longrightarrow> deserialize_vec J v = Inr p"
  by (simp add: deserialize_vec_def is_listD float_of_real is_float_def)

definition rep_array :: "'j \<Rightarrow> ArrayParameters \<Rightarrow> bool" where
  "rep_array v a \<longleftrightarrow> (\<exists>f. is_obj J v f
     \<and> is_list J (f ''translation'') [j_real J (fst (m_translation a)), j_real J (snd (m_translation a))]
     \<and> f ''rotation'' = j_real J (m_rotation a) \<and> rep_grid (f ''grid'') (m_grid a))"

lemma array_serialize: "\<exists>v. ArrayParameters_serialize J a = Inr v \<and> rep_array v a"
proof -
  obtain t where t: "serialize_vec J (m_translation a) = Inr t"
      "is_list J t [j_real J (fst (m_translation a)), j_real J (snd (m_translation a))]"
    using vec_serialize by blast
  obtain g where g: "LineGrid_serialize J (m_grid a) = Inr g" "rep_grid g (m_grid a)"
    using grid_serialize by blast
  obtain r1 where 1: "j_set J (K ''translation'') t (j_object J) = Inr r1"
      "is_obj J r1 ((\<lambda>_. j_null J)(''translation'' := t))" using is_obj_set [OF is_obj_object] by blast
  obtain r2 where 2: "j_set J (K ''rotation'') (j_real J (m_rotation a)) r1 = Inr r2"
      "is_obj J r2 ((\<lambda>_. j_null J)(''translation'' := t, ''rotation'' := j_real J (m_rotation a)))"
    using is_obj_set [OF 1(2)] by blast
  obtain r3 where 3: "j_set J (K ''grid'') g r2 = Inr r3"
      "is_obj J r3 ((\<lambda>_. j_null J)(''translation'' := t, ''rotation'' := j_real J (m_rotation a), ''grid'' := g))"
    using is_obj_set [OF 2(2)] by blast
  have "rep_array r3 a" unfolding rep_array_def by (intro exI conjI, rule 3(2)) (use t g in simp_all)
  then show ?thesis using t(1) g(1) 1(1) 2(1) 3(1) by (simp add: ArrayParameters_serialize_def)
qed

lemma array_deserialize:
  assumes "rep_array v a" "grid_floats (m_grid a)" "is_float (fst (m_translation a))" "is_float (snd (m_translation a))"
  shows "ArrayParameters_deserialize J v a0 =
    Inr (a\<lparr>m_grid := \<lparr>horizonalLines = horizonalLines (m_grid a0) @ horizonalLines (m_grid a),
        verticalLines = verticalLines (m_grid a0) @ verticalLines (m_grid a)\<rparr>\<rparr>)"
proof -
  obtain f where f: "is_obj J v f" "f ''rotation'' = j_real J (m_rotation a)" "rep_grid (f ''grid'') (m_grid a)"
    "is_list J (f ''translation'') [j_real J (fst (m_translation a)), j_real J (snd (m_translation a))]"
    using assms(1) by (auto simp: rep_array_def)
  show ?thesis
    using vec_deserialize [OF f(4) assms(3,4)] grid_deserialize [OF f(3) assms(2)]
    by (simp add: ArrayParameters_deserialize_def is_objD [OF f(1)] f(2) double_of_real)
qed

definition rep_params :: "'j \<Rightarrow> LensParameters \<Rightarrow> bool" where
  "rep_params v p \<longleftrightarrow> (\<exists>f. is_obj J v f \<and> rep_mat (f ''cameraMatrix'') (m_cameraMatrix p)
     \<and> rep_mat (f ''distCoeffs'') (m_distCoeffs p))"

lemma params_serialize:
  assumes "mat_ok (m_cameraMatrix p)" and "mat_ok (m_distCoeffs p)"
  shows "\<exists>v. LensParameters_serialize J p = Inr v \<and> rep_params v p"
proof -
  obtain c where c: "serialize_mat J (m_cameraMatrix p) = Inr c" "rep_mat c (m_cameraMatrix p)"
    using mat_serialize [OF assms(1)] by blast
  obtain d where d: "serialize_mat J (m_distCoeffs p) = Inr d" "rep_mat d (m_distCoeffs p)"
    using mat_serialize [OF assms(2)] by blast
  obtain r1 where 1: "j_set J (K ''cameraMatrix'') c (j_object J) = Inr r1"
      "is_obj J r1 ((\<lambda>_. j_null J)(''cameraMatrix'' := c))" using is_obj_set [OF is_obj_object] by blast
  obtain r2 where 2: "j_set J (K ''distCoeffs'') d r1 = Inr r2"
      "is_obj J r2 ((\<lambda>_. j_null J)(''cameraMatrix'' := c, ''distCoeffs'' := d))"
    using is_obj_set [OF 1(2)] by blast
  have "rep_params r2 p" unfolding rep_params_def by (intro exI conjI, rule 2(2)) (use c d in simp_all)
  then show ?thesis using c(1) d(1) 1(1) 2(1) by (simp add: LensParameters_serialize_def)
qed

text \<open>Lens parameters that were never set cannot be written: the assertion fails.\<close>

lemma default_params: "LensParameters_serialize J LensParameters_ctor = Inl AssertFailure"
  by (simp add: LensParameters_serialize_def LensParameters_ctor_def serialize_mat_def rassert_def two_dims_def empty_mat_def)

lemma params_deserialize:
  assumes "rep_params v p" "mat_ok (m_cameraMatrix p)" "mat_ok (m_distCoeffs p)"
  shows "LensParameters_deserialize J v = Inr p"
proof -
  obtain f where f: "is_obj J v f" "rep_mat (f ''cameraMatrix'') (m_cameraMatrix p)"
      "rep_mat (f ''distCoeffs'') (m_distCoeffs p)" using assms(1) by (auto simp: rep_params_def)
  show ?thesis
    by (simp add: LensParameters_deserialize_def is_objD [OF f(1)] mat_deserialize [OF f(2) assms(2)]
        mat_deserialize [OF f(3) assms(3)])
qed

definition rep_config :: "'j \<Rightarrow> LensConfiguration \<Rightarrow> bool" where
  "rep_config v c \<longleftrightarrow> (\<exists>f z n. is_obj J v f \<and> c = LensConfiguration_of z n
     \<and> f ''zoomStep'' = j_int J z \<and> f ''focusStep'' = j_int J n)"

lemma config_serialize:
  "\<exists>v. LensConfiguration_serialize J (LensConfiguration_of z n) = Inr v \<and> rep_config v (LensConfiguration_of z n)"
proof -
  obtain r1 where 1: "j_set J (K ''zoomStep'') (j_int J z) (j_object J) = Inr r1"
      "is_obj J r1 ((\<lambda>_. j_null J)(''zoomStep'' := j_int J z))" using is_obj_set [OF is_obj_object] by blast
  obtain r2 where 2: "j_set J (K ''focusStep'') (j_int J n) r1 = Inr r2"
      "is_obj J r2 ((\<lambda>_. j_null J)(''zoomStep'' := j_int J z, ''focusStep'' := j_int J n))"
    using is_obj_set [OF 1(2)] by blast
  have "rep_config r2 (LensConfiguration_of z n)"
    unfolding rep_config_def by (intro exI conjI, rule 2(2)) simp_all
  then show ?thesis using 1(1) 2(1)
    by (simp add: LensConfiguration_serialize_def LensConfiguration_of_def getZoomStep_def getFocusStep_def)
qed

lemma config_deserialize:
  assumes "rep_config v (LensConfiguration_of z n)" "is_int32 z" "is_int32 n"
  shows "LensConfiguration_deserialize J v = Inr (LensConfiguration_of z n)"
proof -
  obtain f where f: "is_obj J v f" "f ''zoomStep'' = j_int J z" "f ''focusStep'' = j_int J n"
    using assms(1) by (auto simp: rep_config_def LensConfiguration_of_def)
  have "as_double J (j_int J z) = Inr (Fin (of_int z))" "as_double J (j_int J n) = Inr (Fin (of_int n))"
    using assms(2,3) double_of_int by (simp_all add: is_int32_def)
  then show ?thesis
    by (simp add: LensConfiguration_deserialize_def is_objD [OF f(1)] f(2,3) int_of_fl_int assms(2,3)
        del: int_of_fl.simps)
qed

definition rep_entry :: "'j \<Rightarrow> LensConfiguration \<times> LensParameters \<Rightarrow> bool" where
  "rep_entry v e \<longleftrightarrow> (\<exists>f. is_obj J v f \<and> rep_config (f ''configuration'') (fst e)
     \<and> rep_params (f ''parameters'') (snd e))"

lemma put_member:
  assumes v: "is_obj J v f" and l: "is_list J (f k) vs" and i: "i \<le> length vs"
    and o: "is_obj J (if i < length vs then vs ! i else j_null J) g"
  shows "\<exists>v' a w. j_put J [K k, I i, K m] c v = Inr v' \<and> is_obj J v' (f(k := a))
    \<and> is_list J a (if i < length vs then vs[i := w] else vs @ [w]) \<and> is_obj J w (g(m := c))"
proof -
  let ?e = "if i < length vs then vs ! i else j_null J"
  obtain w where w: "j_set J (K m) c ?e = Inr w" "is_obj J w (g(m := c))" using is_obj_set [OF o] by blast
  obtain a where a: "j_set J (I i) w (f k) = Inr a" "is_list J a (if i < length vs then vs[i := w] else vs @ [w])"
    using is_list_set [OF l i] by blast
  obtain v' where v': "j_set J (K k) a v = Inr v'" "is_obj J v' (f(k := a))" using is_obj_set [OF v] by blast
  have "j_put J [K k, I i, K m] c v = Inr v'"
    using w(1) a(1) v'(1) is_objD [OF o, of m] by (simp add: j_put.simps is_objD [OF v] is_listD [OF l] del: if_split)
  then show ?thesis using w(2) a(2) v'(2) by blast
qed

lemma entry_serialize:
  assumes v: "is_obj J v f" and l: "rep_list rep_entry (f ''lens'') zs" and e: "lens_ok e"
  shows "\<exists>v' a. serialize_lens_entry J (length zs, e) v = Inr v' \<and> is_obj J v' (f(''lens'' := a))
    \<and> rep_list rep_entry a (zs @ [e])"
proof -
  obtain z n where zn: "fst e = LensConfiguration_of z n" using e by (auto simp: lens_ok_def)
  obtain c where c: "LensConfiguration_serialize J (fst e) = Inr c" "rep_config c (fst e)"
    unfolding zn using config_serialize by blast
  obtain q where q: "LensParameters_serialize J (snd e) = Inr q" "rep_params q (snd e)"
    using params_serialize [of "snd e"] e by (auto simp: lens_ok_def)
  obtain vs where vs: "is_list J (f ''lens'') vs" "list_all2 rep_entry vs zs"
    using l unfolding rep_list_def by blast
  have len: "length zs = length vs" using vs(2) by (simp add: list_all2_lengthD)
  obtain v1 a1 w1 where 1: "j_put J [K ''lens'', I (length zs), K ''configuration''] c v = Inr v1"
      "is_obj J v1 (f(''lens'' := a1))" "is_list J a1 (vs @ [w1])" "is_obj J w1 ((\<lambda>_. j_null J)(''configuration'' := c))"
    using put_member [OF v vs(1), of "length zs" "\<lambda>_. j_null J" "''configuration''" c] is_obj_null len by auto
  have l1: "is_list J ((f(''lens'' := a1)) ''lens'') (vs @ [w1])" using 1(3) by simp
  obtain v2 a2 w2 where 2: "j_put J [K ''lens'', I (length zs), K ''parameters''] q v1 = Inr v2"
      "is_obj J v2 ((f(''lens'' := a1))(''lens'' := a2))" "is_list J a2 ((vs @ [w1])[length zs := w2])"
      "is_obj J w2 ((\<lambda>_. j_null J)(''configuration'' := c, ''parameters'' := q))"
    using put_member [OF 1(2) l1, of "length zs" "(\<lambda>_. j_null J)(''configuration'' := c)" "''parameters''" q] 1(4) len
    by (auto simp del: fun_upd_apply)
  have "rep_entry w2 e" unfolding rep_entry_def by (intro exI conjI, rule 2(4)) (use c q in simp_all)
  then have "rep_list rep_entry a2 (zs @ [e])"
    unfolding rep_list_def using 2(3) vs(2) len
    by (intro exI [of _ "vs @ [w2]"]) (simp add: list_update_append list_all2_appendI)
  moreover have "serialize_lens_entry J (length zs, e) v = Inr v2"
    using c(1) q(1) 1(1) 2(1) by (simp add: serialize_lens_entry_def)
  moreover have "is_obj J v2 (f(''lens'' := a2))" using 2(2) by simp
  ultimately show ?thesis by blast
qed

lemma entries_serialize:
  assumes "is_obj J v f" and "rep_list rep_entry (f ''lens'') zs" and "\<forall>e \<in> set es. lens_ok e"
  shows "\<exists>v' a. rfold (serialize_lens_entry J) (enumerate (length zs) es) v = Inr v' \<and> is_obj J v' (f(''lens'' := a))
    \<and> rep_list rep_entry a (zs @ es)"
  using assms
proof (induction es arbitrary: v f zs)
  case Nil
  then have "is_obj J v (f(''lens'' := f ''lens'')) \<and> rep_list rep_entry (f ''lens'') (zs @ [])" by simp
  then show ?case by (simp only: enumerate_simps rfold.simps) blast
next
  case (Cons e es)
  obtain v1 a where 1: "serialize_lens_entry J (length zs, e) v = Inr v1" "is_obj J v1 (f(''lens'' := a))"
      "rep_list rep_entry a (zs @ [e])" using entry_serialize [OF Cons.prems(1,2), of e] Cons.prems(3) by auto
  then have "rep_list rep_entry ((f(''lens'' := a)) ''lens'') (zs @ [e])" by simp
  from Cons.IH [OF 1(2) this] Cons.prems(3) obtain v' b where
    "rfold (serialize_lens_entry J) (enumerate (length (zs @ [e])) es) v1 = Inr v'"
    "is_obj J v' ((f(''lens'' := a))(''lens'' := b))" "rep_list rep_entry b ((zs @ [e]) @ es)"
    by (meson list.set_intros(2))
  then have "rfold (serialize_lens_entry J) (enumerate (length zs) (e # es)) v = Inr v' \<and> is_obj J v' (f(''lens'' := b))
      \<and> rep_list rep_entry b (zs @ e # es)" using 1(1) by simp
  then show ?case by blast
qed

lemma entries_deserialize:
  assumes "rep_list rep_entry v es" and "\<forall>e \<in> set es. lens_ok e"
  shows "rfold (deserialize_lens_entry J v) [0..<j_size J v] acc = Inr (acc @ es)"
proof -
  define des where "des w = rbind (j_get J (K ''configuration'') w) (\<lambda>cv. rbind (LensConfiguration_deserialize J cv) (\<lambda>c.
     rbind (j_get J (K ''parameters'') w) (\<lambda>pv. rbind (LensParameters_deserialize J pv) (\<lambda>p. Inr (c, p)))))" for w
  have form: "deserialize_lens_entry J v = (\<lambda>i acc. rbind (j_get J (I i) v) (\<lambda>w. rbind (des w) (\<lambda>e. Inr (acc @ [e]))))"
    by (intro ext) (simp add: deserialize_lens_entry_def des_def rbind_assoc)
  have "des w = Inr e" if e: "e \<in> set es" "rep_entry w e" for w e
  proof -
    obtain f where f: "is_obj J w f" "rep_config (f ''configuration'') (fst e)" "rep_params (f ''parameters'') (snd e)"
      using e(2) by (auto simp: rep_entry_def)
    obtain z n where zn: "fst e = LensConfiguration_of z n" "is_int32 z" "is_int32 n"
      and m: "mat_ok (m_cameraMatrix (snd e))" "mat_ok (m_distCoeffs (snd e))"
      using assms(2) e(1) by (auto simp: lens_ok_def)
    show ?thesis
      using config_deserialize [OF f(2) [unfolded zn(1)] zn(2,3)] params_deserialize [OF f(3) m] zn(1)
      by (simp add: des_def is_objD [OF f(1)] prod_eq_iff)
  qed
  then show ?thesis unfolding form using fold_read_ok [OF assms(1)] by blast
qed

lemma data_serialize:
  assumes "storable d"
  shows "\<exists>v f. CalibrationData_serialize J d = Inr v \<and> is_obj J v f \<and> f ''serial'' = j_string J (m_serial d)
    \<and> rep_array (f ''array'') (m_array d) \<and> rep_list rep_entry (f ''lens'') (m_lens d)"
proof -
  let ?s = "j_string J (m_serial d)"
  obtain a where a: "ArrayParameters_serialize J (m_array d) = Inr a" "rep_array a (m_array d)"
    using array_serialize by blast
  obtain r1 where 1: "j_set J (K ''serial'') ?s (j_object J) = Inr r1" "is_obj J r1 ((\<lambda>_. j_null J)(''serial'' := ?s))"
    using is_obj_set [OF is_obj_object] by blast
  obtain r2 where 2: "j_set J (K ''array'') a r1 = Inr r2" "is_obj J r2 ((\<lambda>_. j_null J)(''serial'' := ?s, ''array'' := a))"
    using is_obj_set [OF 1(2)] by blast
  obtain r3 where 3: "j_set J (K ''lens'') (j_array J) r2 = Inr r3"
      "is_obj J r3 ((\<lambda>_. j_null J)(''serial'' := ?s, ''array'' := a, ''lens'' := j_array J))"
    using is_obj_set [OF 2(2)] by blast
  have e: "\<forall>e \<in> set (m_lens d). lens_ok e" using assms by (simp add: storable_def)
  obtain v b where v: "rfold (serialize_lens_entry J) (enumerate 0 (m_lens d)) r3 = Inr v"
      "is_obj J v ((\<lambda>_. j_null J)(''serial'' := ?s, ''array'' := a, ''lens'' := j_array J, ''lens'' := b))"
      "rep_list rep_entry b (m_lens d)"
    using entries_serialize [OF 3(2), of "[]" "m_lens d"] rep_list_Nil e by auto
  have "CalibrationData_serialize J d = Inr v"
    using a(1) 1(1) 2(1) 3(1) v(1) by (simp add: CalibrationData_serialize_def)
  moreover have "((\<lambda>_. j_null J)(''serial'' := ?s, ''array'' := a, ''lens'' := b)) ''serial'' = ?s"
    "rep_array (((\<lambda>_. j_null J)(''serial'' := ?s, ''array'' := a, ''lens'' := b)) ''array'') (m_array d)"
    "rep_list rep_entry (((\<lambda>_. j_null J)(''serial'' := ?s, ''array'' := a, ''lens'' := b)) ''lens'') (m_lens d)"
    using a v(3) by simp_all
  ultimately show ?thesis using v(2) unfolding fun_upd_upd by blast
qed

lemma data_round_trip:
  assumes "storable d"
  shows "\<exists>v. CalibrationData_serialize J d = Inr v \<and> CalibrationData_deserialize J v d0 =
    Inr (d\<lparr>m_array := (m_array d)\<lparr>m_grid :=
          \<lparr>horizonalLines = horizonalLines (m_grid (m_array d0)) @ horizonalLines (m_grid (m_array d)),
           verticalLines = verticalLines (m_grid (m_array d0)) @ verticalLines (m_grid (m_array d))\<rparr>\<rparr>,
        m_lens := m_lens d0 @ m_lens d\<rparr>)"
proof -
  obtain v f where v: "CalibrationData_serialize J d = Inr v" "is_obj J v f" "f ''serial'' = j_string J (m_serial d)"
      "rep_array (f ''array'') (m_array d)" "rep_list rep_entry (f ''lens'') (m_lens d)"
    using data_serialize [OF assms] by blast
  have s: "grid_floats (m_grid (m_array d))" "is_float (fst (m_translation (m_array d)))"
      "is_float (snd (m_translation (m_array d)))" "\<forall>e \<in> set (m_lens d). lens_ok e"
    using assms by (auto simp: storable_def)
  show ?thesis
    using v(1) array_deserialize [OF v(4) s(1-3)] entries_deserialize [OF v(5) s(4)]
    by (simp add: CalibrationData_deserialize_def is_objD [OF v(2)] v(3) string_of_string)
qed

end

text \<open>
  C17: \<open>CalibrationData::serialize\<close> and \<open>deserialize\<close>. Calibration data whose line positions and
  translation are \<open>float\<close> values, whose zoom and focus steps were set and whose matrices are not
  empty is written to JSON without a fault, and reading the result into a default-constructed object
  gives the same data.
\<close>
theorem CalibrationData_round_trip:
  assumes "json_lib J" and "storable d"
  shows "\<exists>v. CalibrationData_serialize J d = Inr v
    \<and> CalibrationData_deserialize J v CalibrationData_ctor = Inr d"
  using json_lib.data_round_trip [OF assms, of CalibrationData_ctor]
  by (simp add: CalibrationData_ctor_def ArrayParameters_ctor_def LineGrid_empty_def same_data)

definition sample_data :: CalibrationData where
  "sample_data = \<lparr>m_serial = ''A1'', m_array = \<lparr>m_grid = \<lparr>horizonalLines = [\<lparr>l_subgrid = SUBGRID_B, l_position = Fin 7\<rparr>],
        verticalLines = []\<rparr>, m_translation = (Fin 1, Fin 2), m_rotation = Fin (1 / 3)\<rparr>,
     m_lens = [(LensConfiguration_of 5 (- 3), \<lparr>m_cameraMatrix = \<lparr>d_cols = 2, d_rows = [[Fin 1, Fin 0], [Fin 0, Fin 1]]\<rparr>,
        m_distCoeffs = \<lparr>d_cols = 1, d_rows = [[Fin 0]]\<rparr>\<rparr>)]\<rparr>"

lemma storable_sample: "storable sample_data"
  using rnd32_int [of 1]
  by (simp add: storable_def sample_data_def grid_floats_def is_float_def lens_ok_def mat_ok_def is_int32_def
      LensConfiguration_of_def rnd32_numeral)

theorem CalibrationData_round_trip_witness:
  "\<exists>v. CalibrationData_serialize tree_json sample_data = Inr v
    \<and> CalibrationData_deserialize tree_json v CalibrationData_ctor = Inr sample_data"
  by (rule CalibrationData_round_trip [OF tree.json_lib_axioms storable_sample])

text \<open>
  \<open>deserialize\<close> does not clear the object first: reading the same data again into an object that
  has it doubles the lines of the grid and the lens entries.
\<close>
lemma CalibrationData_deserialize_appends:
  assumes "json_lib J" and "storable d"
  shows "\<exists>v d2. CalibrationData_serialize J d = Inr v \<and> CalibrationData_deserialize J v d = Inr d2
    \<and> m_lens d2 = m_lens d @ m_lens d
    \<and> horizonalLines (m_grid (m_array d2)) = horizonalLines (m_grid (m_array d)) @ horizonalLines (m_grid (m_array d))"
  using json_lib.data_round_trip [OF assms, of d] by auto

subsection \<open>The order of the lens parameters\<close>

definition configured :: "LensConfiguration \<times> LensParameters \<Rightarrow> bool" where
  "configured e \<longleftrightarrow> m_zoom (fst e) \<noteq> None \<and> m_focus (fst e) \<noteq> None"

definition lens_key :: "LensConfiguration \<times> LensParameters \<Rightarrow> int \<times> int" where
  "lens_key e = (the (m_zoom (fst e)), the (m_focus (fst e)))"

definition lens_le :: "LensConfiguration \<times> LensParameters \<Rightarrow> LensConfiguration \<times> LensParameters \<Rightarrow> bool" where
  "lens_le a b \<longleftrightarrow> fst (lens_key a) < fst (lens_key b)
     \<or> fst (lens_key a) = fst (lens_key b) \<and> snd (lens_key a) \<le> snd (lens_key b)"

lemma lens_less_eq:
  "configured a \<Longrightarrow> configured b \<Longrightarrow> lens_less (fst a) (fst b) = Inr (\<not> lens_le b a)"
  by (auto simp: configured_def lens_less_def getZoomStep_def getFocusStep_def lens_le_def lens_key_def)

lemma lens_le_total: "\<not> lens_le a b \<Longrightarrow> lens_le b a"
  by (auto simp: lens_le_def)

lemma lens_le_trans: "lens_le a b \<Longrightarrow> lens_le b c \<Longrightarrow> lens_le a c"
  by (auto simp: lens_le_def)

lemma insert_lens_ok:
  assumes "configured e" "\<forall>f \<in> set fs. configured f" "sorted_wrt lens_le fs"
  shows "\<exists>gs. insert_lens e fs = Inr gs \<and> mset gs = add_mset e (mset fs) \<and> sorted_wrt lens_le gs"
  using assms
proof (induction fs)
  case Nil
  then show ?case by simp
next
  case (Cons f fs)
  then obtain gs where gs: "insert_lens e fs = Inr gs" "mset gs = add_mset e (mset fs)" "sorted_wrt lens_le gs"
    by auto
  have set: "set gs = insert e (set fs)" using gs(2) by (metis set_mset_add_mset_insert set_mset_mset)
  show ?case
  proof (cases "lens_le e f")
    case True
    then show ?thesis using Cons.prems lens_less_eq [of f e] by (auto intro: lens_le_trans)
  next
    case False
    then show ?thesis
      using Cons.prems lens_less_eq [of f e] gs set lens_le_total by (auto simp: add_mset_commute)
  qed
qed

lemma sort_lens_ok:
  "\<forall>e \<in> set es. configured e \<Longrightarrow> \<exists>gs. sort_lens es = Inr gs \<and> mset gs = mset es \<and> sorted_wrt lens_le gs"
proof (induction es)
  case Nil
  then show ?case by simp
next
  case (Cons e es)
  then obtain gs where gs: "sort_lens es = Inr gs" "mset gs = mset es" "sorted_wrt lens_le gs" by auto
  have "\<forall>f \<in> set gs. configured f" using Cons.prems gs(2) by (metis list.set_intros(2) set_mset_mset)
  from insert_lens_ok [OF _ this gs(3), of e] show ?case using Cons.prems gs by auto
qed

text \<open>
  the constructor of \<open>CalibrationData\<close> keeps all lens entries and orders them by zoom step and
  then by focus step, provided that the steps were set.
\<close>
lemma CalibrationData_of_sorted:
  assumes "\<forall>e \<in> set lens. configured e"
  shows "\<exists>d. CalibrationData_of serial array lens = Inr d \<and> m_serial d = serial \<and> m_array d = array
    \<and> mset (m_lens d) = mset lens \<and> sorted_wrt lens_le (m_lens d)"
  using sort_lens_ok [OF assms] by (auto simp: CalibrationData_of_def)

end
