(* ===== verification/Calibrator.thy ===== *)
theory Calibrator
  imports Metadata Calibration_Data
begin

text \<open>
  \<open>lib/calibration/calibrator\<close>: collecting the lens grids of the calibration images, and computing the
  calibration from them.

  The JSON trees of the metadata are in a memory, as in \<open>Metadata\<close>; \<open>Lens\<close> objects are handles into
  it. \<open>clusterMap\<close> is the list of its entries in the order in which an iteration meets them. The
  functions of OpenCV and of the mathematical library are the parameter \<open>M\<close>: \<open>fit_line\<close> is
  \<open>cv::fitLine\<close> on the points of a line. \<open>calibrateRotation\<close> gets the order in which the parallel
  loop delivers the angles of the grids.

  \<open>addGrid\<close> is split at the lock: \<open>check_serial\<close> runs before it, \<open>commit_grid\<close> under it. The relation
  \<open>cal_step\<close> interleaves the calls of several threads.
\<close>

type_synonym vec2 = "fl \<times> fl"
type_synonym vec3 = "fl \<times> fl \<times> fl"
type_synonym vec4 = "fl \<times> fl \<times> fl \<times> fl"

record cv_math =
  fit_line :: "(fl \<times> fl) list \<Rightarrow> vec4 res"
  atan2_f :: "fl \<Rightarrow> fl \<Rightarrow> fl"
  sqrt_f :: "fl \<Rightarrow> fl"
  sqrt_d :: "fl \<Rightarrow> fl"
  cos_d :: "fl \<Rightarrow> fl"
  sin_d :: "fl \<Rightarrow> fl"
  acos_d :: "fl \<Rightarrow> fl"
  cross3 :: "vec3 \<Rightarrow> vec3 \<Rightarrow> vec3"
  dot2 :: "vec2 \<Rightarrow> vec2 \<Rightarrow> fl"
  norm2 :: "vec2 \<Rightarrow> fl"

definition IMAGE_SIZE :: int where "IMAGE_SIZE = 3280"

definition SENSOR_SIZE :: fl where "SENSOR_SIZE = rnd binary64 (46 / 10000)"

text \<open>The hash and the equality of the cluster map. \<open>hash_int\<close> is \<open>std::hash<int>\<close>.\<close>

definition ZoomFocusHash ::
  "'j json_ops \<Rightarrow> (int \<Rightarrow> 64 word) \<Rightarrow> Devices_Lens \<Rightarrow> 'j memory \<Rightarrow> (64 word \<times> 'j memory) res" where
  "ZoomFocusHash J hash_int lens mem =
     rbind (Devices_Lens_getZoomstep J lens mem) (\<lambda>(z, mem1).
     rbind (Devices_Lens_getFocusstep J lens mem1) (\<lambda>(f, mem2).
     Inr (push_bit 1 (hash_int z) + hash_int z + hash_int f, mem2)))"

definition ZoomFocusComparator ::
  "'j json_ops \<Rightarrow> Devices_Lens \<Rightarrow> Devices_Lens \<Rightarrow> 'j memory \<Rightarrow> (bool \<times> 'j memory) res" where
  "ZoomFocusComparator J a b mem =
     rbind (Devices_Lens_getZoomstep J a mem) (\<lambda>(az, mem1).
     rbind (Devices_Lens_getZoomstep J b mem1) (\<lambda>(bz, mem2).
     if az \<noteq> bz then Inr (False, mem2)
     else rbind (Devices_Lens_getFocusstep J a mem2) (\<lambda>(af, mem3).
          rbind (Devices_Lens_getFocusstep J b mem3) (\<lambda>(bf, mem4).
          Inr (af = bf, mem4)))))"

type_synonym Cluster = "nat list"
type_synonym ClusterMap = "(Devices_Lens \<times> Cluster) list"

text \<open>\<open>clusterMap[lens].push_back(i)\<close>\<close>

fun cluster_push ::
  "'j json_ops \<Rightarrow> Devices_Lens \<Rightarrow> nat \<Rightarrow> ClusterMap \<Rightarrow> 'j memory \<Rightarrow> (ClusterMap \<times> 'j memory) res" where
  "cluster_push J lens i [] mem = Inr ([(lens, [i])], mem)"
| "cluster_push J lens i ((k, c) # m) mem =
     rbind (ZoomFocusComparator J k lens mem) (\<lambda>(eq, mem1).
       if eq then Inr ((k, c @ [i]) # m, mem1)
       else rbind (cluster_push J lens i m mem1) (\<lambda>(m', mem2). Inr ((k, c) # m', mem2)))"

definition cluster_add ::
  "'j json_ops \<Rightarrow> (int \<Rightarrow> 64 word) \<Rightarrow> Devices_Lens \<Rightarrow> nat \<Rightarrow> ClusterMap \<Rightarrow> 'j memory \<Rightarrow> (ClusterMap \<times> 'j memory) res" where
  "cluster_add J hash_int lens i m mem =
     rbind (ZoomFocusHash J hash_int lens mem) (\<lambda>(_, mem1). cluster_push J lens i m mem1)"

text \<open>The class. \<open>cal_serial\<close> is \<open>m_serial\<close> of the implementation.\<close>

record Calibrator_Impl =
  cal_serial :: string
  pointGridList :: "PointGrid list"
  clusterMap :: ClusterMap

definition Calibrator_ctor :: Calibrator_Impl where
  "Calibrator_ctor = \<lparr>cal_serial = [], pointGridList = [], clusterMap = []\<rparr>"

definition differs_message :: "string \<Rightarrow> string \<Rightarrow> string" where
  "differs_message expected got =
     ''Camera serial number differs, expected: '' @ expected @ '', got: '' @ got @ [CHR 0x0A]"

definition read_serial :: "'j json_ops \<Rightarrow> Metadata \<Rightarrow> 'j memory \<Rightarrow> (string \<times> 'j memory) res" where
  "read_serial J metadata =
     Privatemetadata_Camera_getSerialnumber J (Privatemetadata_getCamera (Metadata_getPrivatemetadata metadata))"

definition check_serial :: "string \<Rightarrow> Calibrator_Impl \<Rightarrow> unit res" where
  "check_serial serial cal =
     (if cal_serial cal \<noteq> [] \<and> cal_serial cal \<noteq> serial
      then Inl (Thrown (differs_message (cal_serial cal) serial)) else Inr ())"

definition commit_grid ::
  "'j json_ops \<Rightarrow> (int \<Rightarrow> 64 word) \<Rightarrow> PointGrid \<Rightarrow> Metadata \<Rightarrow> string \<Rightarrow> Calibrator_Impl \<times> 'j memory
     \<Rightarrow> (Calibrator_Impl \<times> 'j memory) res" where
  "commit_grid J hash_int pointGrid metadata serial = (\<lambda>(cal, mem).
     rbind (PointGrid_copy 0 pointGrid) (\<lambda>copy.
       let cal1 = cal\<lparr>cal_serial := (if cal_serial cal = [] then serial else cal_serial cal),
                     pointGridList := pointGridList cal @ [copy]\<rparr>
       in rbind (cluster_add J hash_int (Devices_getLens (Metadata_getDevices metadata))
                   (length (pointGridList cal1) - 1) (clusterMap cal1) mem) (\<lambda>(m, mem1).
          Inr (cal1\<lparr>clusterMap := m\<rparr>, mem1))))"

definition addGrid ::
  "'j json_ops \<Rightarrow> (int \<Rightarrow> 64 word) \<Rightarrow> PointGrid \<Rightarrow> Metadata \<Rightarrow> Calibrator_Impl \<times> 'j memory
     \<Rightarrow> (Calibrator_Impl \<times> 'j memory) res" where
  "addGrid J hash_int pointGrid metadata = (\<lambda>(cal, mem).
     rbind (read_serial J metadata mem) (\<lambda>(serial, mem1).
     rbind (check_serial serial cal) (\<lambda>_.
     commit_grid J hash_int pointGrid metadata serial (cal, mem1))))"

subsection \<open>The computation\<close>

text \<open>\<open>IMAGE_SIZE / 2.0\<close> and the entries of the 3x3 matrix.\<close>

definition estimateCameraMatrix :: "'j json_ops \<Rightarrow> Devices_Lens \<Rightarrow> 'j memory \<Rightarrow> (dmat \<times> 'j memory) res" where
  "estimateCameraMatrix J lens mem =
     rbind (Devices_Lens_getFocallength J lens mem) (\<lambda>(focal, mem1).
       let focalLengthPx = fmul binary64 (fdiv binary64 focal SENSOR_SIZE) (fl_of_int binary64 IMAGE_SIZE);
           center = fdiv binary64 (fl_of_int binary64 IMAGE_SIZE) (Fin 2);
           z = Fin 0
       in Inr (\<lparr>d_cols = 3, d_rows = [[focalLengthPx, z, center], [z, focalLengthPx, center], [z, z, Fin 1]]\<rparr>, mem1))"

definition findLineParams :: "cv_math \<Rightarrow> PointStore \<Rightarrow> Line \<Rightarrow> vec4 res" where
  "findLineParams M s l =
     rbind (rfold (\<lambda>p acc. rbind (getPosition s p) (\<lambda>pos. Inr (acc @ [pos]))) (line l) [])
       (fit_line M)"

text \<open>The angle is a \<open>double\<close>, the line has \<open>float\<close> components.\<close>

definition rotateGeneralLine :: "cv_math \<Rightarrow> vec3 \<Rightarrow> fl \<Rightarrow> vec3" where
  "rotateGeneralLine M = (\<lambda>(a, b, c) angle.
     let theta = atan2_f M b a;
         p = fdiv binary32 (neg c) (sqrt_f M (fadd binary32 (fmul binary32 a a) (fmul binary32 b b)));
         turned = fadd binary64 theta angle
     in (to_fmt binary32 (cos_d M turned), to_fmt binary32 (sin_d M turned), to_fmt binary32 (neg p)))"

definition parametricToGeneral :: "vec4 \<Rightarrow> vec3" where
  "parametricToGeneral = (\<lambda>(vx, vy, x0, y0).
     let d = fsub binary32 (fmul binary32 y0 vx) (fmul binary32 x0 vy) in (vy, neg vx, d))"

definition line_angle :: "cv_math \<Rightarrow> PointStore \<Rightarrow> Line \<Rightarrow> fl res" where
  "line_angle M s l =
     rbind (findLineParams M s l) (\<lambda>(vx, vy, _, _). Inr (acos_d M (dot2 M (Fin 1, Fin 0) (vx, vy))))"

definition grid_angle :: "cv_math \<Rightarrow> PointGrid \<Rightarrow> fl res" where
  "grid_angle M grid =
     rbind (rfold (\<lambda>l acc. rbind (line_angle M (storage grid) l) (\<lambda>a. Inr (acc @ [a]))) (linesVertical grid) [])
       (\<lambda>localAngles. Inr (filteredAverage (sqrt_d M) binary64 localAngles (Fin 2)))"

definition calibrateRotation :: "cv_math \<Rightarrow> nat list \<Rightarrow> PointGrid list \<Rightarrow> fl res" where
  "calibrateRotation M order gridList =
     rbind (rfold (\<lambda>i acc. rbind (ld gridList (int i)) (\<lambda>g. rbind (grid_angle M g) (\<lambda>a. Inr (acc @ [a])))) order [])
       (\<lambda>angles. Inr (filteredAverage (sqrt_d M) binary64 angles (Fin 2)))"

definition front :: "Line \<Rightarrow> ptr res" where
  "front l = (case line l of [] \<Rightarrow> Inl OutOfBounds | p # _ \<Rightarrow> Inr p)"

definition target_line :: "cv_math \<Rightarrow> PointStore \<Rightarrow> vec2 \<Rightarrow> LineGrid \<Rightarrow> GridMapper \<Rightarrow> Line \<Rightarrow> LLine res" where
  "target_line M s direction target mapper l =
     (if flt (rnd binary64 (1 / 2)) (dot2 M direction (Fin 1, Fin 0)) then
        rbind (front l) (\<lambda>p. rbind (deref s p) (\<lambda>q. rbind (mapHorizontal mapper (horizontalLine q)) (\<lambda>i.
          ld (horizonalLines target) (int i))))
      else
        rbind (front l) (\<lambda>p. rbind (deref s p) (\<lambda>q. rbind (mapVertical mapper (verticalLine q)) (\<lambda>i.
          ld (verticalLines target) (int i)))))"

text \<open>The signed distance of one line to its target: the distance of the points in which both meet a
  line through the middle of the image, in homogeneous coordinates. \<open>-IMAGE_SIZE/2\<close> is an integer
  division.\<close>

definition line_distance :: "cv_math \<Rightarrow> vec2 \<Rightarrow> vec3 \<Rightarrow> fl \<Rightarrow> fl" where
  "line_distance M direction lineParams pos =
     (let targetParams = (fst direction, snd direction, neg pos);
          intersect = (snd direction, neg (fst direction), Fin (of_int (- (IMAGE_SIZE div 2))));
          (a1, b1, c1) = cross3 M lineParams intersect;
          (a2, b2, c2) = cross3 M targetParams intersect;
          dif = (fsub binary32 (fdiv binary32 a1 c1) (fdiv binary32 a2 c2),
                 fsub binary32 (fdiv binary32 b1 c1) (fdiv binary32 b2 c2));
          sign = fl_of_int binary32 (sgn_fl (dot2 M dif (Fin 1, Fin 1)))
      in fmul binary64 sign (norm2 M dif))"

definition translation_step ::
  "cv_math \<Rightarrow> PointStore \<Rightarrow> vec2 \<Rightarrow> fl \<Rightarrow> LineGrid \<Rightarrow> GridMapper \<Rightarrow> Line \<Rightarrow> fl list \<Rightarrow> fl list res" where
  "translation_step M s direction angle target mapper l distances =
     rbind (findLineParams M s l) (\<lambda>parametric.
     let lineParams = rotateGeneralLine M (parametricToGeneral parametric) angle in
     rbind (target_line M s direction target mapper l) (\<lambda>targetLine.
     Inr (distances @ [line_distance M direction lineParams (l_position targetLine)])))"

definition findTranslation ::
  "cv_math \<Rightarrow> PointStore \<Rightarrow> LineList \<Rightarrow> vec2 \<Rightarrow> fl \<Rightarrow> LineGrid \<Rightarrow> GridMapper \<Rightarrow> fl res" where
  "findTranslation M s lines direction angle target mapper =
     rbind (rfold (translation_step M s direction angle target mapper) lines [])
       (\<lambda>distances. Inr (filteredAverage (sqrt_d M) binary64 distances (Fin 2)))"

definition grid_translation ::
  "cv_math \<Rightarrow> fl \<Rightarrow> LineGrid \<Rightarrow> GridMapper list \<Rightarrow> nat \<times> PointGrid \<Rightarrow> fl list \<times> fl list \<Rightarrow> (fl list \<times> fl list) res" where
  "grid_translation M angle target mappers = (\<lambda>(i, g) (vs, hs).
     rbind (ld mappers (int i)) (\<lambda>mapper.
     rbind (findTranslation M (storage g) (linesHorizontal g) (Fin 1, Fin 0) (neg angle) target mapper) (\<lambda>v.
     rbind (findTranslation M (storage g) (linesVertical g) (Fin 0, Fin 1) (neg angle) target mapper) (\<lambda>h.
     Inr (vs @ [v], hs @ [h])))))"

definition calibrateTranslation ::
  "cv_math \<Rightarrow> PointGrid list \<Rightarrow> fl \<Rightarrow> LineGrid \<Rightarrow> GridMapper list \<Rightarrow> vec2 res" where
  "calibrateTranslation M gridList angle target mappers =
     rbind (rfold (grid_translation M angle target mappers) (enumerate 0 gridList) ([], []))
       (\<lambda>(verticalDistances, horizontalDistances).
         Inr (to_fmt binary32 (filteredAverage (sqrt_d M) binary64 verticalDistances (Fin 2)),
              to_fmt binary32 (filteredAverage (sqrt_d M) binary64 horizontalDistances (Fin 2))))"

definition lens_calibration ::
  "'j json_ops \<Rightarrow> Devices_Lens \<times> Cluster \<Rightarrow> LensCalibration \<times> 'j memory \<Rightarrow> (LensCalibration \<times> 'j memory) res" where
  "lens_calibration J = (\<lambda>(lens, cluster) (lensCalib, mem).
     rbind (estimateCameraMatrix J lens mem) (\<lambda>(cameraMatrix, mem1).
     rbind (Devices_Lens_getZoomstep J lens mem1) (\<lambda>(z, mem2).
     rbind (Devices_Lens_getFocusstep J lens mem2) (\<lambda>(f, mem3).
     Inr (lensCalib @ [(LensConfiguration_of z f,
            \<lparr>m_cameraMatrix = cameraMatrix, m_distCoeffs = \<lparr>d_cols = 1, d_rows = replicate 8 [Fin 0]\<rparr>\<rparr>)], mem3)))))"

definition calibrate ::
  "'j json_ops \<Rightarrow> cv_math \<Rightarrow> nat list \<Rightarrow> Calibrator_Impl \<times> 'j memory \<Rightarrow> (CalibrationData \<times> 'j memory) res" where
  "calibrate J M order = (\<lambda>(cal, mem).
     rbind (rfold (\<lambda>g acc. rbind (PointGrid_copy 0 g) (\<lambda>entry. rbind (LineGrid_ctor entry) (\<lambda>l. Inr (acc @ [l]))))
              (pointGridList cal) []) (\<lambda>linegrids.
     rbind (averageGrids linegrids) (\<lambda>(target, mappers).
     rbind (calibrateRotation M order (pointGridList cal)) (\<lambda>rotation.
     rbind (calibrateTranslation M (pointGridList cal) (neg rotation) target mappers) (\<lambda>translation.
     let arrayCalib = \<lparr>m_grid = target, m_translation = translation, m_rotation = rotation\<rparr> in
     rbind (rfold (lens_calibration J) (clusterMap cal) ([], mem)) (\<lambda>(lensCalib, mem1).
     rbind (CalibrationData_of (cal_serial cal) arrayCalib lensCalib) (\<lambda>data.
     Inr (data, mem1))))))))"

subsection \<open>Calls from several threads\<close>

datatype phase = Waiting | Passed string | Added | Rejected string

record 'j cal_state =
  calibrator :: Calibrator_Impl
  trees :: "'j memory"
  phases :: "phase list"

inductive cal_step ::
  "'j json_ops \<Rightarrow> (int \<Rightarrow> 64 word) \<Rightarrow> (PointGrid \<times> Metadata) list \<Rightarrow> 'j cal_state \<Rightarrow> 'j cal_state \<Rightarrow> bool"
  for J hash_int jobs where
  check: "i < length jobs \<Longrightarrow> phases cs ! i = Waiting \<Longrightarrow> read_serial J (snd (jobs ! i)) (trees cs) = Inr (s, mem)
    \<Longrightarrow> check_serial s (calibrator cs) = Inr ()
    \<Longrightarrow> cal_step J hash_int jobs cs (cs\<lparr>trees := mem, phases := (phases cs)[i := Passed s]\<rparr>)"
| reject: "i < length jobs \<Longrightarrow> phases cs ! i = Waiting \<Longrightarrow> read_serial J (snd (jobs ! i)) (trees cs) = Inr (s, mem)
    \<Longrightarrow> check_serial s (calibrator cs) = Inl (Thrown e)
    \<Longrightarrow> cal_step J hash_int jobs cs (cs\<lparr>trees := mem, phases := (phases cs)[i := Rejected e]\<rparr>)"
| commit: "i < length jobs \<Longrightarrow> phases cs ! i = Passed s
    \<Longrightarrow> commit_grid J hash_int (fst (jobs ! i)) (snd (jobs ! i)) s (calibrator cs, trees cs) = Inr (cal, mem)
    \<Longrightarrow> cal_step J hash_int jobs cs (cs\<lparr>calibrator := cal, trees := mem, phases := (phases cs)[i := Added]\<rparr>)"

definition cal_init :: "'j memory \<Rightarrow> (PointGrid \<times> Metadata) list \<Rightarrow> 'j cal_state" where
  "cal_init mem jobs = \<lparr>calibrator = Calibrator_ctor, trees = mem, phases = replicate (length jobs) Waiting\<rparr>"

subsection \<open>What the accessors keep\<close>

definition lens_value :: "'j json_ops \<Rightarrow> 'j memory \<Rightarrow> Devices_Lens \<Rightarrow> (int \<times> int) option" where
  "lens_value J mem lens =
     (case Devices_Lens_getZoomstep J lens mem of
        Inl _ \<Rightarrow> None
      | Inr (z, _) \<Rightarrow> (case Devices_Lens_getFocusstep J lens mem of Inl _ \<Rightarrow> None | Inr (f, _) \<Rightarrow> Some (z, f)))"

text \<open>Every lens keeps its zoom and focus step.\<close>

definition stable :: "'j json_ops \<Rightarrow> 'j memory \<Rightarrow> 'j memory \<Rightarrow> bool" where
  "stable J mem mem' \<longleftrightarrow> (\<forall>lens v. lens_value J mem lens = Some v \<longrightarrow> lens_value J mem' lens = Some v)"

lemma stable_refl [simp, intro]: "stable J mem mem"
  by (simp add: stable_def)

lemma stable_trans [trans]: "stable J a b \<Longrightarrow> stable J b c \<Longrightarrow> stable J a c"
  by (simp add: stable_def)

lemma stableD: "stable J a b \<Longrightarrow> lens_value J a lens = Some v \<Longrightarrow> lens_value J b lens = Some v"
  unfolding stable_def by blast

lemma access_frame:
  assumes "json_lib J" and "access J conv p a mem = Inr (x, mem')" and "access J conv' q b mem = Inr (y, mem1)"
    and "compatible p q"
  shows "\<exists>mem2. access J conv' q b mem' = Inr (y, mem2)"
proof -
  obtain i v u v' where p: "a = Some i" "mem i = Some v" "resolve J p v = Inr (u, v')" "mem' = mem(i \<mapsto> v')"
    using assms(2) by (auto simp: access_def deref_root_def res_simps split: option.splits)
  obtain j w r w' where q: "b = Some j" "mem j = Some w" "resolve J q w = Inr (r, w')" "conv' r = Inr y"
    using assms(3) by (auto simp: access_def deref_root_def res_simps split: option.splits)
  show ?thesis
  proof (cases "i = j")
    case True
    then obtain w2 where "resolve J q v' = Inr (r, w2)"
      using json_lib.resolve_frame [OF assms(1) p(3) _ assms(4)] p(2) q(2,3) by fastforce
    then show ?thesis using p q True by (simp add: access_def deref_root_def)
  next
    case False
    then show ?thesis using p q by (simp add: access_def deref_root_def)
  qed
qed

definition lens_paths :: "seg list list" where
  "lens_paths = [meta [K ''devices'', K ''lens'', K ''zoomStep''], meta [K ''devices'', K ''lens'', K ''focusStep'']]"

lemma access_stable:
  assumes "json_lib J" and "access J conv p a mem = Inr (x, mem')" and "list_all (compatible p) lens_paths"
  shows "stable J mem mem'"
  using assms(3) access_frame [OF assms(1,2), of "as_int J"]
  unfolding stable_def lens_value_def Devices_Lens_getZoomstep_def Devices_Lens_getFocusstep_def
  by (fastforce simp: lens_paths_def split: sum.splits prod.splits)

lemma paths_ok:
  "list_all (compatible (priv [K ''camera'', K ''serialNumber''])) lens_paths"
  "list_all (compatible (meta [K ''devices'', K ''lens'', K ''zoomStep''])) lens_paths"
  "list_all (compatible (meta [K ''devices'', K ''lens'', K ''focusStep''])) lens_paths"
  "list_all (compatible (meta [K ''devices'', K ''lens'', K ''focalLength''])) lens_paths"
  by (simp_all add: lens_paths_def meta_def priv_def frame_path_def)

lemma getters_stable:
  assumes "json_lib J"
  shows "read_serial J md mem = Inr (s, mem') \<Longrightarrow> stable J mem mem'"
    and "Devices_Lens_getZoomstep J lens mem = Inr (z, mem') \<Longrightarrow> stable J mem mem'"
    and "Devices_Lens_getFocusstep J lens mem = Inr (z, mem') \<Longrightarrow> stable J mem mem'"
    and "Devices_Lens_getFocallength J lens mem = Inr (f, mem') \<Longrightarrow> stable J mem mem'"
  using access_stable [OF assms] paths_ok
  by (auto simp: read_serial_def Privatemetadata_Camera_getSerialnumber_def Devices_Lens_getZoomstep_def
      Devices_Lens_getFocusstep_def Devices_Lens_getFocallength_def)

text \<open>Reading the steps of a lens that has them.\<close>

lemma read_steps:
  assumes J: "json_lib J" and v: "lens_value J mem lens = Some (z, f)"
  shows "\<exists>mem'. Devices_Lens_getZoomstep J lens mem = Inr (z, mem') \<and> stable J mem mem'"
    and "\<exists>mem'. Devices_Lens_getFocusstep J lens mem = Inr (f, mem') \<and> stable J mem mem'"
  using v getters_stable(2,3) [OF J] unfolding lens_value_def
  by (fastforce split: sum.splits prod.splits)+

lemma comparator_ok:
  assumes J: "json_lib J" and a: "lens_value J mem a = Some va" and b: "lens_value J mem b = Some vb"
  shows "\<exists>mem'. ZoomFocusComparator J a b mem = Inr (va = vb, mem') \<and> stable J mem mem'"
proof -
  obtain az af bz bf where v: "va = (az, af)" "vb = (bz, bf)" by (cases va, cases vb)
  obtain m1 where m1: "Devices_Lens_getZoomstep J a mem = Inr (az, m1)" "stable J mem m1"
    using read_steps(1) [OF J] a v by blast
  obtain m2 where m2: "Devices_Lens_getZoomstep J b m1 = Inr (bz, m2)" "stable J m1 m2"
    using read_steps(1) [OF J] stableD [OF m1(2) b] v by blast
  have s2: "stable J mem m2" using m1(2) m2(2) by (rule stable_trans)
  obtain m3 where m3: "Devices_Lens_getFocusstep J a m2 = Inr (af, m3)" "stable J m2 m3"
    using read_steps(2) [OF J] stableD [OF s2 a] v by blast
  have s3: "stable J mem m3" using s2 m3(2) by (rule stable_trans)
  obtain m4 where m4: "Devices_Lens_getFocusstep J b m3 = Inr (bf, m4)" "stable J m3 m4"
    using read_steps(2) [OF J] stableD [OF s3 b] v by blast
  have "stable J mem m4" using s3 m4(2) by (rule stable_trans)
  then show ?thesis
    using m1(1) m2(1) m3(1) m4(1) s2 v by (auto simp: ZoomFocusComparator_def)
qed

text \<open>As an unordered map needs it: equal keys have equal hashes.\<close>

lemma hash_ok:
  assumes J: "json_lib J" and v: "lens_value J mem lens = Some (z, f)"
  shows "\<exists>mem'. ZoomFocusHash J h lens mem = Inr (push_bit 1 (h z) + h z + h f, mem') \<and> stable J mem mem'"
proof -
  obtain m1 where m1: "Devices_Lens_getZoomstep J lens mem = Inr (z, m1)" "stable J mem m1"
    using read_steps(1) [OF J v] by blast
  obtain m2 where "Devices_Lens_getFocusstep J lens m1 = Inr (f, m2)" "stable J m1 m2"
    using read_steps(2) [OF J stableD [OF m1(2) v]] by blast
  then show ?thesis using m1 by (auto simp: ZoomFocusHash_def intro: stable_trans)
qed

subsection \<open>The cluster map\<close>

text \<open>The operation on the map when \<open>val\<close> gives the steps of the lenses.\<close>

fun push_spec :: "(Devices_Lens \<Rightarrow> int \<times> int) \<Rightarrow> Devices_Lens \<Rightarrow> nat \<Rightarrow> ClusterMap \<Rightarrow> ClusterMap" where
  "push_spec val lens i [] = [(lens, [i])]"
| "push_spec val lens i ((k, c) # m) =
     (if val k = val lens then (k, c @ [i]) # m else (k, c) # push_spec val lens i m)"

lemma cluster_push_refines:
  assumes "json_lib J" and "\<forall>k \<in> insert lens (fst ` set m). lens_value J mem k = Some (val k)"
  shows "\<exists>mem'. cluster_push J lens i m mem = Inr (push_spec val lens i m, mem') \<and> stable J mem mem'"
  using assms(2)
proof (induction m arbitrary: mem)
  case Nil
  then show ?case by simp
next
  case (Cons e m)
  obtain k c where e: "e = (k, c)" by (cases e)
  obtain mem1 where c: "ZoomFocusComparator J k lens mem = Inr (val k = val lens, mem1)" "stable J mem mem1"
    using comparator_ok [OF assms(1), of mem k "val k" lens "val lens"] Cons.prems e by auto
  have "\<forall>k \<in> insert lens (fst ` set m). lens_value J mem1 k = Some (val k)"
    using Cons.prems stableD [OF c(2)] by auto
  from Cons.IH [OF this] obtain mem2 where
    "cluster_push J lens i m mem1 = Inr (push_spec val lens i m, mem2)" "stable J mem1 mem2" by blast
  then show ?case using c by (auto simp: e intro: stable_trans)
qed

lemma cluster_add_refines:
  assumes "json_lib J" and "\<forall>k \<in> insert lens (fst ` set m). lens_value J mem k = Some (val k)"
  shows "\<exists>mem'. cluster_add J h lens i m mem = Inr (push_spec val lens i m, mem') \<and> stable J mem mem'"
proof -
  have "lens_value J mem lens = Some (fst (val lens), snd (val lens))" using assms(2) by simp
  from hash_ok [OF assms(1) this, of h] obtain mem1 x where
    h: "ZoomFocusHash J h lens mem = Inr (x, mem1)" "stable J mem mem1" by blast
  have "\<forall>k \<in> insert lens (fst ` set m). lens_value J mem1 k = Some (val k)"
    using assms(2) stableD [OF h(2)] by auto
  from cluster_push_refines [OF assms(1) this, of i] show ?thesis
    using h by (auto simp: cluster_add_def intro: stable_trans)
qed

lemma push_spec_keys:
  "map fst (push_spec val lens i m) = (if val lens \<in> val ` fst ` set m then map fst m else map fst m @ [lens])"
  by (induction val lens i m rule: push_spec.induct) auto

lemma push_spec_mset: "mset (concat (map snd (push_spec val lens i m))) = add_mset i (mset (concat (map snd m)))"
  by (induction val lens i m rule: push_spec.induct) auto

lemma push_spec_member:
  "\<exists>k c. (k, c @ [i]) \<in> set (push_spec val lens i m) \<and> val k = val lens"
  by (induction val lens i m rule: push_spec.induct) auto

text \<open>The state of the calibrator: one cluster per combination of zoom and focus step, and the clusters
  together have every grid once.\<close>

definition steps_of :: "'j json_ops \<Rightarrow> 'j memory \<Rightarrow> Devices_Lens \<Rightarrow> int \<times> int" where
  "steps_of J mem lens = the (lens_value J mem lens)"

definition cal_ok :: "'j json_ops \<Rightarrow> Calibrator_Impl \<Rightarrow> 'j memory \<Rightarrow> bool" where
  "cal_ok J cal mem \<longleftrightarrow> (\<forall>k \<in> fst ` set (clusterMap cal). lens_value J mem k \<noteq> None)
     \<and> distinct (map (steps_of J mem) (map fst (clusterMap cal)))
     \<and> mset (concat (map snd (clusterMap cal))) = mset [0..<length (pointGridList cal)]"

lemma steps_stable: "stable J a b \<Longrightarrow> lens_value J a k \<noteq> None \<Longrightarrow> steps_of J b k = steps_of J a k"
  using stableD [of J a b k] by (auto simp: steps_of_def)

lemma cal_ok_stable:
  assumes "cal_ok J cal mem" and "stable J mem mem'"
  shows "cal_ok J cal mem'"
proof -
  have "map (steps_of J mem') (map fst (clusterMap cal)) = map (steps_of J mem) (map fst (clusterMap cal))"
    using assms steps_stable [OF assms(2)] unfolding cal_ok_def by (intro map_cong refl) auto
  moreover have "lens_value J mem' k \<noteq> None" if "lens_value J mem k \<noteq> None" for k
    using that stableD [OF assms(2)] by fastforce
  ultimately show ?thesis using assms(1) unfolding cal_ok_def by metis
qed

lemma cal_ok_ctor: "cal_ok J Calibrator_ctor mem"
  by (simp add: cal_ok_def Calibrator_ctor_def)

definition lens_of :: "Metadata \<Rightarrow> Devices_Lens" where
  "lens_of metadata = Devices_getLens (Metadata_getDevices metadata)"

lemma push_spec_ok:
  assumes ok: "cal_ok J cal mem" and lens: "lens_value J mem lens = Some v"
  shows "cal_ok J (cal\<lparr>cal_serial := s, pointGridList := pointGridList cal @ [g],
      clusterMap := push_spec (steps_of J mem) lens (length (pointGridList cal)) (clusterMap cal)\<rparr>) mem"
    and "\<exists>k c. (k, c @ [n]) \<in> set (push_spec (steps_of J mem) lens n (clusterMap cal)) \<and> lens_value J mem k = Some v"
proof -
  let ?val = "steps_of J mem" and ?m = "clusterMap cal"
  let ?m' = "\<lambda>n. push_spec ?val lens n ?m"
  have some: "\<forall>k \<in> insert lens (fst ` set ?m). lens_value J mem k = Some (?val k)"
    using ok lens unfolding cal_ok_def steps_of_def by fastforce
  have keys: "map fst (?m' n) = (if ?val lens \<in> ?val ` fst ` set ?m then map fst ?m else map fst ?m @ [lens])" for n
    by (rule push_spec_keys)
  have sub: "fst ` set (?m' n) \<subseteq> insert lens (fst ` set ?m)" for n
    using arg_cong [OF keys [of n], of set] by (auto split: if_splits)
  have "distinct (map ?val (map fst (?m' n)))" for n unfolding keys using ok by (auto simp: cal_ok_def)
  moreover have "mset (concat (map snd (?m' (length (pointGridList cal))))) = mset [0..<Suc (length (pointGridList cal))]"
    using ok by (simp add: push_spec_mset cal_ok_def)
  moreover have "\<forall>k \<in> fst ` set (?m' n). lens_value J mem k \<noteq> None" for n
    using some sub [of n] by (metis (no_types, lifting) option.distinct(1) subsetD)
  ultimately show "cal_ok J (cal\<lparr>cal_serial := s, pointGridList := pointGridList cal @ [g],
      clusterMap := ?m' (length (pointGridList cal))\<rparr>) mem"
    by (simp add: cal_ok_def)
  obtain k c where k: "(k, c @ [n]) \<in> set (?m' n)" "?val k = ?val lens" using push_spec_member by blast
  then have "k \<in> insert lens (fst ` set ?m)" using sub by force
  then have "lens_value J mem k = Some (?val k)" using some by blast
  then show "\<exists>k c. (k, c @ [n]) \<in> set (?m' n) \<and> lens_value J mem k = Some v"
    using k lens by (auto simp: steps_of_def)
qed

lemma lens_values_known: "cal_ok J cal mem \<Longrightarrow> lens_value J mem lens \<noteq> None \<Longrightarrow>
  \<forall>k \<in> insert lens (fst ` set (clusterMap cal)). lens_value J mem k = Some (steps_of J mem k)"
  unfolding cal_ok_def steps_of_def by fastforce

lemma commit_ok:
  assumes J: "json_lib J" and ok: "cal_ok J cal mem" and lens: "lens_value J mem (lens_of md) = Some v"
    and g: "PointGrid_copy 0 g = Inr g'"
  shows "\<exists>cal' mem'. commit_grid J h g md s (cal, mem) = Inr (cal', mem') \<and> cal_ok J cal' mem' \<and> stable J mem mem'
    \<and> cal_serial cal' = (if cal_serial cal = [] then s else cal_serial cal)
    \<and> pointGridList cal' = pointGridList cal @ [g']
    \<and> (\<exists>k c. (k, c @ [length (pointGridList cal)]) \<in> set (clusterMap cal') \<and> lens_value J mem' k = Some v)"
proof -
  let ?n = "length (pointGridList cal)"
  let ?m' = "push_spec (steps_of J mem) (lens_of md) ?n (clusterMap cal)"
  obtain mem' where mem': "cluster_add J h (lens_of md) ?n (clusterMap cal) mem = Inr (?m', mem')" "stable J mem mem'"
    using cluster_add_refines [OF J lens_values_known [OF ok]] lens by blast
  define cal' where "cal' = cal\<lparr>cal_serial := (if cal_serial cal = [] then s else cal_serial cal),
     pointGridList := pointGridList cal @ [g'], clusterMap := ?m'\<rparr>"
  have eq: "commit_grid J h g md s (cal, mem) = Inr (cal', mem')"
    using g mem'(1) by (simp add: commit_grid_def Let_def cal'_def lens_of_def)
  have "cal_ok J cal' mem" unfolding cal'_def by (rule push_spec_ok(1) [OF ok lens])
  then have "cal_ok J cal' mem'" using mem'(2) by (rule cal_ok_stable)
  moreover obtain k c where k: "(k, c @ [?n]) \<in> set ?m'" "lens_value J mem k = Some v" using push_spec_ok(2) [OF ok lens] by blast
  have "\<exists>k c. (k, c @ [?n]) \<in> set (clusterMap cal') \<and> lens_value J mem' k = Some v"
    using k(1) stableD [OF mem'(2) k(2)] unfolding cal'_def by (intro exI [of _ k] exI [of _ c]) simp
  ultimately show ?thesis using eq mem'(2) by (intro exI [of _ cal'] exI [of _ mem']) (simp add: cal'_def)
qed

text \<open>
  C23: \<open>Calibrator::addGrid\<close>. For a grid that can be copied and metadata whose serial number and lens
  steps can be read: when the calibrator has the serial number of another camera, the exception that
  names both is thrown. Otherwise the grid is added at the end, the calibrator has the serial
  number of the image, the cluster with the zoom and focus steps of the image gets the index of the
  grid, and there still is one cluster per combination of steps with every grid in exactly one.
\<close>
theorem addGrid_correct:
  assumes "json_lib J" and "cal_ok J cal mem" and "read_serial J md mem = Inr (s, mem0)"
    and "lens_value J mem (lens_of md) = Some v" and "PointGrid_copy 0 g = Inr g'"
  shows "if cal_serial cal \<noteq> [] \<and> cal_serial cal \<noteq> s
    then addGrid J h g md (cal, mem) = Inl (Thrown (differs_message (cal_serial cal) s))
    else \<exists>cal' mem'. addGrid J h g md (cal, mem) = Inr (cal', mem') \<and> cal_ok J cal' mem' \<and> cal_serial cal' = s
      \<and> pointGridList cal' = pointGridList cal @ [g']
      \<and> (\<exists>k c. (k, c @ [length (pointGridList cal)]) \<in> set (clusterMap cal') \<and> lens_value J mem' k = Some v)"
proof -
  have st: "stable J mem mem0" using getters_stable(1) [OF assms(1,3)] .
  note ok = commit_ok [OF assms(1) cal_ok_stable [OF assms(2) st] stableD [OF st assms(4)] assms(5), of h s]
  show ?thesis
  proof (cases "cal_serial cal \<noteq> [] \<and> cal_serial cal \<noteq> s")
    case True
    then show ?thesis using assms(3) by (simp add: addGrid_def check_serial_def)
  next
    case False
    then have "addGrid J h g md (cal, mem) = commit_grid J h g md s (cal, mem0)"
      using assms(3) by (auto simp: addGrid_def check_serial_def)
    moreover have "(if cal_serial cal = [] then s else cal_serial cal) = s" using False by auto
    ultimately show ?thesis using ok False by auto
  qed
qed

text \<open>The metadata tree of a picture with a serial number, a zoom and a focus step.\<close>

definition picture_tree :: "string \<Rightarrow> int \<Rightarrow> int \<Rightarrow> json" where
  "picture_tree s z f = JObj [(''master'', JObj [(''picture'', JObj [(''frameArray'', JArr [JObj [(''frame'', JObj [
     (''metadata'', JObj [(''devices'', JObj [(''lens'', JObj [(''zoomStep'', JInt z), (''focusStep'', JInt f)])])]),
     (''privateMetadata'', JObj [(''camera'', JObj [(''serialNumber'', JStr s)])])])]])])])]"

lemma picture_tree_reads:
  assumes "mem a = Some (picture_tree s z f)" and "0 \<le> z" "z < 2 ^ 31" "0 \<le> f" "f < 2 ^ 31"
  shows "\<exists>mem'. read_serial tree_json (Metadata (Some a)) mem = Inr (s, mem') \<and> mem' = mem"
    and "lens_value tree_json mem (lens_of (Metadata (Some a))) = Some (z, f)"
  using assms
  by (simp_all add: read_serial_def lens_value_def lens_of_def accessor_defs access_def deref_root_def
      picture_tree_def meta_def priv_def frame_path_def tree_json_def fun_upd_idem)

theorem addGrid_correct_witness:
  "addGrid tree_json (\<lambda>i. of_int i) PointGrid_ctor (Metadata (Some 1))
     (Calibrator_ctor\<lparr>cal_serial := ''A''\<rparr>, [1 \<mapsto> picture_tree ''B'' 7 8]) = Inl (Thrown (differs_message ''A'' ''B''))"
proof -
  let ?mem = "[1 \<mapsto> picture_tree ''B'' 7 8]"
  have "cal_ok tree_json (Calibrator_ctor\<lparr>cal_serial := ''A''\<rparr>) ?mem" by (simp add: cal_ok_def Calibrator_ctor_def)
  moreover have "PointGrid_copy 0 PointGrid_ctor = Inr PointGrid_ctor"
    by (simp add: PointGrid_copy_def PointGrid_ctor_def copy_lines_def)
  ultimately show ?thesis
    using addGrid_correct [OF tree.json_lib_axioms, of "Calibrator_ctor\<lparr>cal_serial := ''A''\<rparr>" ?mem "Metadata (Some 1)" "''B''" ?mem]
      picture_tree_reads [of ?mem 1 "''B''" 7 8] by fastforce
qed

subsection \<open>Interleavings\<close>

lemma count_update:
  "i < length xs \<Longrightarrow> P y \<Longrightarrow> \<not> P (xs ! i) \<Longrightarrow> length (filter P (xs[i := y])) = Suc (length (filter P xs))"
  "i < length xs \<Longrightarrow> \<not> P y \<Longrightarrow> \<not> P (xs ! i) \<Longrightarrow> length (filter P (xs[i := y])) = length (filter P xs)"
  by (induction xs arbitrary: i) (auto split: nat.splits)

definition lenses_ok :: "'j json_ops \<Rightarrow> (PointGrid \<times> Metadata) list \<Rightarrow> 'j memory \<Rightarrow> bool" where
  "lenses_ok J jobs mem \<longleftrightarrow> (\<forall>job \<in> set jobs. lens_value J mem (lens_of (snd job)) \<noteq> None)"

lemma lenses_ok_stable: "lenses_ok J jobs mem \<Longrightarrow> stable J mem mem' \<Longrightarrow> lenses_ok J jobs mem'"
  unfolding lenses_ok_def stable_def by fastforce

definition run_ok :: "'j json_ops \<Rightarrow> (PointGrid \<times> Metadata) list \<Rightarrow> 'j cal_state \<Rightarrow> bool" where
  "run_ok J jobs cs \<longleftrightarrow> cal_ok J (calibrator cs) (trees cs) \<and> lenses_ok J jobs (trees cs)
     \<and> length (phases cs) = length jobs
     \<and> length (pointGridList (calibrator cs)) = length (filter (\<lambda>p. p = Added) (phases cs))"

lemma run_ok_step:
  assumes J: "json_lib J" and "cal_step J h jobs cs cs'" and "run_ok J jobs cs"
  shows "run_ok J jobs cs'"
  using assms(2,3)
proof cases
  case (check i s mem)
  have "stable J (trees cs) mem" using getters_stable(1) [OF J check(4)] .
  then show ?thesis
    using assms(3) check by (auto simp: run_ok_def count_update intro: cal_ok_stable lenses_ok_stable)
next
  case (reject i s mem e)
  have "stable J (trees cs) mem" using getters_stable(1) [OF J reject(4)] .
  then show ?thesis
    using assms(3) reject by (auto simp: run_ok_def count_update intro: cal_ok_stable lenses_ok_stable)
next
  case (commit i s cal mem)
  obtain v where v: "lens_value J (trees cs) (lens_of (snd (jobs ! i))) = Some v"
    using assms(3) commit(2) unfolding run_ok_def lenses_ok_def by force
  obtain g' where "PointGrid_copy 0 (fst (jobs ! i)) = Inr g'"
    using commit(4) by (auto simp: commit_grid_def res_simps)
  from commit_ok [OF J _ v this, of "calibrator cs" h s] commit assms(3)
  have "cal_ok J cal mem" "stable J (trees cs) mem" "length (pointGridList cal) = Suc (length (pointGridList (calibrator cs)))"
    by (auto simp: run_ok_def)
  then show ?thesis
    using assms(3) commit by (auto simp: run_ok_def count_update intro: lenses_ok_stable)
qed


text \<open>Two images of different cameras, added by two threads: both look at the serial number before
  either has stored its own.\<close>

definition race_jobs :: "(PointGrid \<times> Metadata) list" where
  "race_jobs = [(PointGrid_ctor, Metadata (Some 0)), (PointGrid_ctor, Metadata (Some 1))]"

definition race_trees :: "json memory" where
  "race_trees = [0 \<mapsto> picture_tree ''A'' 7 8, 1 \<mapsto> picture_tree ''B'' 7 8]"

lemma race_reads:
  "read_serial tree_json (Metadata (Some 0)) race_trees = Inr (''A'', race_trees)"
  "read_serial tree_json (Metadata (Some 1)) race_trees = Inr (''B'', race_trees)"
  "lens_value tree_json race_trees (lens_of (Metadata (Some 0))) = Some (7, 8)"
  "lens_value tree_json race_trees (lens_of (Metadata (Some 1))) = Some (7, 8)"
  using picture_tree_reads [of race_trees 0 "''A''" 7 8] picture_tree_reads [of race_trees 1 "''B''" 7 8]
  by (simp_all add: race_trees_def)

lemma copy_empty: "PointGrid_copy 0 PointGrid_ctor = Inr PointGrid_ctor"
  by (simp add: PointGrid_copy_def PointGrid_ctor_def copy_lines_def)

lemma race_run:
  "\<exists>cs. (cal_step tree_json h race_jobs)\<^sup>*\<^sup>* (cal_init race_trees race_jobs) cs \<and> phases cs = [Added, Added]"
proof -
  let ?step = "cal_step tree_json h race_jobs"
  define c0 where "c0 = cal_init race_trees race_jobs"
  define c1 where "c1 = c0\<lparr>trees := race_trees, phases := [Passed ''A'', Waiting]\<rparr>"
  define c2 where "c2 = c1\<lparr>trees := race_trees, phases := [Passed ''A'', Passed ''B'']\<rparr>"
  have j: "length race_jobs = 2" "race_jobs ! 0 = (PointGrid_ctor, Metadata (Some 0))" "race_jobs ! 1 = (PointGrid_ctor, Metadata (Some 1))"
    by (simp_all add: race_jobs_def)
  have s1: "?step c0 c1"
    using cal_step.check [of 0 race_jobs c0 tree_json "''A''" race_trees h] race_reads j
    by (simp add: c0_def c1_def cal_init_def check_serial_def Calibrator_ctor_def numeral_2_eq_2)
  have s2: "?step c1 c2"
    using cal_step.check [of 1 race_jobs c1 tree_json "''B''" race_trees h] race_reads j
    by (simp add: c0_def c1_def c2_def cal_init_def check_serial_def Calibrator_ctor_def)
  obtain cal mem where c3: "commit_grid tree_json h PointGrid_ctor (Metadata (Some 0)) ''A'' (Calibrator_ctor, race_trees) = Inr (cal, mem)"
      "cal_ok tree_json cal mem" "stable tree_json race_trees mem"
    using commit_ok [OF tree.json_lib_axioms cal_ok_ctor race_reads(3) copy_empty] by blast
  have s3: "?step c2 (c2\<lparr>calibrator := cal, trees := mem, phases := [Added, Passed ''B'']\<rparr>)"
    using cal_step.commit [of 0 race_jobs c2 "''A''" tree_json h cal mem] c3(1) j
    by (simp add: c0_def c1_def c2_def cal_init_def)
  let ?c3 = "c2\<lparr>calibrator := cal, trees := mem, phases := [Added, Passed ''B'']\<rparr>"
  obtain cal' mem' where c4: "commit_grid tree_json h PointGrid_ctor (Metadata (Some 1)) ''B'' (cal, mem) = Inr (cal', mem')"
    using commit_ok [OF tree.json_lib_axioms c3(2) stableD [OF c3(3) race_reads(4)] copy_empty] by blast
  have s4: "?step ?c3 (?c3\<lparr>calibrator := cal', trees := mem', phases := [Added, Added]\<rparr>)"
    using cal_step.commit [of 1 race_jobs ?c3 "''B''" tree_json h cal' mem'] c4 j by simp
  have "?step\<^sup>*\<^sup>* c0 (?c3\<lparr>calibrator := cal', trees := mem', phases := [Added, Added]\<rparr>)"
    by (rule converse_rtranclp_into_rtranclp, rule s1, rule converse_rtranclp_into_rtranclp, rule s2,
        rule converse_rtranclp_into_rtranclp, rule s3, rule r_into_rtranclp, rule s4)
  then show ?thesis unfolding c0_def by (intro exI conjI) auto
qed


text \<open>
  C25: the serial number is checked before the lock is taken. There is an interleaving of two calls in
  which images of two different cameras are both added, and neither call throws.
\<close>
theorem addGrid_race:
  "\<exists>cs. (cal_step tree_json h race_jobs)\<^sup>*\<^sup>* (cal_init race_trees race_jobs) cs \<and> phases cs = [Added, Added]
    \<and> map (\<lambda>(g, md). map_sum id fst (read_serial tree_json md race_trees)) race_jobs = [Inr ''A'', Inr ''B'']"
  using race_run race_reads by (simp add: race_jobs_def)

subsection \<open>The result of a calibration\<close>

definition matrices_ok :: "LensParameters \<Rightarrow> bool" where
  "matrices_ok p \<longleftrightarrow> mat_ok (m_cameraMatrix p) \<and> length (d_rows (m_cameraMatrix p)) = 3 \<and> d_cols (m_cameraMatrix p) = 3
     \<and> mat_ok (m_distCoeffs p) \<and> length (d_rows (m_distCoeffs p)) = 8 \<and> d_cols (m_distCoeffs p) = 1"

lemma lens_calibration_ok:
  assumes J: "json_lib J" and v: "lens_value J mem lens = Some v"
    and eq: "lens_calibration J (lens, c) (acc, mem) = Inr (acc', mem')"
  shows "stable J mem mem'" and "\<exists>p. acc' = acc @ [(LensConfiguration_of (fst v) (snd v), p)] \<and> matrices_ok p"
proof -
  obtain x m1 z m2 f m3 where st: "Devices_Lens_getFocallength J lens mem = Inr (x, m1)"
      "Devices_Lens_getZoomstep J lens m1 = Inr (z, m2)" "Devices_Lens_getFocusstep J lens m2 = Inr (f, mem')"
    and acc': "\<exists>p. acc' = acc @ [(LensConfiguration_of z f, p)] \<and> matrices_ok p"
    using eq by (auto simp: lens_calibration_def estimateCameraMatrix_def res_simps Let_def matrices_ok_def mat_ok_def)
  have s: "stable J mem m1" "stable J m1 m2" "stable J m2 mem'"
    using st getters_stable [OF J] by blast+
  then show "stable J mem mem'" by (blast intro: stable_trans)
  have "lens_value J m1 lens = Some v" using s(1) v by (rule stableD)
  then have "z = fst v" using st(2) by (auto simp: lens_value_def split: sum.splits prod.splits)
  moreover have "lens_value J m2 lens = Some v" using s v by (blast intro: stableD)
  then have "f = snd v" using st(3) by (auto simp: lens_value_def split: sum.splits prod.splits)
  ultimately show "\<exists>p. acc' = acc @ [(LensConfiguration_of (fst v) (snd v), p)] \<and> matrices_ok p"
    using acc' by simp
qed

lemma lens_fold_ok:
  assumes J: "json_lib J" and "rfold (lens_calibration J) m (acc, mem) = Inr (acc', mem')"
    and "\<forall>k \<in> fst ` set m. lens_value J mem k \<noteq> None"
  shows "\<exists>es. acc' = acc @ es \<and> map lens_key es = map (steps_of J mem) (map fst m)
    \<and> (\<forall>e \<in> set es. configured e \<and> matrices_ok (snd e))"
  using assms(2,3)
proof (induction m arbitrary: acc mem)
  case Nil
  then show ?case by simp
next
  case (Cons e m)
  obtain k c where e: "e = (k, c)" by (cases e)
  obtain v where v: "lens_value J mem k = Some v" using Cons.prems(2) e by auto
  obtain acc1 mem1 where s: "lens_calibration J (k, c) (acc, mem) = Inr (acc1, mem1)"
      "rfold (lens_calibration J) m (acc1, mem1) = Inr (acc', mem')"
    using Cons.prems(1) e by (auto simp: res_simps)
  note l = lens_calibration_ok [OF J v s(1)]
  obtain p where p: "acc1 = acc @ [(LensConfiguration_of (fst v) (snd v), p)]" "matrices_ok p" using l(2) by blast
  have "\<forall>k \<in> fst ` set m. lens_value J mem1 k \<noteq> None"
    using Cons.prems(2) stableD [OF l(1)] by fastforce
  from Cons.IH [OF s(2) this] obtain es where es: "acc' = acc1 @ es"
      "map lens_key es = map (steps_of J mem1) (map fst m)" "\<forall>e \<in> set es. configured e \<and> matrices_ok (snd e)"
    by blast
  have "map (steps_of J mem1) (map fst m) = map (steps_of J mem) (map fst m)"
    using Cons.prems(2) steps_stable [OF l(1)] by (intro map_cong refl) auto
  then have keys: "map lens_key es = map (steps_of J mem) (map fst m)" using es(2) by simp
  let ?e = "(LensConfiguration_of (fst v) (snd v), p)"
  have "lens_key ?e = steps_of J mem k" "configured ?e"
    using v by (simp_all add: lens_key_def LensConfiguration_of_def steps_of_def configured_def)
  then have "acc' = acc @ ?e # es" "map lens_key (?e # es) = map (steps_of J mem) (map fst (e # m))"
      "\<forall>e \<in> set (?e # es). configured e \<and> matrices_ok (snd e)"
    using es(1,3) p keys e by auto
  then show ?case by blast
qed

text \<open>
  C26: \<open>Calibrator::calibrate\<close>. When it returns, the calibration data has the serial number of the
  calibrator and one lens entry per combination of zoom and focus steps of the images added, in
  strictly increasing order of zoom and focus, each with a 3x3 camera matrix and 8 distortion
  coefficients.
\<close>
theorem calibrate_lens:
  assumes "json_lib J" and "cal_ok J cal mem" and "calibrate J M order (cal, mem) = Inr (data, mem')"
  shows "m_serial data = cal_serial cal
    \<and> mset (map lens_key (m_lens data)) = mset (map (steps_of J mem) (map fst (clusterMap cal)))
    \<and> distinct (map lens_key (m_lens data)) \<and> sorted_wrt lens_le (m_lens data)
    \<and> (\<forall>e \<in> set (m_lens data). matrices_ok (snd e))"
proof -
  obtain array lens where l: "rfold (lens_calibration J) (clusterMap cal) ([], mem) = Inr (lens, mem')"
      "CalibrationData_of (cal_serial cal) array lens = Inr data"
    using assms(3) by (auto simp: calibrate_def res_simps Let_def)
  have keys: "\<forall>k \<in> fst ` set (clusterMap cal). lens_value J mem k \<noteq> None"
    and dist: "distinct (map (steps_of J mem) (map fst (clusterMap cal)))"
    using assms(2) by (auto simp: cal_ok_def)
  have es: "map lens_key lens = map (steps_of J mem) (map fst (clusterMap cal))"
      "\<forall>e \<in> set lens. configured e \<and> matrices_ok (snd e)"
    using lens_fold_ok [OF assms(1) l(1) keys] by auto
  obtain gs where gs: "sort_lens lens = Inr gs" "mset gs = mset lens" "sorted_wrt lens_le gs"
    using sort_lens_ok [of lens] es(2) by blast
  have data: "m_serial data = cal_serial cal" "m_lens data = gs"
    using l(2) gs(1) by (auto simp: CalibrationData_of_def)
  have ms: "mset (map lens_key gs) = mset (map (steps_of J mem) (map fst (clusterMap cal)))"
    unfolding es(1) [symmetric] mset_map gs(2) ..
  then have "distinct (map lens_key gs)" using dist mset_eq_imp_distinct_iff by blast
  moreover have "set gs = set lens" using gs(2) by (rule mset_eq_setD)
  ultimately show ?thesis using ms es(2) gs(3) data by simp
qed

definition sample_math :: cv_math where
  "sample_math = \<lparr>fit_line = (\<lambda>_. Inr (Fin 1, Fin 0, Fin 0, Fin 0)), atan2_f = (\<lambda>_ _. Fin 0), sqrt_f = id, sqrt_d = id,
     cos_d = id, sin_d = id, acos_d = id, cross3 = (\<lambda>a _. a), dot2 = (\<lambda>a _. fst a), norm2 = fst\<rparr>"

definition one_image :: Calibrator_Impl where
  "one_image = \<lparr>cal_serial = ''A'', pointGridList = [PointGrid_ctor], clusterMap = [(lens_of (Metadata (Some 0)), [0])]\<rparr>"

lemma one_image_lens: "\<exists>lens mem'. rfold (lens_calibration tree_json) (clusterMap one_image) ([], race_trees) = Inr (lens, mem')
    \<and> (\<forall>e \<in> set lens. configured e)"
  by (simp add: one_image_def lens_calibration_def estimateCameraMatrix_def lens_of_def accessor_defs access_def
      deref_root_def race_trees_def picture_tree_def meta_def frame_path_def tree_json_def Let_def
      configured_def LensConfiguration_of_def)

theorem calibrate_lens_witness:
  "\<exists>data mem'. calibrate tree_json sample_math [0] (one_image, race_trees) = Inr (data, mem')
     \<and> mset (map lens_key (m_lens data)) = {#(7, 8)#}"
proof -
  have ok: "cal_ok tree_json one_image race_trees"
    using race_reads by (simp add: cal_ok_def one_image_def)
  have steps: "steps_of tree_json race_trees (lens_of (Metadata (Some 0))) = (7, 8)"
    using race_reads by (simp add: steps_of_def)
  obtain lens mem' where l: "rfold (lens_calibration tree_json) (clusterMap one_image) ([], race_trees) = Inr (lens, mem')"
      "\<forall>e \<in> set lens. configured e"
    using one_image_lens by blast
  have grids: "pointGridList one_image = [PointGrid_ctor]" by (simp add: one_image_def)
  have "\<exists>data. calibrate tree_json sample_math [0] (one_image, race_trees) = Inr (data, mem')"
    using l sort_lens_ok [OF l(2)] copy_empty
    by (auto simp: calibrate_def grids LineGrid_ctor_def push_lines_def PointGrid_ctor_def averageGrids_def first_lines_def
        number_lines_def calibrateRotation_def grid_angle_def calibrateTranslation_def grid_translation_def
        findTranslation_def ld_def Let_def CalibrationData_of_def enumerate_eq_zip)
  then obtain data where d: "calibrate tree_json sample_math [0] (one_image, race_trees) = Inr (data, mem')" by blast
  from calibrate_lens [OF tree.json_lib_axioms ok d] show ?thesis using d steps by (auto simp: one_image_def)
qed

text \<open>
  Calibrating without images. \<open>averageGrids\<close> takes the first line grid of an empty vector, so
  \<open>calibrate\<close> of a calibrator to which no grid was added reads out of bounds.
\<close>
lemma calibrate_no_images:
  assumes "pointGridList cal = []"
  shows "calibrate J M order (cal, mem) = Inl OutOfBounds"
  using assms by (simp add: calibrate_def averageGrids_def)

end
