(* ===== verification/Effects.thy ===== *)
theory Effects
  imports Lyli_Prelude
begin

text \<open>
  Operations with side effects. A value of type \<open>('s, 'a) io\<close> takes a state and gives the result
  and the next state. A fault on the left of the result is an exception or undefined behaviour; the
  state at that moment is kept, as destructors and handlers run on it. \<open>None\<close> stands for an
  operation that does not return. \<open>do_while\<close> is the loop \<open>do x = body(x); while (cond(x))\<close>; it is a
  least fixed point, so it is \<open>None\<close> exactly when the loop runs forever.
\<close>

type_synonym ('s, 'a) io = "'s \<Rightarrow> ('a res \<times> 's) option"

definition ret :: "'a \<Rightarrow> ('s, 'a) io" where
  "ret a s = Some (Inr a, s)"

definition stop :: "fault \<Rightarrow> ('s, 'a) io" where
  "stop e s = Some (Inl e, s)"

definition lift :: "'a res \<Rightarrow> ('s, 'a) io" where
  "lift r s = Some (r, s)"

definition bind_io :: "('s, 'a) io \<Rightarrow> ('a \<Rightarrow> ('s, 'b) io) \<Rightarrow> ('s, 'b) io" where
  "bind_io m f s =
     (case m s of
        None \<Rightarrow> None
      | Some (Inl e, s') \<Rightarrow> Some (Inl e, s')
      | Some (Inr a, s') \<Rightarrow> f a s')"

definition modify :: "('s \<Rightarrow> 's) \<Rightarrow> ('s, unit) io" where
  "modify f s = Some (Inr (), f s)"

definition reads :: "('s \<Rightarrow> 'a) \<Rightarrow> ('s, 'a) io" where
  "reads f s = Some (Inr (f s), s)"

text \<open>A loop over a list, for each element in turn.\<close>

fun for_io :: "'x list \<Rightarrow> ('x \<Rightarrow> ('s, unit) io) \<Rightarrow> ('s, unit) io" where
  "for_io [] f = ret ()"
| "for_io (x # xs) f = bind_io (f x) (\<lambda>_. for_io xs f)"

partial_function (option) do_while ::
  "('x \<Rightarrow> 's \<Rightarrow> ('x res \<times> 's) option) \<Rightarrow> ('x \<Rightarrow> bool) \<Rightarrow> 'x \<Rightarrow> 's \<Rightarrow> ('x res \<times> 's) option" where
  "do_while body cond x s =
     (case body x s of
        None \<Rightarrow> None
      | Some (r, s') \<Rightarrow>
          (case r of
             Inl e \<Rightarrow> Some (Inl e, s')
           | Inr y \<Rightarrow> if cond y then do_while body cond y s' else Some (Inr y, s')))"

declare do_while.simps [code]

named_theorems io_simps \<open>evaluation of operations with effects\<close>

lemma bind_ret [simp]: "bind_io (ret a) f = f a"
  by (simp add: bind_io_def ret_def fun_eq_iff)

lemma bind_stop [simp]: "bind_io (stop e) f = stop e"
  by (simp add: bind_io_def stop_def fun_eq_iff)

lemma bind_eq_Some [io_simps]:
  "bind_io m f s = Some (Inr b, s'') \<longleftrightarrow> (\<exists>a s'. m s = Some (Inr a, s') \<and> f a s' = Some (Inr b, s''))"
  by (auto simp: bind_io_def split: option.splits sum.splits)

lemma bind_step: "m s = Some (Inr a, s') \<Longrightarrow> bind_io m f s = f a s'"
  by (simp add: bind_io_def)

lemma bind_fault: "m s = Some (Inl e, s') \<Longrightarrow> bind_io m f s = Some (Inl e, s')"
  by (simp add: bind_io_def)

lemma ret_eq [io_simps]: "ret a s = Some (r, s') \<longleftrightarrow> r = Inr a \<and> s' = s"
  by (auto simp: ret_def)

lemma stop_eq [io_simps]: "stop e s = Some (r, s') \<longleftrightarrow> r = Inl e \<and> s' = s"
  by (auto simp: stop_def)

lemma lift_Inr [simp]: "lift (Inr a) = ret a" and lift_Inl [simp]: "lift (Inl e) = stop e"
  by (simp_all add: lift_def ret_def stop_def fun_eq_iff)

text \<open>An invariant of the state that every operation keeps, whatever its result.\<close>

definition keeps :: "('s \<Rightarrow> bool) \<Rightarrow> ('s, 'a) io \<Rightarrow> bool" where
  "keeps P m \<longleftrightarrow> (\<forall>s r s'. P s \<longrightarrow> m s = Some (r, s') \<longrightarrow> P s')"

lemma keepsI: "(\<And>s r s'. P s \<Longrightarrow> m s = Some (r, s') \<Longrightarrow> P s') \<Longrightarrow> keeps P m"
  by (auto simp: keeps_def)

lemma keepsD: "keeps P m \<Longrightarrow> P s \<Longrightarrow> m s = Some (r, s') \<Longrightarrow> P s'"
  by (auto simp: keeps_def)

lemma keeps_ret [intro, simp]: "keeps P (ret a)" and keeps_stop [intro, simp]: "keeps P (stop e)"
  and keeps_lift [intro, simp]: "keeps P (lift r)"
  by (auto simp: keeps_def ret_def stop_def lift_def)

lemma keeps_bind [intro]: "keeps P m \<Longrightarrow> (\<And>a. keeps P (f a)) \<Longrightarrow> keeps P (bind_io m f)"
  by (rule keepsI) (auto simp: bind_io_def dest: keepsD split: option.splits sum.splits prod.splits)

lemma keeps_for [intro]: "(\<And>x. x \<in> set xs \<Longrightarrow> keeps P (f x)) \<Longrightarrow> keeps P (for_io xs f)"
  by (induction xs) (simp_all add: keeps_bind)

text \<open>The loop: running it forever, ending it, and what it keeps.\<close>

lemma do_while_induct:
  assumes "\<And>g x s v. (\<And>x s v. g x s = Some v \<Longrightarrow> Q x s v) \<Longrightarrow>
      (case body x s of None \<Rightarrow> None | Some (r, s') \<Rightarrow> (case r of Inl e \<Rightarrow> Some (Inl e, s')
         | Inr y \<Rightarrow> if cond y then g y s' else Some (Inr y, s'))) = Some v \<Longrightarrow> Q x s v"
    and "do_while body cond x s = Some v"
  shows "Q x s v"
proof -
  let ?P = "\<lambda>b c x s v. b = body \<longrightarrow> c = cond \<longrightarrow> Q x s v"
  have "(case (((body, cond), x), s) of (x, xa) \<Rightarrow> (case x of (x, xa) \<Rightarrow> (case x of (x, xa) \<Rightarrow> ?P x xa) xa) xa) v"
    by (rule do_while.raw_induct) (use assms in \<open>blast, simp\<close>)
  then show ?thesis by simp
qed

lemma do_while_diverges:
  assumes "\<And>x s. I x s \<Longrightarrow> \<exists>y s'. body x s = Some (Inr y, s') \<and> cond y \<and> I y s'" and "I x s"
  shows "do_while body cond x s = None"
proof (rule ccontr)
  assume "do_while body cond x s \<noteq> None"
  then obtain v where v: "do_while body cond x s = Some v" by blast
  have "I x s \<longrightarrow> False"
  proof (rule do_while_induct [OF _ v, where Q = "\<lambda>x s v. I x s \<longrightarrow> False"], intro impI)
    fix g x s v
    assume g: "\<And>x s v. g x s = Some v \<Longrightarrow> I x s \<longrightarrow> False" and "I x s"
      and eq: "(case body x s of None \<Rightarrow> None | Some (r, s') \<Rightarrow> (case r of Inl e \<Rightarrow> Some (Inl e, s')
         | Inr y \<Rightarrow> if cond y then g y s' else Some (Inr y, s'))) = Some v"
    then obtain y s' where "body x s = Some (Inr y, s')" "cond y" "I y s'" using assms(1) by blast
    then show False using g [of y s'] eq by simp
  qed
  then show False using assms(2) by blast
qed

lemma keeps_do_while [intro]:
  assumes "\<And>x. keeps P (body x)"
  shows "keeps P (do_while body cond x)"
proof (rule keepsI)
  fix s r s' assume "P s" and "do_while body cond x s = Some (r, s')"
  moreover have "P s \<longrightarrow> P (snd v)" if "do_while body cond x s = Some v" for v
    using that by (rule do_while_induct [rotated])
      (auto split: option.splits sum.splits if_splits dest: keepsD [OF assms])
  ultimately show "P s'" by fastforce
qed

end
