(* ===== verification/Camera_Device.thy ===== *)
theory Camera_Device
  imports Effects
begin

text \<open>
  \<open>lib/camera\<close> and \<open>lib/context\<close>: the camera as a USB mass storage device.

  The device classes of the library libusbpp are the parameter \<open>ops\<close> of the operations, a record of
  the functions the code calls on a device state \<open>'d\<close>: each gives a result, or the exception the
  library throws, and the next device state. \<open>sendCommand\<close> gets the content of the response buffer
  (\<open>None\<close> for a null pointer) and gives whether the status is \<open>PASSED\<close> and the new content. The mutex
  is a flag; taking a mutex that is held never returns. \<open>Camera\<close> is the pointer to its
  implementation, \<open>None\<close> after the object was moved from.

  The locale \<open>camera_protocol\<close> states how the camera answers; \<open>sim\<close> is a device that does.
\<close>

record cbw =
  dataTransferLength :: nat
  cbwFlags :: u8
  lun :: u8
  commandBlock :: "u8 list"

record InquiryResponse =
  vendorIdentification :: "u8 list"
  productIdentification :: "u8 list"
  productRevisionLevel :: "u8 list"

record 'd usb_ops =
  open_device :: "bool \<Rightarrow> 'd \<Rightarrow> unit res \<times> 'd"
  claimInterface :: "nat \<Rightarrow> 'd \<Rightarrow> unit res \<times> 'd"
  close_device :: "'d \<Rightarrow> 'd"
  sendCommand :: "u8 \<Rightarrow> cbw \<Rightarrow> u8 list option \<Rightarrow> 'd \<Rightarrow> (bool \<times> u8 list) res \<times> 'd"
  sendInquiry :: "u8 \<Rightarrow> nat \<Rightarrow> 'd \<Rightarrow> InquiryResponse res \<times> 'd"
  bulkTransferOut :: "u8 \<Rightarrow> u8 list \<Rightarrow> nat \<Rightarrow> 'd \<Rightarrow> unit res \<times> 'd"
  bulkTransferIn :: "u8 \<Rightarrow> u8 list \<Rightarrow> nat \<Rightarrow> 'd \<Rightarrow> (u8 list) res \<times> 'd"
  cbw_buffer :: "cbw \<Rightarrow> u8 list"

record 'd Camera_Impl =
  device :: 'd
  cameraAccessMutex :: bool

type_synonym 'd Camera = "'d Camera_Impl option"

record CameraInformation =
  vendor :: string
  product :: string
  revision :: string
  serial :: string
  firmware :: string

text \<open>\<open>LIBUSB_ENDPOINT_OUT | 0x02\<close> and \<open>LIBUSB_ENDPOINT_IN | 0x02\<close>.\<close>

definition EP_OUT :: u8 where "EP_OUT = 0x02"
definition EP_IN :: u8 where "EP_IN = 0x82"

definition on_device :: "('d \<Rightarrow> 'a res \<times> 'd) \<Rightarrow> ('d Camera_Impl, 'a) io" where
  "on_device f s = (case f (device s) of (r, d) \<Rightarrow> Some (r, s\<lparr>device := d\<rparr>))"

text \<open>A \<open>std::unique_lock\<close> of the camera: a local variable that is true while it owns the mutex. Its constructor
  waits while another owner has the mutex (\<open>None\<close>: in the sequential model nobody else gives it back); \<open>unlock\<close> throws
  when the lock does not own the mutex; the destructor gives the mutex back only when \<open>unlock\<close> was not reached, because an
  exception left the scope.\<close>

type_synonym 'd lock_scope = "'d Camera_Impl \<times> bool"

definition lock_ctor :: "('d lock_scope, unit) io" where
  "lock_ctor = (\<lambda>(s, owns). if cameraAccessMutex s then None else Some (Inr (), (s\<lparr>cameraAccessMutex := True\<rparr>, True)))"

definition unlock :: "('d lock_scope, unit) io" where
  "unlock = (\<lambda>(s, owns).
     if owns then Some (Inr (), (s\<lparr>cameraAccessMutex := False\<rparr>, False))
     else Some (Inl (Thrown ''Operation not permitted''), (s, owns)))"

definition lock_dtor :: "'d lock_scope \<Rightarrow> 'd Camera_Impl" where
  "lock_dtor = (\<lambda>(s, owns). if owns then s\<lparr>cameraAccessMutex := False\<rparr> else s)"

text \<open>The statements between the constructor and \<open>unlock\<close> use the device and not the lock.\<close>

definition locked :: "('d Camera_Impl, 'a) io \<Rightarrow> ('d lock_scope, 'a) io" where
  "locked m = (\<lambda>(s, owns). map_option (\<lambda>(r, s'). (r, (s', owns))) (m s))"

definition with_lock :: "('d Camera_Impl, 'a) io \<Rightarrow> ('d Camera_Impl, 'a) io" where
  "with_lock m s =
     map_option (\<lambda>(r, l). (r, lock_dtor l))
       (bind_io lock_ctor (\<lambda>_. bind_io (locked m) (\<lambda>r. bind_io unlock (\<lambda>_. ret r))) (s, False))"

definition Impl_ctor :: "'d usb_ops \<Rightarrow> ('d Camera_Impl, unit) io" where
  "Impl_ctor ops =
     bind_io (on_device (open_device ops True)) (\<lambda>_.
     on_device (claimInterface ops 0))"

definition Impl_dtor :: "'d usb_ops \<Rightarrow> 'd Camera_Impl \<Rightarrow> 'd Camera_Impl" where
  "Impl_dtor ops s = s\<lparr>device := close_device ops (device s)\<rparr>"

definition isReady :: "'d usb_ops \<Rightarrow> ('d Camera_Impl, bool) io" where
  "isReady ops =
     (let cmdUnitReady = \<lparr>dataTransferLength = 0, cbwFlags = 0, lun = 0, commandBlock = replicate 12 0\<rparr> in
      with_lock (bind_io (on_device (sendCommand ops EP_OUT cmdUnitReady None)) (\<lambda>(passed, _). ret passed)))"

definition cmdGetLen :: cbw where
  "cmdGetLen = \<lparr>dataTransferLength = 65536, cbwFlags = 0x80, lun = 0,
     commandBlock = [0xc6, 0, 0, 0, 0, 0, 0, 0, 0, 0, 0, 0]\<rparr>"

definition cmdGetData :: "u8 \<Rightarrow> cbw" where
  "cmdGetData packet = \<lparr>dataTransferLength = 65536, cbwFlags = 0x80, lun = 0,
     commandBlock = [0xc4, 0, 1, 0, 0, packet, 0, 0, 0, 0, 0, 0]\<rparr>"

text \<open>One pass of the packet loop; its state is \<open>packet\<close>, \<open>result\<close> and \<open>response\<close>.\<close>

definition download_packet ::
  "'d usb_ops \<Rightarrow> u8 \<times> u8 list \<times> u8 list \<Rightarrow> ('d Camera_Impl, u8 \<times> u8 list \<times> u8 list) io" where
  "download_packet ops = (\<lambda>(packet, result, response).
     bind_io (on_device (sendCommand ops EP_OUT (cmdGetData packet) (Some response))) (\<lambda>(_, response').
     ret (packet + 1, result @ response', response')))"

definition downloadData :: "'d usb_ops \<Rightarrow> ('d Camera_Impl, u8 list) io" where
  "downloadData ops =
     bind_io (on_device (sendCommand ops EP_OUT cmdGetLen (Some []))) (\<lambda>(_, response).
     bind_io (do_while (download_packet ops) (\<lambda>(_, _, response'). length response' = 65536) (0, [], response))
       (\<lambda>(_, result, _). ret result))"

text \<open>Characters of a buffer, and the C string that starts at an offset of it: the characters up to
  the first NUL, which has to be inside of the buffer.\<close>

definition chars :: "u8 list \<Rightarrow> string" where
  "chars bs = map (\<lambda>b. char_of (unat b)) bs"

definition c_string :: "u8 list \<Rightarrow> nat \<Rightarrow> string res" where
  "c_string buf i =
     (if 0 \<in> set (drop i buf) then Inr (chars (takeWhile (\<lambda>b. b \<noteq> 0) (drop i buf))) else Inl OutOfBounds)"

definition request_info :: cbw where
  "request_info = \<lparr>dataTransferLength = 0, cbwFlags = 0, lun = 0,
     commandBlock = [0xc2, 0, 0, 0, 0, 0, 0, 0, 0, 0, 0, 0]\<rparr>"

definition request_list :: cbw where
  "request_list = \<lparr>dataTransferLength = 0, cbwFlags = 0, lun = 0,
     commandBlock = [0xc2, 0, 2, 0, 0, 0, 0, 0, 0, 0, 0, 0]\<rparr>"

definition request_file :: "nat \<Rightarrow> cbw" where
  "request_file len = \<lparr>dataTransferLength = len, cbwFlags = 0, lun = 0,
     commandBlock = [0xc2, 0, 1, 0, 0, 0, 0, 0, 0, 0, 0, 0]\<rparr>"

definition Impl_getCameraInformation :: "'d usb_ops \<Rightarrow> ('d Camera_Impl, CameraInformation) io" where
  "Impl_getCameraInformation ops =
     bind_io (with_lock
       (bind_io (on_device (sendInquiry ops 2 0)) (\<lambda>inquiryresponse.
        bind_io (on_device (sendCommand ops EP_OUT request_info (Some []))) (\<lambda>_.
        bind_io (downloadData ops) (\<lambda>inforesponse. ret (inquiryresponse, inforesponse))))))
     (\<lambda>(inquiryresponse, inforesponse).
       bind_io (lift (c_string inforesponse 0x100)) (\<lambda>serial'.
       bind_io (lift (c_string inforesponse 0x200)) (\<lambda>firmware'.
       ret \<lparr>vendor = chars (vendorIdentification inquiryresponse),
            product = chars (productIdentification inquiryresponse),
            revision = chars (productRevisionLevel inquiryresponse),
            serial = serial', firmware = firmware'\<rparr>)))"

definition Impl_getPictureList :: "'d usb_ops \<Rightarrow> ('d Camera_Impl, u8 list) io" where
  "Impl_getPictureList ops =
     with_lock
       (bind_io (on_device (sendCommand ops EP_OUT request_list (Some []))) (\<lambda>_.
        downloadData ops))"

text \<open>\<open>getFile\<close>: the file name is sent up to its first NUL, with the NUL. The result is what the
  operation writes to its stream.\<close>

definition c_bytes :: "string \<Rightarrow> u8 list" where
  "c_bytes name = map (\<lambda>c. of_nat (of_char c)) (takeWhile (\<lambda>c. c \<noteq> CHR 0x00) name) @ [0]"

definition Impl_getFile :: "'d usb_ops \<Rightarrow> string \<Rightarrow> ('d Camera_Impl, u8 list) io" where
  "Impl_getFile ops fileName =
     (let fileBuf = c_bytes fileName; len = length fileBuf in
      with_lock
        (bind_io (on_device (bulkTransferOut ops EP_OUT (cbw_buffer ops (request_file len)) 0)) (\<lambda>_.
         bind_io (on_device (bulkTransferOut ops EP_OUT fileBuf 0)) (\<lambda>_.
         bind_io (on_device (bulkTransferIn ops EP_IN (replicate 65536 0) 0)) (\<lambda>_.
         downloadData ops)))))"

text \<open>The operations of \<open>Camera\<close> go through the pointer to the implementation.\<close>

definition pimpl :: "('d Camera_Impl, 'a) io \<Rightarrow> ('d Camera, 'a) io" where
  "pimpl m c =
     (case c of
        None \<Rightarrow> Some (Inl NullPointer, None)
      | Some s \<Rightarrow> map_option (\<lambda>(r, s'). (r, Some s')) (m s))"

definition Camera_ctor :: "'d usb_ops \<Rightarrow> 'd \<Rightarrow> ('d Camera res) option" where
  "Camera_ctor ops d =
     (case Impl_ctor ops \<lparr>device = d, cameraAccessMutex = False\<rparr> of
        None \<Rightarrow> None
      | Some (Inl e, _) \<Rightarrow> Some (Inl e)
      | Some (Inr _, s) \<Rightarrow> Some (Inr (Some s)))"

text \<open>The move constructor, and the move assignment of two different objects: the new object and the
  one it was moved from. The assignment destroys the implementation the object had.\<close>

definition Camera_move :: "'d Camera \<Rightarrow> ('d Camera \<times> 'd Camera) res" where
  "Camera_move other = (case other of None \<Rightarrow> Inl NullPointer | Some s \<Rightarrow> Inr (Some s, None))"

definition Camera_assign ::
  "'d usb_ops \<Rightarrow> 'd Camera \<Rightarrow> 'd Camera \<Rightarrow> ('d Camera \<times> 'd Camera \<times> 'd Camera_Impl option) res" where
  "Camera_assign ops this other =
     (case other of
        None \<Rightarrow> Inl NullPointer
      | Some s \<Rightarrow> Inr (Some s, None, map_option (Impl_dtor ops) this))"

definition waitReady :: "'d usb_ops \<Rightarrow> ('d Camera, unit) io" where
  "waitReady ops =
     bind_io (do_while (\<lambda>_. pimpl (isReady ops)) (\<lambda>ready. \<not> ready) False) (\<lambda>_. ret ())"

definition checked :: "('d Camera, 'a) io \<Rightarrow> ('d Camera, 'a) io" where
  "checked m c = (if c \<noteq> None then m c else Some (Inl AssertFailure, c))"

definition getCameraInformation :: "'d usb_ops \<Rightarrow> ('d Camera, CameraInformation) io" where
  "getCameraInformation ops = checked (pimpl (Impl_getCameraInformation ops))"

definition Camera_getPictureList :: "'d usb_ops \<Rightarrow> ('d Camera, u8 list) io" where
  "Camera_getPictureList ops = checked (pimpl (Impl_getPictureList ops))"

definition getFile :: "'d usb_ops \<Rightarrow> string \<Rightarrow> ('d Camera, u8 list) io" where
  "getFile ops fileName = pimpl (Impl_getFile ops fileName)"

text \<open>\<open>Context::getCameras\<close>: the devices with the identification of the camera that can be opened, in
  the order of the device list. An exception of the library skips the device. A device comes with
  the result of \<open>getDescriptor\<close>: vendor and product.\<close>

definition LYTRO_VENDOR :: u16 where "LYTRO_VENDOR = 0x24cf"
definition LYTRO_PRODUCT :: u16 where "LYTRO_PRODUCT = 0x00a1"

definition probe :: "'d usb_ops \<Rightarrow> ('d \<Rightarrow> (u16 \<times> u16) res) \<Rightarrow> 'd \<Rightarrow> ('d Camera option res) option" where
  "probe ops getDescriptor dev =
     (case getDescriptor dev of
        Inl e \<Rightarrow> Some (Inl e)
      | Inr (idVendor, idProduct) \<Rightarrow>
          if idVendor = LYTRO_VENDOR \<and> idProduct = LYTRO_PRODUCT
          then map_option (map_sum id Some) (Camera_ctor ops dev)
          else Some (Inr None))"

fun is_thrown :: "fault \<Rightarrow> bool" where
  "is_thrown (Thrown _) = True"
| "is_thrown _ = False"

fun getCameras ::
  "'d usb_ops \<Rightarrow> ('d \<Rightarrow> (u16 \<times> u16) res) \<Rightarrow> 'd list \<Rightarrow> ('d Camera list res) option" where
  "getCameras ops getDescriptor [] = Some (Inr [])"
| "getCameras ops getDescriptor (dev # devices) =
     (case probe ops getDescriptor dev of
        None \<Rightarrow> None
      | Some (Inl e) \<Rightarrow> if is_thrown e then getCameras ops getDescriptor devices else Some (Inl e)
      | Some (Inr None) \<Rightarrow> getCameras ops getDescriptor devices
      | Some (Inr (Some c)) \<Rightarrow>
          map_option (map_sum id (\<lambda>cs. c # cs)) (getCameras ops getDescriptor devices))"

text \<open>What the steps of a lock amount to: the operation waits for the mutex and gives it back however it ends, after
  \<open>unlock\<close> or by the destructor.\<close>

lemma with_lock_eq:
  "with_lock m s =
     (if cameraAccessMutex s then None
      else map_option (\<lambda>(r, s'). (r, s'\<lparr>cameraAccessMutex := False\<rparr>)) (m (s\<lparr>cameraAccessMutex := True\<rparr>)))"
  by (auto simp: with_lock_def lock_ctor_def locked_def unlock_def lock_dtor_def bind_io_def ret_def split: option.splits sum.splits)

lemma with_lock_released: "with_lock m s = Some (r, s') \<Longrightarrow> \<not> cameraAccessMutex s \<and> \<not> cameraAccessMutex s'"
  by (auto simp: with_lock_eq split: if_splits)

text \<open>So the operations of the camera leave the mutex free, with a result or with an exception.\<close>

lemma lock_released:
  "isReady ops s = Some (r1, s') \<or> Impl_getCameraInformation ops s = Some (r2, s')
      \<or> Impl_getPictureList ops s = Some (r3, s') \<or> Impl_getFile ops name s = Some (r4, s')
    \<Longrightarrow> \<not> cameraAccessMutex s \<and> \<not> cameraAccessMutex s'"
  by (auto simp: isReady_def Impl_getPictureList_def Impl_getFile_def Impl_getCameraInformation_def Let_def
      bind_io_def lift_def ret_def dest: with_lock_released split: option.splits sum.splits prod.splits)

text \<open>How the camera answers, for any state of the device: the data a request selects is \<open>pending\<close>, a
  packet command sends the 65536 bytes of it with the given number, or what is left of them.
  \<open>stored\<close> is the content of a file of the camera by its name as sent, \<open>listing\<close> and \<open>info\<close> the answers
  to the other two requests; \<open>busy\<close> is for how many more polls the camera is not ready.\<close>

locale camera_protocol =
  fixes ops :: "'d usb_ops" and pending :: "'d \<Rightarrow> u8 list" and stored :: "'d \<Rightarrow> u8 list \<Rightarrow> u8 list"
    and listing :: "'d \<Rightarrow> u8 list" and info :: "'d \<Rightarrow> u8 list" and busy :: "'d \<Rightarrow> nat"
  assumes length_answer: "\<exists>p r d'. sendCommand ops EP_OUT cmdGetLen b d = (Inr (p, r), d')
      \<and> pending d' = pending d \<and> stored d' = stored d \<and> listing d' = listing d \<and> info d' = info d"
    and packet_answer: "\<exists>p d'. sendCommand ops EP_OUT (cmdGetData n) b d
        = (Inr (p, take 65536 (drop (unat n * 65536) (pending d))), d')
      \<and> pending d' = pending d \<and> stored d' = stored d \<and> listing d' = listing d \<and> info d' = info d"
    and list_answer: "\<exists>p r d'. sendCommand ops EP_OUT request_list b d = (Inr (p, r), d')
      \<and> pending d' = listing d \<and> stored d' = stored d \<and> listing d' = listing d \<and> info d' = info d"
    and info_answer: "\<exists>p r d'. sendCommand ops EP_OUT request_info b d = (Inr (p, r), d')
      \<and> pending d' = info d \<and> stored d' = stored d \<and> listing d' = listing d \<and> info d' = info d"
    and file_answer: "\<exists>d1 d2 d3 r.
        bulkTransferOut ops EP_OUT (cbw_buffer ops (request_file (length name))) 0 d = (Inr (), d1)
      \<and> bulkTransferOut ops EP_OUT name 0 d1 = (Inr (), d2)
      \<and> bulkTransferIn ops EP_IN (replicate 65536 0) 0 d2 = (Inr r, d3)
      \<and> pending d3 = stored d name \<and> stored d3 = stored d \<and> listing d3 = listing d \<and> info d3 = info d"
    and ready_answer: "\<exists>r d'. sendCommand ops EP_OUT
        \<lparr>dataTransferLength = 0, cbwFlags = 0, lun = 0, commandBlock = replicate 12 0\<rparr> None d = (Inr (busy d = 0, r), d')
      \<and> busy d' = busy d - 1 \<and> stored d' = stored d \<and> listing d' = listing d \<and> info d' = info d"
begin

text \<open>What no operation changes.\<close>

definition same :: "'d Camera_Impl \<Rightarrow> 'd Camera_Impl \<Rightarrow> bool" where
  "same s s' \<longleftrightarrow> stored (device s') = stored (device s) \<and> listing (device s') = listing (device s)
     \<and> info (device s') = info (device s) \<and> cameraAccessMutex s' = cameraAccessMutex s"

lemma packet_step:
  "\<exists>s'. download_packet ops (n, result, response) s
      = Some (Inr (n + 1, result @ take 65536 (drop (unat n * 65536) (pending (device s))),
                   take 65536 (drop (unat n * 65536) (pending (device s)))), s')
    \<and> pending (device s') = pending (device s) \<and> same s s'"
proof -
  obtain p d' where "sendCommand ops EP_OUT (cmdGetData n) (Some response) (device s)
      = (Inr (p, take 65536 (drop (unat n * 65536) (pending (device s)))), d')"
    "pending d' = pending (device s)" "stored d' = stored (device s)" "listing d' = listing (device s)"
    "info d' = info (device s)"
    using packet_answer [of n "Some response" "device s"] by blast
  then show ?thesis by (simp add: download_packet_def bind_io_def on_device_def ret_def same_def)
qed

lemma download_loop:
  assumes "length data < 256 * 65536" and "k \<le> length data div 65536"
    and "pending (device s) = data"
  shows "\<exists>n response s'. do_while (download_packet ops) (\<lambda>(_, _, response'). length response' = 65536)
      (of_nat k, take (k * 65536) data, response0) s = Some (Inr (n, data, response), s')
      \<and> same s s'"
  using assms(2,3)
proof (induction "length data div 65536 - k" arbitrary: k s response0)
  case 0
  then have k: "k = length data div 65536" by simp
  then have u: "unat (of_nat k :: u8) = k" using assms(1) by (simp add: unat_of_nat)
  have l: "length (drop (k * 65536) data) < 65536" using k by (simp add: minus_div_mult_eq_mod)
  then have t: "length (take 65536 (drop (k * 65536) data)) \<noteq> 65536" by simp
  have r: "take (k * 65536) data @ take 65536 (drop (k * 65536) data) = data"
    using l by (simp only: take_all [OF less_imp_le] append_take_drop_id)
  obtain s' where "download_packet ops (of_nat k, take (k * 65536) data, response0) s
      = Some (Inr (of_nat k + 1, take (k * 65536) data @ take 65536 (drop (k * 65536) data),
                   take 65536 (drop (k * 65536) data)), s')" "same s s'"
    using packet_step [of "of_nat k" "take (k * 65536) data" response0 s, unfolded 0(3) u] by blast
  then show ?case
    using t unfolding do_while.simps [of _ _ "(of_nat k, take (k * 65536) data, response0)" s]
    by (simp only: option.case prod.case sum.case if_False r) blast
next
  case (Suc j)
  then have k: "k < length data div 65536" by simp
  then have u: "unat (of_nat k :: u8) = k" using assms(1) by (simp add: unat_of_nat)
  have le: "(Suc k) * 65536 \<le> length data" using k less_eq_div_iff_mult_less_eq [of 65536 "Suc k" "length data"] by simp
  have t: "length (take 65536 (drop (k * 65536) data)) = 65536" using le by simp
  have r: "take (k * 65536) data @ take 65536 (drop (k * 65536) data) = take (Suc k * 65536) data"
    by (metis add.commute mult_Suc take_add)
  have inc: "(of_nat k :: u8) + 1 = of_nat (Suc k)" by simp
  obtain s1 where s1: "download_packet ops (of_nat k, take (k * 65536) data, response0) s
      = Some (Inr (of_nat (Suc k), take (Suc k * 65536) data, take 65536 (drop (k * 65536) data)), s1)"
      "pending (device s1) = data" "same s s1"
    using packet_step [of "of_nat k" "take (k * 65536) data" response0 s, unfolded Suc.prems(2) u r] inc by metis
  have "j = length data div 65536 - Suc k" using Suc.hyps(2) by simp
  with Suc.hyps(1) [OF this _ s1(2), of "take 65536 (drop (k * 65536) data)"] Suc_leI [OF k]
  obtain n response s' where "do_while (download_packet ops) (\<lambda>(_, _, response'). length response' = 65536)
      (of_nat (Suc k), take (Suc k * 65536) data, take 65536 (drop (k * 65536) data)) s1
      = Some (Inr (n, data, response), s')" "same s1 s'"
    by blast
  moreover have "same s s'" using \<open>same s s1\<close> \<open>same s1 s'\<close> by (simp add: same_def)
  ultimately show ?case
    unfolding do_while.simps [of _ _ "(of_nat k, take (k * 65536) data, response0)" s] s1(1)
    by (simp only: option.case prod.case sum.case t refl if_True) blast
qed

lemma download_ok:
  assumes "length (pending (device s)) < 256 * 65536"
  shows "\<exists>s'. downloadData ops s = Some (Inr (pending (device s)), s') \<and> same s s'"
proof -
  obtain p r d' where d': "sendCommand ops EP_OUT cmdGetLen (Some []) (device s) = (Inr (p, r), d')"
      "pending d' = pending (device s)" "stored d' = stored (device s)" "listing d' = listing (device s)"
      "info d' = info (device s)"
    using length_answer by blast
  let ?s = "s\<lparr>device := d'\<rparr>"
  obtain n response s' where "do_while (download_packet ops) (\<lambda>(_, _, response'). length response' = 65536)
      (0, [], r) ?s = Some (Inr (n, pending (device s), response), s')" "same ?s s'"
    using download_loop [of "pending (device s)" 0 ?s r] assms d'(2) by auto
  then show ?thesis
    using d' by (auto simp: downloadData_def bind_io_def on_device_def ret_def same_def)
qed

lemma download_forever:
  assumes "256 * 65536 \<le> length (pending (device s))"
  shows "downloadData ops s = None"
proof -
  obtain p r d' where d': "sendCommand ops EP_OUT cmdGetLen (Some []) (device s) = (Inr (p, r), d')"
      "pending d' = pending (device s)"
    using length_answer by blast
  have "do_while (download_packet ops) (\<lambda>(_, _, response'). length response' = 65536) (0, [], r) (s\<lparr>device := d'\<rparr>) = None"
  proof (rule do_while_diverges [where I = "\<lambda>x s'. pending (device s') = pending (device s)"])
    show "pending (device (s\<lparr>device := d'\<rparr>)) = pending (device s)" using d' by simp
    fix x :: "u8 \<times> u8 list \<times> u8 list" and s' :: "'d Camera_Impl" assume s': "pending (device s') = pending (device s)"
    obtain n result response where x: "x = (n, result, response)" by (cases x)
    have "unat n < 256" by (rule unat_u8_less)
    then have "length (take 65536 (drop (unat n * 65536) (pending (device s)))) = 65536"
      using assms by simp
    then show "\<exists>y s''. download_packet ops x s' = Some (Inr y, s'') \<and> (case y of (_, _, response') \<Rightarrow> length response' = 65536)
        \<and> pending (device s'') = pending (device s)"
      using packet_step [of n result response s'] s' x by auto
  qed
  then show ?thesis using d' by (simp add: downloadData_def bind_io_def on_device_def)
qed

lemma wait_loop:
  "\<exists>s'. do_while (\<lambda>_. pimpl (isReady ops)) (\<lambda>ready. \<not> ready) x (Some s) = Some (Inr True, Some s') \<and> same s s'
     \<and> busy (device s') = 0"
  if "\<not> cameraAccessMutex s"
  using that
proof (induction "busy (device s)" arbitrary: s x rule: less_induct)
  case less
  obtain r d' where d': "sendCommand ops EP_OUT
        \<lparr>dataTransferLength = 0, cbwFlags = 0, lun = 0, commandBlock = replicate 12 0\<rparr> None (device s)
      = (Inr (busy (device s) = 0, r), d')" "busy d' = busy (device s) - 1"
      "stored d' = stored (device s)" "listing d' = listing (device s)" "info d' = info (device s)"
    using ready_answer by blast
  let ?s = "s\<lparr>device := d'\<rparr>"
  have "pimpl (isReady ops) (Some s) = Some (Inr (busy (device s) = 0), Some ?s)"
    using d'(1) less.prems
    by (simp add: isReady_def Let_def with_lock_eq pimpl_def bind_io_def on_device_def ret_def)
  moreover have "same s ?s" using d' less.prems by (simp add: same_def)
  ultimately show ?case
    using less.hyps [of ?s True] less.hyps [of ?s False] d'(2) less.prems
    by (cases "busy (device s) = 0") (auto simp: do_while.simps [of _ _ x] same_def)
qed

lemma file_ok:
  assumes "\<not> cameraAccessMutex s" and "length (stored (device s) (c_bytes name)) < 256 * 65536"
  shows "\<exists>s'. Impl_getFile ops name s = Some (Inr (stored (device s) (c_bytes name)), s') \<and> same s s'"
proof -
  obtain d1 d2 d3 r where d: "bulkTransferOut ops EP_OUT (cbw_buffer ops (request_file (length (c_bytes name)))) 0 (device s)
        = (Inr (), d1)" "bulkTransferOut ops EP_OUT (c_bytes name) 0 d1 = (Inr (), d2)"
      "bulkTransferIn ops EP_IN (replicate 65536 0) 0 d2 = (Inr r, d3)"
      "pending d3 = stored (device s) (c_bytes name)" "stored d3 = stored (device s)"
      "listing d3 = listing (device s)" "info d3 = info (device s)"
    using file_answer [of "c_bytes name" "device s"] by blast
  let ?s = "s\<lparr>cameraAccessMutex := True, device := d3\<rparr>"
  obtain s' where "downloadData ops ?s = Some (Inr (pending d3), s')" "same ?s s'"
    using download_ok [of ?s] assms(2) d(4) by auto
  then show ?thesis
    using d assms(1)
    by (auto simp: Impl_getFile_def Let_def with_lock_eq bind_io_def on_device_def same_def)
qed

lemma list_ok:
  assumes "\<not> cameraAccessMutex s" and "length (listing (device s)) < 256 * 65536"
  shows "\<exists>s'. Impl_getPictureList ops s = Some (Inr (listing (device s)), s') \<and> same s s'"
proof -
  obtain p r d' where d': "sendCommand ops EP_OUT request_list (Some []) (device s) = (Inr (p, r), d')"
      "pending d' = listing (device s)" "stored d' = stored (device s)" "listing d' = listing (device s)"
      "info d' = info (device s)"
    using list_answer by blast
  let ?s = "s\<lparr>cameraAccessMutex := True, device := d'\<rparr>"
  obtain s' where "downloadData ops ?s = Some (Inr (pending d'), s')" "same ?s s'"
    using download_ok [of ?s] assms(2) d'(2) by auto
  then show ?thesis
    using d' assms(1) by (auto simp: Impl_getPictureList_def with_lock_eq bind_io_def on_device_def same_def)
qed

lemma info_ok:
  assumes "\<not> cameraAccessMutex s" and "length (info (device s)) < 256 * 65536"
    and "sendInquiry ops 2 0 (device s) = (Inr q, d)" and "stored d = stored (device s)" and "listing d = listing (device s)"
    and "info d = info (device s)" and "0 \<in> set (drop 0x100 (info (device s)))" and "0 \<in> set (drop 0x200 (info (device s)))"
  shows "\<exists>s' i. Impl_getCameraInformation ops s = Some (Inr i, s')
    \<and> serial i = chars (takeWhile (\<lambda>b. b \<noteq> 0) (drop 0x100 (info (device s)))) \<and> same s s'"
proof -
  obtain p r d' where d': "sendCommand ops EP_OUT request_info (Some []) d = (Inr (p, r), d')"
      "pending d' = info d" "stored d' = stored d" "listing d' = listing d" "info d' = info d"
    using info_answer by blast
  let ?s = "s\<lparr>cameraAccessMutex := True, device := d'\<rparr>"
  obtain s' where s': "downloadData ops ?s = Some (Inr (info (device s)), s')" "same ?s s'"
    using download_ok [of ?s] assms(2,6) d'(2) by auto
  have "c_string (info (device s)) 0x100 = Inr (chars (takeWhile (\<lambda>b. b \<noteq> 0) (drop 0x100 (info (device s)))))"
    and "c_string (info (device s)) 0x200 = Inr (chars (takeWhile (\<lambda>b. b \<noteq> 0) (drop 0x200 (info (device s)))))"
    using assms(7,8) by (simp_all add: c_string_def)
  then show ?thesis
    using assms(1,3-6) d' s' by (auto simp: Impl_getCameraInformation_def with_lock_eq bind_io_def on_device_def same_def ret_def lift_def)
qed

end

text \<open>A camera that behaves like this: its files as an association list of names as they are sent.\<close>

record sim =
  sim_files :: "(u8 list \<times> u8 list) list"
  sim_list :: "u8 list"
  sim_info :: "u8 list"
  sim_busy :: nat
  sim_pending :: "u8 list"

definition sim_stored :: "sim \<Rightarrow> u8 list \<Rightarrow> u8 list" where
  "sim_stored d name = (case map_of (sim_files d) name of None \<Rightarrow> [] | Some bs \<Rightarrow> bs)"

definition sim_send :: "u8 \<Rightarrow> cbw \<Rightarrow> u8 list option \<Rightarrow> sim \<Rightarrow> (bool \<times> u8 list) res \<times> sim" where
  "sim_send ep c response d =
     (let b = commandBlock c in
      if b ! 0 = 0xc4 then
        (Inr (True, take 65536 (drop (unat (b ! 5) * 65536) (sim_pending d))), d)
      else if b ! 0 = 0xc2 then
        (Inr (True, []), d\<lparr>sim_pending := (if b ! 2 = 2 then sim_list d else sim_info d)\<rparr>)
      else if b ! 0 = 0 then (Inr (sim_busy d = 0, []), d\<lparr>sim_busy := sim_busy d - 1\<rparr>)
      else (Inr (True, []), d))"

text \<open>A transfer whose first byte is that of a command is a command, others are file names.\<close>

definition sim_out :: "u8 \<Rightarrow> u8 list \<Rightarrow> nat \<Rightarrow> sim \<Rightarrow> unit res \<times> sim" where
  "sim_out ep bs timeout d = (Inr (), d\<lparr>sim_pending := sim_stored d bs\<rparr>)"

definition sim_ops :: "sim usb_ops" where
  "sim_ops = \<lparr>open_device = (\<lambda>_ d. (Inr (), d)), claimInterface = (\<lambda>_ d. (Inr (), d)), close_device = id,
     sendCommand = sim_send,
     sendInquiry = (\<lambda>_ _ d. (Inr \<lparr>vendorIdentification = [], productIdentification = [], productRevisionLevel = []\<rparr>, d)),
     bulkTransferOut = sim_out, bulkTransferIn = (\<lambda>_ b _ d. (Inr b, d)), cbw_buffer = commandBlock\<rparr>"

interpretation simulated: camera_protocol sim_ops sim_pending sim_stored sim_list sim_info sim_busy
  by unfold_locales
    (auto simp: sim_ops_def sim_send_def sim_out_def cmdGetLen_def cmdGetData_def request_list_def
      request_info_def request_file_def sim_stored_def fun_eq_iff)

text \<open>An inquiry succeeds and changes nothing that matters.\<close>

definition answers_inquiry :: "'d usb_ops \<Rightarrow> ('d \<Rightarrow> u8 list \<Rightarrow> u8 list) \<Rightarrow> ('d \<Rightarrow> u8 list) \<Rightarrow> ('d \<Rightarrow> u8 list) \<Rightarrow> bool" where
  "answers_inquiry ops stored listing info \<longleftrightarrow> (\<forall>d. \<exists>q d'. sendInquiry ops 2 0 d = (Inr q, d')
     \<and> stored d' = stored d \<and> listing d' = listing d \<and> info d' = info d)"

lemma simulated_inquiry: "answers_inquiry sim_ops sim_stored sim_list sim_info"
  by (simp add: answers_inquiry_def sim_ops_def)

text \<open>
  C18: \<open>Camera::getFile\<close> as a lookup in the files of the camera. For a camera that answers by its
  protocol, is not in use and stores fewer than 256 packets of 65536 bytes under the name,
  \<open>getFile\<close> returns, what it writes to the stream is the content of the file, and neither the files
  nor the state of the lock have changed.
\<close>
theorem getFile_refines:
  assumes "camera_protocol ops pending stored listing info busy" and "\<not> cameraAccessMutex s"
    and "length (stored (device s) (c_bytes name)) < 256 * 65536"
  shows "\<exists>s'. getFile ops name (Some s) = Some (Inr (stored (device s) (c_bytes name)), Some s')
    \<and> stored (device s') = stored (device s) \<and> \<not> cameraAccessMutex s'"
  using camera_protocol.file_ok [OF assms] camera_protocol.same_def [OF assms(1)] assms(2)
  by (auto simp: getFile_def pimpl_def)

theorem getFile_refines_witness:
  "\<exists>s'. getFile sim_ops ''A''
      (Some \<lparr>device = \<lparr>sim_files = [([65, 0], [1, 2, 3])], sim_list = [], sim_info = [], sim_busy = 0,
         sim_pending = []\<rparr>, cameraAccessMutex = False\<rparr>) = Some (Inr [1, 2, 3], Some s')"
proof -
  let ?d = "\<lparr>sim_files = [([65, 0], [1, 2, 3])], sim_list = [], sim_info = [], sim_busy = 0, sim_pending = []\<rparr>"
  have "sim_stored ?d (c_bytes ''A'') = [1, 2, 3]" by code_simp
  then show ?thesis
    using getFile_refines [OF simulated.camera_protocol_axioms, of "\<lparr>device = ?d, cameraAccessMutex = False\<rparr>" "''A''"]
    by auto
qed

text \<open>
  C20: the packet number is a byte, so the largest transfer has fewer than 256 packets. When the camera
  has 16 MiB or more to send, the numbers start again at 0 and \<open>downloadData\<close> never returns.
\<close>
theorem downloadData_forever:
  assumes "camera_protocol ops pending stored listing info busy"
    and "256 * 65536 \<le> length (pending (device s))"
  shows "downloadData ops s = None"
  using camera_protocol.download_forever [OF assms] .

theorem downloadData_forever_witness:
  "downloadData sim_ops \<lparr>device = \<lparr>sim_files = [], sim_list = [], sim_info = [], sim_busy = 0,
     sim_pending = replicate 16777216 0\<rparr>, cameraAccessMutex = True\<rparr> = None"
  by (rule downloadData_forever [OF simulated.camera_protocol_axioms]) simp

text \<open>
  C19: \<open>Camera::waitReady\<close> returns, for a camera that is not in use and gets ready after finitely many
  polls, in a state in which the camera is ready and otherwise unchanged.
\<close>
theorem waitReady_returns:
  assumes "camera_protocol ops pending stored listing info busy" and "\<not> cameraAccessMutex s"
  shows "\<exists>s'. waitReady ops (Some s) = Some (Inr (), Some s') \<and> busy (device s') = 0
    \<and> stored (device s') = stored (device s) \<and> \<not> cameraAccessMutex s'"
  using camera_protocol.wait_loop [OF assms, of False] camera_protocol.same_def [OF assms(1)] assms(2)
  by (auto simp: waitReady_def bind_io_def ret_def)

theorem waitReady_returns_witness:
  "\<exists>s'. waitReady sim_ops (Some \<lparr>device = \<lparr>sim_files = [], sim_list = [], sim_info = [], sim_busy = 3,
     sim_pending = []\<rparr>, cameraAccessMutex = False\<rparr>) = Some (Inr (), Some s') \<and> sim_busy (device s') = 0"
  using waitReady_returns [OF simulated.camera_protocol_axioms,
      of "\<lparr>device = \<lparr>sim_files = [], sim_list = [], sim_info = [], sim_busy = 3, sim_pending = []\<rparr>,
            cameraAccessMutex = False\<rparr>"]
  by auto

text \<open>The cameras of a device list: those that have the identification of the camera and can be
  opened.\<close>

definition opened :: "'d usb_ops \<Rightarrow> ('d \<Rightarrow> (u16 \<times> u16) res) \<Rightarrow> 'd \<Rightarrow> 'd Camera option" where
  "opened ops getDescriptor dev =
     (if getDescriptor dev = Inr (LYTRO_VENDOR, LYTRO_PRODUCT)
      then (case Camera_ctor ops dev of Some (Inr c) \<Rightarrow> Some c | _ \<Rightarrow> None) else None)"

text \<open>
  \<open>Context::getCameras\<close>. When the USB library only fails by its exceptions, \<open>getCameras\<close> returns
  the cameras of the device list, in its order: a device that fails, be it in \<open>getDescriptor\<close> or when
  it is opened or claimed, is skipped and does not keep the other cameras from being found.
\<close>
lemma getCameras_correct:
  assumes "\<forall>dev \<in> set devices. \<forall>e. getDescriptor dev = Inl e \<longrightarrow> is_thrown e"
    and "\<forall>dev \<in> set devices. \<forall>e. Camera_ctor ops dev = Some (Inl e) \<longrightarrow> is_thrown e"
  shows "getCameras ops getDescriptor devices = Some (Inr (List.map_filter (opened ops getDescriptor) devices))"
  using assms
proof (induction devices)
  case Nil
  then show ?case by (simp add: List.map_filter_simps)
next
  case (Cons dev devices)
  have "Camera_ctor ops dev \<noteq> None"
    by (auto simp: Camera_ctor_def Impl_ctor_def bind_io_def on_device_def split: option.splits sum.splits prod.splits)
  with Cons show ?case
    by (auto simp: probe_def opened_def List.map_filter_simps map_sum_def split: option.splits sum.splits if_splits)
qed

end
