(* ===== verification/Camera_Files.thy ===== *)
theory Camera_Files
  imports Camera_Device
begin

text \<open>
  \<open>lib/filesystem\<close>: the files of a camera. The state is the list of cameras; a \<open>Camera*\<close> is the
  position of a camera in it. \<open>Image\<close> and \<open>Photo\<close> objects are the pointers to their implementations,
  \<open>None\<close> for default-constructed and moved-from ones.

  A \<open>const uint8_t*\<close> into the file list is the buffer and a position. Reading a 32-bit number uses
  the little-endian order of the platform. \<open>sscanf\<close> is modelled for the conversions the code uses;
  a variable it leaves unset is a fault when it is used. \<open>mktime\<close> and \<open>timezone\<close> depend on the system
  and are parameters, and so is the value the uninitialised \<open>tm_isdst\<close> happens to have.
\<close>

record Image_Impl =
  m_camera :: nat
  m_fullpath :: string
  m_basename :: string

type_synonym Image = "Image_Impl option"

record Photo_Impl =
  m_sha1 :: "u8 list"
  m_time :: int

type_synonym Photo = "Image \<times> Photo_Impl option"

definition Image_ctor :: "nat \<Rightarrow> string \<Rightarrow> string \<Rightarrow> Image" where
  "Image_ctor camera path basename =
     Some \<lparr>m_camera = camera, m_fullpath = path @ basename, m_basename = basename\<rparr>"

definition Image_default :: Image where "Image_default = None"

definition Image_copy :: "Image \<Rightarrow> Image res" where
  "Image_copy other = (case other of None \<Rightarrow> Inl NullPointer | Some i \<Rightarrow> Inr (Some i))"

definition Image_move :: "Image \<Rightarrow> Image \<times> Image" where
  "Image_move other = (other, None)"

text \<open>Assignments; the flag tells whether both operands are the same object.\<close>

definition Image_assign :: "bool \<Rightarrow> Image \<Rightarrow> Image \<Rightarrow> Image res" where
  "Image_assign same this other = (if same then Inr this else Image_copy other)"

definition Image_move_assign :: "bool \<Rightarrow> Image \<Rightarrow> Image \<Rightarrow> Image \<times> Image" where
  "Image_move_assign same this other = (if same then (this, other) else Image_move other)"

definition image_get :: "(Image_Impl \<Rightarrow> 'a) \<Rightarrow> Image \<Rightarrow> 'a res" where
  "image_get f i = (case i of None \<Rightarrow> Inl NullPointer | Some p \<Rightarrow> Inr (f p))"

definition getName :: "Image \<Rightarrow> string res" where
  "getName i = image_get m_basename i"

definition getCamera :: "Image \<Rightarrow> nat res" where
  "getCamera i = image_get m_camera i"

definition getFullPath :: "Image \<Rightarrow> string res" where
  "getFullPath i = image_get m_fullpath i"

text \<open>An operation on the camera a pointer refers to.\<close>

definition at_camera :: "nat \<Rightarrow> ('d Camera, 'a) io \<Rightarrow> ('d Camera list, 'a) io" where
  "at_camera c m cameras =
     (if c < length cameras
      then map_option (\<lambda>(r, cam). (r, cameras[c := cam])) (m (cameras ! c))
      else Some (Inl OutOfBounds, cameras))"

definition get_with :: "'d usb_ops \<Rightarrow> string \<Rightarrow> Image \<Rightarrow> ('d Camera list, u8 list) io" where
  "get_with ops ext i =
     bind_io (lift (getCamera i)) (\<lambda>c.
     bind_io (lift (getFullPath i)) (\<lambda>path. at_camera c (getFile ops (path @ ext))))"

definition getImageMetadata :: "'d usb_ops \<Rightarrow> Image \<Rightarrow> ('d Camera list, u8 list) io" where
  "getImageMetadata ops i = get_with ops ''.TXT'' i"

definition getImageData :: "'d usb_ops \<Rightarrow> Image \<Rightarrow> ('d Camera list, u8 list) io" where
  "getImageData ops i = get_with ops ''.RAW'' i"

text \<open>Numbers as \<open>operator<<\<close> prints them, and \<open>setfill('0') << setw(n)\<close>.\<close>

fun show_nat :: "nat \<Rightarrow> string" where
  "show_nat n = (if n < 10 then [char_of (48 + n)] else show_nat (n div 10) @ [char_of (48 + n mod 10)])"

declare show_nat.simps [simp del]

definition show_int :: "int \<Rightarrow> string" where
  "show_int i = (if i < 0 then CHR ''-'' # show_nat (nat (- i)) else show_nat (nat i))"

definition fill0 :: "nat \<Rightarrow> string \<Rightarrow> string" where
  "fill0 w s = replicate (w - length s) CHR ''0'' @ s"

definition backslash :: char where "backslash = CHR 0x5C"

definition constructPath :: "string \<Rightarrow> int \<Rightarrow> string" where
  "constructPath dirBase dirId =
     ''I:'' @ [backslash] @ ''DCIM'' @ [backslash] @ show_int dirId @ dirBase @ [backslash]"

definition constructBaseName :: "string \<Rightarrow> int \<Rightarrow> string" where
  "constructBaseName fileBase fileId = fileBase @ fill0 4 (show_int fileId)"

definition Photo_ctor :: "nat \<Rightarrow> string \<Rightarrow> int \<Rightarrow> string \<Rightarrow> int \<Rightarrow> u8 list \<Rightarrow> int \<Rightarrow> Photo" where
  "Photo_ctor camera dirBase dirId fileBase fileId sha1 time =
     (Image_ctor camera (constructPath dirBase dirId) (constructBaseName fileBase fileId),
      Some \<lparr>m_sha1 = sha1, m_time = time\<rparr>)"

definition photo_copy :: "Photo_Impl option \<Rightarrow> Photo_Impl option res" where
  "photo_copy p = (case p of None \<Rightarrow> Inl NullPointer | Some q \<Rightarrow> Inr (Some q))"

definition Photo_copy :: "Photo \<Rightarrow> Photo res" where
  "Photo_copy other =
     rbind (Image_copy (fst other)) (\<lambda>i. rbind (photo_copy (snd other)) (\<lambda>p. Inr (i, p)))"

definition Photo_assign :: "bool \<Rightarrow> Photo \<Rightarrow> Photo \<Rightarrow> Photo res" where
  "Photo_assign same this other =
     rbind (Image_assign same (fst this) (fst other)) (\<lambda>i. rbind (photo_copy (snd other)) (\<lambda>p. Inr (i, p)))"

definition getTime :: "Photo \<Rightarrow> int res" where
  "getTime p = (case snd p of None \<Rightarrow> Inl NullPointer | Some q \<Rightarrow> Inr (m_time q))"

definition getImageThumbnail :: "'d usb_ops \<Rightarrow> Photo \<Rightarrow> ('d Camera list, u8 list) io" where
  "getImageThumbnail ops p = get_with ops ''.128'' (fst p)"

text \<open>\<open>sscanf\<close> conversions \<open>%<w>d\<close> and \<open>%<w>x\<close>: white space is skipped and does not count for the width;
  then come an optional sign, for base 16 an optional 0x, and the digits. \<open>None\<close> is a matching
  failure.\<close>

definition is_space :: "char \<Rightarrow> bool" where
  "is_space c \<longleftrightarrow> c \<in> set [CHR '' '', CHR 0x09, CHR 0x0A, CHR 0x0B, CHR 0x0C, CHR 0x0D]"

definition digit_value :: "char \<Rightarrow> nat" where
  "digit_value c =
     (let n = of_char c :: nat in
      if 48 \<le> n \<and> n \<le> 57 then n - 48
      else if 65 \<le> n \<and> n \<le> 70 then n - 55
      else if 97 \<le> n \<and> n \<le> 102 then n - 87 else 16)"

definition scan_number :: "nat \<Rightarrow> nat \<Rightarrow> string \<Rightarrow> (int \<times> string) option" where
  "scan_number base w s0 =
     (let s1 = dropWhile is_space s0;
          neg = (take 1 s1 = ''-'' \<and> 0 < w);
          signed = neg \<or> (take 1 s1 = ''+'' \<and> 0 < w);
          (s2, w2) = (if signed then (drop 1 s1, w - 1) else (s1, w));
          prefixed = (base = 16 \<and> 2 \<le> w2 \<and> (take 2 s2 = ''0x'' \<or> take 2 s2 = ''0X''));
          (s3, w3) = (if prefixed then (drop 2 s2, w2 - 2) else (s2, w2));
          ds = takeWhile (\<lambda>c. digit_value c < base) (take w3 s3);
          v = int (foldl (\<lambda>a c. a * base + digit_value c) 0 ds)
      in if ds = [] then None else Some (if neg then - v else v, drop (length ds) s3))"

definition scan_literal :: "char \<Rightarrow> string \<Rightarrow> string option" where
  "scan_literal c s = (case s of [] \<Rightarrow> None | d # ds \<Rightarrow> if c = d then Some ds else None)"

definition set_by_scan :: "'a option \<Rightarrow> 'a res" where
  "set_by_scan m = (case m of None \<Rightarrow> Inl Uninitialised | Some a \<Rightarrow> Inr a)"

text \<open>A format of three numbers with a separator: all three variables are used afterwards.\<close>

definition scan_three :: "nat \<Rightarrow> char \<Rightarrow> string \<Rightarrow> (int \<times> int \<times> int) res" where
  "scan_three w sep s =
     rbind (set_by_scan (scan_number 10 w s)) (\<lambda>(a, s1).
     rbind (set_by_scan (scan_literal sep s1)) (\<lambda>s2.
     rbind (set_by_scan (scan_number 10 2 s2)) (\<lambda>(b, s3).
     rbind (set_by_scan (scan_literal sep s3)) (\<lambda>s4.
     rbind (set_by_scan (scan_number 10 2 s4)) (\<lambda>(c, s5). Inr (a, b, c))))))"

record tm =
  tm_year :: int
  tm_mon :: int
  tm_mday :: int
  tm_hour :: int
  tm_min :: int
  tm_sec :: int
  tm_isdst :: int

record clock =
  mktime :: "tm \<Rightarrow> int"
  timezone :: int
  isdst_garbage :: int

definition u32_at :: "u8 list \<Rightarrow> nat \<Rightarrow> u32 res" where
  "u32_at buf i =
     (case drop i buf of
        b0 # b1 # b2 # b3 # _ \<Rightarrow>
          Inr (of_nat (unat b0 + 256 * (unat b1 + 256 * (unat b2 + 256 * unat b3))))
      | _ \<Rightarrow> Inl OutOfBounds)"

definition sha1_byte :: "u8 list \<Rightarrow> nat \<Rightarrow> u8 res" where
  "sha1_byte buf i =
     rbind (c_string buf i) (\<lambda>s.
     rbind (set_by_scan (scan_number 16 2 s)) (\<lambda>(tmp, _). Inr (of_int tmp)))"

definition parseLine :: "clock \<Rightarrow> nat \<Rightarrow> u8 list \<Rightarrow> nat \<Rightarrow> Photo res" where
  "parseLine clk camera buf line =
     rbind (c_string buf line) (\<lambda>dirBase.
     rbind (c_string buf (line + 8)) (\<lambda>fileBase.
     rbind (u32_at buf (line + 16)) (\<lambda>dirId.
     rbind (u32_at buf (line + 20)) (\<lambda>fileId.
     rbind (rfold (\<lambda>i sha1. rbind (sha1_byte buf (line + 48 + 5 + 2 * i)) (\<lambda>b. Inr (sha1 @ [b]))) [0..<20] []) (\<lambda>sha1.
     rbind (rbind (c_string buf (line + 96)) (scan_three 4 CHR ''-'')) (\<lambda>(year, mon, mday).
     rbind (rbind (c_string buf (line + 96 + 11)) (scan_three 2 CHR '':'')) (\<lambda>(hour, minute, sec).
     let time = mktime clk \<lparr>tm_year = year - 1900, tm_mon = mon - 1, tm_mday = mday, tm_hour = hour,
                  tm_min = minute, tm_sec = sec, tm_isdst = isdst_garbage clk\<rparr> - timezone clk
     in Inr (Photo_ctor camera dirBase (sint dirId) fileBase (sint fileId) sha1 time))))))))"

partial_function (option) parse_lines ::
  "clock \<Rightarrow> nat \<Rightarrow> u8 list \<Rightarrow> nat \<Rightarrow> nat \<Rightarrow> Photo list \<Rightarrow> Photo list res option" where
  "parse_lines clk camera buf linelen pos fileList =
     (if pos + linelen \<le> length buf then
        (case parseLine clk camera buf pos of
           Inl e \<Rightarrow> Some (Inl e)
         | Inr photo \<Rightarrow> parse_lines clk camera buf linelen (pos + linelen) (fileList @ [photo]))
      else Some (Inr fileList))"

declare parse_lines.simps [code]

definition parseFileList :: "clock \<Rightarrow> nat \<Rightarrow> u8 list \<Rightarrow> Photo list res option" where
  "parseFileList clk camera buf =
     (case u32_at buf 4 of
        Inl e \<Rightarrow> Some (Inl e)
      | Inr linelen \<Rightarrow>
          (case u32_at buf 8 of
             Inl e \<Rightarrow> Some (Inl e)
           | Inr n \<Rightarrow> parse_lines clk camera buf (unat linelen) (unat (n * 8 + 12)) []))"

text \<open>\<open>FilesystemAccess\<close> is its camera pointer.\<close>

definition getFirmware :: "'d usb_ops \<Rightarrow> nat \<Rightarrow> ('d Camera list, u8 list) io" where
  "getFirmware ops camera = at_camera camera (getFile ops (''A:'' @ [backslash] @ ''FIRMWARE.TXT''))"

definition getVCM :: "'d usb_ops \<Rightarrow> nat \<Rightarrow> ('d Camera list, u8 list) io" where
  "getVCM ops camera = at_camera camera (getFile ops (''A:'' @ [backslash] @ ''VCM.TXT''))"

definition getPictureList :: "'d usb_ops \<Rightarrow> clock \<Rightarrow> nat \<Rightarrow> ('d Camera list, Photo list) io" where
  "getPictureList ops clk camera =
     bind_io (at_camera camera (Camera_getPictureList ops)) (\<lambda>buf cameras.
       map_option (\<lambda>r. (r, cameras)) (parseFileList clk camera buf))"

definition calibration_image :: "nat \<Rightarrow> nat \<Rightarrow> Image" where
  "calibration_image camera i =
     Image_ctor camera (''C:'' @ [backslash] @ ''T1CALIB'' @ [backslash]) (''MOD_'' @ fill0 4 (show_nat i))"

definition getCalibrationList :: "nat \<Rightarrow> Image list" where
  "getCalibrationList camera = map (calibration_image camera) [0..<62]"

section \<open>The documented layout of a file list\<close>

text \<open>Decimal and hexadecimal numbers of a fixed width, little-endian words, fields padded with NUL.\<close>

fun dec :: "nat \<Rightarrow> nat \<Rightarrow> string" where
  "dec 0 n = []"
| "dec (Suc w) n = dec w (n div 10) @ [char_of (48 + n mod 10)]"

definition hex_digit :: "nat \<Rightarrow> char" where
  "hex_digit n = char_of (if n < 10 then 48 + n else 87 + n)"

definition hex2 :: "u8 \<Rightarrow> string" where
  "hex2 b = [hex_digit (unat b div 16), hex_digit (unat b mod 16)]"

definition bytes :: "string \<Rightarrow> u8 list" where
  "bytes s = map (\<lambda>c. of_nat (of_char c)) s"

definition u32_bytes :: "nat \<Rightarrow> u8 list" where
  "u32_bytes n = [of_nat n, of_nat (n div 256), of_nat (n div 256 div 256), of_nat (n div 256 div 256 div 256)]"

definition field :: "nat \<Rightarrow> u8 list \<Rightarrow> u8 list" where
  "field n bs = bs @ replicate (n - length bs) 0"

text \<open>An entry as the comment at \<open>parseLine\<close> describes it, and the file list: its header has the length
  of an entry at 4, the number of 8-byte items before the first entry at 8.\<close>

record entry =
  e_dir :: string
  e_file :: string
  e_dirId :: nat
  e_fileId :: nat
  e_unknown :: "u8 list"
  e_sha1 :: "u8 list"
  e_date :: "nat \<times> nat \<times> nat"
  e_clock :: "nat \<times> nat \<times> nat"
  e_fraction :: string

definition date_text :: "nat \<times> nat \<times> nat \<Rightarrow> string" where
  "date_text = (\<lambda>(y, m, d). dec 4 y @ ''-'' @ dec 2 m @ ''-'' @ dec 2 d)"

definition clock_text :: "nat \<times> nat \<times> nat \<Rightarrow> string" where
  "clock_text = (\<lambda>(h, m, s). dec 2 h @ '':'' @ dec 2 m @ '':'' @ dec 2 s)"

definition entry_bytes :: "entry \<Rightarrow> u8 list" where
  "entry_bytes e =
     field 8 (bytes (e_dir e)) @ field 8 (bytes (e_file e)) @ u32_bytes (e_dirId e) @ u32_bytes (e_fileId e)
     @ e_unknown e @ field 48 (bytes (''sha1-'' @ concat (map hex2 (e_sha1 e))))
     @ bytes (date_text (e_date e) @ ''T'' @ clock_text (e_clock e) @ e_fraction e @ ''Z'') @ [0, 0, 0, 0]"

definition list_bytes :: "u8 list \<Rightarrow> u8 list \<Rightarrow> entry list \<Rightarrow> u8 list" where
  "list_bytes magic items es =
     magic @ u32_bytes 124 @ u32_bytes (length items div 8) @ items @ concat (map entry_bytes es)"

definition name_ok :: "string \<Rightarrow> bool" where
  "name_ok s \<longleftrightarrow> length s < 8 \<and> CHR 0x00 \<notin> set s"

definition entry_ok :: "entry \<Rightarrow> bool" where
  "entry_ok e \<longleftrightarrow> name_ok (e_dir e) \<and> name_ok (e_file e) \<and> e_dirId e < 2 ^ 31 \<and> e_fileId e < 2 ^ 31
     \<and> length (e_unknown e) = 24 \<and> length (e_sha1 e) = 20 \<and> fst (e_date e) < 10000
     \<and> fst (snd (e_date e)) < 100 \<and> snd (snd (e_date e)) < 100 \<and> fst (e_clock e) < 100
     \<and> fst (snd (e_clock e)) < 100 \<and> snd (snd (e_clock e)) < 100
     \<and> length (e_fraction e) = 4 \<and> CHR 0x00 \<notin> set (e_fraction e)"

text \<open>The photo that an entry describes.\<close>

definition photo_of :: "clock \<Rightarrow> nat \<Rightarrow> entry \<Rightarrow> Photo" where
  "photo_of clk camera e =
     Photo_ctor camera (e_dir e) (int (e_dirId e)) (e_file e) (int (e_fileId e)) (e_sha1 e)
       (mktime clk \<lparr>tm_year = int (fst (e_date e)) - 1900, tm_mon = int (fst (snd (e_date e))) - 1,
          tm_mday = int (snd (snd (e_date e))), tm_hour = int (fst (e_clock e)),
          tm_min = int (fst (snd (e_clock e))), tm_sec = int (snd (snd (e_clock e))),
          tm_isdst = isdst_garbage clk\<rparr> - timezone clk)"

lemma bytes_append [simp]: "bytes (a @ b) = bytes a @ bytes b"
  and length_bytes [simp]: "length (bytes a) = length a"
  and bytes_simps [simp]: "bytes [] = []" "bytes (c # cs) = of_nat (of_char c) # bytes cs"
  by (simp_all add: bytes_def)

lemma unat_of_char: "unat (of_nat (of_char c) :: u8) = of_char c"
  by (cases c) (simp add: unat_of_nat)

lemma chars_bytes [simp]: "chars (bytes s) = s"
  by (simp add: chars_def bytes_def unat_of_char o_def)

lemma bytes_no_zero: "CHR 0x00 \<notin> set s \<Longrightarrow> 0 \<notin> set (bytes s)"
proof -
  have zero: "char_of (0 :: nat) = CHR 0x00" by code_simp
  have "c = CHR 0x00" if "of_nat (of_char c) = (0 :: u8)" for c
  proof -
    have "of_char c = (0 :: nat)" using that unat_of_char [of c] by simp
    then show ?thesis using char_of_char [of c] zero by metis
  qed
  then show "CHR 0x00 \<notin> set s \<Longrightarrow> 0 \<notin> set (bytes s)"
    by (force simp: bytes_def)
qed

lemma c_string_bytes:
  assumes "drop i buf = bytes s @ 0 # rest" and "CHR 0x00 \<notin> set s"
  shows "c_string buf i = Inr s"
  using assms(1) bytes_no_zero [OF assms(2)] by (simp add: c_string_def takeWhile_append2 del: bytes_simps)
    (metis (mono_tags, lifting) append.right_neutral chars_bytes takeWhile.simps(2) takeWhile_append2)

lemma of_char_small: "n < 256 \<Longrightarrow> of_char (char_of n :: char) = (n :: nat)"
  by (simp add: of_char_of)

lemma dec_digits: "c \<in> set (dec w n) \<Longrightarrow> \<exists>k < 10. c = char_of (48 + k :: nat)"
proof (induction w arbitrary: n)
  case (Suc w)
  have "n mod 10 < 10" by simp
  then show ?case using Suc unfolding dec.simps set_append Un_iff list.set by blast
qed simp

lemma digit_value_dec: "k < 10 \<Longrightarrow> digit_value (char_of (48 + k :: nat)) = k"
  by (simp add: digit_value_def of_char_small Let_def)

lemma length_dec [simp]: "length (dec w n) = w"
  by (induction w arbitrary: n) simp_all

lemma foldl_dec: "n < 10 ^ w \<Longrightarrow> foldl (\<lambda>a c. a * 10 + digit_value c) 0 (dec w n) = n"
proof (induction w arbitrary: n)
  case (Suc w)
  have "n div 10 < 10 ^ w" using Suc.prems by (simp add: less_mult_imp_div_less mult.commute)
  then show ?case using Suc.IH [of "n div 10"] by (simp add: digit_value_dec)
qed simp

lemma digit_plain:
  assumes "k < 10"
  shows "\<not> is_space (char_of (48 + k :: nat))" and "char_of (48 + k :: nat) \<notin> {CHR ''-'', CHR ''+'', CHR 0x00}"
proof -
  have "list_all (\<lambda>k. \<not> is_space (char_of (48 + k :: nat)) \<and> char_of (48 + k :: nat) \<notin> set [CHR ''-'', CHR ''+'', CHR 0x00]) [0..<10]"
    by code_simp
  then show "\<not> is_space (char_of (48 + k :: nat))" and "char_of (48 + k :: nat) \<notin> {CHR ''-'', CHR ''+'', CHR 0x00}"
    using assms by (simp_all add: list_all_iff)
qed

lemma dec_hd: "0 < w \<Longrightarrow> \<exists>k < 10. \<exists>ds. dec w n = char_of (48 + k :: nat) # ds"
  using dec_digits [of "hd (dec w n)" w n] length_dec [of w n]
  by (metis hd_Cons_tl hd_in_set length_greater_0_conv)

lemma scan_dec [simp]:
  assumes "0 < w" and "n < 10 ^ w"
  shows "scan_number 10 w (dec w n @ rest) = Some (int n, rest)"
proof -
  obtain k ds where k: "k < 10" "dec w n = char_of (48 + k :: nat) # ds" using dec_hd [OF assms(1)] by blast
  note p = digit_plain [OF k(1)]
  have sp: "dropWhile is_space (dec w n @ rest) = dec w n @ rest" using k p(1) by simp
  have sg: "take 1 (dec w n @ rest) \<noteq> ''-''" "take 1 (dec w n @ rest) \<noteq> ''+''" using k p(2) by auto
  have tk: "takeWhile (\<lambda>c. digit_value c < 10) (dec w n) = dec w n"
    unfolding takeWhile_eq_all_conv using dec_digits digit_value_dec by metis
  have ne: "dec w n \<noteq> []" using k by simp
  have all: "take w (dec w n @ rest) = dec w n" "drop (length (dec w n)) (dec w n @ rest) = rest" by simp_all
  show ?thesis
    unfolding scan_number_def Let_def sp using sg ne foldl_dec [OF assms(2)]
    by (simp only: simp_thms if_False prod.case all) (simp add: tk)
qed

lemma scan_three_ok:
  assumes "0 < w" "a < 10 ^ w" "b < 100" "c < 100"
  shows "scan_three w sep (dec w a @ [sep] @ dec 2 b @ [sep] @ dec 2 c @ rest) = Inr (int a, int b, int c)"
  using assms scan_dec [of 2 b] scan_dec [of 2 c]
  by (simp add: scan_three_def set_by_scan_def scan_literal_def)

lemma hex_digit_plain:
  assumes "k < 16"
  shows "\<not> is_space (hex_digit k)" "hex_digit k \<notin> {CHR ''-'', CHR ''+'', CHR 0x00, CHR ''x'', CHR ''X''}"
    "digit_value (hex_digit k) = k"
proof -
  have "list_all (\<lambda>k. \<not> is_space (hex_digit k) \<and> digit_value (hex_digit k) = k
      \<and> hex_digit k \<notin> set [CHR ''-'', CHR ''+'', CHR 0x00, CHR ''x'', CHR ''X'']) [0..<16]"
    by code_simp
  then show "\<not> is_space (hex_digit k)" "hex_digit k \<notin> {CHR ''-'', CHR ''+'', CHR 0x00, CHR ''x'', CHR ''X''}"
    "digit_value (hex_digit k) = k"
    using assms by (simp_all add: list_all_iff)
qed

lemma scan_hex2 [simp]: "scan_number 16 2 (hex2 b @ rest) = Some (int (unat b), rest)"
proof -
  have b: "unat b div 16 < 16" "unat b mod 16 < 16" using unat_u8_less [of b] by auto
  show ?thesis
    using b hex_digit_plain [OF b(1)] hex_digit_plain [OF b(2)] by (simp add: scan_number_def Let_def hex2_def)
qed

lemma u32_at_bytes:
  assumes "drop i buf = u32_bytes n @ rest" and "n < 2 ^ 32"
  shows "u32_at buf i = Inr (of_nat n)"
proof -
  have u: "unat (of_nat m :: u8) = m mod 256" for m by (simp add: unat_of_nat)
  have top: "n div 256 div 256 div 256 mod 256 = n div 256 div 256 div 256" using assms(2) by simp
  have "unat (of_nat n :: u8) + 256 * (unat (of_nat (n div 256) :: u8) + 256 * (unat (of_nat (n div 256 div 256) :: u8)
      + 256 * unat (of_nat (n div 256 div 256 div 256) :: u8))) = n"
    unfolding u top by (simp only: mod_mult_div_eq)
  then have "(of_nat (unat (of_nat n :: u8) + 256 * (unat (of_nat (n div 256) :: u8) + 256 * (unat (of_nat (n div 256 div 256) :: u8)
      + 256 * unat (of_nat (n div 256 div 256 div 256) :: u8)))) :: u32) = of_nat n" by (rule arg_cong)
  then show ?thesis using assms(1) by (simp only: u32_at_def u32_bytes_def list.case append_Cons append_Nil)
qed

text \<open>What starts at the offsets of an entry.\<close>

lemma field_zero: "length bs < n \<Longrightarrow> field n bs = bs @ 0 # replicate (n - Suc (length bs)) 0"
  by (simp add: field_def Suc_diff_Suc [symmetric] replicate_Suc [symmetric] del: replicate_Suc)

lemma length_field [simp]: "length bs \<le> n \<Longrightarrow> length (field n bs) = n"
  by (simp add: field_def)

lemma length_hex [simp]: "length (concat (map hex2 sha)) = 2 * length sha"
  by (induction sha) (simp_all add: hex2_def)

lemma drop_hex: "drop (2 * i) (concat (map hex2 sha)) = concat (map hex2 (drop i sha))"
proof (induction sha arbitrary: i)
  case (Cons b sha)
  then show ?case by (cases i) (simp_all add: hex2_def)
qed simp

lemma bytes_drop: "drop n (bytes s) = bytes (drop n s)"
  by (simp add: bytes_def drop_map)

lemma hex2_no_zero: "CHR 0x00 \<notin> set (hex2 b)"
proof -
  have "unat b div 16 < 16" "unat b mod 16 < 16" using unat_u8_less [of b] by auto
  note hex_digit_plain(2) [OF this(1)] hex_digit_plain(2) [OF this(2)]
  then show ?thesis by (auto simp: hex2_def)
qed

lemma hex_no_zero: "CHR 0x00 \<notin> set (concat (map hex2 sha))"
  using hex2_no_zero by simp

lemma dec_no_zero: "CHR 0x00 \<notin> set (dec w n)"
  using dec_digits digit_plain(2) by (metis insertCI)

lemma length_u32_bytes [simp]: "length (u32_bytes n) = 4"
  by (simp add: u32_bytes_def)

lemma length_texts [simp]: "length (date_text d) = 10" "length (clock_text c) = 8"
  by (simp_all add: date_text_def clock_text_def split: prod.splits)

lemma texts_no_zero: "CHR 0x00 \<notin> set (date_text d)" "CHR 0x00 \<notin> set (clock_text c)"
  using dec_no_zero by (simp_all add: date_text_def clock_text_def split: prod.splits)

lemma length_entry_bytes: "entry_ok e \<Longrightarrow> length (entry_bytes e) = 124"
  by (simp add: entry_bytes_def entry_ok_def name_ok_def)

lemma entry_offsets:
  assumes "entry_ok e"
  shows "\<exists>r. entry_bytes e @ rest = bytes (e_dir e) @ 0 # r"
    and "\<exists>r. drop 8 (entry_bytes e @ rest) = bytes (e_file e) @ 0 # r"
    and "\<exists>r. drop 16 (entry_bytes e @ rest) = u32_bytes (e_dirId e) @ r"
    and "\<exists>r. drop 20 (entry_bytes e @ rest) = u32_bytes (e_fileId e) @ r"
    and "\<exists>r. drop 53 (entry_bytes e @ rest) = bytes (concat (map hex2 (e_sha1 e))) @ 0 # r"
    and "\<exists>r. drop 96 (entry_bytes e @ rest)
      = bytes (date_text (e_date e) @ ''T'' @ clock_text (e_clock e) @ e_fraction e @ ''Z'') @ 0 # r"
    and "\<exists>r. drop 107 (entry_bytes e @ rest) = bytes (clock_text (e_clock e) @ e_fraction e @ ''Z'') @ 0 # r"
proof -
  have l: "length (e_dir e) < 8" "length (e_file e) < 8" "length (e_unknown e) = 24" "length (e_sha1 e) = 20"
    using assms by (simp_all add: entry_ok_def name_ok_def)
  have sha: "field 48 (bytes (''sha1-'' @ concat (map hex2 (e_sha1 e))))
      = bytes ''sha1-'' @ bytes (concat (map hex2 (e_sha1 e))) @ 0 # replicate 2 0"
    using l by (subst field_zero) (simp_all)
  show "\<exists>r. entry_bytes e @ rest = bytes (e_dir e) @ 0 # r"
    using l(1) by (simp add: entry_bytes_def field_zero)
  show "\<exists>r. drop 8 (entry_bytes e @ rest) = bytes (e_file e) @ 0 # r"
    using l(1,2) by (simp add: entry_bytes_def field_zero [of "bytes (e_file e)"])
  show "\<exists>r. drop 16 (entry_bytes e @ rest) = u32_bytes (e_dirId e) @ r"
    and "\<exists>r. drop 20 (entry_bytes e @ rest) = u32_bytes (e_fileId e) @ r"
    using l(1,2) by (simp_all add: entry_bytes_def)
  show "\<exists>r. drop 53 (entry_bytes e @ rest) = bytes (concat (map hex2 (e_sha1 e))) @ 0 # r"
    using l by (simp add: entry_bytes_def sha [unfolded bytes_append, simplified])
  show "\<exists>r. drop 96 (entry_bytes e @ rest)
      = bytes (date_text (e_date e) @ ''T'' @ clock_text (e_clock e) @ e_fraction e @ ''Z'') @ 0 # r"
    using l by (simp add: entry_bytes_def)
  show "\<exists>r. drop 107 (entry_bytes e @ rest) = bytes (clock_text (e_clock e) @ e_fraction e @ ''Z'') @ 0 # r"
    using l by (simp add: entry_bytes_def)
qed

lemma parse_sha1:
  assumes "drop i buf = bytes (concat (map hex2 sha)) @ 0 # r" and "n \<le> length sha"
  shows "rfold (\<lambda>j sha1. rbind (sha1_byte buf (i + 2 * j)) (\<lambda>b. Inr (sha1 @ [b]))) [0..<n] [] = Inr (take n sha)"
  using assms(2)
proof (induction n)
  case (Suc n)
  have "drop (i + 2 * n) buf = drop (2 * n) (drop i buf)" by (simp add: add.commute)
  also have "\<dots> = bytes (concat (map hex2 (drop n sha))) @ 0 # r"
    using Suc.prems by (simp add: assms(1) bytes_drop drop_hex)
  finally have "c_string buf (i + 2 * n) = Inr (concat (map hex2 (drop n sha)))"
    using hex_no_zero by (rule c_string_bytes)
  moreover have "concat (map hex2 (drop n sha)) = hex2 (sha ! n) @ concat (map hex2 (drop (Suc n) sha))"
    using Suc.prems by (simp add: Cons_nth_drop_Suc [symmetric])
  ultimately have "sha1_byte buf (i + 2 * n) = Inr (sha ! n)"
    by (simp add: sha1_byte_def set_by_scan_def)
  then show ?case using Suc by (simp add: rfold_append take_Suc_conv_app_nth)
qed simp

lemma parseLine_ok:
  assumes e: "entry_ok e" and buf: "drop line buf = entry_bytes e @ rest"
  shows "parseLine clk camera buf line = Inr (photo_of clk camera e)"
proof -
  have at: "drop (line + k) buf = drop k (entry_bytes e @ rest)" for k
    unfolding buf [symmetric] by (simp add: add.commute)
  note o = entry_offsets [OF e, of rest]
  obtain y m d h mi s where dt: "e_date e = (y, m, d)" "e_clock e = (h, mi, s)" by (metis prod_cases3)
  have dir: "c_string buf line = Inr (e_dir e)"
    using o(1) e buf by (auto simp: entry_ok_def name_ok_def intro: c_string_bytes)
  have name: "c_string buf (line + 8) = Inr (e_file e)"
    using o(2) e at [of 8] by (auto simp: entry_ok_def name_ok_def intro: c_string_bytes)
  have dirId: "u32_at buf (line + 16) = Inr (of_nat (e_dirId e))"
    using o(3) e at [of 16] by (auto simp: entry_ok_def intro: u32_at_bytes)
  have fileId: "u32_at buf (line + 20) = Inr (of_nat (e_fileId e))"
    using o(4) e at [of 20] by (auto simp: entry_ok_def intro: u32_at_bytes)
  obtain r where "drop (line + 53) buf = bytes (concat (map hex2 (e_sha1 e))) @ 0 # r"
    using o(5) at [of 53] by auto
  then have sha: "rfold (\<lambda>j sha1. rbind (sha1_byte buf (line + 53 + 2 * j)) (\<lambda>b. Inr (sha1 @ [b]))) [0..<20] []
      = Inr (e_sha1 e)"
    using parse_sha1 [of "line + 53" buf "e_sha1 e" r 20] e by (simp add: entry_ok_def)
  have frac: "CHR 0x00 \<notin> set (e_fraction e)" using e by (simp add: entry_ok_def)
  have "c_string buf (line + 96) = Inr (date_text (e_date e) @ ''T'' @ clock_text (e_clock e) @ e_fraction e @ ''Z'')"
    using o(6) at [of 96] texts_no_zero(1) [of "e_date e"] texts_no_zero(2) [of "e_clock e"] frac by (auto intro!: c_string_bytes)
  then have date: "rbind (c_string buf (line + 96)) (scan_three 4 CHR ''-'') = Inr (int y, int m, int d)"
    using e scan_three_ok [of 4 y m d] by (simp add: dt date_text_def entry_ok_def)
  have "c_string buf (line + 107) = Inr (clock_text (e_clock e) @ e_fraction e @ ''Z'')"
    using o(7) at [of 107] texts_no_zero(2) [of "e_clock e"] frac by (auto intro!: c_string_bytes)
  then have clock: "rbind (c_string buf (line + 107)) (scan_three 2 CHR '':'') = Inr (int h, int mi, int s)"
    using e scan_three_ok [of 2 h mi s] by (simp add: dt clock_text_def entry_ok_def)
  have "sint (of_nat n :: u32) = int n" if "n < 2 ^ 31" for n
    using that by (simp add: signed_of_nat signed_take_bit_int_eq_self)
  then have ids: "sint (of_nat (e_dirId e) :: u32) = int (e_dirId e)" "sint (of_nat (e_fileId e) :: u32) = int (e_fileId e)"
    using e by (simp_all add: entry_ok_def)
  show ?thesis
    using dir name dirId fileId sha date clock ids
    by (simp add: parseLine_def photo_of_def dt Let_def add.assoc)
qed

text \<open>The loop over the entries.\<close>

lemma parse_lines_entries:
  assumes "\<forall>e \<in> set es. entry_ok e" and "drop pos buf = concat (map entry_bytes es)" and "pos \<le> length buf"
  shows "parse_lines clk camera buf 124 pos acc = Some (Inr (acc @ map (photo_of clk camera) es))"
  using assms
proof (induction es arbitrary: pos acc)
  case Nil
  then show ?case by (subst parse_lines.simps) auto
next
  case (Cons e es)
  have e: "drop pos buf = entry_bytes e @ concat (map entry_bytes es)" "entry_ok e" using Cons.prems by auto
  have "length (drop pos buf) = 124 + length (concat (map entry_bytes es))"
    unfolding e(1) length_append length_entry_bytes [OF e(2)] ..
  then have l: "pos + 124 \<le> length buf" using Cons.prems(3) by (simp only: length_drop)
  have "drop (pos + 124) buf = drop 124 (drop pos buf)" by (simp add: add.commute)
  then have "drop (pos + 124) buf = concat (map entry_bytes es)"
    using e by (simp add: length_entry_bytes)
  then show ?case
    using Cons.IH [of "pos + 124" "acc @ [photo_of clk camera e]"] Cons.prems(1) l parseLine_ok [OF e(2,1)]
    by (subst parse_lines.simps) simp
qed

lemma parse_list_ok:
  assumes es: "\<forall>e \<in> set es. entry_ok e" and m: "length magic = 4"
    and i: "length items mod 8 = 0" "length items < 2 ^ 31"
  shows "parseFileList clk camera (list_bytes magic items es) = Some (Inr (map (photo_of clk camera) es))"
proof -
  let ?buf = "list_bytes magic items es" and ?n = "length items div 8"
  have "u32_at ?buf 4 = Inr (of_nat 124)"
    by (rule u32_at_bytes [where rest = "u32_bytes ?n @ items @ concat (map entry_bytes es)"]) (simp_all add: list_bytes_def m)
  moreover have "u32_at ?buf 8 = Inr (of_nat ?n)"
    by (rule u32_at_bytes [where rest = "items @ concat (map entry_bytes es)"]) (use i in \<open>simp_all add: list_bytes_def m\<close>)
  moreover have "unat (of_nat ?n * 8 + 12 :: u32) = length items + 12"
  proof -
    have "of_nat ?n * 8 + 12 = (of_nat (?n * 8 + 12) :: u32)" by simp
    also have "?n * 8 + 12 = length items + 12" using i(1) by auto
    finally show ?thesis using i(2) by (simp add: unat_of_nat del: of_nat_add)
  qed
  moreover have "parse_lines clk camera ?buf 124 (length items + 12) [] = Some (Inr ([] @ map (photo_of clk camera) es))"
    by (rule parse_lines_entries [OF es]) (simp_all add: list_bytes_def m)
  ultimately show ?thesis by (simp add: parseFileList_def)
qed

lemma parse_lines_returns: "0 < linelen \<Longrightarrow> \<exists>r. parse_lines clk camera buf linelen pos acc = Some r"
proof (induction "length buf - pos" arbitrary: pos acc rule: less_induct)
  case less
  show ?case
  proof (cases "pos + linelen \<le> length buf")
    case True
    with less.prems have "length buf - (pos + linelen) < length buf - pos" by simp
    from less.hyps [OF this less.prems] show ?thesis
      using True by (subst parse_lines.simps) (auto split: sum.splits)
  next
    case False
    then show ?thesis by (subst parse_lines.simps) simp
  qed
qed

lemma parse_lines_forever:
  assumes "parseLine clk camera buf pos = Inr photo" and "pos \<le> length buf"
  shows "parse_lines clk camera buf 0 pos acc = None"
proof (rule ccontr)
  assume "parse_lines clk camera buf 0 pos acc \<noteq> None"
  then obtain v where v: "parse_lines clk camera buf 0 pos acc = Some v" by blast
  have "l = 0 \<longrightarrow> p = pos \<longrightarrow> b = buf \<longrightarrow> c = clk \<longrightarrow> k = camera \<longrightarrow> False"
    if "parse_lines c k b l p a = Some v" for c k b l p a v
    using that
    by (rule parse_lines.raw_induct [rotated]) (use assms in \<open>auto split: sum.splits if_splits\<close>)
  then show False using v by blast
qed

text \<open>
  C21: reading what the format describes. On a file list with a header and entries as documented,
  \<open>parseFileList\<close> returns one photo per entry, in order, with the path and the name made of the
  directory and file of the entry, its hash, and the time that \<open>mktime\<close> gives for its date.
\<close>
theorem parseFileList_round_trip:
  assumes "\<forall>e \<in> set es. entry_ok e" and "length magic = 4"
    and "length items mod 8 = 0" and "length items < 2 ^ 31"
  shows "parseFileList clk camera (list_bytes magic items es) = Some (Inr (map (photo_of clk camera) es))"
  using assms by (rule parse_list_ok)

definition sample_entry :: entry where
  "sample_entry = \<lparr>e_dir = ''PHOTO'', e_file = ''IMG_'', e_dirId = 100, e_fileId = 7, e_unknown = replicate 24 0,
     e_sha1 = replicate 20 171, e_date = (2012, 3, 4), e_clock = (23, 59, 1), e_fraction = ''.123''\<rparr>"

definition sample_clock :: clock where
  "sample_clock = \<lparr>mktime = (\<lambda>t. tm_sec t + 60 * (tm_min t + 60 * tm_hour t)), timezone = 3600, isdst_garbage = 0\<rparr>"

lemma sample_entry_ok: "entry_ok sample_entry"
  by (simp add: entry_ok_def sample_entry_def name_ok_def)

theorem parseFileList_round_trip_witness:
  "parseFileList sample_clock 0 (list_bytes [0, 0, 0, 0] (replicate 16 1) [sample_entry, sample_entry])
     = Some (Inr [photo_of sample_clock 0 sample_entry, photo_of sample_clock 0 sample_entry])"
  using parseFileList_round_trip [of "[sample_entry, sample_entry]" "[0, 0, 0, 0]" "replicate 16 1" sample_clock 0]
    sample_entry_ok by simp

text \<open>
  C22: when \<open>parseFileList\<close> ends. It runs forever exactly for a file list whose header gives 0 as the
  length of an entry, when the position of the first entry is in the buffer and this entry can be
  parsed; it then adds the same photo again and again. For every other buffer it returns.
\<close>
theorem parseFileList_ends:
  "parseFileList clk camera buf = None \<longleftrightarrow>
     u32_at buf 4 = Inr 0 \<and> (\<exists>k photo. u32_at buf 8 = Inr k \<and> unat (k * 8 + 12) \<le> length buf
       \<and> parseLine clk camera buf (unat (k * 8 + 12)) = Inr photo)"
proof (cases "\<exists>n k. u32_at buf 4 = Inr n \<and> u32_at buf 8 = Inr k")
  case False
  then show ?thesis by (auto simp: parseFileList_def split: sum.splits)
next
  case True
  then obtain n k where nk: "u32_at buf 4 = Inr n" "u32_at buf 8 = Inr k" by blast
  let ?pos = "unat (k * 8 + 12)"
  have eq: "parseFileList clk camera buf = parse_lines clk camera buf (unat n) ?pos []"
    by (simp add: parseFileList_def nk)
  show ?thesis
  proof (cases "n = 0")
    case False
    then have "0 < unat n" by (simp add: unat_gt_0)
    from parse_lines_returns [OF this] show ?thesis using eq nk False by (metis option.distinct(1) sum.inject(2))
  next
    case True
    have "parse_lines clk camera buf 0 ?pos [] \<noteq> None"
      if "\<not> (?pos \<le> length buf \<and> (\<exists>photo. parseLine clk camera buf ?pos = Inr photo))"
      using that by (subst parse_lines.simps) (auto split: sum.splits)
    then have "parse_lines clk camera buf 0 ?pos [] = None
        \<longleftrightarrow> ?pos \<le> length buf \<and> (\<exists>photo. parseLine clk camera buf ?pos = Inr photo)"
      using parse_lines_forever by blast
    then show ?thesis by (simp add: eq nk True)
  qed
qed

text \<open>
  the header is read without a look at the size of the answer: a file list of fewer than 12 bytes,
  for instance of a camera that sends nothing, is read out of bounds.
\<close>
lemma parseFileList_short:
  assumes "length buf < 12"
  shows "parseFileList clk camera buf = Some (Inl OutOfBounds)"
proof -
  have "u32_at buf 8 = Inl OutOfBounds"
  proof -
    have "length (drop 8 buf) < 4" using assms by simp
    then show ?thesis
      unfolding u32_at_def by (auto split: list.splits dest: arg_cong [of _ _ length])
  qed
  moreover have "u32_at buf 4 = Inl OutOfBounds \<or> (\<exists>n. u32_at buf 4 = Inr n)"
    by (auto simp: u32_at_def split: list.splits)
  ultimately show ?thesis by (auto simp: parseFileList_def)
qed

text \<open>A request to the camera a pointer refers to.\<close>

lemma get_with_ok:
  assumes "camera_protocol ops pending stored listing info busy" and "c < length cameras"
    and "cameras ! c = Some s" and "\<not> cameraAccessMutex s"
    and "length (stored (device s) (c_bytes (path @ ext))) < 256 * 65536"
  shows "\<exists>s'. get_with ops ext (Some \<lparr>m_camera = c, m_fullpath = path, m_basename = name\<rparr>) cameras
      = Some (Inr (stored (device s) (c_bytes (path @ ext))), cameras[c := Some s'])
    \<and> stored (device s') = stored (device s) \<and> \<not> cameraAccessMutex s'"
  using camera_protocol.file_ok [OF assms(1,4,5)] camera_protocol.same_def [OF assms(1)] assms
  by (auto simp: get_with_def getCamera_def getFullPath_def image_get_def at_camera_def getFile_def pimpl_def)

lemma photo_image:
  "fst (photo_of clk c e) = Some \<lparr>m_camera = c,
     m_fullpath = constructPath (e_dir e) (int (e_dirId e)) @ constructBaseName (e_file e) (int (e_fileId e)),
     m_basename = constructBaseName (e_file e) (int (e_fileId e))\<rparr>"
  by (simp add: photo_of_def Photo_ctor_def Image_ctor_def)

lemma picture_list_ok:
  assumes "camera_protocol ops pending stored listing info busy"
    and "c < length cameras" and "cameras ! c = Some s" and "\<not> cameraAccessMutex s"
    and "listing (device s) = list_bytes magic items es" and "length (listing (device s)) < 256 * 65536"
    and "\<forall>e \<in> set es. entry_ok e" and "length magic = 4" and "length items mod 8 = 0"
  shows "\<exists>s'. getPictureList ops clk c cameras = Some (Inr (map (photo_of clk c) es), cameras[c := Some s'])
    \<and> stored (device s') = stored (device s) \<and> \<not> cameraAccessMutex s'"
proof -
  obtain s' where s': "Impl_getPictureList ops s = Some (Inr (listing (device s)), s')"
      "stored (device s') = stored (device s)" "\<not> cameraAccessMutex s'"
    using camera_protocol.list_ok [OF assms(1,4,6)] camera_protocol.same_def [OF assms(1)] assms(4) by auto
  have "length items < 2 ^ 31" using assms(5,6) by (simp add: list_bytes_def)
  then have "getPictureList ops clk c cameras = Some (Inr (map (photo_of clk c) es), cameras[c := Some s'])"
    using assms s' parse_list_ok [of es magic items clk c]
    by (simp add: getPictureList_def at_camera_def Camera_getPictureList_def checked_def pimpl_def bind_io_def)
  then show ?thesis using s'(2,3) by blast
qed

text \<open>
  from the picture list to the data of a picture. When the camera answers by its protocol and its
  picture list is as documented, \<open>getPictureList\<close> gives the photos of the list, and \<open>getImageData\<close> of
  each of them is the content of the file \<open>I:\DCIM\<close>, number and name of the directory, name and
  four-digit number of the file, \<open>.RAW\<close>.
\<close>
lemma picture_download:
  assumes "camera_protocol ops pending stored listing info busy"
    and "c < length cameras" and "cameras ! c = Some s" and "\<not> cameraAccessMutex s"
    and "listing (device s) = list_bytes magic items es" and "length (listing (device s)) < 256 * 65536"
    and "\<forall>e \<in> set es. entry_ok e" and "length magic = 4" and "length items mod 8 = 0"
    and "\<forall>f. length (stored (device s) f) < 256 * 65536"
  shows "\<exists>cameras'. getPictureList ops clk c cameras = Some (Inr (map (photo_of clk c) es), cameras')
    \<and> (\<forall>e \<in> set es. \<exists>cameras''. getImageData ops (fst (photo_of clk c e)) cameras'
        = Some (Inr (stored (device s) (c_bytes (constructPath (e_dir e) (int (e_dirId e))
            @ constructBaseName (e_file e) (int (e_fileId e)) @ ''.RAW''))), cameras''))"
proof -
  obtain s' where s': "getPictureList ops clk c cameras = Some (Inr (map (photo_of clk c) es), cameras[c := Some s'])"
      "stored (device s') = stored (device s)" "\<not> cameraAccessMutex s'"
    using picture_list_ok [OF assms(1-9)] by blast
  note s'(1)
  moreover have "\<exists>cameras''. getImageData ops (fst (photo_of clk c e)) (cameras[c := Some s'])
        = Some (Inr (stored (device s) (c_bytes (constructPath (e_dir e) (int (e_dirId e))
            @ constructBaseName (e_file e) (int (e_fileId e)) @ ''.RAW''))), cameras'')" for e
    using get_with_ok [OF assms(1), of c "cameras[c := Some s']" s'
        "constructPath (e_dir e) (int (e_dirId e)) @ constructBaseName (e_file e) (int (e_fileId e))" "''.RAW''"
        "constructBaseName (e_file e) (int (e_fileId e))"] assms(2,10) s'
    by (auto simp: getImageData_def photo_image)
  ultimately show ?thesis by blast
qed

definition one_photo_camera :: sim where
  "one_photo_camera = \<lparr>sim_files = [], sim_list = list_bytes [0, 0, 0, 0] [] [sample_entry], sim_info = [],
     sim_busy = 0, sim_pending = []\<rparr>"

lemma fill0_dec:
  assumes "i < 100"
  shows "fill0 4 (show_nat i) = dec 4 i"
proof -
  have four: "(4 :: nat) = Suc (Suc (Suc (Suc 0)))" by simp
  have z: "char_of (48 :: nat) = CHR ''0''" by code_simp
  have d: "dec 4 i = [CHR ''0'', CHR ''0'', char_of (48 + i div 10), char_of (48 + i mod 10)]"
    using assms unfolding four dec.simps by (simp add: z)
  show ?thesis
  proof (cases "i < 10")
    case True
    then show ?thesis unfolding d by (simp add: show_nat.simps [of i] fill0_def numeral_3_eq_3 z)
  next
    case False
    moreover have "i div 10 < 10" using assms by simp
    ultimately have "show_nat i = [char_of (48 + i div 10), char_of (48 + i mod 10)]"
      by (simp add: show_nat.simps [of i] show_nat.simps [of "i div 10"])
    then show ?thesis unfolding d by (simp add: fill0_def numeral_2_eq_2)
  qed
qed

lemma dec_inj: "i < 10 ^ w \<Longrightarrow> j < 10 ^ w \<Longrightarrow> dec w i = dec w j \<Longrightarrow> i = j"
  by (metis foldl_dec)

text \<open>
  the calibration images are the 62 files \<open>MOD_0000\<close> to \<open>MOD_0061\<close> of the directory
  \<open>C:\T1CALIB\<close>, each named once.
\<close>
lemma getCalibrationList_correct:
  "length (getCalibrationList c) = 62 \<and> distinct (map getName (getCalibrationList c))
    \<and> map getName (getCalibrationList c) = map (\<lambda>i. Inr (''MOD_'' @ dec 4 i)) [0..<62]
    \<and> map getFullPath (getCalibrationList c)
      = map (\<lambda>i. Inr (''C:'' @ [backslash] @ ''T1CALIB'' @ [backslash] @ ''MOD_'' @ dec 4 i)) [0..<62]"
proof -
  have n: "map getName (getCalibrationList c) = map (\<lambda>i. Inr (''MOD_'' @ dec 4 i)) [0..<62]"
    and p: "map getFullPath (getCalibrationList c)
      = map (\<lambda>i. Inr (''C:'' @ [backslash] @ ''T1CALIB'' @ [backslash] @ ''MOD_'' @ dec 4 i)) [0..<62]"
    by (auto simp: getCalibrationList_def calibration_image_def Image_ctor_def getName_def getFullPath_def
        image_get_def fill0_dec simp del: upt_conv_Cons upt_rec_numeral dec.simps)
  have "inj_on (\<lambda>i. Inr (''MOD_'' @ dec 4 i) :: string res) (set [0..<62])"
    using dec_inj [of _ 4] by (auto simp: inj_on_def)
  then have "distinct (map (\<lambda>i. Inr (''MOD_'' @ dec 4 i) :: string res) [0..<62])"
    unfolding distinct_map by (simp only: distinct_upt simp_thms)
  then show ?thesis unfolding n p by (simp add: getCalibrationList_def del: upt_rec_numeral)
qed

end
