(* ===== verification/Lens_Detector.thy ===== *)
theory Lens_Detector
  imports Grid_Finalize
begin

text \<open>
  \<open>lib/calibration/lensdetector\<close>: the centroids of the lenses in a picture.

  A one-channel \<open>cv::Mat\<close> is its size and its continuous buffer, and \<open>at\<close> computes a position in the
  buffer without looking at the column, as in a release build. Coordinates are the signed \<open>int\<close> of
  the code, positions in the buffer are checked against it. The moments are sums in \<open>double\<close>. Square
  roots are a parameter, and so are the conversion to gray, the mean of a part of the image and the
  preprocessor that makes the mask, which the theory \<open>Preprocessing\<close> models.
\<close>

record gmat =
  g_rows :: int
  g_cols :: int
  g_data :: "u8 list"

definition EMPTY :: u8 where "EMPTY = 0"
definition PROCESSED :: u8 where "PROCESSED = 128"
definition OBJECT :: u8 where "OBJECT = 255"

definition MAX_LENS_SIZE :: int where "MAX_LENS_SIZE = 15"

text \<open>The sums and the mask that \<open>findCentroid\<close> updates.\<close>

record moments =
  m01 :: fl
  m10 :: fl
  m_sum :: fl
  f_mask :: "u8 list"

text \<open>\<open>m10 += y * data[pos]; m01 += x * data[pos]; sum += data[pos]; maskData[pos] = PROCESSED\<close>\<close>

definition add_pixel :: "u8 list \<Rightarrow> int \<Rightarrow> int \<Rightarrow> int \<Rightarrow> moments \<Rightarrow> moments res" where
  "add_pixel img y x pos s =
     rbind (ld img pos) (\<lambda>d.
     rbind (st (f_mask s) pos PROCESSED) (\<lambda>msk'.
     Inr (s\<lparr>m10 := fadd binary64 (m10 s) (Fin (of_int (y * uint d))),
            m01 := fadd binary64 (m01 s) (Fin (of_int (x * uint d))),
            m_sum := fadd binary64 (m_sum s) (Fin (of_int (uint d))), f_mask := msk'\<rparr>)))"

text \<open>The loops to the left and to the right along a row. The first returns the new \<open>startx\<close>, the
  second the \<open>x\<close> at which it stopped.\<close>

function fill_left :: "u8 list \<Rightarrow> int \<Rightarrow> int \<Rightarrow> int \<Rightarrow> int \<Rightarrow> moments \<Rightarrow> (int \<times> moments) res" where
  "fill_left img y minx x tmppos s =
     (if x < minx then Inr (x + 1, s)
      else rbind (ld (f_mask s) tmppos) (\<lambda>v.
        if v = OBJECT then rbind (add_pixel img y x tmppos s) (\<lambda>s'. fill_left img y minx (x - 1) (tmppos - 1) s')
        else Inr (x + 1, s)))"
  by pat_completeness auto
termination by (relation "measure (\<lambda>(img, y, minx, x, tmppos, s). nat (x + 1 - minx))") auto

function fill_right :: "u8 list \<Rightarrow> int \<Rightarrow> int \<Rightarrow> int \<Rightarrow> int \<Rightarrow> moments \<Rightarrow> (int \<times> moments) res" where
  "fill_right img y maxx x tmppos s =
     (if maxx \<le> x then Inr (x, s)
      else rbind (ld (f_mask s) tmppos) (\<lambda>v.
        if v = OBJECT then rbind (add_pixel img y x tmppos s) (\<lambda>s'. fill_right img y maxx (x + 1) (tmppos + 1) s')
        else Inr (x, s)))"
  by pat_completeness auto
termination by (relation "measure (\<lambda>(img, y, maxx, x, tmppos, s). nat (maxx - x))") auto

text \<open>The search for the first object pixel of a row: \<open>None\<close> is the jump to \<open>findCentroid_stop\<close>.\<close>

function find_start :: "u8 list \<Rightarrow> int \<Rightarrow> int \<Rightarrow> int \<Rightarrow> (int \<times> int) option res" where
  "find_start msk endpos tmppos startx =
     rbind (ld msk tmppos) (\<lambda>v.
       if v = OBJECT then Inr (Some (startx, tmppos))
       else if tmppos = endpos then Inr None
       else find_start msk endpos (tmppos + 1) (startx + 1))"
  by pat_completeness auto
termination by (relation "measure (\<lambda>(msk, endpos, tmppos, startx). nat (int (length msk) - tmppos))")
    (auto simp: res_simps)

declare fill_left.simps [simp del] fill_right.simps [simp del] find_start.simps [simp del]

function search_rows ::
  "u8 list \<Rightarrow> int \<Rightarrow> int \<Rightarrow> int \<Rightarrow> int \<Rightarrow> int \<Rightarrow> int \<Rightarrow> int \<Rightarrow> moments \<Rightarrow> moments res" where
  "search_rows img cols maxy minx maxx y startx endx s =
     (if maxy \<le> y then Inr s
      else
        (let pos = cols * y + startx; endpos = cols * y + endx in
         rbind (ld (f_mask s) pos) (\<lambda>v.
           if v = OBJECT then
             rbind (fill_left img y minx (startx - 1) (pos - 1) s) (\<lambda>(startx', s1).
             rbind (fill_right img y maxx startx pos s1) (\<lambda>(x, s2).
             search_rows img cols maxy minx maxx (y + 1) startx' (x - 1) s2))
           else
             rbind (find_start (f_mask s) endpos pos startx) (\<lambda>r.
               case r of
                 None \<Rightarrow> Inr s
               | Some (startx', tmppos) \<Rightarrow>
                   rbind (fill_right img y maxx startx' tmppos s) (\<lambda>(x, s2).
                   search_rows img cols maxy minx maxx (y + 1) startx' (x - 1) s2)))))"
  by pat_completeness auto
termination by (relation "measure (\<lambda>(img, cols, maxy, minx, maxx, y, startx, endx, s). nat (maxy - y))") auto

declare search_rows.simps [simp del]

text \<open>\<open>findCentroid\<close>: the centroid and the mask.\<close>

definition findCentroid :: "gmat \<Rightarrow> gmat \<Rightarrow> int \<times> int \<Rightarrow> ((fl \<times> fl) \<times> gmat) res" where
  "findCentroid img msk = (\<lambda>(x, y).
     if x = g_cols img - 1 then Inr ((Fin 0, Fin 0), msk)
     else
       (let maxy = min (y + MAX_LENS_SIZE) (g_rows img);
            maxx = min (x + MAX_LENS_SIZE) (g_cols img);
            minx = max (x - MAX_LENS_SIZE) 0
        in rbind (search_rows (g_data img) (g_cols img) maxy minx maxx y x (x + 1)
                    \<lparr>m01 = Fin 0, m10 = Fin 0, m_sum = Fin 0, f_mask = g_data msk\<rparr>) (\<lambda>s.
           Inr ((to_fmt binary32 (fdiv binary64 (m01 s) (m_sum s)), to_fmt binary32 (fdiv binary64 (m10 s) (m_sum s))),
                msk\<lparr>g_data := f_mask s\<rparr>))))"

definition mat_at :: "gmat \<Rightarrow> int \<Rightarrow> int \<Rightarrow> u8 res" where
  "mat_at img y x = ld (g_data img) (g_cols img * y + x)"

text \<open>\<open>std::floor\<close> and the conversion to \<open>unsigned int\<close>, and from there to \<open>int\<close>.\<close>

fun floor_uint :: "fl \<Rightarrow> int res" where
  "floor_uint (Fin a) = (if 0 \<le> \<lfloor>a\<rfloor> \<and> \<lfloor>a\<rfloor> < 2 ^ 31 then Inr \<lfloor>a\<rfloor> else Inl BadConversion)"
| "floor_uint _ = Inl BadConversion"

definition pixel_fl :: "u8 \<Rightarrow> fl" where
  "pixel_fl b = Fin (of_int (uint b))"

definition getInterpolatedColor :: "gmat \<Rightarrow> fl \<times> fl \<Rightarrow> fl res" where
  "getInterpolatedColor img = (\<lambda>(px, py).
     if flt px (Fin 0) \<or> flt (fl_of_int binary32 (g_cols img - 1)) px
        \<or> flt py (Fin 0) \<or> flt (fl_of_int binary32 (g_rows img - 1)) py
     then Inr (Fin 0)
     else
       rbind (floor_uint px) (\<lambda>x0. rbind (floor_uint py) (\<lambda>y0.
       let x1 = x0 + 1; y1 = y0 + 1 in
       rbind (mat_at img y0 x0) (\<lambda>f00. rbind (mat_at img y0 x1) (\<lambda>f01.
       rbind (mat_at img y1 x0) (\<lambda>f10. rbind (mat_at img y1 x1) (\<lambda>f11.
       let x0dif = fsub binary32 px (fl_of_int binary32 x0);
           x1dif = to_fmt binary32 (fsub binary64 (Fin 1) x0dif);
           y0dif = fsub binary32 py (fl_of_int binary32 y0);
           y1dif = to_fmt binary32 (fsub binary64 (Fin 1) y0dif);
           part = (\<lambda>f a b. fmul binary32 (fmul binary32 (pixel_fl f) a) b)
       in Inr (fadd binary32 (fadd binary32 (fadd binary32 (part f00 y1dif x1dif) (part f10 x0dif y1dif))
                  (part f01 x1dif y0dif)) (part f11 x0dif y0dif)))))))))"

text \<open>\<open>std::round\<close>: halves away from zero.\<close>

fun round_int :: "fl \<Rightarrow> int res" where
  "round_int (Fin a) = int_of_fl (Fin (of_int (if 0 \<le> a then \<lfloor>a + 1 / 2\<rfloor> else \<lceil>a - 1 / 2\<rceil>)))"
| "round_int _ = Inl BadConversion"

definition mask_row :: "(fl \<Rightarrow> fl) \<Rightarrow> fl \<Rightarrow> int \<Rightarrow> (fl \<times> fl) list \<Rightarrow> (fl \<times> fl) list res" where
  "mask_row sqrt_fn r2 y acc =
     rbind (round_int (sqrt_fn (fsub binary32 r2 (fl_of_int binary32 (y * y))))) (\<lambda>x0.
     Inr (acc @ map (\<lambda>x. (fl_of_int binary32 x, fl_of_int binary32 y)) [- x0..x0]))"

definition computeMask :: "(fl \<Rightarrow> fl) \<Rightarrow> int \<Rightarrow> (fl \<times> fl) list res" where
  "computeMask sqrt_fn radius =
     rfold (mask_row sqrt_fn (fl_of_int binary32 (radius * radius))) (rev [- radius..radius]) []"

definition refine_pixel :: "gmat \<Rightarrow> fl \<times> fl \<Rightarrow> fl \<times> fl \<Rightarrow> fl \<times> fl \<times> fl \<Rightarrow> (fl \<times> fl \<times> fl) res" where
  "refine_pixel img estimate point = (\<lambda>(s01, s10, sum).
     let px = fadd binary32 (fst point) (fst estimate); py = fadd binary32 (snd point) (snd estimate) in
     rbind (getInterpolatedColor img (px, py)) (\<lambda>pixel.
     Inr (fadd binary64 s01 (fmul binary32 px pixel), fadd binary64 s10 (fmul binary32 py pixel), fadd binary64 sum pixel)))"

definition refine_step :: "gmat \<Rightarrow> (fl \<times> fl) list \<Rightarrow> fl \<times> fl \<Rightarrow> (fl \<times> fl) res" where
  "refine_step img msk estimate =
     rbind (rfold (refine_pixel img estimate) msk (Fin 0, Fin 0, Fin 0)) (\<lambda>(s01, s10, sum).
     Inr (to_fmt binary32 (fdiv binary64 s01 sum), to_fmt binary32 (fdiv binary64 s10 sum)))"

definition refineCentroid :: "(fl \<Rightarrow> fl) \<Rightarrow> gmat \<Rightarrow> fl \<times> fl \<Rightarrow> (fl \<times> fl) res" where
  "refineCentroid sqrt_fn img start =
     rbind (rfold (\<lambda>radius acc. rbind (computeMask sqrt_fn radius) (\<lambda>msk. Inr (acc @ [msk]))) [3, 4, 5, 6] [])
       (\<lambda>offsetlist. rfold (refine_step img) offsetlist start)"

subsection \<open>LensDetector\<close>

record 'i cv_image =
  to_gray :: "'i \<Rightarrow> gmat"
  mean_of :: "gmat \<Rightarrow> int \<times> int \<times> int \<times> int \<Rightarrow> fl res"
  preprocess :: "gmat \<Rightarrow> gmat"

text \<open>\<open>cv::Mat::t\<close>\<close>

definition transposed :: "gmat \<Rightarrow> gmat" where
  "transposed m = \<lparr>g_rows = g_cols m, g_cols = g_rows m,
     g_data = concat (map (\<lambda>x. map (\<lambda>y. g_data m ! (y * nat (g_cols m) + x)) [0..<nat (g_rows m)]) [0..<nat (g_cols m)])\<rparr>"

text \<open>The conversion of a \<open>Point2f\<close> to the integer point of \<open>at\<close> rounds to the nearest integer, halves to
  even.\<close>

fun round_even :: "fl \<Rightarrow> int res" where
  "round_even (Fin a) = Inr (rne a)"
| "round_even _ = Inl BadConversion"

definition mark_centroid :: "fl \<times> fl \<Rightarrow> gmat \<Rightarrow> gmat res" where
  "mark_centroid centroid msk =
     rbind (round_even (fst centroid)) (\<lambda>x. rbind (round_even (snd centroid)) (\<lambda>y.
     rbind (st (g_data msk) (g_cols msk * y + x) 192) (\<lambda>d. Inr (msk\<lparr>g_data := d\<rparr>))))"

definition detect_pixel :: "(fl \<Rightarrow> fl) \<Rightarrow> gmat \<Rightarrow> int \<times> int \<Rightarrow> gmat \<times> PointGrid \<Rightarrow> (gmat \<times> PointGrid) res" where
  "detect_pixel sqrt_fn img = (\<lambda>(row, col) (msk, grid).
     rbind (mat_at msk row col) (\<lambda>v.
       if v = OBJECT then
         rbind (findCentroid img msk (col, row)) (\<lambda>(centroid0, mask1).
         rbind (refineCentroid sqrt_fn img centroid0) (\<lambda>centroid.
         let grid1 = addPoint centroid grid in
         rbind (mark_centroid centroid mask1) (\<lambda>mask2. Inr (mask2, grid1))))
       else Inr (msk, grid)))"

definition pixels :: "gmat \<Rightarrow> (int \<times> int) list" where
  "pixels m = concat (map (\<lambda>row. map (\<lambda>col. (row, col)) [0..g_cols m - 1]) [0..g_rows m - 1])"

text \<open>\<open>std::uint8_t mean = cv::mean(\<dots>)[0]\<close>\<close>

definition uint8_of :: "fl \<Rightarrow> u8 res" where
  "uint8_of a = rbind (int_of_fl a) (\<lambda>n. if 0 \<le> n \<and> n < 256 then Inr (of_int n) else Inl BadConversion)"

definition detect :: "'i cv_image \<Rightarrow> (fl \<Rightarrow> fl) \<Rightarrow> 'i \<Rightarrow> PointGrid res" where
  "detect cv sqrt_fn img =
     (let gray = to_gray cv img in
      rbind (rbind (mean_of cv gray (1620, 1620, 40, 40)) uint8_of) (\<lambda>mean.
      if mean < 16 \<or> 240 < mean then Inr PointGrid_ctor
      else
        (let greyMatTranspose = transposed gray; maskTranspose = transposed (preprocess cv gray) in
         rbind (rfold (detect_pixel sqrt_fn greyMatTranspose) (pixels maskTranspose) (maskTranspose, PointGrid_ctor))
           (\<lambda>(_, pointGrid). finalize pointGrid))))"

subsection \<open>Where the flood fill goes\<close>

text \<open>The only change of the mask: object pixels at positions of \<open>W\<close> are marked as processed.\<close>

definition only_marks :: "int set \<Rightarrow> u8 list \<Rightarrow> u8 list \<Rightarrow> bool" where
  "only_marks W m m' \<longleftrightarrow> length m' = length m
     \<and> (\<forall>p < length m. m' ! p \<noteq> m ! p \<longrightarrow> m ! p = OBJECT \<and> m' ! p = PROCESSED \<and> int p \<in> W)"

lemma OBJECT_PROCESSED [simp]: "OBJECT \<noteq> PROCESSED" "PROCESSED \<noteq> OBJECT"
  by (simp_all add: OBJECT_def PROCESSED_def)

lemma only_marks_refl [simp]: "only_marks W m m"
  by (simp add: only_marks_def)

lemma only_marks_trans: "only_marks W a b \<Longrightarrow> only_marks W b c \<Longrightarrow> only_marks W a c"
  unfolding only_marks_def by (metis OBJECT_PROCESSED(1))

lemma only_marks_mono: "only_marks V a b \<Longrightarrow> V \<subseteq> W \<Longrightarrow> only_marks W a b"
  unfolding only_marks_def by blast

lemma only_marks_length: "only_marks W a b \<Longrightarrow> length b = length a"
  by (simp add: only_marks_def)

lemma only_marks_processed: "only_marks W a b \<Longrightarrow> p < length a \<Longrightarrow> a ! p = PROCESSED \<Longrightarrow> b ! p = PROCESSED"
  unfolding only_marks_def by (metis OBJECT_PROCESSED(2))

lemma add_pixel_ok:
  assumes "length img = length (f_mask s)" and "0 \<le> pos" and "pos < int (length (f_mask s))"
    and "f_mask s ! nat pos = OBJECT"
  shows "\<exists>s'. add_pixel img y x pos s = Inr s' \<and> f_mask s' = (f_mask s)[nat pos := PROCESSED]
    \<and> only_marks {pos} (f_mask s) (f_mask s')"
  using assms by (auto simp: add_pixel_def ld_def st_def only_marks_def nth_list_update)

lemma fill_right_ok:
  assumes "length img = length (f_mask s)" and "0 \<le> tmppos" and "tmppos + (maxx - x) \<le> int (length (f_mask s))" and "x \<le> maxx"
  shows "\<exists>x' s'. fill_right img y maxx x tmppos s = Inr (x', s') \<and> x \<le> x' \<and> x' \<le> maxx
    \<and> only_marks {tmppos..<tmppos + (maxx - x)} (f_mask s) (f_mask s')
    \<and> (x < maxx \<and> f_mask s ! nat tmppos = OBJECT \<longrightarrow> x < x' \<and> f_mask s' ! nat tmppos = PROCESSED)"
  using assms
proof (induction img y maxx x tmppos s rule: fill_right.induct)
  case (1 img y maxx x tmppos s)
  show ?case
  proof (cases "x < maxx \<and> f_mask s ! nat tmppos = OBJECT")
    case False
    then show ?thesis
      using 1(2-) by (subst fill_right.simps) (auto simp: ld_def)
  next
    case True
    have pos: "tmppos < int (length (f_mask s))" using 1(4) True by simp
    obtain s1 where s1: "add_pixel img y x tmppos s = Inr s1" "f_mask s1 = (f_mask s)[nat tmppos := PROCESSED]"
        "only_marks {tmppos} (f_mask s) (f_mask s1)"
      using add_pixel_ok [OF 1(2,3) pos] True by blast
    have ld: "ld (f_mask s) tmppos = Inr OBJECT" using True pos 1(3) by (simp add: ld_def)
    have len: "length (f_mask s1) = length (f_mask s)" by (simp add: s1(2))
    obtain x' s' where r: "fill_right img y maxx (x + 1) (tmppos + 1) s1 = Inr (x', s')" "x + 1 \<le> x'" "x' \<le> maxx"
        "only_marks {tmppos + 1..<tmppos + 1 + (maxx - (x + 1))} (f_mask s1) (f_mask s')"
      using 1(1) [OF _ ld refl s1(1)] 1(2-) True len by auto
    have "f_mask s1 ! nat tmppos = PROCESSED" using pos 1(3) by (simp add: s1(2))
    then have "f_mask s' ! nat tmppos = PROCESSED"
      using only_marks_processed [OF r(4)] pos 1(3) len by (simp add: nat_less_iff)
    moreover have "only_marks {tmppos..<tmppos + (maxx - x)} (f_mask s) (f_mask s')"
    proof (rule only_marks_trans)
      show "only_marks {tmppos..<tmppos + (maxx - x)} (f_mask s) (f_mask s1)"
        by (rule only_marks_mono [OF s1(3)]) (use True in auto)
      show "only_marks {tmppos..<tmppos + (maxx - x)} (f_mask s1) (f_mask s')"
        using r(4) by (rule only_marks_mono) auto
    qed
    ultimately show ?thesis
      using True ld s1(1) r by (subst fill_right.simps) auto
  qed
qed

lemma fill_left_ok:
  assumes "length img = length (f_mask s)" and "x - minx \<le> tmppos" and "tmppos < int (length (f_mask s))" and "minx \<le> x + 1"
  shows "\<exists>x' s'. fill_left img y minx x tmppos s = Inr (x', s') \<and> minx \<le> x' \<and> x' \<le> x + 1
    \<and> only_marks {tmppos - (x - minx)..tmppos} (f_mask s) (f_mask s')"
  using assms
proof (induction img y minx x tmppos s rule: fill_left.induct)
  case (1 img y minx x tmppos s)
  show ?case
  proof (cases "minx \<le> x \<and> f_mask s ! nat tmppos = OBJECT")
    case False
    then show ?thesis
      using 1(2-) by (subst fill_left.simps) (auto simp: ld_def)
  next
    case True
    have pos: "0 \<le> tmppos" using 1(3) True by simp
    obtain s1 where s1: "add_pixel img y x tmppos s = Inr s1" "f_mask s1 = (f_mask s)[nat tmppos := PROCESSED]"
        "only_marks {tmppos} (f_mask s) (f_mask s1)"
      using add_pixel_ok [OF 1(2) pos 1(4)] True by blast
    have ld: "ld (f_mask s) tmppos = Inr OBJECT" using True pos 1(4) by (simp add: ld_def)
    have len: "length (f_mask s1) = length (f_mask s)" by (simp add: s1(2))
    obtain x' s' where r: "fill_left img y minx (x - 1) (tmppos - 1) s1 = Inr (x', s')" "minx \<le> x'" "x' \<le> x"
        "only_marks {tmppos - 1 - (x - 1 - minx)..tmppos - 1} (f_mask s1) (f_mask s')"
      using 1(1) [OF _ ld refl s1(1)] 1(2-) True len by auto
    have "only_marks {tmppos - (x - minx)..tmppos} (f_mask s) (f_mask s')"
    proof (rule only_marks_trans)
      show "only_marks {tmppos - (x - minx)..tmppos} (f_mask s) (f_mask s1)"
        by (rule only_marks_mono [OF s1(3)]) (use True in auto)
      show "only_marks {tmppos - (x - minx)..tmppos} (f_mask s1) (f_mask s')"
        using r(4) by (rule only_marks_mono) auto
    qed
    then show ?thesis
      using True ld s1(1) r by (subst fill_left.simps) auto
  qed
qed

lemma find_start_ok:
  assumes "0 \<le> tmppos" and "tmppos \<le> endpos" and "endpos < int (length m)"
  shows "find_start m endpos tmppos startx = Inr None
    \<or> (\<exists>k \<ge> 0. find_start m endpos tmppos startx = Inr (Some (startx + k, tmppos + k)) \<and> tmppos + k \<le> endpos
        \<and> m ! nat (tmppos + k) = OBJECT)"
  using assms
proof (induction m endpos tmppos startx rule: find_start.induct)
  case (1 m endpos tmppos startx)
  have ld: "ld m tmppos = Inr (m ! nat tmppos)" using 1(2-) by (simp add: ld_def)
  show ?case
  proof (cases "m ! nat tmppos = OBJECT \<or> tmppos = endpos")
    case True
    then show ?thesis
      using ld 1(3) by (subst (1 2) find_start.simps) (auto intro!: exI [of _ 0])
  next
    case False
    then have "find_start m endpos (tmppos + 1) (startx + 1) = Inr None
      \<or> (\<exists>k \<ge> 0. find_start m endpos (tmppos + 1) (startx + 1) = Inr (Some (startx + 1 + k, tmppos + 1 + k))
          \<and> tmppos + 1 + k \<le> endpos \<and> m ! nat (tmppos + 1 + k) = OBJECT)"
      using 1(1) [OF ld] 1(2-) by auto
    moreover have "find_start m endpos tmppos startx = find_start m endpos (tmppos + 1) (startx + 1)"
      using False ld by (subst find_start.simps) simp
    ultimately show ?thesis
      by (metis add.assoc add_nonneg_nonneg zero_le_one)
  qed
qed

definition window :: "int \<Rightarrow> int \<Rightarrow> int \<Rightarrow> int \<Rightarrow> int \<Rightarrow> int set" where
  "window cols y maxy minx maxx = {cols * b + a |a b. y \<le> b \<and> b < maxy \<and> minx \<le> a \<and> a < maxx}"

lemma window_row:
  assumes "y < maxy" and "minx \<le> a"
  shows "{cols * y + a..<cols * y + maxx} \<subseteq> window cols y maxy minx maxx"
proof
  fix p assume "p \<in> {cols * y + a..<cols * y + maxx}"
  then have "p = cols * y + (p - cols * y) \<and> y \<le> y \<and> y < maxy \<and> minx \<le> p - cols * y \<and> p - cols * y < maxx"
    using assms by simp
  then show "p \<in> window cols y maxy minx maxx" unfolding window_def by blast
qed

lemma window_next: "window cols (y + 1) maxy minx maxx \<subseteq> window cols y maxy minx maxx"
proof
  fix p assume "p \<in> window cols (y + 1) maxy minx maxx"
  then obtain a b where "p = cols * b + a" "y + 1 \<le> b" "b < maxy" "minx \<le> a" "a < maxx"
    unfolding window_def by blast
  moreover have "y \<le> b" using \<open>y + 1 \<le> b\<close> by simp
  ultimately show "p \<in> window cols y maxy minx maxx" unfolding window_def by blast
qed

subsection \<open>What the flood fill adds up\<close>

text \<open>The pixels a fill has marked, and their moments.\<close>

definition marked :: "u8 list \<Rightarrow> u8 list \<Rightarrow> nat set" where
  "marked m m' = {p. p < length m \<and> m' ! p \<noteq> m ! p}"

definition moment :: "(nat \<Rightarrow> int) \<Rightarrow> u8 list \<Rightarrow> u8 list \<Rightarrow> u8 list \<Rightarrow> int" where
  "moment w img m m' = (\<Sum>p \<in> marked m m'. w p * uint (img ! p))"

text \<open>The sums of the code are the moments of the marked pixels.\<close>

definition tracks :: "u8 list \<Rightarrow> int \<Rightarrow> u8 list \<Rightarrow> moments \<Rightarrow> bool" where
  "tracks img cols m s \<longleftrightarrow> only_marks UNIV m (f_mask s)
     \<and> m01 s = Fin (of_int (moment (\<lambda>p. int p mod cols) img m (f_mask s)))
     \<and> m10 s = Fin (of_int (moment (\<lambda>p. int p div cols) img m (f_mask s)))
     \<and> m_sum s = Fin (of_int (moment (\<lambda>p. 1) img m (f_mask s)))"

lemma finite_marked [simp]: "finite (marked m m')"
  by (simp add: marked_def)

lemma moment_bounds:
  assumes "\<And>p. p < length m \<Longrightarrow> 0 \<le> w p \<and> w p \<le> 2 ^ 14" and "length m \<le> 2 ^ 28"
  shows "0 \<le> moment w img m m'" and "moment w img m m' < 2 ^ 53"
proof -
  have *: "0 \<le> w p * uint (img ! p) \<and> w p * uint (img ! p) \<le> 2 ^ 22" if "p \<in> marked m m'" for p
  proof -
    have "uint (img ! p) \<le> 2 ^ 8" using uint_lt2p [of "img ! p"] by simp
    then have "w p * uint (img ! p) \<le> 2 ^ 14 * 2 ^ 8"
      using assms(1) [of p] that by (intro mult_mono) (auto simp: marked_def)
    then show ?thesis using assms(1) [of p] that by (auto simp: marked_def)
  qed
  show "0 \<le> moment w img m m'" unfolding moment_def using * by (intro sum_nonneg) blast
  have "marked m m' \<subseteq> {..<length m}" by (auto simp: marked_def)
  then have "card (marked m m') \<le> 2 ^ 28" using card_mono [of "{..<length m}" "marked m m'"] assms(2) by simp
  then have "int (card (marked m m')) * 2 ^ 22 \<le> 2 ^ 28 * 2 ^ 22" by simp
  moreover have "moment w img m m' \<le> int (card (marked m m')) * 2 ^ 22"
    unfolding moment_def using sum_bounded_above [of "marked m m'" "\<lambda>p. w p * uint (img ! p)" "2 ^ 22"] * by simp
  ultimately show "moment w img m m' < 2 ^ 53" by simp
qed

lemma moment_insert:
  assumes "only_marks UNIV m (f_mask s)" and "p < length m" and "f_mask s ! p = OBJECT"
  shows "moment w img m ((f_mask s)[p := PROCESSED]) = moment w img m (f_mask s) + w p * uint (img ! p)"
proof -
  have len: "length (f_mask s) = length m" using only_marks_length [OF assms(1)] .
  have m: "m ! p = OBJECT" using assms unfolding only_marks_def by (metis OBJECT_PROCESSED(1))
  have "marked m ((f_mask s)[p := PROCESSED]) = insert p (marked m (f_mask s))"
    using assms len m by (auto simp: marked_def nth_list_update split: if_splits)
  moreover have "p \<notin> marked m (f_mask s)" using m assms(3) by (simp add: marked_def)
  ultimately show ?thesis by (simp add: moment_def)
qed

lemma add_moment:
  assumes "\<And>p. p < length m \<Longrightarrow> 0 \<le> w p \<and> w p \<le> 2 ^ 14" and "length m \<le> 2 ^ 28"
    and "only_marks UNIV m (f_mask s)" and "p < length m" and "f_mask s ! p = OBJECT"
  shows "fadd binary64 (Fin (of_int (moment w img m (f_mask s)))) (Fin (of_int (w p * uint (img ! p))))
    = Fin (of_int (moment w img m ((f_mask s)[p := PROCESSED])))"
proof -
  have "\<bar>moment w img m ((f_mask s)[p := PROCESSED])\<bar> < 2 ^ 53"
    using moment_bounds [of m w img "(f_mask s)[p := PROCESSED]", OF assms(1,2)] by linarith
  from rnd64_int [OF this] show ?thesis
    by (simp only: moment_insert [OF assms(3-5)] fadd.simps of_int_add)
qed

lemma only_marks_update: "m ! p = OBJECT \<Longrightarrow> only_marks UNIV m (m[p := PROCESSED])"
  using nth_list_update_neq [of p] by (cases "p < length m") (auto simp: only_marks_def nth_list_update)

lemma add_pixel_tracks:
  assumes "tracks img cols m s" and "ld (f_mask s) (cols * y + x) = Inr OBJECT" and "add_pixel img y x (cols * y + x) s = Inr s'"
    and "0 \<le> x" and "x < cols" and "0 \<le> y"
    and "length m \<le> 2 ^ 28" and "cols \<le> 2 ^ 14" and "int (length m) \<le> cols * 2 ^ 14"
  shows "tracks img cols m s'"
proof -
  let ?p = "nat (cols * y + x)"
  note t = assms(1) [unfolded tracks_def]
  have "0 \<le> cols * y" using assms by simp
  then have pos: "0 \<le> cols * y + x" "?p < length (f_mask s)" "f_mask s ! ?p = OBJECT" "int ?p = cols * y + x"
    using assms(2,4) by (auto simp: res_simps)
  then have w: "int ?p mod cols = x" "int ?p div cols = y" using assms(4,5) by auto
  have len: "length (f_mask s) = length m" using only_marks_length t by blast
  have bounds: "0 \<le> int p mod cols \<and> int p mod cols \<le> 2 ^ 14" "0 \<le> int p div cols \<and> int p div cols \<le> 2 ^ 14" if "p < length m" for p
  proof -
    have c: "0 < cols" using assms(4,5) by simp
    show "0 \<le> int p mod cols \<and> int p mod cols \<le> 2 ^ 14"
      using pos_mod_bound [OF c, of "int p"] pos_mod_sign [OF c, of "int p"] assms(8) by simp
    have "int p div cols \<le> (cols * 2 ^ 14) div cols" using that assms(9) c by (intro zdiv_mono1) auto
    then show "0 \<le> int p div cols \<and> int p div cols \<le> 2 ^ 14" using c by (simp add: pos_imp_zdiv_nonneg_iff)
  qed
  have a: "ld img (cols * y + x) = Inr (img ! ?p)" "f_mask s' = (f_mask s)[?p := PROCESSED]"
    using assms(3) by (auto simp: add_pixel_def res_simps)
  have p: "?p < length m" using pos len by simp
  have M: "only_marks UNIV m (f_mask s')"
    using only_marks_trans [OF conjunct1 [OF t] only_marks_update [OF pos(3)]] a(2) by simp
  note add = add_moment [OF _ assms(7) _ p pos(3), of _ img]
  have u: "only_marks UNIV m (f_mask s)" using t by blast
  have "m01 s' = Fin (of_int (moment (\<lambda>p. int p mod cols) img m (f_mask s')))"
    using add [of "\<lambda>p. int p mod cols", OF bounds(1) u] assms(3) a t w(1) by (auto simp: add_pixel_def res_simps)
  moreover have "m10 s' = Fin (of_int (moment (\<lambda>p. int p div cols) img m (f_mask s')))"
    using add [of "\<lambda>p. int p div cols", OF bounds(2) u] assms(3) a t w(2) by (auto simp: add_pixel_def res_simps)
  moreover have "m_sum s' = Fin (of_int (moment (\<lambda>p. 1) img m (f_mask s')))"
    using add [of "\<lambda>_. 1", OF _ u] assms(3) a t by (auto simp: add_pixel_def res_simps)
  ultimately show ?thesis using M unfolding tracks_def by blast
qed

text \<open>What one added pixel keeps, the fills and the search keep.\<close>

definition pixel_kept :: "u8 list \<Rightarrow> int \<Rightarrow> int \<Rightarrow> (moments \<Rightarrow> bool) \<Rightarrow> bool" where
  "pixel_kept img cols maxx P \<longleftrightarrow>
     (\<forall>y x s s'. 0 \<le> y \<longrightarrow> 0 \<le> x \<longrightarrow> x < maxx \<longrightarrow> P s \<longrightarrow> ld (f_mask s) (cols * y + x) = Inr OBJECT
       \<longrightarrow> add_pixel img y x (cols * y + x) s = Inr s' \<longrightarrow> P s')"

lemma pixel_keptD:
  assumes "pixel_kept img cols maxx P" and "0 \<le> y" and "0 \<le> x" and "x < maxx" and "P s"
    and "ld (f_mask s) (cols * y + x) = Inr OBJECT" and "add_pixel img y x (cols * y + x) s = Inr s'"
  shows "P s'"
  using assms unfolding pixel_kept_def by blast

lemma fill_right_inv:
  assumes step: "\<And>x s s'. 0 \<le> x \<Longrightarrow> x < maxx \<Longrightarrow> P s \<Longrightarrow> ld (f_mask s) (c + x) = Inr OBJECT
      \<Longrightarrow> add_pixel img y x (c + x) s = Inr s' \<Longrightarrow> P s'"
  shows "fill_right img y maxx x tmppos s = Inr (x', s') \<Longrightarrow> P s \<Longrightarrow> tmppos = c + x \<Longrightarrow> 0 \<le> x \<Longrightarrow> P s'"
  using step
proof (induction img y maxx x tmppos s rule: fill_right.induct)
  case (1 img y maxx x tmppos s)
  from 1(2) consider "s' = s" | s1 where "x < maxx" "ld (f_mask s) tmppos = Inr OBJECT" "add_pixel img y x tmppos s = Inr s1"
      "fill_right img y maxx (x + 1) (tmppos + 1) s1 = Inr (x', s')"
    by (subst (asm) fill_right.simps) (auto simp: rbind_eq_Inr split: if_splits)
  then show ?case
  proof cases
    case 1 then show ?thesis using \<open>P s\<close> by simp
  next
    case (2 s1)
    have pos: "tmppos = c + x" "0 \<le> x" using 1(4,5) .
    have "P s1" using 1(6) [OF pos(2) 2(1) 1(3)] 2(2,3) unfolding pos(1) by blast
    moreover have "\<not> maxx \<le> x" "tmppos + 1 = c + (x + 1)" "0 \<le> x + 1" using 2(1) pos by simp_all
    ultimately show ?thesis using 1(1) [OF _ 2(2) refl 2(3,4)] 1(6) by blast
  qed
qed

lemma fill_left_inv:
  assumes step: "\<And>x s s'. 0 \<le> x \<Longrightarrow> x < u \<Longrightarrow> P s \<Longrightarrow> ld (f_mask s) (c + x) = Inr OBJECT
      \<Longrightarrow> add_pixel img y x (c + x) s = Inr s' \<Longrightarrow> P s'"
  shows "fill_left img y minx x tmppos s = Inr (x', s') \<Longrightarrow> P s \<Longrightarrow> tmppos = c + x \<Longrightarrow> x < u \<Longrightarrow> 0 \<le> minx \<Longrightarrow> P s'"
  using step
proof (induction img y minx x tmppos s rule: fill_left.induct)
  case (1 img y minx x tmppos s)
  from 1(2) consider "s' = s" | s1 where "minx \<le> x" "ld (f_mask s) tmppos = Inr OBJECT" "add_pixel img y x tmppos s = Inr s1"
      "fill_left img y minx (x - 1) (tmppos - 1) s1 = Inr (x', s')"
    by (subst (asm) fill_left.simps) (auto simp: rbind_eq_Inr split: if_splits)
  then show ?case
  proof cases
    case 1 then show ?thesis using \<open>P s\<close> by simp
  next
    case (2 s1)
    have pos: "tmppos = c + x" "0 \<le> x" using 1(4,6) 2(1) by simp_all
    have "P s1" using 1(7) [OF pos(2) 1(5) 1(3)] 2(2,3) unfolding pos(1) by blast
    moreover have "\<not> x < minx" "tmppos - 1 = c + (x - 1)" "x - 1 < u" using 2(1) pos 1(5) by simp_all
    ultimately show ?thesis using 1(1) [OF _ 2(2) refl 2(3,4)] 1(6,7) by blast
  qed
qed


text \<open>The fills of one row, from an object pixel at \<open>startx\<close> to both sides and from the next object pixel to the right.\<close>

lemma row_left:
  assumes s: "length img = length (f_mask s)" "cols * y + maxx \<le> int (length (f_mask s))" "0 \<le> cols * y" and y: "0 \<le> y"
    and x: "0 \<le> minx" "minx \<le> startx" "startx < maxx" and step: "pixel_kept img cols maxx P" "P s"
    and obj: "f_mask s ! nat (cols * y + startx) = OBJECT"
  shows "\<exists>startx' s1 x s2. fill_left img y minx (startx - 1) (cols * y + startx - 1) s = Inr (startx', s1)
    \<and> fill_right img y maxx startx (cols * y + startx) s1 = Inr (x, s2) \<and> minx \<le> startx' \<and> startx' < x \<and> x \<le> maxx \<and> P s2
    \<and> only_marks {cols * y + minx..<cols * y + maxx} (f_mask s) (f_mask s2) \<and> f_mask s2 ! nat (cols * y + startx) = PROCESSED"
proof -
  let ?pos = "cols * y + startx" and ?W = "{cols * y + minx..<cols * y + maxx}"
  have pos: "0 \<le> ?pos" "?pos < int (length (f_mask s))" using s x by auto
  obtain startx' s1 where l: "fill_left img y minx (startx - 1) (?pos - 1) s = Inr (startx', s1)" "minx \<le> startx'" "startx' \<le> startx"
      "only_marks {?pos - 1 - (startx - 1 - minx)..?pos - 1} (f_mask s) (f_mask s1)"
    using fill_left_ok [of img s "startx - 1" minx "?pos - 1" y] s pos x by auto
  have keep: "f_mask s1 ! nat ?pos = OBJECT"
    using l(4) obj pos unfolding only_marks_def by (metis atLeastAtMost_iff int_nat_eq nat_less_iff not_le zle_diff1_eq less_irrefl)
  have len1: "length (f_mask s1) = length (f_mask s)" using only_marks_length [OF l(4)] .
  obtain x s2 where r: "fill_right img y maxx startx ?pos s1 = Inr (x, s2)" "startx < x" "x \<le> maxx"
      "only_marks {?pos..<?pos + (maxx - startx)} (f_mask s1) (f_mask s2)" "f_mask s2 ! nat ?pos = PROCESSED"
    using fill_right_ok [of img s1 ?pos maxx startx y] s pos x keep len1 by auto
  have s1: "P s1" by (rule fill_left_inv [where P = P and u = maxx and c = "cols * y", OF pixel_keptD [OF step(1) y] l(1) step(2)]) (use x in auto)
  have "P s2" by (rule fill_right_inv [where P = P and c = "cols * y", OF pixel_keptD [OF step(1) y] r(1) s1]) (use x in auto)
  moreover have "only_marks ?W (f_mask s) (f_mask s1)" "only_marks ?W (f_mask s1) (f_mask s2)"
    by (rule only_marks_mono [OF l(4)], use x in force) (rule only_marks_mono [OF r(4)], use x in force)
  then have "only_marks ?W (f_mask s) (f_mask s2)" by (rule only_marks_trans)
  ultimately show ?thesis using l r by fastforce
qed

lemma row_right:
  assumes s: "length img = length (f_mask s)" "cols * y + maxx \<le> int (length (f_mask s))" "0 \<le> cols * y" and y: "0 \<le> y"
    and x: "0 \<le> startx" "startx < maxx" and step: "pixel_kept img cols maxx P" "P s"
    and obj: "f_mask s ! nat (cols * y + startx) = OBJECT"
  shows "\<exists>x s2. fill_right img y maxx startx (cols * y + startx) s = Inr (x, s2) \<and> startx < x \<and> x \<le> maxx \<and> P s2
    \<and> only_marks {cols * y + startx..<cols * y + maxx} (f_mask s) (f_mask s2)"
proof -
  obtain x s2 where r: "fill_right img y maxx startx (cols * y + startx) s = Inr (x, s2)" "startx < x" "x \<le> maxx"
      "only_marks {cols * y + startx..<cols * y + startx + (maxx - startx)} (f_mask s) (f_mask s2)"
    using fill_right_ok [of img s "cols * y + startx" maxx startx y] s x obj by auto
  moreover have "P s2"
    by (rule fill_right_inv [where P = P and c = "cols * y", OF pixel_keptD [OF step(1) y] r(1) step(2)]) (use x in auto)
  ultimately show ?thesis by auto
qed

lemma rows_marked:
  assumes "y < maxy" and "minx \<le> a" and "only_marks {cols * y + a..<cols * y + maxx} m m1"
    and "only_marks (window cols (y + 1) maxy minx maxx) m1 m'"
  shows "only_marks (window cols y maxy minx maxx) m m'"
  using only_marks_mono [OF assms(3) window_row [OF assms(1,2)]] only_marks_mono [OF assms(4) window_next] by (rule only_marks_trans)

lemma search_rows_ok:
  assumes "length img = length (f_mask s)" and "int (length (f_mask s)) = cols * rows" and "maxy \<le> rows" and "0 \<le> y"
    and "0 \<le> minx" and "minx \<le> startx" and "startx \<le> endx" and "endx < maxx" and "maxx \<le> cols"
    and "pixel_kept img cols maxx P" and "P s"
  shows "\<exists>s'. search_rows img cols maxy minx maxx y startx endx s = Inr s' \<and> P s'
    \<and> only_marks (window cols y maxy minx maxx) (f_mask s) (f_mask s')
    \<and> (y < maxy \<and> f_mask s ! nat (cols * y + startx) = OBJECT \<longrightarrow> f_mask s' ! nat (cols * y + startx) = PROCESSED)"
  using assms
proof (induction img cols maxy minx maxx y startx endx s rule: search_rows.induct)
  case (1 img cols maxy minx maxx y startx endx s)
  note h = 1(5-11) and step = 1(12,13)
  show ?case
  proof (cases "y < maxy")
    case False
    then show ?thesis using step(2) by (subst search_rows.simps) simp
  next
    case True
    let ?pos = "cols * y + startx"
    have "y + 1 \<le> rows" "0 \<le> cols" using True h by auto
    then have "cols * y + cols \<le> cols * rows" using mult_left_mono [of "y + 1" rows cols] by (simp add: algebra_simps)
    then have row: "cols * y + maxx \<le> int (length (f_mask s))" "0 \<le> cols * y" using \<open>0 \<le> cols\<close> h 1(4) by auto
    have pos: "0 \<le> ?pos" "?pos < int (length (f_mask s))" using row h by auto
    then have ld: "ld (f_mask s) ?pos = Inr (f_mask s ! nat ?pos)" by (simp add: ld_def)
    show ?thesis
    proof (cases "f_mask s ! nat ?pos = OBJECT")
      case obj: True
      obtain startx' s1 x s2 where r: "fill_left img y minx (startx - 1) (?pos - 1) s = Inr (startx', s1)"
          "fill_right img y maxx startx ?pos s1 = Inr (x, s2)" "minx \<le> startx'" "startx' < x" "x \<le> maxx" "P s2"
          "only_marks {cols * y + minx..<cols * y + maxx} (f_mask s) (f_mask s2)" "f_mask s2 ! nat ?pos = PROCESSED"
        using row_left [OF 1(3) row h(2,3,4) _ step obj] h by auto
      have len: "length (f_mask s2) = length (f_mask s)" using only_marks_length [OF r(7)] .
      obtain s' where s': "search_rows img cols maxy minx maxx (y + 1) startx' (x - 1) s2 = Inr s'" "P s'"
          "only_marks (window cols (y + 1) maxy minx maxx) (f_mask s2) (f_mask s')"
        using 1(1) [OF _ refl refl ld obj r(1) refl r(2) refl _ _ h(1) _ h(3) r(3) _ _ h(7) step(1) r(6)] True 1(3,4) h(2) r(4,5) len by auto
      have "only_marks (window cols y maxy minx maxx) (f_mask s) (f_mask s')" by (rule rows_marked [OF True order_refl r(7) s'(3)])
      moreover have "f_mask s' ! nat ?pos = PROCESSED" using only_marks_processed [OF s'(3)] r(8) pos len by (simp add: nat_less_iff)
      moreover have "search_rows img cols maxy minx maxx y startx endx s = Inr s'"
        using True ld obj r(1,2) s'(1) by (subst search_rows.simps) (simp add: Let_def)
      ultimately show ?thesis using s'(2) by blast
    next
      case nobj: False
      show ?thesis
      proof (cases "find_start (f_mask s) (cols * y + endx) ?pos startx = Inr None")
        case stop: True
        then show ?thesis using True ld nobj step(2) by (subst search_rows.simps) (auto simp: Let_def)
      next
        case False
        then obtain k where k: "0 \<le> k" "find_start (f_mask s) (cols * y + endx) ?pos startx = Inr (Some (startx + k, ?pos + k))"
            "?pos + k \<le> cols * y + endx" "f_mask s ! nat (cols * y + (startx + k)) = OBJECT"
          using find_start_ok [of ?pos "cols * y + endx" "f_mask s" startx] row h pos(1) by (auto simp: add.assoc)
        obtain x s2 where r: "fill_right img y maxx (startx + k) (?pos + k) s = Inr (x, s2)" "startx + k < x" "x \<le> maxx" "P s2"
            "only_marks {cols * y + (startx + k)..<cols * y + maxx} (f_mask s) (f_mask s2)"
          using row_right [OF 1(3) row h(2) _ _ step k(4)] h k(1,3) by (auto simp: add.assoc)
        have len: "length (f_mask s2) = length (f_mask s)" using only_marks_length [OF r(5)] .
        have le: "minx \<le> startx + k" using h(4) k(1) by simp
        obtain s' where s': "search_rows img cols maxy minx maxx (y + 1) (startx + k) (x - 1) s2 = Inr s'" "P s'"
            "only_marks (window cols (y + 1) maxy minx maxx) (f_mask s2) (f_mask s')"
          using 1(2) [OF _ refl refl ld nobj k(2) refl refl r(1) refl _ _ h(1) _ h(3) le _ _ h(7) step(1) r(4)] True 1(3,4) h(2) r(2,3) len
          by auto
        have "only_marks (window cols y maxy minx maxx) (f_mask s) (f_mask s')" by (rule rows_marked [OF True le r(5) s'(3)])
        moreover have "search_rows img cols maxy minx maxx y startx endx s = Inr s'"
          using True ld nobj k(2) r(1) s'(1) by (subst search_rows.simps) (simp add: Let_def)
        ultimately show ?thesis using nobj s'(2) by blast
      qed
    qed
  qed
qed

lemma tracks_kept:
  assumes "length m \<le> 2 ^ 28" and "cols \<le> 2 ^ 14" and "int (length m) \<le> cols * 2 ^ 14" and "maxx \<le> cols"
  shows "pixel_kept img cols maxx (tracks img cols m)"
  unfolding pixel_kept_def using assms add_pixel_tracks [of img cols m] by force

text \<open>
  C27: Started at an object pixel that is not in the last column, \<open>findCentroid\<close> returns without leaving
  the image or the mask. It only turns object pixels into processed ones, the start pixel among them,
  all in the rows from the start on and less than \<open>MAX_LENS_SIZE\<close> away, and the centroid is, up to the
  roundings of the divisions, the mean position of the marked pixels weighted by their brightness.\<close>

theorem findCentroid_correct:
  assumes "g_rows img \<le> 2 ^ 14" and "g_cols img \<le> 2 ^ 14"
    and "int (length (g_data img)) = g_cols img * g_rows img" and "length (g_data img) = length (g_data msk)"
    and "0 \<le> x" and "x < g_cols img - 1" and "0 \<le> y" and "y < g_rows img"
    and "g_data msk ! nat (g_cols img * y + x) = OBJECT"
  shows "\<exists>m'. findCentroid img msk (x, y) =
      Inr ((to_fmt binary32 (fdiv binary64 (Fin (of_int (moment (\<lambda>p. int p mod g_cols img) (g_data img) (g_data msk) m')))
                                           (Fin (of_int (moment (\<lambda>p. 1) (g_data img) (g_data msk) m')))),
            to_fmt binary32 (fdiv binary64 (Fin (of_int (moment (\<lambda>p. int p div g_cols img) (g_data img) (g_data msk) m')))
                                           (Fin (of_int (moment (\<lambda>p. 1) (g_data img) (g_data msk) m'))))),
           msk\<lparr>g_data := m'\<rparr>)
    \<and> only_marks (window (g_cols img) y (min (y + 15) (g_rows img)) (max (x - 15) 0) (min (x + 15) (g_cols img))) (g_data msk) m'
    \<and> m' ! nat (g_cols img * y + x) = PROCESSED"
proof -
  let ?s = "\<lparr>m01 = Fin 0, m10 = Fin 0, m_sum = Fin 0, f_mask = g_data msk\<rparr>" and ?c = "g_cols img"
  let ?maxy = "min (y + 15) (g_rows img)" and ?minx = "max (x - 15) 0" and ?maxx = "min (x + 15) ?c"
  have len: "int (length (g_data msk)) \<le> ?c * 2 ^ 14" using assms(1,3,4,5,6) mult_left_mono [of "g_rows img" "2 ^ 14" ?c] by simp
  have "int (length (g_data msk)) \<le> 2 ^ 28" using len assms(2) by simp
  then have kept: "pixel_kept (g_data img) ?c ?maxx (tracks (g_data img) ?c (g_data msk))"
    using tracks_kept [OF _ assms(2) len, of ?maxx "g_data img"] by simp
  have init: "tracks (g_data img) ?c (g_data msk) ?s" by (simp add: tracks_def moment_def marked_def)
  obtain s' where s': "search_rows (g_data img) ?c ?maxy ?minx ?maxx y x (x + 1) ?s = Inr s'" "tracks (g_data img) ?c (g_data msk) s'"
      "only_marks (window ?c y ?maxy ?minx ?maxx) (g_data msk) (f_mask s')" "f_mask s' ! nat (?c * y + x) = PROCESSED"
    using search_rows_ok [OF _ _ _ assms(7) _ _ _ _ _ kept init, of "g_rows img" ?maxy ?minx x "x + 1"] assms by auto
  then have "findCentroid img msk (x, y) = Inr ((to_fmt binary32 (fdiv binary64 (m01 s') (m_sum s')),
      to_fmt binary32 (fdiv binary64 (m10 s') (m_sum s'))), msk\<lparr>g_data := f_mask s'\<rparr>)"
    using assms(6) by (simp add: findCentroid_def Let_def MAX_LENS_SIZE_def)
  then show ?thesis
    using s'(2-) unfolding tracks_def by (intro exI [of _ "f_mask s'"]) simp
qed

theorem findCentroid_correct_witness:
  "\<exists>m'. findCentroid \<lparr>g_rows = 2, g_cols = 3, g_data = [10, 20, 0, 0, 30, 0]\<rparr> \<lparr>g_rows = 2, g_cols = 3, g_data = [255, 255, 0, 0, 255, 0]\<rparr> (0, 0)
      = Inr ((to_fmt binary32 (fdiv binary64 (Fin (of_int (moment (\<lambda>p. int p mod 3) [10, 20, 0, 0, 30, 0] [255, 255, 0, 0, 255, 0] m')))
                                             (Fin (of_int (moment (\<lambda>p. 1) [10, 20, 0, 0, 30, 0] [255, 255, 0, 0, 255, 0] m')))),
              to_fmt binary32 (fdiv binary64 (Fin (of_int (moment (\<lambda>p. int p div 3) [10, 20, 0, 0, 30, 0] [255, 255, 0, 0, 255, 0] m')))
                                             (Fin (of_int (moment (\<lambda>p. 1) [10, 20, 0, 0, 30, 0] [255, 255, 0, 0, 255, 0] m'))))),
             \<lparr>g_rows = 2, g_cols = 3, g_data = m'\<rparr>)
    \<and> m' ! 0 = PROCESSED"
  using findCentroid_correct [of "\<lparr>g_rows = 2, g_cols = 3, g_data = [10, 20, 0, 0, 30, 0]\<rparr>" "\<lparr>g_rows = 2, g_cols = 3, g_data = [255, 255, 0, 0, 255, 0]\<rparr>" 0 0]
  by (auto simp: OBJECT_def)

subsection \<open>Interpolation\<close>

text \<open>At positions that are multiples of a sixteenth of a pixel every operation is exact.\<close>

lemma two_powi_8: "(2 :: rat) powi - 8 = 1 / 256"
  by (simp add: power_int_def power_one_over)

lemma rnd32_256: "\<bar>n\<bar> < 16777216 \<Longrightarrow> rnd binary32 (of_int n / 256) = Fin (of_int n / 256)"
  by (rule rnd32_exact [of _ n "- 8"]) (simp_all add: two_powi_8)

lemma rnd64_256: "\<bar>n\<bar> < 16777216 \<Longrightarrow> rnd binary64 (of_int n / 256) = Fin (of_int n / 256)"
  by (rule rnd64_exact [of _ n "- 8"]) (simp_all add: two_powi_8)

lemma weight_exact:
  assumes "0 \<le> A" and "A \<le> 16" and "0 \<le> B" and "B \<le> 16"
  shows "fmul binary32 (fmul binary32 (pixel_fl f) (Fin (of_int A / 16))) (Fin (of_int B / 16))
    = Fin (of_int (uint f * A * B) / 256)" and "0 \<le> uint f * A * B" and "uint f * A * B \<le> 65536"
proof -
  have f: "0 \<le> uint f" "uint f \<le> 256" using uint_lt2p [of f] by simp_all
  have "uint f * A \<le> 256 * 16" using f assms by (intro mult_mono) auto
  moreover have "0 \<le> uint f * A" using f assms by simp
  ultimately have "uint f * A * B \<le> 4096 * 16" using assms by (intro mult_mono) auto
  then show u: "uint f * A * B \<le> 65536" by simp
  show n: "0 \<le> uint f * A * B" using f assms by simp
  have "rnd binary32 (of_int (16 * (uint f * A)) / 256) = Fin (of_int (16 * (uint f * A)) / 256)"
    using \<open>uint f * A \<le> 256 * 16\<close> \<open>0 \<le> uint f * A\<close> by (intro rnd32_256) linarith
  then have "fmul binary32 (pixel_fl f) (Fin (of_int A / 16)) = Fin (of_int (uint f * A) / 16)"
    by (simp add: pixel_fl_def mult.commute)
  then show "fmul binary32 (fmul binary32 (pixel_fl f) (Fin (of_int A / 16))) (Fin (of_int B / 16))
    = Fin (of_int (uint f * A * B) / 256)"
    using rnd32_256 [of "uint f * A * B"] u n by (simp add: field_simps)
qed

lemma fraction_exact:
  assumes "0 \<le> x" and "x < 2 ^ 14" and "0 \<le> a" and "a < 16"
  shows "floor_uint (Fin (of_int (16 * x + a) / 16)) = Inr x"
    and "fsub binary32 (Fin (of_int (16 * x + a) / 16)) (fl_of_int binary32 x) = Fin (of_int a / 16)"
    and "to_fmt binary32 (fsub binary64 (Fin 1) (Fin (of_int a / 16))) = Fin (of_int (16 - a) / 16)"
proof -
  have "\<lfloor>of_int (16 * x + a) / (16 :: rat)\<rfloor> = (16 * x + a) div 16"
    using floor_divide_of_int_eq [of "16 * x + a" 16, where 'a = rat] by simp
  also have "\<dots> = x" using assms by simp
  finally show "floor_uint (Fin (of_int (16 * x + a) / 16)) = Inr x" using assms by simp
  have "of_int (16 * x + a) / 16 + - (of_int x :: rat) = of_int a / 16" by (simp add: add_divide_distrib)
  moreover have "fl_of_int binary32 x = Fin (of_int x)" using rnd32_int [of x] assms by (simp add: fl_of_int_def)
  moreover have "rnd binary32 (of_int a / 16) = Fin (of_int a / 16)" using rnd32_256 [of "16 * a"] assms by simp
  ultimately show "fsub binary32 (Fin (of_int (16 * x + a) / 16)) (fl_of_int binary32 x) = Fin (of_int a / 16)"
    by (simp only: fsub_def fadd.simps neg.simps)
  let ?d = "of_int (16 * (16 - a)) / 256 :: rat"
  have "1 + - (of_int a / 16) = ?d" and d: "of_int (16 - a) / 16 = ?d" by (simp_all add: field_simps)
  moreover have "rnd binary64 ?d = Fin ?d" "rnd binary32 ?d = Fin ?d"
    by (intro rnd64_256 rnd32_256; use assms in simp)+
  ultimately show "to_fmt binary32 (fsub binary64 (Fin 1) (Fin (of_int a / 16))) = Fin (of_int (16 - a) / 16)"
    by (simp only: fsub_def fadd.simps neg.simps to_fmt.simps)
qed

lemma sum4_exact:
  assumes "0 \<le> k" "k \<le> 65536" "0 \<le> l" "l \<le> 65536" "0 \<le> m" "m \<le> 65536" "0 \<le> n" "n \<le> 65536"
  shows "fadd binary32 (fadd binary32 (fadd binary32 (Fin (of_int k / 256)) (Fin (of_int l / 256))) (Fin (of_int m / 256)))
    (Fin (of_int n / 256)) = Fin (of_int (k + l + m + n) / 256)"
  using rnd32_256 [of "k + l"] rnd32_256 [of "k + l + m"] rnd32_256 [of "k + l + m + n"] assms
  by (simp add: add_divide_distrib)

lemma mat_at_inside:
  assumes "int (length (g_data img)) = g_cols img * g_rows img" and "0 \<le> x" and "x < g_cols img" and "0 \<le> y" and "y < g_rows img"
  shows "mat_at img y x = Inr (g_data img ! nat (g_cols img * y + x))"
proof -
  have "g_cols img * (y + 1) \<le> g_cols img * g_rows img" using assms by (intro mult_left_mono) auto
  then have "g_cols img * y + x < g_cols img * g_rows img" using assms(3) by (simp add: algebra_simps)
  moreover have "0 \<le> g_cols img * y + x" using assms by simp
  ultimately show ?thesis using assms(1) by (simp add: mat_at_def ld_def)
qed

lemma interpolation_exact:
  assumes "int (length (g_data img)) = g_cols img * g_rows img" and "g_cols img \<le> 2 ^ 14" and "g_rows img \<le> 2 ^ 14"
    and "0 \<le> x" and "x + 1 < g_cols img" and "0 \<le> y" and "y + 1 < g_rows img"
    and "0 \<le> a" and "a < 16" and "0 \<le> b" and "b < 16"
  shows "getInterpolatedColor img (Fin (of_int (16 * x + a) / 16), Fin (of_int (16 * y + b) / 16)) =
    Inr (Fin (of_int (uint (g_data img ! nat (g_cols img * y + x)) * (16 - b) * (16 - a)
                    + uint (g_data img ! nat (g_cols img * (y + 1) + x)) * a * (16 - b)
                    + uint (g_data img ! nat (g_cols img * y + (x + 1))) * (16 - a) * b
                    + uint (g_data img ! nat (g_cols img * (y + 1) + (x + 1))) * a * b) / 256))"
proof -
  let ?f00 = "g_data img ! nat (g_cols img * y + x)" and ?f10 = "g_data img ! nat (g_cols img * (y + 1) + x)"
    and ?f01 = "g_data img ! nat (g_cols img * y + (x + 1))" and ?f11 = "g_data img ! nat (g_cols img * (y + 1) + (x + 1))"
  have ends: "fl_of_int binary32 (g_cols img - 1) = Fin (of_int (g_cols img - 1))"
      "fl_of_int binary32 (g_rows img - 1) = Fin (of_int (g_rows img - 1))"
    using assms unfolding fl_of_int_def by (intro rnd32_int; simp)+
  have inside: "\<not> of_int (n - 1) < (of_int (16 * k + d) / 16 :: rat)" if "k + 1 < n" "d < 16" for n k d :: int
  proof -
    have "16 * k + d \<le> 16 * (n - 1)" using that by simp
    then have "of_int (16 * k + d) \<le> (of_int (16 * (n - 1)) :: rat)" by (rule of_int_le_iff [THEN iffD2])
    then show ?thesis by simp
  qed
  have rd: "mat_at img y x = Inr ?f00" "mat_at img y (x + 1) = Inr ?f01" "mat_at img (y + 1) x = Inr ?f10"
      "mat_at img (y + 1) (x + 1) = Inr ?f11"
    using assms by (auto intro!: mat_at_inside)
  have x: "x < 2 ^ 14" and y: "y < 2 ^ 14" using assms by simp_all
  note fx = fraction_exact [OF assms(4) x assms(8,9)] and fy = fraction_exact [OF assms(6) y assms(10,11)]
  have w: "0 \<le> a" "a \<le> 16" "0 \<le> 16 - a" "16 - a \<le> 16" "0 \<le> b" "b \<le> 16" "0 \<le> 16 - b" "16 - b \<le> 16" using assms by simp_all
  note W00 = weight_exact [OF w(7,8,3,4), of ?f00] and W10 = weight_exact [OF w(1,2,7,8), of ?f10]
    and W01 = weight_exact [OF w(3,4,5,6), of ?f01] and W11 = weight_exact [OF w(1,2,5,6), of ?f11]
  have neg: "\<not> (of_int (16 * k + d) / 16 :: rat) < 0" if "0 \<le> k" "0 \<le> d" for k d :: int
    using that by simp
  have P: "getInterpolatedColor img (Fin (of_int (16 * x + a) / 16), Fin (of_int (16 * y + b) / 16)) =
    Inr (fadd binary32 (fadd binary32 (fadd binary32 (Fin (of_int (uint ?f00 * (16 - b) * (16 - a)) / 256))
      (Fin (of_int (uint ?f10 * a * (16 - b)) / 256))) (Fin (of_int (uint ?f01 * (16 - a) * b) / 256)))
      (Fin (of_int (uint ?f11 * a * b) / 256)))"
    unfolding getInterpolatedColor_def prod.case ends flt.simps Let_def fx fy rbind.simps rd
      W00(1) W10(1) W01(1) W11(1)
    using inside [OF assms(5,9)] inside [OF assms(7,11)] neg [OF assms(4,8)] neg [OF assms(6,10)] by simp
  show ?thesis
    unfolding P using sum4_exact [OF W00(2,3) W10(2,3) W01(2,3) W11(2,3)] by (rule arg_cong)
qed

text \<open>
  C28: Between four pixels, at a position given in sixteenths of a pixel, \<open>getInterpolatedColor\<close> is
  exact, but the weights of the two pixels off the diagonal are exchanged: the pixel on the right has the
  weight of the pixel below and the other way round.\<close>

theorem getInterpolatedColor_formula:
  assumes "int (length (g_data img)) = g_cols img * g_rows img" and "g_cols img \<le> 2 ^ 14" and "g_rows img \<le> 2 ^ 14"
    and "0 \<le> x" and "x + 1 < g_cols img" and "0 \<le> y" and "y + 1 < g_rows img"
    and "0 \<le> a" and "a < 16" and "0 \<le> b" and "b < 16"
  shows "getInterpolatedColor img (Fin (of_int (16 * x + a) / 16), Fin (of_int (16 * y + b) / 16)) =
    Inr (Fin (of_int (uint (g_data img ! nat (g_cols img * y + x)) * (16 - b) * (16 - a)
                    + uint (g_data img ! nat (g_cols img * (y + 1) + x)) * a * (16 - b)
                    + uint (g_data img ! nat (g_cols img * y + (x + 1))) * (16 - a) * b
                    + uint (g_data img ! nat (g_cols img * (y + 1) + (x + 1))) * a * b) / 256))"
  using assms by (rule interpolation_exact)

theorem getInterpolatedColor_formula_witness:
  "getInterpolatedColor \<lparr>g_rows = 2, g_cols = 2, g_data = [0, 160, 0, 0]\<rparr> (Fin (4 / 16), Fin 0) = Inr (Fin 0)
    \<and> getInterpolatedColor \<lparr>g_rows = 2, g_cols = 2, g_data = [0, 160, 0, 0]\<rparr> (Fin 0, Fin (4 / 16)) = Inr (Fin 40)"
  using getInterpolatedColor_formula [of "\<lparr>g_rows = 2, g_cols = 2, g_data = [0, 160, 0, 0]\<rparr>" 0 0 4 0]
    getInterpolatedColor_formula [of "\<lparr>g_rows = 2, g_cols = 2, g_data = [0, 160, 0, 0]\<rparr>" 0 0 0 4] by simp

text \<open>
  The bounds test of \<open>getInterpolatedColor\<close> lets the last row pass, and every position on it then
  reads the row behind the image.\<close>

lemma getInterpolatedColor_last_row:
  assumes "int (length (g_data img)) = g_cols img * g_rows img" and "g_cols img \<le> 2 ^ 14" and "g_rows img \<le> 2 ^ 14"
    and "1 \<le> g_rows img" and "0 \<le> px" and "px \<le> of_int (g_cols img - 1)"
  shows "getInterpolatedColor img (Fin px, Fin (of_int (g_rows img - 1))) = Inl OutOfBounds"
proof -
  let ?x = "\<lfloor>px\<rfloor>" and ?r = "g_rows img - 1"
  have x: "0 \<le> ?x" "?x < g_cols img" using assms(5,6) by (simp_all add: floor_less_iff)
  have ends: "fl_of_int binary32 (g_cols img - 1) = Fin (of_int (g_cols img - 1))" "fl_of_int binary32 ?r = Fin (of_int ?r)"
    using assms x unfolding fl_of_int_def by (intro rnd32_int; simp)+
  have tests: "\<not> px < 0" "\<not> of_int (g_cols img - 1) < px" "\<not> (of_int ?r :: rat) < 0" "\<not> (of_int ?r :: rat) < of_int ?r"
    using assms by simp_all
  have cv: "floor_uint (Fin px) = Inr ?x" "floor_uint (Fin (of_int ?r)) = Inr ?r" using assms x by simp_all
  have f00: "mat_at img ?r ?x = Inr (g_data img ! nat (g_cols img * ?r + ?x))"
    using assms x by (intro mat_at_inside) auto
  have f01: "mat_at img ?r (?x + 1) = Inl OutOfBounds \<or> (\<exists>v. mat_at img ?r (?x + 1) = Inr v)"
    by (auto simp: mat_at_def ld_def)
  have f10: "mat_at img (?r + 1) ?x = Inl OutOfBounds" using assms(1) x by (simp add: mat_at_def ld_def)
  show ?thesis
    unfolding getInterpolatedColor_def prod.case ends flt.simps Let_def cv rbind.simps f00
    using f01 tests f10 by auto
qed

end
