(* ===== verification/Lightfield_Image.thy ===== *)
theory Lightfield_Image
  imports Raw_Image Calibration_Data
begin

text \<open>
  \<open>lib/image/lightfieldimage\<close>: one pixel per lens of the straightened picture.

  The functions of OpenCV that turn and warp an image are parameters. Pixels are addressed as \<open>at\<close>
  does it, by \<open>columns * row + column\<close> in the buffer; only the buffer bounds an address. The content of
  the image before the loops is that of fresh memory.
\<close>

record cv_affine =
  rotation_matrix :: "fl \<times> fl \<Rightarrow> fl \<Rightarrow> fl \<Rightarrow> dmat"
  mat_product :: "dmat \<Rightarrow> dmat \<Rightarrow> dmat"
  warp_affine :: "mat \<Rightarrow> dmat \<Rightarrow> nat \<times> nat \<Rightarrow> mat"

definition ld_pixel :: "u16 list \<Rightarrow> int \<Rightarrow> u16 list res" where
  "ld_pixel d p =
     (if 0 \<le> p \<and> 3 * p + 3 \<le> int (length d) then Inr (take 3 (drop (3 * nat p) d)) else Inl OutOfBounds)"

definition st_pixel :: "u16 list \<Rightarrow> int \<Rightarrow> u16 list \<Rightarrow> u16 list res" where
  "st_pixel d p v =
     (if 0 \<le> p \<and> 3 * p + 3 \<le> int (length d) then Inr (take (3 * nat p) d @ v @ drop (3 * nat p + 3) d)
      else Inl OutOfBounds)"

definition M_PI :: fl where
  "M_PI = rnd binary64 (314159265358979323846 / 10 ^ 20)"

text \<open>\<open>r * t\<close>: the rotation about the origin and the translation of the calibration.\<close>

definition straighten :: "cv_affine \<Rightarrow> CalibrationData \<Rightarrow> dmat" where
  "straighten A cal =
     (let arr = m_array cal;
          angle = fdiv binary64 (fmul binary64 (m_rotation arr) (Fin 180)) M_PI;
          r = rotation_matrix A (Fin 0, Fin 0) angle (Fin 1);
          t = \<lparr>d_cols = 3, d_rows = [[Fin 1, Fin 0, fst (m_translation arr)], [Fin 0, Fin 1, snd (m_translation arr)],
                                     [Fin 0, Fin 0, Fin 1]]\<rparr>
      in mat_product A r t)"

text \<open>The body of the two loops, for line \<open>y\<close> of the vertical and \<open>x\<close> of the horizontal lines. The
  buffer of the image has \<open>width\<close> columns.\<close>

definition store_crossing :: "mat \<Rightarrow> LLine list \<Rightarrow> LLine list \<Rightarrow> nat \<Rightarrow> nat \<times> nat \<Rightarrow> u16 list \<Rightarrow> u16 list res" where
  "store_crossing tmp horizontal vertical width = (\<lambda>(y, x) img.
     if l_subgrid (horizontal ! x) = l_subgrid (vertical ! y) then
       rbind (int_of_fl (l_position (vertical ! y))) (\<lambda>cx.
       rbind (int_of_fl (l_position (horizontal ! x))) (\<lambda>cy.
       rbind (ld_pixel (data tmp) (int (cols tmp) * cy + cx)) (\<lambda>v.
       st_pixel img (int width * int x + int (y div 2)) v)))
     else Inr img)"

definition crossings :: "'a list \<Rightarrow> 'b list \<Rightarrow> (nat \<times> nat) list" where
  "crossings horizontal vertical =
     concat (map (\<lambda>y. map (\<lambda>x. (y, x)) [0..<length horizontal]) [0..<length vertical])"

definition LightfieldImage :: "cv_affine \<Rightarrow> u16 list \<Rightarrow> mat \<Rightarrow> CalibrationData \<Rightarrow> mat res" where
  "LightfieldImage A alloc rawImage cal =
     (let tmp = warp_affine A rawImage (straighten A cal) (cols rawImage, rows rawImage);
          horizontal = horizonalLines (m_grid (m_array cal));
          vertical = verticalLines (m_grid (m_array cal));
          width = length vertical div 2
      in rbind (rfold (store_crossing tmp horizontal vertical width) (crossings horizontal vertical) alloc)
           (\<lambda>img. Inr \<lparr>rows = length horizontal, cols = width, data = img\<rparr>))"

subsection \<open>Pixels\<close>

lemma ld_pixel_length: "ld_pixel d p = Inr v \<Longrightarrow> length v = 3"
  by (auto simp: ld_pixel_def split: if_splits)

lemma take_drop_eq:
  assumes "k + m \<le> length xs" and "k + m \<le> length ys" and "\<And>i. i < m \<Longrightarrow> xs ! (k + i) = ys ! (k + i)"
  shows "take m (drop k xs) = take m (drop k ys)"
  using assms by (intro nth_equalityI) auto

lemma st_pixel_ok:
  assumes "0 \<le> p" and "3 * p + 3 \<le> int (length d)" and "length v = 3"
  shows "\<exists>d'. st_pixel d p v = Inr d' \<and> length d' = length d \<and> ld_pixel d' p = Inr v
    \<and> (\<forall>q. q \<noteq> p \<longrightarrow> ld_pixel d' q = ld_pixel d q)"
proof -
  define n where "n = nat p"
  have p: "p = int n" using assms(1) by (simp add: n_def)
  have n: "3 * n + 3 \<le> length d" using assms(2) p by simp
  let ?d = "take (3 * n) d @ v @ drop (3 * n + 3) d"
  have "ld_pixel ?d q = ld_pixel d q" if "q \<noteq> p" for q
  proof (cases "0 \<le> q \<and> 3 * q + 3 \<le> int (length d)")
    case True
    define k where "k = nat q"
    have k: "k \<noteq> n" "3 * k + 3 \<le> length d" "q = int k" using True that p by (auto simp: k_def)
    have "?d ! (3 * k + i) = d ! (3 * k + i)" if "i < 3" for i
    proof (cases "k < n")
      case True
      then show ?thesis using that n by (simp add: nth_append)
    next
      case False
      then have "3 * n + 3 \<le> 3 * k + i" "\<not> 3 * k + i < 3 * n" "\<not> 3 * k + i - 3 * n < 3" using k(1) by simp_all
      then show ?thesis using that n k(2) assms(3) by (simp add: nth_append)
    qed
    then have "take 3 (drop (3 * k) ?d) = take 3 (drop (3 * k) d)"
      using n k(2) assms(3) by (intro take_drop_eq) auto
    then show ?thesis using True n assms(3) by (simp add: ld_pixel_def k_def)
  next
    case False
    then show ?thesis using n assms(3) by (auto simp: ld_pixel_def)
  qed
  moreover have "st_pixel d p v = Inr ?d" using assms by (simp add: st_pixel_def n_def)
  moreover have "ld_pixel ?d p = Inr v" using n assms(3) p by (simp add: ld_pixel_def)
  moreover have "length ?d = length d" using n assms(3) by simp
  ultimately show ?thesis by blast
qed

text \<open>Writing to distinct addresses leaves the last written value of each.\<close>

lemma rfold_writes:
  assumes "\<And>q img. q \<in> set qs \<Longrightarrow> \<not> sel q \<Longrightarrow> f q img = Inr img"
    and "\<And>q img. q \<in> set qs \<Longrightarrow> sel q \<Longrightarrow> f q img = st_pixel img (addr q) (val q)"
    and "\<And>q. q \<in> set qs \<Longrightarrow> sel q \<Longrightarrow> 0 \<le> addr q \<and> 3 * addr q + 3 \<le> int (length alloc) \<and> length (val q) = 3"
    and "\<And>q r. q \<in> set qs \<Longrightarrow> r \<in> set qs \<Longrightarrow> sel q \<Longrightarrow> sel r \<Longrightarrow> addr q = addr r \<Longrightarrow> q = r"
  shows "\<exists>img. rfold f qs alloc = Inr img \<and> length img = length alloc
    \<and> (\<forall>q \<in> set qs. sel q \<longrightarrow> ld_pixel img (addr q) = Inr (val q))"
  using assms
proof (induction qs rule: rev_induct)
  case Nil
  then show ?case by simp
next
  case (snoc q qs)
  obtain img where img: "rfold f qs alloc = Inr img" "length img = length alloc"
      "\<forall>r \<in> set qs. sel r \<longrightarrow> ld_pixel img (addr r) = Inr (val r)"
    using snoc by auto
  show ?case
  proof (cases "sel q")
    case False
    then show ?thesis using img snoc(2) [of q img] by (auto simp: rfold_append)
  next
    case True
    obtain img' where i: "st_pixel img (addr q) (val q) = Inr img'" "length img' = length img"
        "ld_pixel img' (addr q) = Inr (val q)" "\<forall>p. p \<noteq> addr q \<longrightarrow> ld_pixel img' p = ld_pixel img p"
      using st_pixel_ok [of "addr q" img "val q"] snoc(4) [of q] True img(2) by auto
    have "ld_pixel img' (addr r) = Inr (val r)" if "r \<in> set qs" "sel r" for r
      using that i(3,4) img(3) snoc(5) [of r q] True by (cases "addr r = addr q") auto
    then show ?thesis using img i True snoc(3) [of q img] by (auto simp: rfold_append)
  qed
qed

subsection \<open>The lens pixels\<close>

text \<open>The documented behaviour of \<open>warpAffine\<close>: the result has the size asked for.\<close>

definition warps :: "cv_affine \<Rightarrow> bool" where
  "warps A \<longleftrightarrow> (\<forall>m T w h. rows (warp_affine A m T (w, h)) = h \<and> cols (warp_affine A m T (w, h)) = w
     \<and> length (data (warp_affine A m T (w, h))) = 3 * (w * h))"

definition inside :: "nat \<Rightarrow> LLine \<Rightarrow> bool" where
  "inside n l \<longleftrightarrow> (case int_of_fl (l_position l) of Inl _ \<Rightarrow> False | Inr i \<Rightarrow> 0 \<le> i \<and> i < int n)"

definition coord :: "LLine \<Rightarrow> nat" where
  "coord l = (case int_of_fl (l_position l) of Inl _ \<Rightarrow> 0 | Inr i \<Rightarrow> nat i)"

lemma inside_coord: "inside n l \<Longrightarrow> int_of_fl (l_position l) = Inr (int (coord l)) \<and> coord l < n"
  by (auto simp: inside_def coord_def split: sum.splits)

lemma set_crossings: "set (crossings h v) = {(y, x). y < length v \<and> x < length h}"
  by (auto simp: crossings_def)

lemma pixel_address:
  fixes w h x y :: nat
  assumes "x < w" and "y < h"
  shows "3 * (int w * int y + int x) + 3 \<le> 3 * (int w * int h)"
proof -
  have "w * (y + 1) \<le> w * h" using assms(2) by (intro mult_left_mono) auto
  then have "w * y + x + 1 \<le> w * h" using assms(1) by simp
  then have "int (w * y + x + 1) \<le> int (w * h)" by (rule of_nat_mono)
  then show ?thesis by simp
qed

lemma address_inj:
  fixes w x y x' y' :: nat
  assumes "x < w" and "x' < w" and "w * y + x = w * y' + x'"
  shows "x = x' \<and> y = y'"
proof -
  have "x = x'" using arg_cong [OF assms(3), of "\<lambda>n. n mod w"] assms(1,2) by simp
  then show ?thesis using assms by auto
qed

lemma crossingE:
  assumes "q \<in> set (crossings h v)"
  obtains y x where "q = (y, x)" and "y < length v" and "x < length h"
  using assms by (auto simp: set_crossings)

text \<open>The crossings that are stored, where they come from and where they go.\<close>

definition same_subgrid :: "LLine list \<Rightarrow> LLine list \<Rightarrow> nat \<times> nat \<Rightarrow> bool" where
  "same_subgrid h v q \<longleftrightarrow> l_subgrid (h ! snd q) = l_subgrid (v ! fst q)"

definition crossing_value :: "mat \<Rightarrow> LLine list \<Rightarrow> LLine list \<Rightarrow> nat \<times> nat \<Rightarrow> u16 list" where
  "crossing_value tmp h v q = take 3 (drop (3 * (cols tmp * coord (h ! snd q) + coord (v ! fst q))) (data tmp))"

definition target :: "nat \<Rightarrow> nat \<times> nat \<Rightarrow> int" where
  "target w q = int (w * snd q + fst q div 2)"

lemma crossing_read:
  assumes "inside (cols tmp) (v ! y)" and "inside (rows tmp) (h ! x)" and "length (data tmp) = 3 * (cols tmp * rows tmp)"
  shows "ld_pixel (data tmp) (int (cols tmp * coord (h ! x) + coord (v ! y))) = Inr (crossing_value tmp h v (y, x))"
  using pixel_address [of "coord (v ! y)" "cols tmp" "coord (h ! x)" "rows tmp"] inside_coord [OF assms(1)] inside_coord [OF assms(2)] assms(3)
  by (simp add: ld_pixel_def crossing_value_def flip: of_nat_mult of_nat_add)

lemma crossing_write:
  assumes "inside (cols tmp) (v ! y)" and "inside (rows tmp) (h ! x)" and "length (data tmp) = 3 * (cols tmp * rows tmp)"
  shows "store_crossing tmp h v w (y, x) img =
    (if same_subgrid h v (y, x) then st_pixel img (target w (y, x)) (crossing_value tmp h v (y, x)) else Inr img)"
  using crossing_read [OF assms] inside_coord [OF assms(1)] inside_coord [OF assms(2)]
  by (simp add: store_crossing_def same_subgrid_def target_def)

text \<open>Neighbouring vertical lines of different subgrids: no two stored crossings go to the same pixel.\<close>

definition alternating :: "LLine list \<Rightarrow> bool" where
  "alternating v \<longleftrightarrow> even (length v) \<and> (\<forall>j < length v div 2. l_subgrid (v ! (2 * j)) \<noteq> l_subgrid (v ! (2 * j + 1)))"

lemma alternating_half: "alternating v \<Longrightarrow> y < length v \<Longrightarrow> y div 2 < length v div 2"
  by (auto simp: alternating_def)

lemma alternating_inj:
  assumes "alternating v" and "y < length v" "x < length h" and "y' < length v" "x' < length h"
    and "same_subgrid h v (y, x)" and "same_subgrid h v (y', x')" and "target (length v div 2) (y, x) = target (length v div 2) (y', x')"
  shows "(y, x) = (y', x')"
proof -
  have "length v div 2 * x + y div 2 = length v div 2 * x' + y' div 2" using assms(8) by (simp only: target_def fst_conv snd_conv of_nat_eq_iff)
  then have e: "y div 2 = y' div 2" "x = x'"
    using address_inj [OF alternating_half [OF assms(1,2)] alternating_half [OF assms(1,4)]] by blast+
  have "y = y'"
  proof (rule ccontr)
    assume "y \<noteq> y'"
    then have "y = 2 * (y div 2) \<and> y' = 2 * (y div 2) + 1 \<or> y' = 2 * (y div 2) \<and> y = 2 * (y div 2) + 1" using e(1) by presburger
    moreover have "l_subgrid (v ! (2 * (y div 2))) \<noteq> l_subgrid (v ! (2 * (y div 2) + 1))"
      using assms(1) alternating_half [OF assms(1,2)] by (simp add: alternating_def)
    moreover have "l_subgrid (v ! y) = l_subgrid (v ! y')" using assms(6,7) e(2) by (simp add: same_subgrid_def)
    ultimately show False by metis
  qed
  then show ?thesis using e(2) by simp
qed

lemma alternating_match:
  assumes "alternating v" and "j < length v div 2"
  obtains y where "y \<in> {2 * j, 2 * j + 1}" and "y < length v" and "y div 2 = j" and "l_subgrid (v ! y) = s"
proof -
  have "l_subgrid (v ! (2 * j)) = s \<or> l_subgrid (v ! (2 * j + 1)) = s"
    using assms unfolding alternating_def
    by (cases "l_subgrid (v ! (2 * j))"; cases "l_subgrid (v ! (2 * j + 1))"; cases s) auto
  moreover have "2 * j + 1 < length v" using assms by (auto simp: alternating_def)
  ultimately show thesis using that [of "2 * j"] that [of "2 * j + 1"] by auto
qed

text \<open>
  C29: \<open>LightfieldImage\<close>. When every pair of neighbouring vertical lines has one line of each subgrid and
  the lines lie inside the picture, the constructor stays inside of all buffers and gives an image with
  a row for every horizontal line and a column for every pair of vertical lines. No pixel keeps the
  content of the fresh memory: each is the pixel of the straightened picture where the horizontal line
  crosses the line of the pair that has the same subgrid.\<close>

theorem LightfieldImage_correct:
  assumes "warps A" and "alternating (verticalLines (m_grid (m_array cal)))"
    and "\<forall>l \<in> set (horizonalLines (m_grid (m_array cal))). inside (rows raw) l"
    and "\<forall>l \<in> set (verticalLines (m_grid (m_array cal))). inside (cols raw) l"
    and "length alloc = 3 * (length (verticalLines (m_grid (m_array cal))) div 2 * length (horizonalLines (m_grid (m_array cal))))"
  shows "\<exists>img. LightfieldImage A alloc raw cal = Inr img
    \<and> rows img = length (horizonalLines (m_grid (m_array cal))) \<and> cols img = length (verticalLines (m_grid (m_array cal))) div 2
    \<and> (\<forall>x < rows img. \<forall>j < cols img. \<exists>y \<in> {2 * j, 2 * j + 1}.
         l_subgrid (verticalLines (m_grid (m_array cal)) ! y) = l_subgrid (horizonalLines (m_grid (m_array cal)) ! x)
       \<and> ld_pixel (data img) (int (cols img * x + j))
         = ld_pixel (data (warp_affine A raw (straighten A cal) (cols raw, rows raw)))
             (int (cols raw * coord (horizonalLines (m_grid (m_array cal)) ! x)
                   + coord (verticalLines (m_grid (m_array cal)) ! y))))"
proof -
  define h v tmp where "h = horizonalLines (m_grid (m_array cal))" and "v = verticalLines (m_grid (m_array cal))"
    and "tmp = warp_affine A raw (straighten A cal) (cols raw, rows raw)"
  note defs = h_def [symmetric] v_def [symmetric] tmp_def [symmetric]
  let ?w = "length v div 2"
  note alt = assms(2) [unfolded defs]
  have al: "length alloc = 3 * (?w * length h)" using assms(5) by (simp add: defs)
  have tm: "cols tmp = cols raw" "rows tmp = rows raw" "length (data tmp) = 3 * (cols tmp * rows tmp)"
    using assms(1) by (auto simp: warps_def tmp_def)
  have inv: "inside (cols tmp) (v ! y)" if "y < length v" for y using that assms(4) tm by (simp add: defs)
  have inh: "inside (rows tmp) (h ! x)" if "x < length h" for x using that assms(3) tm by (simp add: defs)
  have "\<exists>img. rfold (store_crossing tmp h v ?w) (crossings h v) alloc = Inr img \<and> length img = length alloc
    \<and> (\<forall>q \<in> set (crossings h v). same_subgrid h v q \<longrightarrow> ld_pixel img (target ?w q) = Inr (crossing_value tmp h v q))"
  proof (rule rfold_writes)
    fix q assume "q \<in> set (crossings h v)"
    then obtain y x where q: "q = (y, x)" "y < length v" "x < length h" by (rule crossingE)
    note w = crossing_write [OF inv [OF q(2)] inh [OF q(3)] tm(3), of ?w]
    show "store_crossing tmp h v ?w q img = Inr img" if "\<not> same_subgrid h v q" for img using that w q(1) by simp
    show "store_crossing tmp h v ?w q img = st_pixel img (target ?w q) (crossing_value tmp h v q)" if "same_subgrid h v q" for img
      using that w q(1) by simp
    show "0 \<le> target ?w q \<and> 3 * target ?w q + 3 \<le> int (length alloc) \<and> length (crossing_value tmp h v q) = 3"
      using pixel_address [OF alternating_half [OF alt q(2)] q(3)] ld_pixel_length [OF crossing_read [OF inv [OF q(2)] inh [OF q(3)] tm(3)]]
        q(1) al by (simp add: target_def)
  next
    fix q r assume "q \<in> set (crossings h v)" "r \<in> set (crossings h v)" and m: "same_subgrid h v q" "same_subgrid h v r" "target ?w q = target ?w r"
    then obtain y x y' x' where "q = (y, x)" "y < length v" "x < length h" "r = (y', x')" "y' < length v" "x' < length h"
      by (metis crossingE)
    with alternating_inj [OF alt] m show "q = r" by blast
  qed
  then obtain img where img: "rfold (store_crossing tmp h v ?w) (crossings h v) alloc = Inr img"
      "\<forall>q \<in> set (crossings h v). same_subgrid h v q \<longrightarrow> ld_pixel img (target ?w q) = Inr (crossing_value tmp h v q)" by blast
  have px: "\<exists>y \<in> {2 * j, 2 * j + 1}. l_subgrid (v ! y) = l_subgrid (h ! x) \<and>
      ld_pixel img (int (?w * x + j)) = ld_pixel (data tmp) (int (cols raw * coord (h ! x) + coord (v ! y)))"
    if x: "x < length h" and j: "j < ?w" for x j
  proof -
    obtain y where y: "y \<in> {2 * j, 2 * j + 1}" "y < length v" "y div 2 = j" "l_subgrid (v ! y) = l_subgrid (h ! x)"
      using alternating_match [OF alt j] by blast
    have "ld_pixel img (target ?w (y, x)) = Inr (crossing_value tmp h v (y, x))"
      using img(2) y x by (auto simp: set_crossings same_subgrid_def)
    then show ?thesis
      using y crossing_read [OF inv [OF y(2)] inh [OF x] tm(3)] tm(1) by (auto simp: target_def)
  qed
  have "LightfieldImage A alloc raw cal = Inr \<lparr>rows = length h, cols = ?w, data = img\<rparr>"
    using img(1) by (simp add: LightfieldImage_def Let_def defs)
  then show ?thesis using px unfolding defs by auto
qed

definition flat_affine :: cv_affine where
  "flat_affine = \<lparr>rotation_matrix = (\<lambda>_ _ _. \<lparr>d_cols = 3, d_rows = [[Fin 1, Fin 0, Fin 0], [Fin 0, Fin 1, Fin 0]]\<rparr>),
     mat_product = (\<lambda>r t. r), warp_affine = (\<lambda>m T (w, h). \<lparr>rows = h, cols = w, data = replicate (3 * (w * h)) 7\<rparr>)\<rparr>"

lemma warps_flat: "warps flat_affine"
  by (simp add: warps_def flat_affine_def)

definition crossed_data :: "LLine list \<Rightarrow> CalibrationData" where
  "crossed_data v = \<lparr>m_serial = [], m_array = \<lparr>m_grid = \<lparr>horizonalLines = [\<lparr>l_subgrid = SUBGRID_A, l_position = Fin 0\<rparr>], verticalLines = v\<rparr>,
     m_translation = (Fin 0, Fin 0), m_rotation = Fin 0\<rparr>, m_lens = []\<rparr>"

theorem LightfieldImage_correct_witness:
  "\<exists>img. LightfieldImage flat_affine [0, 0, 0] \<lparr>rows = 1, cols = 2, data = [1, 2, 3, 4, 5, 6]\<rparr>
      (crossed_data [\<lparr>l_subgrid = SUBGRID_A, l_position = Fin 0\<rparr>, \<lparr>l_subgrid = SUBGRID_B, l_position = Fin 1\<rparr>]) = Inr img
    \<and> rows img = 1 \<and> cols img = 1"
  using LightfieldImage_correct [OF warps_flat, of "crossed_data [\<lparr>l_subgrid = SUBGRID_A, l_position = Fin 0\<rparr>, \<lparr>l_subgrid = SUBGRID_B, l_position = Fin 1\<rparr>]"
      "\<lparr>rows = 1, cols = 2, data = [1, 2, 3, 4, 5, 6]\<rparr>" "[0, 0, 0]"]
  by (auto simp: crossed_data_def alternating_def inside_def)

lemma rfold_faults:
  assumes "\<And>q img. q \<in> set qs \<Longrightarrow> length img = n \<Longrightarrow> f q img = Inl e \<or> (\<exists>img'. f q img = Inr img' \<and> length img' = n)"
    and "length alloc = n"
  shows "rfold f qs alloc = Inl e \<or> (\<exists>img. rfold f qs alloc = Inr img \<and> length img = n)"
  using assms
proof (induction qs arbitrary: alloc)
  case Nil
  then show ?case by simp
next
  case (Cons q qs)
  from Cons.prems(1) [of q alloc] Cons.prems(2) Cons.IH Cons.prems(1) show ?case by force
qed

lemma crossing_fault:
  assumes "inside (cols tmp) (v ! y)" and "inside (rows tmp) (h ! x)" and "length (data tmp) = 3 * (cols tmp * rows tmp)"
  shows "store_crossing tmp h v w (y, x) img = Inl OutOfBounds
    \<or> (\<exists>img'. store_crossing tmp h v w (y, x) img = Inr img' \<and> length img' = length img)"
  using ld_pixel_length [OF crossing_read [OF assms]] unfolding crossing_write [OF assms] by (auto simp: st_pixel_def)

text \<open>
  C30: With an odd number of vertical lines the last one has no column of its own: where the last
  horizontal line has its subgrid, the constructor writes past the end of the image.\<close>

theorem LightfieldImage_odd:
  assumes "warps A" and "odd (length (verticalLines (m_grid (m_array cal))))" and "horizonalLines (m_grid (m_array cal)) \<noteq> []"
    and "l_subgrid (last (horizonalLines (m_grid (m_array cal)))) = l_subgrid (last (verticalLines (m_grid (m_array cal))))"
    and "\<forall>l \<in> set (horizonalLines (m_grid (m_array cal))). inside (rows raw) l"
    and "\<forall>l \<in> set (verticalLines (m_grid (m_array cal))). inside (cols raw) l"
    and "length alloc = 3 * (length (verticalLines (m_grid (m_array cal))) div 2 * length (horizonalLines (m_grid (m_array cal))))"
  shows "LightfieldImage A alloc raw cal = Inl OutOfBounds"
proof -
  define h v tmp where "h = horizonalLines (m_grid (m_array cal))" and "v = verticalLines (m_grid (m_array cal))"
    and "tmp = warp_affine A raw (straighten A cal) (cols raw, rows raw)"
  note defs = h_def [symmetric] v_def [symmetric] tmp_def [symmetric]
  let ?w = "length v div 2" and ?q = "(length v - 1, length h - 1)"
  have ne: "v \<noteq> []" "h \<noteq> []" using assms(2,3) by (auto simp: defs)
  have tm: "cols tmp = cols raw" "rows tmp = rows raw" "length (data tmp) = 3 * (cols tmp * rows tmp)"
    using assms(1) by (auto simp: warps_def tmp_def)
  have inv: "inside (cols tmp) (v ! y)" if "y < length v" for y using that assms(6) tm by (simp add: defs)
  have inh: "inside (rows tmp) (h ! x)" if "x < length h" for x using that assms(5) tm by (simp add: defs)
  have pre: "store_crossing tmp h v ?w q img = Inl OutOfBounds
      \<or> (\<exists>img'. store_crossing tmp h v ?w q img = Inr img' \<and> length img' = length alloc)"
    if "q \<in> set (butlast (crossings h v))" and len: "length img = length alloc" for q img
  proof -
    from in_set_butlastD [OF that(1)] obtain y x where "q = (y, x)" "y < length v" "x < length h" by (rule crossingE)
    with crossing_fault [OF inv inh tm(3), of y x ?w img] len show ?thesis by auto
  qed
  have cr: "crossings h v = butlast (crossings h v) @ [?q]"
  proof -
    obtain m n where "length v = Suc m" "length h = Suc n" using ne by (metis length_0_conv not0_implies_Suc)
    then show ?thesis by (simp add: crossings_def butlast_append)
  qed
  have "?w * (length h - 1) + (length v - 1) div 2 = ?w * length h"
    using assms(2) ne by (cases "length h") (auto simp: defs elim!: oddE)
  then have "target ?w ?q = int (?w * length h)" by (simp only: target_def fst_conv snd_conv)
  moreover have "same_subgrid h v ?q" using assms(4) ne by (simp add: same_subgrid_def last_conv_nth defs)
  ultimately have out: "store_crossing tmp h v ?w ?q img = Inl OutOfBounds" if "length img = length alloc" for img
    using crossing_write [OF inv inh tm(3), of "length v - 1" "length h - 1" ?w img] that assms(7) ne by (simp add: defs st_pixel_def)
  have "rfold (store_crossing tmp h v ?w) (butlast (crossings h v) @ [?q]) alloc = Inl OutOfBounds"
    using rfold_faults [of "butlast (crossings h v)" "length alloc" "store_crossing tmp h v ?w" OutOfBounds alloc, OF pre refl] out
    by (auto simp: rfold_append)
  then show ?thesis using cr by (simp add: LightfieldImage_def Let_def defs)
qed

theorem LightfieldImage_odd_witness:
  "LightfieldImage flat_affine [] \<lparr>rows = 1, cols = 1, data = [1, 2, 3]\<rparr>
     (crossed_data [\<lparr>l_subgrid = SUBGRID_A, l_position = Fin 0\<rparr>]) = Inl OutOfBounds"
  using LightfieldImage_odd [OF warps_flat, of "crossed_data [\<lparr>l_subgrid = SUBGRID_A, l_position = Fin 0\<rparr>]"
      "\<lparr>rows = 1, cols = 1, data = [1, 2, 3]\<rparr>" "[]"]
  by (simp add: crossed_data_def inside_def)

end
