(* ===== verification/Command_Line.thy ===== *)
theory Command_Line
  imports Camera_Files Calibrator Demosaic Lens_Detector Lightfield_Image
begin

text \<open>
  \<open>lib/main.cpp\<close> and \<open>tools/calibstats/main.cpp\<close>: the command line programs.

  They work on a \<open>world\<close>: the cameras, the working directory, the files (by directory and name), what was
  printed, and the objects in memory that outlive a step (the calibrator of \<open>calibrate\<close> and the JSON
  trees of the metadata, by address). The operating system and the libraries are the parameters \<open>os\<close> and
  \<open>libs\<close>. A file that cannot be opened for writing takes no output, as with a failed stream; a file that
  is opened and then not written, because an exception ends the function, stays empty.

  \<open>tbb::parallel_for_each\<close> runs the files in an order \<open>sched\<close> picks, one after the other; the
  interleavings inside of \<open>addGrid\<close>, the only place where the bodies meet, are those of the calibrator
  theory. An exception of a body leaves the loop.
\<close>

type_synonym disk = "string \<times> string \<rightharpoonup> u8 list"

record ('d, 'j) world =
  w_cameras :: "'d Camera_Device.Camera list"
  w_cwd :: string
  w_disk :: disk
  w_cout :: string
  w_cerr :: string
  w_calibrator :: Calibrator_Impl
  w_trees :: "'j memory"
  w_next :: nat

record os =
  os_chdir :: "string \<Rightarrow> string \<Rightarrow> string option"
  os_readdir :: "disk \<Rightarrow> string \<Rightarrow> string list option"
  os_writable :: "string \<times> string \<Rightarrow> bool"
  os_ctime :: "int \<Rightarrow> string option"
  os_error :: string

record 'j libs =
  lib_json :: "'j json_ops"
  lib_parse :: "u8 list option \<Rightarrow> 'j"
  lib_write :: "'j \<Rightarrow> u8 list"
  lib_hash :: "int \<Rightarrow> 64 word"
  lib_copy :: cv_copy
  lib_image :: "mat cv_image"
  lib_math :: cv_math
  lib_affine :: cv_affine
  lib_bgr :: "mat \<Rightarrow> mat"
  lib_png :: "mat \<Rightarrow> u8 list"
  lib_alloc :: "u16 list"
  lib_buf :: "u8 list"
  lib_sched :: "string list \<Rightarrow> string list"
  lib_order :: "nat list"

definition nl :: string where "nl = [CHR 0x0A]"

definition cout :: "string \<Rightarrow> (('d, 'j) world, unit) io" where
  "cout s = modify (\<lambda>w. w\<lparr>w_cout := w_cout w @ s\<rparr>)"

definition cerr :: "string \<Rightarrow> (('d, 'j) world, unit) io" where
  "cerr s = modify (\<lambda>w. w\<lparr>w_cerr := w_cerr w @ s\<rparr>)"

definition perror :: "os \<Rightarrow> string \<Rightarrow> (('d, 'j) world, unit) io" where
  "perror sys s = cerr (s @ '': '' @ os_error sys @ nl)"

text \<open>An operation on the cameras.\<close>

definition on_cameras :: "('d Camera_Device.Camera list, 'a) io \<Rightarrow> (('d, 'j) world, 'a) io" where
  "on_cameras m w = map_option (\<lambda>(r, cs). (r, w\<lparr>w_cameras := cs\<rparr>)) (m (w_cameras w))"

text \<open>\<open>ofstream\<close>: opening truncates the file, writing appends to it.\<close>

definition ofs_open :: "os \<Rightarrow> string \<Rightarrow> (('d, 'j) world, unit) io" where
  "ofs_open sys name = modify (\<lambda>w.
     if os_writable sys (w_cwd w, name) then w\<lparr>w_disk := (w_disk w)((w_cwd w, name) \<mapsto> [])\<rparr> else w)"

definition ofs_write :: "os \<Rightarrow> string \<Rightarrow> u8 list \<Rightarrow> (('d, 'j) world, unit) io" where
  "ofs_write sys name bs = modify (\<lambda>w.
     if os_writable sys (w_cwd w, name)
     then w\<lparr>w_disk := (w_disk w)((w_cwd w, name) \<mapsto> (case w_disk w (w_cwd w, name) of None \<Rightarrow> [] | Some old \<Rightarrow> old) @ bs)\<rparr> else w)"

definition chdir :: "os \<Rightarrow> string \<Rightarrow> (('d, 'j) world, bool) io" where
  "chdir sys path = bind_io (reads w_cwd) (\<lambda>cwd.
     case os_chdir sys cwd path of
       None \<Rightarrow> bind_io (perror sys ''failed to change directory'') (\<lambda>_. ret False)
     | Some cwd' \<Rightarrow> bind_io (modify (\<lambda>w. w\<lparr>w_cwd := cwd'\<rparr>)) (\<lambda>_. ret True))"

subsection \<open>Camera commands\<close>

definition tab :: string where "tab = [CHR 0x09]"

definition help_lines :: "string list" where
  "help_lines = [''Usage:'', [],
     tab @ ''-i'' @ tab @ '' get basic camera information'',
     tab @ ''-l'' @ tab @ '' list files'',
     tab @ ''-d id'' @ tab @ '' download image with the specified id'',
     tab @ ''     '' @ tab @ '' The image is downloaded to the current directory'',
     tab @ ''-t dir'' @ tab @ '' download calibration images to a specified directory'',
     tab @ ''-c dir'' @ tab @ '' calibrate using files from a specified directory'',
     tab @ ''      '' @ tab @ '' The output is stored in file '' @ [CHR 0x22] @ ''calibration.json'' @ [CHR 0x22],
     tab @ ''-p dir'' @ tab @ '' process images in the selected directory.'',
     tab @ ''      '' @ tab @ '' The option requires a file '' @ [CHR 0x22] @ ''calibration.json'' @ [CHR 0x22] @ '' to exist'',
     tab @ ''      '' @ tab @ '' in the selected directory.'',
     tab @ ''-f path'' @ tab @ '' download a file specified by a full path, potentialy dangerous'',
     tab @ ''     '' @ tab @ '' Requires knowledge of the camera file structure.'']"

definition showHelp :: "(('d, 'j) world, unit) io" where
  "showHelp = for_io help_lines (\<lambda>l. cout (l @ nl))"

definition prepareCamera :: "'d usb_ops \<Rightarrow> nat \<Rightarrow> (('d, 'j) world, nat) io" where
  "prepareCamera ops idx =
     bind_io (cout (''waiting until the camera is ready'' @ nl)) (\<lambda>_.
     bind_io (on_cameras (at_camera idx (waitReady ops))) (\<lambda>_.
     bind_io (cout (''camera ready'' @ nl)) (\<lambda>_. ret idx)))"

definition main_getCameraInformation :: "'d usb_ops \<Rightarrow> nat \<Rightarrow> (('d, 'j) world, unit) io" where
  "main_getCameraInformation ops camera =
     bind_io (on_cameras (at_camera camera (getCameraInformation ops))) (\<lambda>info.
     bind_io (cout (''Vendor: '' @ vendor info @ nl)) (\<lambda>_.
     bind_io (cout (''Product: '' @ product info @ nl)) (\<lambda>_.
     bind_io (cout (''Revision: '' @ revision info @ nl)) (\<lambda>_.
     bind_io (cout (''Serial: '' @ serial info @ nl)) (\<lambda>_.
     cout (''Firmware: '' @ firmware info @ nl))))))"

text \<open>\<open>std::setw\<close>, and the line of a file. The buffer of \<open>strftime\<close> has room for 27 characters; with more, its
  content is not specified.\<close>

definition setw :: "nat \<Rightarrow> string \<Rightarrow> string" where
  "setw n s = replicate (n - length s) CHR '' '' @ s"

definition list_file :: "os \<Rightarrow> nat \<times> Photo \<Rightarrow> (('d, 'j) world, unit) io" where
  "list_file sys = (\<lambda>(i, file).
     bind_io (cout (setw 3 (show_nat i))) (\<lambda>_.
     bind_io (lift (getTime file)) (\<lambda>time.
     case os_ctime sys time of
       None \<Rightarrow> stop NullPointer
     | Some text \<Rightarrow>
         if length text < 28 then bind_io (cout (setw 28 text)) (\<lambda>_. cout nl) else stop Uninitialised)))"

definition listFiles :: "'d usb_ops \<Rightarrow> os \<Rightarrow> clock \<Rightarrow> nat \<Rightarrow> (('d, 'j) world, unit) io" where
  "listFiles ops sys clk camera =
     bind_io (on_cameras (getPictureList ops clk camera)) (\<lambda>fileList.
     bind_io (cout (setw 3 ''id'' @ setw 28 ''date'' @ nl)) (\<lambda>_.
     for_io (enumerate 0 fileList) (list_file sys)))"

text \<open>\<open>ss << name << ext; ofs.open(\<dots>); get(ofs); ofs.close()\<close>\<close>

definition save_as :: "os \<Rightarrow> string \<Rightarrow> ('d Camera_Device.Camera list, u8 list) io \<Rightarrow> (('d, 'j) world, unit) io" where
  "save_as sys name get =
     bind_io (ofs_open sys name) (\<lambda>_. bind_io (on_cameras get) (\<lambda>bs. ofs_write sys name bs))"

definition downloadImage :: "'d usb_ops \<Rightarrow> os \<Rightarrow> clock \<Rightarrow> nat \<Rightarrow> int \<Rightarrow> (('d, 'j) world, unit) io" where
  "downloadImage ops sys clk camera i =
     bind_io (on_cameras (getPictureList ops clk camera)) (\<lambda>fileList.
     bind_io (lift (ld fileList i)) (\<lambda>photo.
     bind_io (lift (getName (fst photo))) (\<lambda>name.
     bind_io (save_as sys (name @ ''.TXT'') (getImageMetadata ops (fst photo))) (\<lambda>_.
     bind_io (save_as sys (name @ ''.128'') (getImageThumbnail ops photo)) (\<lambda>_.
     save_as sys (name @ ''.RAW'') (getImageData ops (fst photo)))))))"

definition download_calib_image :: "'d usb_ops \<Rightarrow> os \<Rightarrow> Camera_Files.Image \<Rightarrow> (('d, 'j) world, unit) io" where
  "download_calib_image ops sys img =
     bind_io (lift (getName img)) (\<lambda>name.
     bind_io (cout (''downloading file: '' @ name @ nl)) (\<lambda>_.
     bind_io (save_as sys (name @ ''.TXT'') (getImageMetadata ops img)) (\<lambda>_.
     save_as sys (name @ ''.RAW'') (getImageData ops img))))"

definition downloadCalib :: "'d usb_ops \<Rightarrow> os \<Rightarrow> nat \<Rightarrow> string \<Rightarrow> (('d, 'j) world, unit) io" where
  "downloadCalib ops sys camera path =
     (let fileList = getCalibrationList camera in
      bind_io (chdir sys path) (\<lambda>ok.
      if ok then for_io fileList (download_calib_image ops sys) else ret ()))"

text \<open>\<open>path.find_last_of\<close> of both separators, and the rest of the path behind it.\<close>

definition is_separator :: "char \<Rightarrow> bool" where
  "is_separator c \<longleftrightarrow> c = CHR ''/'' \<or> c = backslash"

definition output_name :: "string \<Rightarrow> string" where
  "output_name path = rev (takeWhile (\<lambda>c. \<not> is_separator c) (rev path))"

definition downloadFile :: "'d usb_ops \<Rightarrow> os \<Rightarrow> nat \<Rightarrow> string \<Rightarrow> (('d, 'j) world, unit) io" where
  "downloadFile ops sys camera path =
     save_as sys (output_name path) (at_camera camera (getFile ops path))"

subsection \<open>Calibration and processing\<close>

text \<open>The directory scan: the names that end in \<open>.RAW\<close>, without the ending.\<close>

definition is_raw :: "string \<Rightarrow> bool" where
  "is_raw name \<longleftrightarrow> 4 \<le> length name \<and> take 4 (rev name) = rev ''.RAW''"

definition raw_files :: "string list \<Rightarrow> string list" where
  "raw_files names = map (\<lambda>name. take (length name - 4) name) (filter is_raw names)"

definition scan_directory :: "os \<Rightarrow> string \<Rightarrow> (('d, 'j) world, string list option) io" where
  "scan_directory sys path =
     bind_io (chdir sys path) (\<lambda>ok.
     if \<not> ok then ret None
     else bind_io (reads (\<lambda>w. os_readdir sys (w_disk w) (w_cwd w))) (\<lambda>entries.
       case entries of
         None \<Rightarrow> bind_io (perror sys ''failed to change directory'') (\<lambda>_. ret None)
       | Some names \<Rightarrow> ret (Some (raw_files names))))"

text \<open>A stream on a file of the working directory: \<open>None\<close> when it cannot be opened. A stream in fail state
  reads nothing.\<close>

definition ifs_open :: "string \<Rightarrow> (('d, 'j) world, u8 list option) io" where
  "ifs_open name = reads (\<lambda>w. w_disk w (w_cwd w, name))"

definition stream_of :: "u8 list option \<Rightarrow> istream" where
  "stream_of f = (case f of None \<Rightarrow> \<lparr>is_bytes = [], is_fail = True\<rparr> | Some bs \<Rightarrow> \<lparr>is_bytes = bs, is_fail = False\<rparr>)"

definition read_metadata :: "'j libs \<Rightarrow> u8 list option \<Rightarrow> (('d, 'j) world, Metadata) io" where
  "read_metadata L f w =
     (let (metadata, mem) = read (lib_parse L) (w_next w) f (w_trees w)
      in Some (Inr metadata, w\<lparr>w_trees := mem, w_next := w_next w + 1\<rparr>))"

definition read_raw :: "'j libs \<Rightarrow> u8 list option \<Rightarrow> (('d, 'j) world, mat) io" where
  "read_raw L f = lift (RawImage (lib_copy L) (lib_alloc L) (lib_buf L) (stream_of f) 3280 3280)"

definition add_to_calibrator :: "'j libs \<Rightarrow> PointGrid \<Rightarrow> Metadata \<Rightarrow> (('d, 'j) world, unit) io" where
  "add_to_calibrator L grid metadata w =
     (case addGrid (lib_json L) (lib_hash L) grid metadata (w_calibrator w, w_trees w) of
        Inl e \<Rightarrow> Some (Inl e, w)
      | Inr (cal, mem) \<Rightarrow> Some (Inr (), w\<lparr>w_calibrator := cal, w_trees := mem\<rparr>))"

text \<open>What both programs do with the image and its metadata.\<close>

definition detect_and_add :: "'j libs \<Rightarrow> string \<Rightarrow> mat \<Rightarrow> Metadata \<Rightarrow> (('d, 'j) world, unit) io" where
  "detect_and_add L filebase rawimg metadata =
     bind_io (cout (filebase @ '' processing image...'' @ nl)) (\<lambda>_.
     bind_io (lift (detect (lib_image L) (sqrt_f (lib_math L)) rawimg)) (\<lambda>pointGrid.
     if isEmpty pointGrid then cout (filebase @ '' image is too flat, skipping'' @ nl)
     else add_to_calibrator L pointGrid metadata))"

definition calib_file :: "'j libs \<Rightarrow> string \<Rightarrow> (('d, 'j) world, unit) io" where
  "calib_file L filebase =
     bind_io (cout (filebase @ '' reading image...'' @ nl)) (\<lambda>_.
     bind_io (ifs_open (filebase @ ''.TXT'')) (\<lambda>finmeta.
     if finmeta = None then cout (filebase @ '' missing metadata, skipping'' @ nl)
     else
       bind_io (read_metadata L finmeta) (\<lambda>metadata.
       bind_io (ifs_open (filebase @ ''.RAW'')) (\<lambda>fin.
       bind_io (read_raw L fin) (\<lambda>rawimg. detect_and_add L filebase rawimg metadata)))))"

definition parallel_for_each :: "'j libs \<Rightarrow> string list \<Rightarrow> (string \<Rightarrow> (('d, 'j) world, unit) io) \<Rightarrow> (('d, 'j) world, unit) io" where
  "parallel_for_each L files body = for_io (lib_sched L files) body"

text \<open>Exceptions of the calibrator are told from others by their text.\<close>

fun differs_text :: "fault \<Rightarrow> string option" where
  "differs_text (Thrown msg) =
     (if take 40 msg = ''Camera serial number differs, expected: '' then Some msg else None)"
| "differs_text _ = None"

definition catch_differs :: "(('d, 'j) world, 'a) io \<Rightarrow> (string \<Rightarrow> (('d, 'j) world, 'a) io) \<Rightarrow> (('d, 'j) world, 'a) io" where
  "catch_differs m handler w =
     (case m w of
        Some (Inl e, w') \<Rightarrow> (case differs_text e of None \<Rightarrow> Some (Inl e, w') | Some msg \<Rightarrow> handler msg w')
      | r \<Rightarrow> r)"

text \<open>\<open>calibrator.calibrate()\<close> on the calibrator in memory.\<close>

definition finish_calibration :: "'j libs \<Rightarrow> (('d, 'j) world, CalibrationData) io" where
  "finish_calibration L w =
     (case Calibrator.calibrate (lib_json L) (lib_math L) (lib_order L) (w_calibrator w, w_trees w) of
        Inl e \<Rightarrow> Some (Inl e, w)
      | Inr (d, mem) \<Rightarrow> Some (Inr d, w\<lparr>w_trees := mem\<rparr>))"

definition new_calibrator :: "(('d, 'j) world, unit) io" where
  "new_calibrator = modify (\<lambda>w. w\<lparr>w_calibrator := Calibrator_ctor\<rparr>)"

definition store_calibration :: "os \<Rightarrow> 'j libs \<Rightarrow> string \<Rightarrow> CalibrationData \<Rightarrow> (('d, 'j) world, unit) io" where
  "store_calibration sys L out calibrationResult =
     bind_io (lift (CalibrationData_serialize (lib_json L) calibrationResult)) (\<lambda>json.
     bind_io (ofs_open sys out) (\<lambda>_. ofs_write sys out (lib_write L json)))"

text \<open>\<open>calibrate\<close>: the result is the exit code when the function ends the program by \<open>std::exit\<close>.\<close>

definition main_calibrate :: "os \<Rightarrow> 'j libs \<Rightarrow> string \<Rightarrow> string \<Rightarrow> (('d, 'j) world, int option) io" where
  "main_calibrate sys L path out =
     bind_io (scan_directory sys path) (\<lambda>scan.
     case scan of
       None \<Rightarrow> ret None
     | Some files \<Rightarrow>
         bind_io new_calibrator (\<lambda>_.
         bind_io (catch_differs
             (bind_io (parallel_for_each L files (calib_file L)) (\<lambda>_. ret None))
             (\<lambda>msg. bind_io (cerr (msg @ nl)) (\<lambda>_. ret (Some 1)))) (\<lambda>exited.
         if exited \<noteq> None then ret exited
         else
           bind_io (cout (''calibrating images...'' @ nl)) (\<lambda>_.
           bind_io (finish_calibration L) (\<lambda>calibrationResult.
           bind_io (cout (''DONE'' @ nl)) (\<lambda>_.
           bind_io (store_calibration sys L out calibrationResult) (\<lambda>_. ret None)))))))"

definition load_calibration :: "'j libs \<Rightarrow> string \<Rightarrow> (('d, 'j) world, CalibrationData) io" where
  "load_calibration L in_name =
     bind_io (ifs_open in_name) (\<lambda>fin.
     lift (CalibrationData_deserialize (lib_json L) (lib_parse L fin) CalibrationData_ctor))"

definition process_file :: "os \<Rightarrow> 'j libs \<Rightarrow> (nat \<Rightarrow> u16 list) \<Rightarrow> CalibrationData \<Rightarrow> string \<Rightarrow> (('d, 'j) world, unit) io" where
  "process_file sys L alloc calibration filebase =
     bind_io (cout (filebase @ '' reading image...'' @ nl)) (\<lambda>_.
     bind_io (ifs_open (filebase @ ''.RAW'')) (\<lambda>fin.
     bind_io (read_raw L fin) (\<lambda>rawimg.
     bind_io (ifs_open (filebase @ ''.TXT'')) (\<lambda>finmeta.
     bind_io (read_metadata L finmeta) (\<lambda>metadata.
     bind_io (lift (LightfieldImage (lib_affine L)
         (alloc (3 * (length (verticalLines (m_grid (m_array calibration))) div 2 * length (horizonalLines (m_grid (m_array calibration))))))
         rawimg calibration)) (\<lambda>lightfieldimg.
     bind_io (ofs_open sys (filebase @ ''-flat.png'')) (\<lambda>_.
     ofs_write sys (filebase @ ''-flat.png'') (lib_png L (lib_bgr L lightfieldimg)))))))))"

definition main_process :: "os \<Rightarrow> 'j libs \<Rightarrow> (nat \<Rightarrow> u16 list) \<Rightarrow> string \<Rightarrow> string \<Rightarrow> (('d, 'j) world, unit) io" where
  "main_process sys L alloc path in_name =
     bind_io (scan_directory sys path) (\<lambda>scan.
     case scan of
       None \<Rightarrow> ret ()
     | Some files \<Rightarrow>
         bind_io (load_calibration L in_name) (\<lambda>calibration.
         parallel_for_each L files (process_file sys L alloc calibration)))"

subsection \<open>main\<close>

text \<open>The options \<open>getopt(argc, argv, "ild:t:c:f:p:")\<close> returns one after the other, with \<open>optarg\<close>. Other
  words are skipped, a word \<open>--\<close> ends the options, and a question mark stands for an unknown option or a
  missing argument. After \<open>optind = 1\<close> the options are returned once more.\<close>

definition takes_arg :: "char \<Rightarrow> bool" where
  "takes_arg c \<longleftrightarrow> c \<in> set ''dtcfp''"

definition is_flag :: "char \<Rightarrow> bool" where
  "is_flag c \<longleftrightarrow> c \<in> set ''il''"

function getopt :: "string \<Rightarrow> string list \<Rightarrow> (char \<times> string) list" where
  "getopt [] [] = []"
| "getopt [] (w # ws) =
     (if w = ''--'' then []
      else if 2 \<le> length w \<and> hd w = CHR ''-'' then getopt (tl w) ws
      else getopt [] ws)"
| "getopt (c # cs) ws =
     (if takes_arg c then
        (if cs \<noteq> [] then (c, cs) # getopt [] ws
         else (case ws of [] \<Rightarrow> [(CHR ''?'', [])] | w # ws' \<Rightarrow> (c, w) # getopt [] ws'))
      else ((if is_flag c then c else CHR ''?''), []) # getopt cs ws)"
  by pat_completeness auto
termination
  by (relation "measures [\<lambda>(cs, ws). length cs + sum_list (map length ws), \<lambda>(cs, ws). length ws]") auto

definition needs_camera :: "char \<Rightarrow> bool" where
  "needs_camera c \<longleftrightarrow> c \<in> set ''ildtf''"

text \<open>The first loop: the pointer to the camera, or the exit code on the left.\<close>

fun prepare_pass :: "'d usb_ops \<Rightarrow> (char \<times> string) list \<Rightarrow> nat option \<Rightarrow> (('d, 'j) world, int + nat option) io" where
  "prepare_pass ops [] camera = ret (Inr camera)"
| "prepare_pass ops ((c, _) # opts) camera =
     (if needs_camera c then
        bind_io (reads (\<lambda>w. length (w_cameras w))) (\<lambda>n.
        if n = 0 then bind_io (cerr (''No cameras found'' @ nl)) (\<lambda>_. ret (Inl 1))
        else bind_io (prepareCamera ops 0) (\<lambda>cam. prepare_pass ops opts (Some cam)))
      else prepare_pass ops opts camera)"

definition atoi :: "string \<Rightarrow> int res" where
  "atoi s = (case scan_number 10 (length s) s of
     None \<Rightarrow> Inr 0
   | Some (n, _) \<Rightarrow> if - (2 ^ 31) \<le> n \<and> n < 2 ^ 31 then Inr n else Inl BadConversion)"

definition with_camera :: "nat option \<Rightarrow> (nat \<Rightarrow> (('d, 'j) world, 'a) io) \<Rightarrow> (('d, 'j) world, 'a) io" where
  "with_camera camera f = (case camera of None \<Rightarrow> stop NullPointer | Some c \<Rightarrow> f c)"

fun option_pass ::
  "'d usb_ops \<Rightarrow> os \<Rightarrow> 'j libs \<Rightarrow> (nat \<Rightarrow> u16 list) \<Rightarrow> clock \<Rightarrow> nat option \<Rightarrow> (char \<times> string) list \<Rightarrow> (('d, 'j) world, int) io" where
  "option_pass ops sys L alloc clk camera [] = ret 0"
| "option_pass ops sys L alloc clk camera ((c, optarg) # opts) =
     (if c = CHR ''i'' then
        bind_io (with_camera camera (main_getCameraInformation ops)) (\<lambda>_. option_pass ops sys L alloc clk camera opts)
      else if c = CHR ''l'' then bind_io (with_camera camera (listFiles ops sys clk)) (\<lambda>_. ret 0)
      else if c = CHR ''d'' then
        bind_io (lift (atoi optarg)) (\<lambda>n. bind_io (with_camera camera (\<lambda>cam. downloadImage ops sys clk cam n)) (\<lambda>_. ret 0))
      else if c = CHR ''t'' then bind_io (with_camera camera (\<lambda>cam. downloadCalib ops sys cam optarg)) (\<lambda>_. ret 0)
      else if c = CHR ''c'' then
        bind_io (main_calibrate sys L optarg ''calibration.json'') (\<lambda>exited. ret (case exited of None \<Rightarrow> 0 | Some code \<Rightarrow> code))
      else if c = CHR ''f'' then bind_io (with_camera camera (\<lambda>cam. downloadFile ops sys cam optarg)) (\<lambda>_. ret 0)
      else if c = CHR ''p'' then bind_io (main_process sys L alloc optarg ''calibration.json'') (\<lambda>_. ret 0)
      else bind_io showHelp (\<lambda>_. ret 1))"

definition open_cameras :: "'d usb_ops \<Rightarrow> ('d \<Rightarrow> (u16 \<times> u16) res) \<Rightarrow> 'd list \<Rightarrow> (('d, 'j) world, unit) io" where
  "open_cameras ops getDescriptor devices w =
     (case getCameras ops getDescriptor devices of
        None \<Rightarrow> None
      | Some (Inl e) \<Rightarrow> Some (Inl e, w)
      | Some (Inr cs) \<Rightarrow> Some (Inr (), w\<lparr>w_cameras := cs\<rparr>))"

text \<open>\<open>main\<close> with the words of the command line behind the name of the program.\<close>

definition lyli_main ::
  "'d usb_ops \<Rightarrow> ('d \<Rightarrow> (u16 \<times> u16) res) \<Rightarrow> 'd list \<Rightarrow> os \<Rightarrow> 'j libs \<Rightarrow> (nat \<Rightarrow> u16 list) \<Rightarrow> clock \<Rightarrow> string list
     \<Rightarrow> (('d, 'j) world, int) io" where
  "lyli_main ops getDescriptor devices sys L alloc clk argv =
     (if argv = [] then bind_io showHelp (\<lambda>_. ret 0)
      else
        bind_io (open_cameras ops getDescriptor devices) (\<lambda>_.
        bind_io (prepare_pass ops (getopt [] argv) None) (\<lambda>r.
        case r of
          Inl code \<Rightarrow> ret code
        | Inr camera \<Rightarrow> option_pass ops sys L alloc clk camera (getopt [] argv))))"

subsection \<open>An example\<close>

definition any_os :: os where
  "any_os = \<lparr>os_chdir = (\<lambda>cwd path. Some path), os_readdir = (\<lambda>_ _. None), os_writable = (\<lambda>_. True),
     os_ctime = (\<lambda>_. None), os_error = []\<rparr>"

definition photo_world :: "(sim, json) world" where
  "photo_world = \<lparr>w_cameras = [Some \<lparr>device = one_photo_camera, cameraAccessMutex = False\<rparr>], w_cwd = ''/tmp'', w_disk = Map.empty,
     w_cout = [], w_cerr = [], w_calibrator = Calibrator_ctor, w_trees = Map.empty, w_next = 0\<rparr>"

text \<open>A parser that knows one text.\<close>

definition sample_libs :: "json libs" where
  "sample_libs = \<lparr>lib_json = tree_json, lib_parse = (\<lambda>f. if f = Some [1] then projr (CalibrationData_serialize tree_json sample_data) else JNull),
     lib_write = (\<lambda>_. [1]), lib_hash = of_int, lib_copy = ref_copy,
     lib_image = \<lparr>to_gray = (\<lambda>_. \<lparr>g_rows = 0, g_cols = 0, g_data = []\<rparr>), mean_of = (\<lambda>_ _. Inr (Fin 0)), preprocess = id\<rparr>,
     lib_math = sample_math, lib_affine = flat_affine, lib_bgr = id, lib_png = (\<lambda>_. []), lib_alloc = [], lib_buf = [],
     lib_sched = id, lib_order = []\<rparr>"

subsection \<open>Options and cameras\<close>

lemma reads_step: "bind_io (reads f) g s = g (f s) s"
  by (simp add: bind_io_def reads_def)

lemma modify_step: "bind_io (modify f) g s = g () (f s)"
  by (simp add: bind_io_def modify_def)

lemma ret_app: "ret a s = Some (Inr a, s)"
  by (simp add: ret_def)

lemma stop_app: "stop e s = Some (Inl e, s)"
  by (simp add: stop_def)

lemmas run_simps = reads_step modify_step ret_app stop_app

lemma on_cameras_step:
  "m (w_cameras w) = Some (Inr a, cs) \<Longrightarrow> bind_io (on_cameras m) f w = f a (w\<lparr>w_cameras := cs\<rparr>)"
  by (simp add: bind_io_def on_cameras_def)

lemma at_camera_length: "at_camera c m cs = Some (r, cs') \<Longrightarrow> length cs' = length cs"
  by (auto simp: at_camera_def split: if_splits)

lemma prepareCamera_keeps:
  assumes "prepareCamera ops idx w = Some (r, w')"
  shows "length (w_cameras w') = length (w_cameras w) \<and> w_disk w' = w_disk w \<and> w_cwd w' = w_cwd w \<and> w_cerr w' = w_cerr w
    \<and> (\<forall>a. r = Inr a \<longrightarrow> a = idx)"
  using assms
  by (auto simp: prepareCamera_def bind_io_def on_cameras_def cout_def modify_def ret_def
      dest: at_camera_length split: option.splits sum.splits prod.splits)

lemma prepare_pass_found:
  assumes "prepare_pass ops opts camera w = Some (Inr r, w')" and "w_cameras w \<noteq> []"
  shows "r = Inr (if \<exists>p \<in> set opts. needs_camera (fst p) then Some 0 else camera)
    \<and> w_disk w' = w_disk w \<and> w_cwd w' = w_cwd w \<and> w_cerr w' = w_cerr w \<and> length (w_cameras w') = length (w_cameras w)"
  using assms
proof (induction opts arbitrary: camera w)
  case Nil
  then show ?case by (simp add: ret_def)
next
  case (Cons q opts)
  obtain c a where q: "q = (c, a)" by (cases q)
  show ?case
  proof (cases "needs_camera c")
    case True
    with Cons.prems q obtain cam w1 where w1: "prepareCamera ops 0 w = Some (Inr cam, w1)"
        "prepare_pass ops opts (Some cam) w1 = Some (Inr r, w')"
      by (auto simp: run_simps bind_eq_Some)
    have "cam = 0" "length (w_cameras w1) = length (w_cameras w)" "w_disk w1 = w_disk w" "w_cwd w1 = w_cwd w" "w_cerr w1 = w_cerr w"
      using prepareCamera_keeps [OF w1(1)] by auto
    moreover from this have "w_cameras w1 \<noteq> []" using Cons.prems(2) by auto
    ultimately show ?thesis using Cons.IH [OF w1(2)] True q by simp
  next
    case False
    then show ?thesis using Cons.IH [of camera w] Cons.prems q by simp
  qed
qed

lemma prepare_pass_none:
  assumes "w_cameras w = []"
  shows "prepare_pass ops opts camera w =
    (if \<exists>p \<in> set opts. needs_camera (fst p)
     then Some (Inr (Inl 1), w\<lparr>w_cerr := w_cerr w @ ''No cameras found'' @ nl\<rparr>) else Some (Inr (Inr camera), w))"
  using assms
proof (induction opts arbitrary: camera)
  case Nil
  then show ?case by (simp add: ret_def)
next
  case (Cons q opts)
  then show ?case by (cases q) (simp add: run_simps cerr_def)
qed

text \<open>
  C31: The first loop of \<open>main\<close> decides about the camera for the second. Let an option be given that works on the
  camera. Without a camera the program prints a message and ends with 1, and no file is touched. With one,
  if the camera gets ready, the second loop runs with a pointer to the first camera, so none of
  its commands meets a null pointer there, and still no file was touched.\<close>

theorem main_camera:
  assumes "p \<in> set (getopt [] argv)" and "needs_camera (fst p)"
    and "getCameras ops getDescriptor devices = Some (Inr cs)"
  shows "if cs = []
    then lyli_main ops getDescriptor devices sys L alloc clk argv w
      = Some (Inr 1, w\<lparr>w_cameras := [], w_cerr := w_cerr w @ ''No cameras found'' @ nl\<rparr>)
    else \<forall>r w'. prepare_pass ops (getopt [] argv) None (w\<lparr>w_cameras := cs\<rparr>) = Some (Inr r, w') \<longrightarrow>
      lyli_main ops getDescriptor devices sys L alloc clk argv w
        = option_pass ops sys L alloc clk (Some 0) (getopt [] argv) w'
      \<and> w_disk w' = w_disk w \<and> length (w_cameras w') = length cs"
proof -
  have argv: "argv \<noteq> []" using assms(1) by auto
  have ex: "\<exists>p \<in> set (getopt [] argv). needs_camera (fst p)" using assms(1,2) by blast
  have opened: "bind_io (open_cameras ops getDescriptor devices) f w = f () (w\<lparr>w_cameras := cs\<rparr>)" for f
    using assms(3) by (simp add: bind_io_def open_cameras_def)
  show ?thesis
  proof (cases "cs = []")
    case True
    then show ?thesis
      using argv prepare_pass_none [of "w\<lparr>w_cameras := cs\<rparr>" ops "getopt [] argv" None] ex
      by (simp add: lyli_main_def opened) (simp add: bind_io_def ret_def)
  next
    case False
    then show ?thesis
      using argv ex prepare_pass_found [of ops "getopt [] argv" None "w\<lparr>w_cameras := cs\<rparr>"]
      by (fastforce simp: lyli_main_def opened bind_step)
  qed
qed


theorem main_camera_witness:
  "lyli_main sim_ops (\<lambda>_. Inr (0, 0)) [] any_os sample_libs (\<lambda>n. replicate n 0) sample_clock [''-l''] photo_world
     = Some (Inr 1, photo_world\<lparr>w_cameras := [], w_cerr := ''No cameras found'' @ nl\<rparr>)"
  using main_camera [of "(CHR ''l'', [])" "[''-l'']" sim_ops "\<lambda>_. Inr (0, 0)" "[]" "[]" any_os sample_libs "\<lambda>n. replicate n 0"
      sample_clock photo_world]
  by (simp add: needs_camera_def takes_arg_def is_flag_def photo_world_def)

subsection \<open>Downloads\<close>

lemma save_as_ok:
  assumes "os_writable sys (w_cwd w, name)" and "get (w_cameras w) = Some (Inr bs, cs)"
  shows "save_as sys name get w = Some (Inr (), w\<lparr>w_cameras := cs, w_disk := (w_disk w)((w_cwd w, name) \<mapsto> bs)\<rparr>)"
  using assms by (simp add: save_as_def ofs_open_def modify_step on_cameras_step) (simp add: ofs_write_def modify_def)

text \<open>The three files of a picture, as the camera has them.\<close>

definition picture_files :: "(u8 list \<Rightarrow> u8 list) \<Rightarrow> string \<Rightarrow> entry \<Rightarrow> disk" where
  "picture_files files cwd e =
     (let name = constructBaseName (e_file e) (int (e_fileId e));
          path = constructPath (e_dir e) (int (e_dirId e)) @ name
      in [(cwd, name @ ''.TXT'') \<mapsto> files (c_bytes (path @ ''.TXT'')),
          (cwd, name @ ''.128'') \<mapsto> files (c_bytes (path @ ''.128'')),
          (cwd, name @ ''.RAW'') \<mapsto> files (c_bytes (path @ ''.RAW''))])"

definition picture_name :: "entry \<Rightarrow> string" where
  "picture_name e = constructBaseName (e_file e) (int (e_fileId e))"

text \<open>
  C32: \<open>downloadImage\<close> with a camera that answers by its protocol and a picture list as documented. For a
  number of a picture of the list the working directory has afterwards the metadata, the thumbnail and
  the raw image of that picture, with the content of the files of the camera, and no other file has
  changed. Any other number reads outside of the list, before any file is opened.\<close>

theorem downloadImage_correct:
  assumes "camera_protocol ops pending stored listing info busy"
    and "c < length (w_cameras w)" and "w_cameras w ! c = Some s" and "\<not> cameraAccessMutex s"
    and "listing (device s) = list_bytes magic items es" and "length (listing (device s)) < 256 * 65536"
    and "\<forall>e \<in> set es. Camera_Files.entry_ok e" and "length magic = 4" and "length items mod 8 = 0"
    and "\<forall>f. length (stored (device s) f) < 256 * 65536"
    and "\<forall>f. os_writable sys (w_cwd w, f)"
  shows "\<exists>cs. downloadImage ops sys clk c i w =
    (if 0 \<le> i \<and> i < int (length es)
     then Some (Inr (), w\<lparr>w_cameras := cs, w_disk := w_disk w ++ picture_files (stored (device s)) (w_cwd w) (es ! nat i)\<rparr>)
     else Some (Inl OutOfBounds, w\<lparr>w_cameras := cs\<rparr>))"
proof -
  obtain s1 where s1: "getPictureList ops clk c (w_cameras w) = Some (Inr (map (photo_of clk c) es), (w_cameras w)[c := Some s1])"
      "stored (device s1) = stored (device s)" "\<not> cameraAccessMutex s1"
    using picture_list_ok [OF assms(1-9)] by blast
  show ?thesis
  proof (cases "0 \<le> i \<and> i < int (length es)")
    case False
    then show ?thesis using s1(1) by (auto simp: downloadImage_def on_cameras_step ld_def stop_app)
  next
    case True
    let ?e = "es ! nat i" and ?cs = "\<lambda>s. (w_cameras w)[c := Some s]"
    let ?name = "picture_name ?e" and ?path = "constructPath (e_dir ?e) (int (e_dirId ?e)) @ picture_name ?e"
    have img: "fst (photo_of clk c ?e) = Some \<lparr>m_camera = c, m_fullpath = ?path, m_basename = ?name\<rparr>"
      by (simp add: photo_image picture_name_def)
    have step: "\<exists>s'. get_with ops ext (fst (photo_of clk c ?e)) (?cs t) = Some (Inr (stored (device s) (c_bytes (?path @ ext))), ?cs s')
        \<and> stored (device s') = stored (device s) \<and> \<not> cameraAccessMutex s'"
      if "stored (device t) = stored (device s)" "\<not> cameraAccessMutex t" for t ext
      using get_with_ok [OF assms(1), of c "?cs t" t ?path ext ?name] that assms(2,10) by (simp add: img)
    obtain s2 where s2: "getImageMetadata ops (fst (photo_of clk c ?e)) (?cs s1) = Some (Inr (stored (device s) (c_bytes (?path @ ''.TXT''))), ?cs s2)"
        "stored (device s2) = stored (device s)" "\<not> cameraAccessMutex s2" using step [OF s1(2,3)] unfolding getImageMetadata_def by blast
    obtain s3 where s3: "getImageThumbnail ops (photo_of clk c ?e) (?cs s2) = Some (Inr (stored (device s) (c_bytes (?path @ ''.128''))), ?cs s3)"
        "stored (device s3) = stored (device s)" "\<not> cameraAccessMutex s3" using step [OF s2(2,3)] unfolding getImageThumbnail_def by blast
    obtain s4 where s4: "getImageData ops (fst (photo_of clk c ?e)) (?cs s3) = Some (Inr (stored (device s) (c_bytes (?path @ ''.RAW''))), ?cs s4)"
      using step [OF s3(2,3)] unfolding getImageData_def by blast
    have "ld (map (photo_of clk c) es) i = Inr (photo_of clk c ?e)" using True by (simp add: ld_def nat_less_iff)
    moreover have "getName (fst (photo_of clk c ?e)) = Inr ?name" by (simp add: img getName_def image_get_def)
    ultimately have "downloadImage ops sys clk c i w = Some (Inr (), w\<lparr>w_cameras := ?cs s4,
        w_disk := (w_disk w)((w_cwd w, ?name @ ''.TXT'') \<mapsto> stored (device s) (c_bytes (?path @ ''.TXT'')),
          (w_cwd w, ?name @ ''.128'') \<mapsto> stored (device s) (c_bytes (?path @ ''.128'')),
          (w_cwd w, ?name @ ''.RAW'') \<mapsto> stored (device s) (c_bytes (?path @ ''.RAW'')))\<rparr>)"
      using assms(11) s1(1) s2(1) s3(1) s4
      by (simp add: downloadImage_def on_cameras_step bind_step [OF save_as_ok] save_as_ok)
    then show ?thesis using True by (auto simp: picture_files_def picture_name_def Let_def)
  qed
qed


theorem downloadImage_correct_witness:
  "(\<exists>cs. downloadImage sim_ops any_os sample_clock 0 0 photo_world
      = Some (Inr (), photo_world\<lparr>w_cameras := cs, w_disk := picture_files (\<lambda>_. []) ''/tmp'' sample_entry\<rparr>))
    \<and> (\<exists>cs. downloadImage sim_ops any_os sample_clock 0 1 photo_world = Some (Inl OutOfBounds, photo_world\<lparr>w_cameras := cs\<rparr>))"
proof -
  let ?s = "\<lparr>device = one_photo_camera, cameraAccessMutex = False\<rparr>"
  have list: "sim_list (device ?s) = list_bytes [0, 0, 0, 0] [] [sample_entry]" by (simp add: one_photo_camera_def)
  then have len: "length (sim_list (device ?s)) < 256 * 65536"
    using length_entry_bytes [OF sample_entry_ok] by (simp add: list_bytes_def)
  have "sim_stored one_photo_camera = (\<lambda>_. [])" by (simp add: sim_stored_def one_photo_camera_def fun_eq_iff)
  then show ?thesis
    using downloadImage_correct [OF simulated.camera_protocol_axioms, of 0 photo_world ?s, OF _ _ _ list len, of any_os sample_clock 0]
      downloadImage_correct [OF simulated.camera_protocol_axioms, of 0 photo_world ?s, OF _ _ _ list len, of any_os sample_clock 1]
      sample_entry_ok
    by (simp add: photo_world_def any_os_def)
qed

subsection \<open>Calibration files\<close>

text \<open>
  What \<open>calibrate\<close> stores, \<open>process\<close> loads: when the parser of jsoncpp reads back the text its writer
  has written for the data, the file written by the end of \<open>calibrate\<close> gives \<open>process\<close> the same calibration
  data, and no other file changes.\<close>

lemma stored_calibration_loads:
  assumes "json_lib (lib_json L)" and "storable d" and "os_writable sys (w_cwd w, name)"
    and "\<forall>v. CalibrationData_serialize (lib_json L) d = Inr v \<longrightarrow> lib_parse L (Some (lib_write L v)) = v"
  shows "\<exists>bs. store_calibration sys L name d w = Some (Inr (), w\<lparr>w_disk := (w_disk w)((w_cwd w, name) \<mapsto> bs)\<rparr>)
    \<and> load_calibration L name (w\<lparr>w_disk := (w_disk w)((w_cwd w, name) \<mapsto> bs)\<rparr>)
      = Some (Inr d, w\<lparr>w_disk := (w_disk w)((w_cwd w, name) \<mapsto> bs)\<rparr>)"
proof -
  obtain v where v: "CalibrationData_serialize (lib_json L) d = Inr v"
      "CalibrationData_deserialize (lib_json L) v CalibrationData_ctor = Inr d"
    using json_lib.data_round_trip [OF assms(1,2), of CalibrationData_ctor]
    by (auto simp: CalibrationData_ctor_def ArrayParameters_ctor_def LineGrid_empty_def same_data)
  have "store_calibration sys L name d w = Some (Inr (), w\<lparr>w_disk := (w_disk w)((w_cwd w, name) \<mapsto> lib_write L v)\<rparr>)"
    using v(1) assms(3) by (simp add: store_calibration_def ofs_open_def modify_step) (simp add: ofs_write_def modify_def)
  then show ?thesis
    using v assms(4) by (intro exI [of _ "lib_write L v"]) (simp add: load_calibration_def ifs_open_def reads_step ret_app)
qed


end
