(* ===== verification/Calib_Stats.thy ===== *)
theory Calib_Stats
  imports Command_Line
begin

text \<open>
  \<open>tools/calibstats/main.cpp\<close>: the results of a calibration as a table.

  The program shares the directory scan, the detection and the calibrator with \<open>lib/main.cpp\<close>, but it
  sorts the files, reads the image before the metadata and does not look whether there are metadata.
  \<open>show_real\<close> is the text of a floating point number on a stream. The table ends each of its lines with
  a separator.
\<close>

text \<open>\<open>std::sort\<close> on strings: characters compare as unsigned bytes.\<close>

fun str_le :: "string \<Rightarrow> string \<Rightarrow> bool" where
  "str_le [] b = True"
| "str_le (x # xs) [] = False"
| "str_le (x # xs) (y # ys) =
     ((of_char x :: nat) < of_char y \<or> (of_char x :: nat) = of_char y \<and> str_le xs ys)"

fun insert_name :: "string \<Rightarrow> string list \<Rightarrow> string list" where
  "insert_name n [] = [n]"
| "insert_name n (m # ms) = (if str_le n m then n # m # ms else m # insert_name n ms)"

fun sort_names :: "string list \<Rightarrow> string list" where
  "sort_names [] = []"
| "sort_names (n # ns) = insert_name n (sort_names ns)"

definition stats_help :: "(('d, 'j) world, unit) io" where
  "stats_help =
     bind_io (cout (''Usage:'' @ nl)) (\<lambda>_. bind_io (cout nl) (\<lambda>_.
     cout (tab @ ''calibstats path/to/calibration/files'' @ nl)))"

definition stats_file :: "'j libs \<Rightarrow> string \<Rightarrow> (('d, 'j) world, unit) io" where
  "stats_file L filebase =
     bind_io (cout (filebase @ '' reading image...'' @ nl)) (\<lambda>_.
     bind_io (ifs_open (filebase @ ''.RAW'')) (\<lambda>fin.
     bind_io (read_raw L fin) (\<lambda>rawimg.
     bind_io (ifs_open (filebase @ ''.TXT'')) (\<lambda>finmeta.
     bind_io (read_metadata L finmeta) (\<lambda>metadata. detect_and_add L filebase rawimg metadata)))))"

definition csv_header :: string where
  "csv_header = ''Zoomstep,'' @ ''Focusstep,'' @ ''tx,'' @ ''ty,'' @ ''rotation,'' @ ''fx,'' @ ''fy,'' @ ''cx,'' @ ''cy,''
     @ ''k1,'' @ ''k2,'' @ ''p1,'' @ ''p2,'' @ ''k3,'' @ nl"

text \<open>\<open>at<double>(i, j)\<close>, and \<open>at<double>(i)\<close> of a matrix with one column.\<close>

definition mat_entry :: "dmat \<Rightarrow> nat \<Rightarrow> nat \<Rightarrow> fl res" where
  "mat_entry m i j = rbind (ld (d_rows m) (int i)) (\<lambda>row. ld row (int j))"

definition csv_values :: "LensParameters \<Rightarrow> fl list res" where
  "csv_values p =
     rfold (\<lambda>(m, i, j) acc. rbind (mat_entry m i j) (\<lambda>x. Inr (acc @ [x])))
       [(m_cameraMatrix p, 0, 0), (m_cameraMatrix p, 1, 1), (m_cameraMatrix p, 0, 2), (m_cameraMatrix p, 1, 2),
        (m_distCoeffs p, 0, 0), (m_distCoeffs p, 1, 0), (m_distCoeffs p, 2, 0), (m_distCoeffs p, 3, 0), (m_distCoeffs p, 4, 0)] []"

definition csv_row ::
  "(fl \<Rightarrow> string) \<Rightarrow> ArrayParameters \<Rightarrow> LensConfiguration \<times> LensParameters \<Rightarrow> string res" where
  "csv_row show_real arr = (\<lambda>(config, params).
     rbind (getZoomStep config) (\<lambda>z. rbind (getFocusStep config) (\<lambda>f. rbind (csv_values params) (\<lambda>xs.
     Inr (show_int z @ '','' @ show_int f @ '',''
       @ concat (map (\<lambda>x. show_real x @ '','') ([fst (m_translation arr), snd (m_translation arr), m_rotation arr] @ xs)) @ nl)))))"

definition write_csv :: "os \<Rightarrow> (fl \<Rightarrow> string) \<Rightarrow> CalibrationData \<Rightarrow> (('d, 'j) world, unit) io" where
  "write_csv sys show_real cal =
     bind_io (ofs_open sys ''XXX.csv'') (\<lambda>_.
     bind_io (ofs_write sys ''XXX.csv'' (bytes csv_header)) (\<lambda>_.
     for_io (m_lens cal) (\<lambda>res.
       bind_io (lift (csv_row show_real (m_array cal) res)) (\<lambda>row. ofs_write sys ''XXX.csv'' (bytes row)))))"

definition stats_calibrate :: "os \<Rightarrow> 'j libs \<Rightarrow> (fl \<Rightarrow> string) \<Rightarrow> string \<Rightarrow> (('d, 'j) world, unit) io" where
  "stats_calibrate sys L show_real path =
     bind_io (scan_directory sys path) (\<lambda>scan.
     case scan of
       None \<Rightarrow> ret ()
     | Some files \<Rightarrow>
         bind_io new_calibrator (\<lambda>_.
         bind_io (parallel_for_each L (sort_names files) (stats_file L)) (\<lambda>_.
         bind_io (cout (''calibrating images...'' @ nl)) (\<lambda>_.
         bind_io (finish_calibration L) (\<lambda>calibrationResult.
         bind_io (cout (''DONE'' @ nl)) (\<lambda>_.
         write_csv sys show_real calibrationResult))))))"

definition stats_main :: "os \<Rightarrow> 'j libs \<Rightarrow> (fl \<Rightarrow> string) \<Rightarrow> string list \<Rightarrow> (('d, 'j) world, int) io" where
  "stats_main sys L show_real argv =
     (case argv of
        [path] \<Rightarrow>
          catch_differs (bind_io (stats_calibrate sys L show_real path) (\<lambda>_. ret 0))
            (\<lambda>msg. bind_io (cerr (''caught exception: '' @ msg @ nl)) (\<lambda>_.
                   bind_io (cerr (''exitting'' @ nl)) (\<lambda>_. ret 1)))
      | _ \<Rightarrow> bind_io stats_help (\<lambda>_. ret 0))"

end
