(* ===== verification/Calibration_Objects.thy ===== *)
theory Calibration_Objects
  imports Calibration_Data
begin

text \<open>
  \<open>lib/calibration/calibrationdata.cpp\<close>: the special members and accessors of the data classes.

  An object is the pointer to its implementation, \<open>None\<close> after the object was moved from. Copies make a
  new implementation from the members of the other one; the destructors free it and are not modelled. An
  assignment gets a flag that tells whether both operands are the same object; it gives the assigned
  object and, for a move, the other one. Copying a \<open>LensConfiguration\<close> reads its two numbers, so they
  have to be set. Copying \<open>CalibrationData\<close> runs the constructor that sorts the lens entries.
\<close>

definition impl :: "'a option \<Rightarrow> 'a res" where
  "impl this = (case this of None \<Rightarrow> Inl NullPointer | Some i \<Rightarrow> Inr i)"

definition move_from :: "'a option \<Rightarrow> 'a option \<times> 'a option" where
  "move_from other = (other, None)"

definition assign_move :: "bool \<Rightarrow> 'a option \<Rightarrow> 'a option \<Rightarrow> 'a option \<times> 'a option" where
  "assign_move same this other = (if same then (this, other) else move_from other)"

subsection \<open>ArrayParameters\<close>

definition ArrayParameters_new :: "ArrayParameters option" where
  "ArrayParameters_new = Some ArrayParameters_ctor"

definition ArrayParameters_of :: "LineGrid \<Rightarrow> fl \<times> fl \<Rightarrow> fl \<Rightarrow> ArrayParameters option" where
  "ArrayParameters_of grid translation rotation =
     Some \<lparr>m_grid = grid, m_translation = translation, m_rotation = rotation\<rparr>"

definition ArrayParameters_copy :: "ArrayParameters option \<Rightarrow> ArrayParameters option res" where
  "ArrayParameters_copy other =
     rbind (impl other) (\<lambda>i. Inr (ArrayParameters_of (m_grid i) (m_translation i) (m_rotation i)))"

definition ArrayParameters_assign ::
  "bool \<Rightarrow> ArrayParameters option \<Rightarrow> ArrayParameters option \<Rightarrow> ArrayParameters option res" where
  "ArrayParameters_assign same this other = (if same then Inr this else ArrayParameters_copy other)"

definition getGrid :: "ArrayParameters option \<Rightarrow> LineGrid res" where
  "getGrid this = rbind (impl this) (\<lambda>i. Inr (m_grid i))"

definition getTranslation :: "ArrayParameters option \<Rightarrow> (fl \<times> fl) res" where
  "getTranslation this = rbind (impl this) (\<lambda>i. Inr (m_translation i))"

definition getRotation :: "ArrayParameters option \<Rightarrow> fl res" where
  "getRotation this = rbind (impl this) (\<lambda>i. Inr (m_rotation i))"

subsection \<open>LensParameters\<close>

definition LensParameters_new :: "LensParameters option" where
  "LensParameters_new = Some LensParameters_ctor"

definition LensParameters_of :: "dmat \<Rightarrow> dmat \<Rightarrow> LensParameters option" where
  "LensParameters_of cameraMatrix distCoeffs = Some \<lparr>m_cameraMatrix = cameraMatrix, m_distCoeffs = distCoeffs\<rparr>"

definition LensParameters_copy :: "LensParameters option \<Rightarrow> LensParameters option res" where
  "LensParameters_copy other = rbind (impl other) (\<lambda>i. Inr (LensParameters_of (m_cameraMatrix i) (m_distCoeffs i)))"

definition LensParameters_assign ::
  "bool \<Rightarrow> LensParameters option \<Rightarrow> LensParameters option \<Rightarrow> LensParameters option res" where
  "LensParameters_assign same this other = (if same then Inr this else LensParameters_copy other)"

definition getCameraMatrix :: "LensParameters option \<Rightarrow> dmat res" where
  "getCameraMatrix this = rbind (impl this) (\<lambda>i. Inr (m_cameraMatrix i))"

definition getDistCoeffs :: "LensParameters option \<Rightarrow> dmat res" where
  "getDistCoeffs this = rbind (impl this) (\<lambda>i. Inr (m_distCoeffs i))"

subsection \<open>LensConfiguration\<close>

definition LensConfiguration_copy :: "LensConfiguration option \<Rightarrow> LensConfiguration option res" where
  "LensConfiguration_copy other =
     rbind (impl other) (\<lambda>i. rbind (getZoomStep i) (\<lambda>z. rbind (getFocusStep i) (\<lambda>f.
     Inr (Some (LensConfiguration_of z f)))))"

definition LensConfiguration_assign ::
  "bool \<Rightarrow> LensConfiguration option \<Rightarrow> LensConfiguration option \<Rightarrow> LensConfiguration option res" where
  "LensConfiguration_assign same this other = (if same then Inr this else LensConfiguration_copy other)"

subsection \<open>CalibrationData\<close>

text \<open>The entries of the copied vector are copied one by one, as pairs.\<close>

definition copy_entry :: "LensConfiguration \<times> LensParameters \<Rightarrow> LensCalibration \<Rightarrow> LensCalibration res" where
  "copy_entry e acc =
     rbind (LensConfiguration_copy (Some (fst e))) (\<lambda>c. rbind (LensParameters_copy (Some (snd e))) (\<lambda>p.
     rbind (impl c) (\<lambda>c'. rbind (impl p) (\<lambda>p'. Inr (acc @ [(c', p')])))))"

definition CalibrationData_new :: "string \<Rightarrow> ArrayParameters \<Rightarrow> LensCalibration \<Rightarrow> CalibrationData option res" where
  "CalibrationData_new serial array lens =
     rbind (rbind (ArrayParameters_copy (Some array)) impl) (\<lambda>a. rbind (rfold copy_entry lens []) (\<lambda>l.
     rbind (CalibrationData_of serial a l) (\<lambda>d. Inr (Some d))))"

definition CalibrationData_copy :: "CalibrationData option \<Rightarrow> CalibrationData option res" where
  "CalibrationData_copy other = rbind (impl other) (\<lambda>i. CalibrationData_new (m_serial i) (m_array i) (m_lens i))"

definition CalibrationData_assign ::
  "bool \<Rightarrow> CalibrationData option \<Rightarrow> CalibrationData option \<Rightarrow> CalibrationData option res" where
  "CalibrationData_assign same this other = (if same then Inr this else CalibrationData_copy other)"

definition getSerial :: "CalibrationData option \<Rightarrow> string res" where
  "getSerial this = rbind (impl this) (\<lambda>i. Inr (m_serial i))"

definition getArray :: "CalibrationData option \<Rightarrow> ArrayParameters res" where
  "getArray this = rbind (impl this) (\<lambda>i. Inr (m_array i))"

definition getLens :: "CalibrationData option \<Rightarrow> LensCalibration res" where
  "getLens this = rbind (impl this) (\<lambda>i. Inr (m_lens i))"

subsection \<open>Copies\<close>

lemma copy_entries: "\<forall>e \<in> set es. configured e \<Longrightarrow> rfold copy_entry es acc = Inr (acc @ es)"
proof (induction es arbitrary: acc)
  case Nil
  then show ?case by simp
next
  case (Cons e es)
  then show ?case
    by (cases e; cases "fst e")
      (auto simp: copy_entry_def LensConfiguration_copy_def LensParameters_copy_def impl_def getZoomStep_def getFocusStep_def
        LensParameters_of_def LensConfiguration_of_def configured_def)
qed

lemma array_copy: "ArrayParameters_copy (Some a) = Inr (Some a)"
  by (simp add: ArrayParameters_copy_def impl_def ArrayParameters_of_def)

lemma lens_le_antisym:
  "configured a \<Longrightarrow> configured b \<Longrightarrow> lens_le a b \<Longrightarrow> lens_le b a \<Longrightarrow> lens_key a = lens_key b"
  by (auto simp: lens_le_def lens_key_def prod_eq_iff)

text \<open>Two ordered arrangements of entries with different keys are the same.\<close>

lemma lens_order_unique:
  assumes "sorted_wrt lens_le xs" and "sorted_wrt lens_le ys" and "mset xs = mset ys"
    and "\<forall>e \<in> set xs. configured e" and "distinct (map lens_key xs)"
  shows "xs = ys"
  using assms
proof (induction xs arbitrary: ys)
  case Nil
  then show ?case by simp
next
  case (Cons x xs)
  from Cons.prems(3) obtain y ys' where ys: "ys = y # ys'" by (cases ys) auto
  have sets: "set (x # xs) = set ys" using Cons.prems(3) mset_eq_setD by blast
  have "y = x"
  proof (rule ccontr)
    assume "y \<noteq> x"
    then have "lens_le x y" "lens_le y x" "y \<in> set xs" using Cons.prems(1,2) sets ys by auto
    then have "lens_key x = lens_key y" using lens_le_antisym Cons.prems(4) by simp
    then show False using Cons.prems(5) \<open>y \<in> set xs\<close> by auto
  qed
  then show ?case using Cons ys by simp
qed

text \<open>
  Copying a \<open>CalibrationData\<close> object, by its copy constructor or by an assignment from another object,
  keeps serial number, array parameters and the lens entries, but it orders the entries by zoom and
  focus step. The copy equals the original when the entries were ordered and their steps differ.\<close>

lemma CalibrationData_copy_correct:
  assumes "\<forall>e \<in> set (m_lens d). configured e"
  shows "\<exists>d'. CalibrationData_copy (Some d) = Inr (Some d') \<and> CalibrationData_assign False this (Some d) = Inr (Some d')
    \<and> m_serial d' = m_serial d \<and> m_array d' = m_array d \<and> mset (m_lens d') = mset (m_lens d) \<and> sorted_wrt lens_le (m_lens d')
    \<and> (sorted_wrt lens_le (m_lens d) \<and> distinct (map lens_key (m_lens d)) \<longrightarrow> d' = d)"
proof -
  obtain l where l: "sort_lens (m_lens d) = Inr l" "mset l = mset (m_lens d)" "sorted_wrt lens_le l"
    using sort_lens_ok [OF assms] by blast
  let ?d = "\<lparr>m_serial = m_serial d, m_array = m_array d, m_lens = l\<rparr>"
  have "CalibrationData_copy (Some d) = Inr (Some ?d)"
    using copy_entries [OF assms, of "[]"] l(1)
    by (simp add: CalibrationData_copy_def CalibrationData_new_def impl_def array_copy CalibrationData_of_def)
  moreover have "?d = d" if "sorted_wrt lens_le (m_lens d)" "distinct (map lens_key (m_lens d))"
    using lens_order_unique [OF that(1) l(3) l(2) [symmetric] assms that(2)] by simp
  ultimately show ?thesis using l by (auto simp: CalibrationData_assign_def)
qed

lemma CalibrationData_copy_correct_example:
  "CalibrationData_copy (Some sample_data) = Inr (Some sample_data)"
  using CalibrationData_copy_correct [of sample_data None]
  by (simp add: sample_data_def configured_def LensConfiguration_of_def)

end
