(* ===== verification/Preprocessing.thy ===== *)
theory Preprocessing
  imports Lens_Detector
begin

text \<open>
  \<open>lib/calibration/fftpreprocessor\<close> and \<open>preprocessor\<close>: the masks in which the lens detector searches.

  The operations of OpenCV are the record \<open>cv_filters\<close>; a plane of the spectrum is its size and its
  buffer. The code's own part is the removal of the low frequencies, the thresholds it computes and the order of the
  operations. \<open>binary_filters\<close> states what the documentation of OpenCV says about the operations that make
  a mask: a threshold gives 0 or the given value, erosion, dilation and opening give values that the image has,
  products and differences of bytes saturate.
\<close>

record plane =
  p_rows :: int
  p_cols :: int
  p_data :: "fl list"

record cv_filters =
  spectrum :: "gmat \<Rightarrow> plane list"              \<comment> \<open>\<open>merge\<close>, \<open>dft\<close> and \<open>split\<close>\<close>
  from_spectrum :: "plane list \<Rightarrow> gmat"          \<comment> \<open>\<open>merge\<close>, \<open>idft\<close>, \<open>normalize\<close> and \<open>convertTo\<close>\<close>
  border_wrap :: "int \<Rightarrow> int \<Rightarrow> int"
  sqrt_int :: "int \<Rightarrow> fl"
  mean_value :: "gmat \<Rightarrow> fl"
  thresholded :: "gmat \<Rightarrow> u8 \<Rightarrow> u8 \<Rightarrow> gmat"
  opened3 :: "gmat \<Rightarrow> gmat"
  laplacian3 :: "gmat \<Rightarrow> gmat"
  filtered3 :: "gmat \<Rightarrow> fl list list \<Rightarrow> gmat"
  product :: "gmat \<Rightarrow> gmat \<Rightarrow> gmat"
  difference :: "u8 \<Rightarrow> gmat \<Rightarrow> gmat"
  eroded3 :: "gmat \<Rightarrow> nat \<Rightarrow> gmat"
  dilated3 :: "gmat \<Rightarrow> nat \<Rightarrow> gmat"

definition HIGHPASS_CUTOFF :: int where "HIGHPASS_CUTOFF = 10"
definition HIGHPASS_CUTOFF_2 :: int where "HIGHPASS_CUTOFF_2 = 100"

text \<open>\<open>planes[i].at<float>(realy, realx) = 0.0\<close>\<close>

definition clear_at :: "cv_filters \<Rightarrow> int \<Rightarrow> int \<Rightarrow> plane \<Rightarrow> plane res" where
  "clear_at F realy x p =
     (let realx = border_wrap F x (p_cols p) in
      rbind (st (p_data p) (p_cols p * realy + realx) (Fin 0)) (\<lambda>d. Inr (p\<lparr>p_data := d\<rparr>)))"

definition clear_row :: "cv_filters \<Rightarrow> int \<Rightarrow> plane \<Rightarrow> plane res" where
  "clear_row F y p =
     (let realy = border_wrap F y (p_rows p) in
      rbind (round_int (sqrt_int F (HIGHPASS_CUTOFF_2 - y * y))) (\<lambda>x0.
      rfold (clear_at F realy) [- x0..x0] p))"

definition highpass :: "cv_filters \<Rightarrow> plane \<Rightarrow> plane res" where
  "highpass F p = rfold (clear_row F) (rev [- HIGHPASS_CUTOFF..HIGHPASS_CUTOFF]) p"

text \<open>The sum with 20 is a \<open>double\<close> and is converted to a byte.\<close>

definition mask_threshold :: "cv_filters \<Rightarrow> gmat \<Rightarrow> u8 res" where
  "mask_threshold F m = uint8_of (fadd binary64 (mean_value F m) (Fin 20))"

definition FFTPreprocessor_preprocess :: "cv_filters \<Rightarrow> gmat \<Rightarrow> gmat res" where
  "FFTPreprocessor_preprocess F gray =
     rbind (rfold (\<lambda>p acc. rbind (highpass F p) (\<lambda>p'. Inr (acc @ [p']))) (spectrum F gray) []) (\<lambda>planes.
     let outMask = from_spectrum F planes in
     rbind (mask_threshold F outMask) (\<lambda>threshold.
     Inr (opened3 F (thresholded F outMask threshold 255))))"

definition computeEdgeThreshold :: "cv_filters \<Rightarrow> gmat \<Rightarrow> u8 res" where
  "computeEdgeThreshold F edges = uint8_of (mean_value F edges)"

definition speck_kernel :: "fl list list" where
  "speck_kernel = [[Fin (1/8), Fin (1/8), Fin (1/8)], [Fin (1/8), Fin 0, Fin (1/8)], [Fin (1/8), Fin (1/8), Fin (1/8)]]"

definition Preprocessor_preprocess :: "cv_filters \<Rightarrow> gmat \<Rightarrow> gmat res" where
  "Preprocessor_preprocess F gray =
     (let edges = laplacian3 F gray in
      rbind (computeEdgeThreshold F edges) (\<lambda>threshold.
      let tmp = thresholded F edges threshold OBJECT;
          out1 = thresholded F (filtered3 F tmp speck_kernel) 95 OBJECT;
          out2 = difference F OBJECT (product F out1 tmp)
      in Inr (dilated3 F (eroded3 F out2 2) 1)))"

subsection \<open>The mask\<close>

definition binary_filters :: "cv_filters \<Rightarrow> bool" where
  "binary_filters F \<longleftrightarrow>
     (\<forall>m t v. set (g_data (thresholded F m t v)) \<subseteq> {0, v})
   \<and> (\<forall>m. set (g_data (opened3 F m)) \<subseteq> set (g_data m))
   \<and> (\<forall>m n. set (g_data (eroded3 F m n)) \<subseteq> set (g_data m))
   \<and> (\<forall>m n. set (g_data (dilated3 F m n)) \<subseteq> set (g_data m))
   \<and> (\<forall>a b. set (g_data (product F a b)) \<subseteq> {of_nat (min 255 (unat x * unat y)) |x y. x \<in> set (g_data a) \<and> y \<in> set (g_data b)})
   \<and> (\<forall>v m. set (g_data (difference F v m)) \<subseteq> {of_nat (unat v - unat x) |x. x \<in> set (g_data m)})"

definition mask_values :: "u8 set" where
  "mask_values = {EMPTY, OBJECT}"

lemma mask_values_eq: "mask_values = {0, 255}"
  by (simp add: mask_values_def EMPTY_def OBJECT_def)

lemma product_mask:
  assumes "binary_filters F" and "set (g_data a) \<subseteq> mask_values" and "set (g_data b) \<subseteq> mask_values"
  shows "set (g_data (product F a b)) \<subseteq> mask_values"
proof
  fix v assume "v \<in> set (g_data (product F a b))"
  then have "v \<in> {of_nat (min 255 (unat x * unat y)) |x y. x \<in> set (g_data a) \<and> y \<in> set (g_data b)}"
    using assms(1) unfolding binary_filters_def by (meson subsetD)
  then obtain x y where v: "v = of_nat (min 255 (unat x * unat y))" and m: "x \<in> set (g_data a)" "y \<in> set (g_data b)" by blast
  have "x \<in> {0, 255}" "y \<in> {0, 255}" using m assms(2,3) unfolding mask_values_eq by blast+
  with v show "v \<in> mask_values" by (auto simp: mask_values_eq)
qed

lemma difference_mask:
  assumes "binary_filters F" and "set (g_data a) \<subseteq> mask_values"
  shows "set (g_data (difference F OBJECT a)) \<subseteq> mask_values"
proof
  fix v assume "v \<in> set (g_data (difference F OBJECT a))"
  then have "v \<in> {of_nat (unat OBJECT - unat x) |x. x \<in> set (g_data a)}"
    using assms(1) unfolding binary_filters_def by (meson subsetD)
  then obtain x where v: "v = of_nat (unat OBJECT - unat x)" and m: "x \<in> set (g_data a)" by blast
  have "x \<in> {0, 255}" using m assms(2) unfolding mask_values_eq by blast
  with v show "v \<in> mask_values" by (auto simp: mask_values_eq OBJECT_def)
qed


text \<open>Simple operations with the documented effects: a threshold and the arithmetic, no filter.\<close>

definition isqrt :: "int \<Rightarrow> int" where
  "isqrt n = last (filter (\<lambda>k. k * k \<le> n) [0, 1, 2, 3, 4, 5, 6, 7, 8, 9, 10])"

definition plain_filters :: "gmat \<Rightarrow> fl \<Rightarrow> cv_filters" where
  "plain_filters m0 mean = \<lparr>spectrum = (\<lambda>_. []), from_spectrum = (\<lambda>_. m0),
     border_wrap = (\<lambda>k n. k mod n), sqrt_int = (\<lambda>n. Fin (of_int (isqrt n))), mean_value = (\<lambda>_. mean),
     thresholded = (\<lambda>m t v. m\<lparr>g_data := map (\<lambda>x. if t < x then v else 0) (g_data m)\<rparr>),
     opened3 = id, laplacian3 = id, filtered3 = (\<lambda>m _. m),
     product = (\<lambda>a b. a\<lparr>g_data := map2 (\<lambda>x y. of_nat (min 255 (unat x * unat y))) (g_data a) (g_data b)\<rparr>),
     difference = (\<lambda>v m. m\<lparr>g_data := map (\<lambda>x. of_nat (unat v - unat x)) (g_data m)\<rparr>),
     eroded3 = (\<lambda>m _. m), dilated3 = (\<lambda>m _. m)\<rparr>"

lemma plain_binary: "binary_filters (plain_filters m0 mean)"
  unfolding binary_filters_def plain_filters_def
  by (auto dest: set_zip_leftD set_zip_rightD)

text \<open>
  C33: Both preprocessors give a mask with the values \<open>EMPTY\<close> and \<open>OBJECT\<close> only, as the interface documents:
  no pixel is taken for a processed one before the detector starts.\<close>

theorem preprocess_binary:
  assumes "binary_filters F" and "FFTPreprocessor_preprocess F gray = Inr m \<or> Preprocessor_preprocess F gray = Inr m"
  shows "set (g_data m) \<subseteq> {EMPTY, OBJECT} \<and> PROCESSED \<notin> set (g_data m)"
proof -
  have thr: "set (g_data (thresholded F a t OBJECT)) \<subseteq> mask_values" for a t
    using assms(1) unfolding binary_filters_def mask_values_eq OBJECT_def by blast
  have sub: "set (g_data (opened3 F a)) \<subseteq> set (g_data a)" "set (g_data (eroded3 F a n)) \<subseteq> set (g_data a)"
      "set (g_data (dilated3 F a n)) \<subseteq> set (g_data a)" for a n
    using assms(1) unfolding binary_filters_def by blast+
  have "set (g_data m) \<subseteq> mask_values"
    using assms(2)
  proof
    assume "FFTPreprocessor_preprocess F gray = Inr m"
    then obtain a t where "m = opened3 F (thresholded F a t OBJECT)"
      by (auto simp: FFTPreprocessor_preprocess_def res_simps OBJECT_def Let_def)
    then show ?thesis using thr sub(1) by blast
  next
    assume "Preprocessor_preprocess F gray = Inr m"
    then obtain a b t u where "m = dilated3 F (eroded3 F (difference F OBJECT (product F (thresholded F a t OBJECT) (thresholded F b u OBJECT))) 2) 1"
      by (auto simp: Preprocessor_preprocess_def res_simps Let_def)
    then show ?thesis using difference_mask [OF assms(1) product_mask [OF assms(1) thr thr]] sub(2,3) by blast
  qed
  then show ?thesis by (auto simp: mask_values_def EMPTY_def PROCESSED_def OBJECT_def)
qed

theorem preprocess_binary_witness:
  "\<exists>F gray m. FFTPreprocessor_preprocess F gray = Inr m \<and> g_data m = [0, 255] \<and> PROCESSED \<notin> set (g_data m)"
proof -
  let ?g = "\<lparr>g_rows = 1, g_cols = 2, g_data = [10, 90]\<rparr>" and ?m = "\<lparr>g_rows = 1, g_cols = 2, g_data = [0, 255]\<rparr>"
  have "FFTPreprocessor_preprocess (plain_filters ?g (Fin 50)) ?g = Inr ?m"
    using rnd64_256 [of "70 * 256"]
    by (simp add: FFTPreprocessor_preprocess_def plain_filters_def mask_threshold_def uint8_of_def)
  with preprocess_binary [OF plain_binary disjI1 [OF this]]
  have "FFTPreprocessor_preprocess (plain_filters ?g (Fin 50)) ?g = Inr ?m \<and> g_data ?m = [0, 255] \<and> PROCESSED \<notin> set (g_data ?m)"
    by simp
  then show ?thesis by blast
qed

text \<open>The threshold of a bright spectrum does not fit in a byte.\<close>

lemma mask_threshold_overflow: "mean_value F m = Fin 240 \<Longrightarrow> mask_threshold F m = Inl BadConversion"
  using rnd64_256 [of "260 * 256"] by (simp add: mask_threshold_def uint8_of_def)

subsection \<open>The low frequencies\<close>

text \<open>The plane \<open>p'\<close> is \<open>p\<close> with zeros at the positions of \<open>S\<close>.\<close>

definition cleared :: "int set \<Rightarrow> plane \<Rightarrow> plane \<Rightarrow> bool" where
  "cleared S p p' \<longleftrightarrow> p_rows p' = p_rows p \<and> p_cols p' = p_cols p \<and> length (p_data p') = length (p_data p)
     \<and> (\<forall>k < length (p_data p). p_data p' ! k = (if int k \<in> S then Fin 0 else p_data p ! k))"

lemma cleared_empty [simp]: "cleared {} p p"
  by (simp add: cleared_def)

lemma cleared_trans: "cleared S p q \<Longrightarrow> cleared T q r \<Longrightarrow> cleared (S \<union> T) p r"
  by (auto simp: cleared_def)

definition same_shape :: "plane \<Rightarrow> plane \<Rightarrow> bool" where
  "same_shape p q \<longleftrightarrow> p_rows q = p_rows p \<and> p_cols q = p_cols p \<and> length (p_data q) = length (p_data p)"

lemma same_shape_refl [simp]: "same_shape p p"
  by (simp add: same_shape_def)

lemma cleared_shape: "same_shape p q \<Longrightarrow> cleared S q r \<Longrightarrow> same_shape p r"
  by (simp add: cleared_def same_shape_def)

lemma rfold_cleared:
  assumes "\<And>x q. x \<in> set xs \<Longrightarrow> same_shape p q \<Longrightarrow> \<exists>q'. f x q = Inr q' \<and> cleared (S x) q q'"
    and "same_shape p q"
  shows "\<exists>r. rfold f xs q = Inr r \<and> cleared (\<Union>x \<in> set xs. S x) q r"
  using assms
proof (induction xs arbitrary: q)
  case Nil
  then show ?case by simp
next
  case (Cons x xs)
  from Cons.prems(1) [of x q] Cons.prems(2) obtain q' where q': "f x q = Inr q'" "cleared (S x) q q'" by auto
  obtain r where r: "rfold f xs q' = Inr r" "cleared (\<Union>x \<in> set xs. S x) q' r"
    using Cons.IH [of q'] Cons.prems(1) cleared_shape [OF Cons.prems(2) q'(2)] by auto
  then show ?case using q' cleared_trans [OF q'(2) r(2)] by simp
qed

definition wraps :: "cv_filters \<Rightarrow> bool" where
  "wraps F \<longleftrightarrow> (\<forall>k n. 0 < n \<longrightarrow> border_wrap F k n = k mod n)"

lemma clear_at_ok:
  assumes "wraps F" and "0 < p_cols p" and "int (length (p_data p)) = p_cols p * p_rows p" and "0 \<le> realy" and "realy < p_rows p"
  shows "\<exists>q. clear_at F realy x p = Inr q \<and> cleared {p_cols p * realy + x mod p_cols p} p q"
proof -
  let ?k = "p_cols p * realy + x mod p_cols p"
  have m: "0 \<le> x mod p_cols p" "x mod p_cols p < p_cols p" using assms(2) by simp_all
  have "p_cols p * (realy + 1) \<le> p_cols p * p_rows p" using assms(2,5) by (intro mult_left_mono) auto
  then have "?k < p_cols p * p_rows p" using m(2) unfolding distrib_left mult_1_right by linarith
  then have k: "0 \<le> ?k" "?k < int (length (p_data p))" using m(1) assms(2-4) by simp_all
  moreover have "border_wrap F x (p_cols p) = x mod p_cols p" using assms(1,2) by (simp add: wraps_def)
  ultimately show ?thesis
    by (auto simp: clear_at_def st_def cleared_def nth_list_update)
qed

text \<open>The positions of the frequencies in a disc around 0, with negative frequencies at the other end.\<close>

definition low_positions :: "(int \<Rightarrow> int) \<Rightarrow> int \<Rightarrow> int \<Rightarrow> int set" where
  "low_positions width cols rows = {cols * (y mod rows) + x mod cols |x y. - 10 \<le> y \<and> y \<le> 10 \<and> \<bar>x\<bar> \<le> width y}"

lemma clear_row_ok:
  assumes "wraps F" and "0 < p_cols p" and "0 < p_rows p" and "int (length (p_data p)) = p_cols p * p_rows p"
    and "round_int (sqrt_int F (100 - y * y)) = Inr w"
  shows "\<exists>q. clear_row F y p = Inr q
    \<and> cleared {p_cols p * (y mod p_rows p) + x mod p_cols p |x. \<bar>x\<bar> \<le> w} p q"
proof -
  let ?S = "\<lambda>x. {p_cols p * (y mod p_rows p) + x mod p_cols p}"
  have step: "\<exists>q'. clear_at F (y mod p_rows p) x q = Inr q' \<and> cleared (?S x) q q'" if "same_shape p q" for x q
    using clear_at_ok [of F q "y mod p_rows p" x] assms that by (simp add: same_shape_def)
  obtain q where q: "rfold (clear_at F (y mod p_rows p)) [- w..w] p = Inr q" "cleared (\<Union>x \<in> set [- w..w]. ?S x) p q"
    using rfold_cleared [of "[- w..w]" p "clear_at F (y mod p_rows p)" ?S p, OF step same_shape_refl] by blast
  have "set [- w..w] = {x. \<bar>x\<bar> \<le> w}" by (auto simp: abs_le_iff)
  then have "(\<Union>x \<in> set [- w..w]. ?S x) = {p_cols p * (y mod p_rows p) + x mod p_cols p |x. \<bar>x\<bar> \<le> w}" by auto
  moreover have "border_wrap F y (p_rows p) = y mod p_rows p" using assms(1,3) by (simp add: wraps_def)
  ultimately show ?thesis using q assms(5) by (simp add: clear_row_def HIGHPASS_CUTOFF_2_def)
qed

text \<open>
  The high pass of the FFT preprocessor stays inside the spectrum and sets exactly the frequencies of a
  disc of radius 10 to 0, the negative ones at the far ends of the plane; all others keep their value.\<close>

lemma highpass_correct:
  assumes "wraps F" and "0 < p_cols p" and "0 < p_rows p" and "int (length (p_data p)) = p_cols p * p_rows p"
    and "\<forall>y. - 10 \<le> y \<and> y \<le> 10 \<longrightarrow> round_int (sqrt_int F (100 - y * y)) = Inr (width y)"
  shows "\<exists>q. highpass F p = Inr q \<and> cleared (low_positions width (p_cols p) (p_rows p)) p q"
proof -
  let ?S = "\<lambda>y. {p_cols p * (y mod p_rows p) + x mod p_cols p |x. \<bar>x\<bar> \<le> width y}"
  have step: "\<exists>q'. clear_row F y q = Inr q' \<and> cleared (?S y) q q'" if "y \<in> set (rev [- 10..10])" "same_shape p q" for y q
  proof -
    have "- 10 \<le> y \<and> y \<le> 10" using that(1) by (simp only: set_rev set_upto atLeastAtMost_iff)
    then show ?thesis using clear_row_ok [of F q y "width y"] assms that(2) by (simp add: same_shape_def)
  qed
  obtain q where q: "rfold (clear_row F) (rev [- 10..10]) p = Inr q" "cleared (\<Union>y \<in> set (rev [- 10..10]). ?S y) p q"
    using rfold_cleared [of "rev [- 10..10]" p "clear_row F" ?S p, OF step same_shape_refl] by blast
  moreover have "(\<Union>y \<in> set (rev [- 10..10]). ?S y) = low_positions width (p_cols p) (p_rows p)"
    unfolding set_rev set_upto low_positions_def by (auto simp del: atLeastAtMost_iff simp: Bex_def atLeastAtMost_def)
  ultimately show ?thesis by (simp add: highpass_def HIGHPASS_CUTOFF_def)
qed

end
