(* ===== verification/Lyli_Config.thy ===== *)
theory Lyli_Config
  imports Command_Line
begin

text \<open>
  \<open>ui/config/lyliconfig\<close>: where the desktop program keeps the calibration of a camera.

  The state \<open>desktop\<close> adds the existing directories to the world of the command line program. A path is a
  directory and a name in it. What Qt and the operating system say about paths is the parameter \<open>qt\<close>: the
  directory for the configuration, the permissions, the directories there are after \<open>mkpath\<close>, and the readable
  files of a directory that a filter on the ending lists. Names are taken
  to have a local encoding. A stream can be opened for writing in a directory that exists.
\<close>

record ('d, 'j) desktop =
  u_world :: "('d, 'j) world"
  u_dirs :: "string set"

record qt =
  qt_config :: string
  qt_cache :: string
  qt_subdir :: "string \<Rightarrow> string \<Rightarrow> string"
  qt_readable_dir :: "string \<Rightarrow> bool"
  qt_readable :: "string \<times> string \<Rightarrow> bool"
  qt_mkpath :: "string \<Rightarrow> string \<Rightarrow> string set \<Rightarrow> string set"
  qt_raw_files :: "disk \<Rightarrow> string \<Rightarrow> string list"

definition on_world :: "(('d, 'j) world, 'a) io \<Rightarrow> (('d, 'j) desktop, 'a) io" where
  "on_world m s = map_option (\<lambda>(r, w). (r, s\<lparr>u_world := w\<rparr>)) (m (u_world s))"

definition file_content :: "string \<times> string \<Rightarrow> ('d, 'j) desktop \<Rightarrow> u8 list option" where
  "file_content path s = w_disk (u_world s) path"

text \<open>\<open>std::ofstream\<close> by path.\<close>

definition can_write :: "os \<Rightarrow> string \<times> string \<Rightarrow> ('d, 'j) desktop \<Rightarrow> bool" where
  "can_write sys path s \<longleftrightarrow> fst path \<in> u_dirs s \<and> os_writable sys path"

definition put_file :: "string \<times> string \<Rightarrow> u8 list \<Rightarrow> ('d, 'j) desktop \<Rightarrow> ('d, 'j) desktop" where
  "put_file path bs s = s\<lparr>u_world := (u_world s)\<lparr>w_disk := (w_disk (u_world s))(path \<mapsto> bs)\<rparr>\<rparr>"

definition out_open :: "os \<Rightarrow> string \<times> string \<Rightarrow> (('d, 'j) desktop, unit) io" where
  "out_open sys path = modify (\<lambda>s. if can_write sys path s then put_file path [] s else s)"

definition out_write :: "os \<Rightarrow> string \<times> string \<Rightarrow> u8 list \<Rightarrow> (('d, 'j) desktop, unit) io" where
  "out_write sys path bs = modify (\<lambda>s.
     if can_write sys path s
     then put_file path ((case file_content path s of None \<Rightarrow> [] | Some old \<Rightarrow> old) @ bs) s else s)"

text \<open>\<open>substr(0, find_last_of("."))\<close> of a file name with a dot.\<close>

definition without_extension :: "string \<Rightarrow> string" where
  "without_extension name =
     (if CHR ''.'' \<in> set name then rev (tl (dropWhile (\<lambda>c. c \<noteq> CHR ''.'') (rev name))) else name)"

subsection \<open>LyliConfig\<close>

definition getCalibrationPath :: "qt \<Rightarrow> string \<Rightarrow> (('d, 'j) desktop, (string \<times> string) option) io" where
  "getCalibrationPath Q sn = reads (\<lambda>s.
     let cfgPath = qt_config Q in
     if \<not> (cfgPath \<in> u_dirs s \<and> qt_readable_dir Q cfgPath) then None
     else (let calibrationPath = (cfgPath, sn @ ''.json'') in
       if \<not> (file_content calibrationPath s \<noteq> None \<and> qt_readable Q calibrationPath) then None
       else Some calibrationPath))"

definition readCalibrationData :: "qt \<Rightarrow> 'j libs \<Rightarrow> string \<Rightarrow> (('d, 'j) desktop, CalibrationData option) io" where
  "readCalibrationData Q L sn =
     bind_io (getCalibrationPath Q sn) (\<lambda>calibrationPath.
     case calibrationPath of
       None \<Rightarrow> ret None
     | Some path \<Rightarrow>
         bind_io (reads (file_content path)) (\<lambda>fin.
         bind_io (lift (CalibrationData_deserialize (lib_json L) (lib_parse L fin) CalibrationData_ctor)) (\<lambda>calibration.
         ret (Some calibration))))"

definition ensure_config :: "qt \<Rightarrow> (('d, 'j) desktop, unit) io" where
  "ensure_config Q = modify (\<lambda>s.
     if qt_config Q \<notin> u_dirs s then s\<lparr>u_dirs := qt_mkpath Q (qt_config Q) ''.'' (u_dirs s)\<rparr> else s)"

definition storeCalibrationData :: "qt \<Rightarrow> os \<Rightarrow> 'j libs \<Rightarrow> CalibrationData \<Rightarrow> (('d, 'j) desktop, unit) io" where
  "storeCalibrationData Q sys L calibration =
     bind_io (ensure_config Q) (\<lambda>_.
     let calibrationPath = (qt_config Q, m_serial calibration @ ''.json'') in
     bind_io (lift (CalibrationData_serialize (lib_json L) calibration)) (\<lambda>json.
     bind_io (out_open sys calibrationPath) (\<lambda>_. out_write sys calibrationPath (lib_write L json))))"

subsection \<open>Reading back\<close>

lemma on_world_step:
  "m (u_world s) = Some (Inr a, w) \<Longrightarrow> bind_io (on_world m) f s = f a (s\<lparr>u_world := w\<rparr>)"
  by (simp add: bind_io_def on_world_def)

lemma file_content_put [simp]: "file_content path (put_file path bs s) = Some bs"
  and file_content_other [simp]: "p \<noteq> path \<Longrightarrow> file_content p (put_file path bs s) = file_content p s"
  and dirs_put [simp]: "u_dirs (put_file path bs s) = u_dirs s"
  and can_write_put [simp]: "can_write sys p (put_file path bs s) = can_write sys p s"
  and put_put [simp]: "put_file path bs (put_file path as s) = put_file path bs s"
  by (simp_all add: file_content_def put_file_def can_write_def)

lemma open_write:
  "can_write sys path s \<Longrightarrow> bind_io (out_open sys path) (\<lambda>_. out_write sys path bs) s = Some (Inr (), put_file path bs s)"
  by (simp add: out_open_def modify_step) (simp add: out_write_def modify_def)

text \<open>The documented effect of \<open>mkpath\<close>.\<close>

definition makes_paths :: "qt \<Rightarrow> bool" where
  "makes_paths Q \<longleftrightarrow> (\<forall>dir dirs. dir \<in> qt_mkpath Q dir ''.'' dirs)
     \<and> (\<forall>dir sub dirs. dir \<in> qt_mkpath Q dir sub dirs \<and> (sub \<noteq> ''.'' \<longrightarrow> qt_subdir Q dir sub \<in> qt_mkpath Q dir sub dirs))
     \<and> (\<forall>dir sub dirs. dirs \<subseteq> qt_mkpath Q dir sub dirs)"

lemma ensure_config_ok:
  assumes "makes_paths Q"
  shows "\<exists>dirs. ensure_config Q s = Some (Inr (), s\<lparr>u_dirs := dirs\<rparr>) \<and> qt_config Q \<in> dirs"
proof (cases "qt_config Q \<in> u_dirs s")
  case True
  then show ?thesis by (intro exI [of _ "u_dirs s"]) (simp add: ensure_config_def modify_def)
next
  case False
  then show ?thesis using assms
    by (intro exI [of _ "qt_mkpath Q (qt_config Q) ''.'' (u_dirs s)"]) (simp add: ensure_config_def modify_def makes_paths_def)
qed

text \<open>
  C34: What the desktop program stores for a camera it finds again under the serial number of the camera, also when
  the directory of the configuration did not exist, and the calibrations of other cameras stay as they were.
\<close>

theorem storeCalibrationData_round_trip:
  assumes "json_lib (lib_json L)" and "storable d" and "makes_paths Q" and "\<forall>p. os_writable sys p"
    and "qt_readable_dir Q (qt_config Q)" and "\<forall>p. qt_readable Q p"
    and "\<forall>v. CalibrationData_serialize (lib_json L) d = Inr v \<longrightarrow> lib_parse L (Some (lib_write L v)) = v"
  shows "\<exists>s'. storeCalibrationData Q sys L d s = Some (Inr (), s')
    \<and> readCalibrationData Q L (m_serial d) s' = Some (Inr (Some d), s')
    \<and> (\<forall>p. p \<noteq> (qt_config Q, m_serial d @ ''.json'') \<longrightarrow> file_content p s' = file_content p s)"
proof -
  obtain v where v: "CalibrationData_serialize (lib_json L) d = Inr v"
      "CalibrationData_deserialize (lib_json L) v CalibrationData_ctor = Inr d"
    using json_lib.data_round_trip [OF assms(1,2), of CalibrationData_ctor]
    by (auto simp: CalibrationData_ctor_def ArrayParameters_ctor_def LineGrid_empty_def same_data)
  obtain dirs where dirs: "ensure_config Q s = Some (Inr (), s\<lparr>u_dirs := dirs\<rparr>)" "qt_config Q \<in> dirs"
    using ensure_config_ok [OF assms(3)] by blast
  have ensured: "\<And>f. bind_io (ensure_config Q) f s = f () (s\<lparr>u_dirs := dirs\<rparr>)"
    using dirs(1) by (simp add: bind_io_def)
  let ?p = "(qt_config Q, m_serial d @ ''.json'')"
  let ?s = "put_file ?p (lib_write L v) (s\<lparr>u_dirs := dirs\<rparr>)"
  have stored: "storeCalibrationData Q sys L d s = Some (Inr (), ?s)"
    using dirs v(1) assms(4)
    by (simp add: storeCalibrationData_def ensured open_write can_write_def Let_def)
  have loaded: "readCalibrationData Q L (m_serial d) ?s = Some (Inr (Some d), ?s)"
    using dirs(2) assms(5-7) v by (simp add: readCalibrationData_def getCalibrationPath_def reads_step ret_app)
  have "file_content p ?s = file_content p s" if "p \<noteq> ?p" for p
    using that by (simp add: file_content_def put_file_def)
  with stored loaded show ?thesis by blast
qed

text \<open>A system that allows everything, on which no directory exists yet.\<close>

definition plain_qt :: qt where
  "plain_qt = \<lparr>qt_config = ''/cfg'', qt_cache = ''/cache'', qt_subdir = (\<lambda>dir sub. dir @ ''/'' @ sub),
     qt_readable_dir = (\<lambda>_. True), qt_readable = (\<lambda>_. True),
     qt_mkpath = (\<lambda>dir sub dirs. dirs \<union> {dir, dir @ ''/'' @ sub}), qt_raw_files = (\<lambda>_ _. [])\<rparr>"

lemma plain_makes_paths: "makes_paths plain_qt"
  by (auto simp: makes_paths_def plain_qt_def)

definition empty_desktop :: "(sim, json) desktop" where
  "empty_desktop = \<lparr>u_world = photo_world, u_dirs = {}\<rparr>"

theorem storeCalibrationData_round_trip_witness:
  "\<exists>s'. storeCalibrationData plain_qt any_os sample_libs sample_data empty_desktop = Some (Inr (), s')
    \<and> readCalibrationData plain_qt sample_libs ''A1'' s' = Some (Inr (Some sample_data), s')"
proof -
  have J: "json_lib (lib_json sample_libs)" using tree.json_lib_axioms by (simp add: sample_libs_def)
  have P: "\<forall>v. CalibrationData_serialize (lib_json sample_libs) sample_data = Inr v
      \<longrightarrow> lib_parse sample_libs (Some (lib_write sample_libs v)) = v" by (simp add: sample_libs_def)
  have A: "\<forall>p. os_writable any_os p" by (simp add: any_os_def)
  have B: "qt_readable_dir plain_qt (qt_config plain_qt)" "\<forall>p. qt_readable plain_qt p" by (simp_all add: plain_qt_def)
  have "m_serial sample_data = ''A1''" by (simp add: sample_data_def)
  with storeCalibrationData_round_trip [OF J storable_sample plain_makes_paths A B P, of empty_desktop]
  show ?thesis by auto
qed

text \<open>Without a file for the serial number there is no calibration.\<close>

lemma readCalibrationData_none:
  "file_content (qt_config Q, sn @ ''.json'') s = None \<Longrightarrow> readCalibrationData Q L sn s = Some (Inr None, s)"
  by (simp add: readCalibrationData_def getCalibrationPath_def reads_step ret_app Let_def)

end
