(* ===== verification/Image_View.thy ===== *)
theory Image_View
  imports Lyli_Config
begin

text \<open>
  \<open>ui/imageview\<close>: the picture viewer of the desktop program, \<open>LytroImage\<close> and \<open>ViewerForm\<close>.

  \<open>QImage\<close> is a class of Qt: the record \<open>qt_image\<close> has the operations the code calls, the locale \<open>qimage\<close> what
  the documentation says of them, and \<open>cells\<close> is an instance. \<open>std::pow\<close> is a parameter.
\<close>

record 'q qt_image =
  img_new :: "nat \<Rightarrow> nat \<Rightarrow> 'q"
  img_set :: "nat \<Rightarrow> nat \<Rightarrow> u32 \<Rightarrow> 'q \<Rightarrow> 'q"
  img_pixel :: "'q \<Rightarrow> nat \<Rightarrow> nat \<Rightarrow> u32"
  img_width :: "'q \<Rightarrow> nat"
  img_height :: "'q \<Rightarrow> nat"
  img_null :: "'q \<Rightarrow> bool"
  img_none :: 'q
  img_gray :: "'q \<Rightarrow> 'q"
  img_rgb :: "nat \<Rightarrow> nat \<Rightarrow> nat \<Rightarrow> u32"

subsection \<open>Gamma\<close>

definition gamma_exponent :: fl where
  "gamma_exponent = fdiv binary64 (Fin 1) (rnd binary64 (22 / 10))"

definition init_entry :: "(fl \<Rightarrow> fl \<Rightarrow> fl) \<Rightarrow> nat \<Rightarrow> u8 list \<Rightarrow> u8 list res" where
  "init_entry pow_fn i m_gamma =
     (let tmp = fdiv binary64 (Fin (of_nat i)) (Fin 4096) in
      rbind (uint8_of (fmul binary64 (pow_fn tmp gamma_exponent) (Fin 255))) (\<lambda>v. st m_gamma (int i) v))"

definition LytroImage_init :: "(fl \<Rightarrow> fl \<Rightarrow> fl) \<Rightarrow> u8 list \<Rightarrow> u8 list res" where
  "LytroImage_init pow_fn m_gamma = rfold (init_entry pow_fn) [0..<4096] m_gamma"

definition static_gamma :: "u8 list" where
  "static_gamma = replicate 4096 0"

subsection \<open>LytroImage\<close>

definition gamma_of :: "u8 list \<Rightarrow> u16 \<Rightarrow> nat res" where
  "gamma_of m_gamma v = rbind (ld m_gamma (int (unat (drop_bit 4 v)))) (\<lambda>g. Inr (unat g))"

definition show_pixel :: "'q qt_image \<Rightarrow> u8 list \<Rightarrow> u16 list \<Rightarrow> nat \<times> nat \<Rightarrow> nat \<times> 'q \<Rightarrow> (nat \<times> 'q) res" where
  "show_pixel Q m_gamma rawImage = (\<lambda>(y, x) (pos, q).
     rbind (rbind (ld rawImage (int pos)) (gamma_of m_gamma)) (\<lambda>r.
     rbind (rbind (ld rawImage (int (pos + 1))) (gamma_of m_gamma)) (\<lambda>g.
     rbind (rbind (ld rawImage (int (pos + 2))) (gamma_of m_gamma)) (\<lambda>b.
     Inr (pos + 3, img_set Q x y (img_rgb Q r g b) q)))))"

definition row_major :: "nat \<Rightarrow> nat \<Rightarrow> (nat \<times> nat) list" where
  "row_major h w = concat (map (\<lambda>y. map (\<lambda>x. (y, x)) [0..<w]) [0..<h])"

definition show_image :: "'q qt_image \<Rightarrow> u8 list \<Rightarrow> mat \<Rightarrow> 'q res" where
  "show_image Q m_gamma showImg =
     rbind (rfold (show_pixel Q m_gamma (data showImg)) (row_major (rows showImg) (cols showImg))
              (0, img_new Q (cols showImg) (rows showImg)))
       (\<lambda>(_, q). Inr q)"

definition metadata_serial :: "'j libs \<Rightarrow> Metadata \<Rightarrow> (('d, 'j) world, string) io" where
  "metadata_serial L metadata w =
     (case read_serial (lib_json L) metadata (w_trees w) of
        Inl e \<Rightarrow> Some (Inl e, w)
      | Inr (sn, mem) \<Rightarrow> Some (Inr sn, w\<lparr>w_trees := mem\<rparr>))"

text \<open>The picture to show: one pixel per lens when there is a calibration, else the raw image.\<close>

definition shown_image :: "'j libs \<Rightarrow> (nat \<Rightarrow> u16 list) \<Rightarrow> mat \<Rightarrow> CalibrationData option \<Rightarrow> mat res" where
  "shown_image L alloc rawimg calibration =
     (case calibration of
        Some c \<Rightarrow> LightfieldImage (lib_affine L)
          (alloc (3 * (length (verticalLines (m_grid (m_array c))) div 2 * length (horizonalLines (m_grid (m_array c)))))) rawimg c
      | None \<Rightarrow> Inr rawimg)"

definition LytroImage_source :: "qt \<Rightarrow> 'j libs \<Rightarrow> (nat \<Rightarrow> u16 list) \<Rightarrow> string \<times> string \<Rightarrow> (('d, 'j) desktop, mat) io" where
  "LytroImage_source Q L alloc path =
     bind_io (reads (file_content path)) (\<lambda>fin.
     bind_io (on_world (read_raw L fin)) (\<lambda>rawimg.
     bind_io (reads (file_content (fst path, without_extension (snd path) @ ''.TXT''))) (\<lambda>finmeta.
     bind_io (on_world (read_metadata L finmeta)) (\<lambda>metadata.
     bind_io (on_world (metadata_serial L metadata)) (\<lambda>sn.
     bind_io (readCalibrationData Q L sn) (\<lambda>calibration.
     lift (shown_image L alloc rawimg calibration)))))))"

definition LytroImage_load ::
  "'q qt_image \<Rightarrow> qt \<Rightarrow> 'j libs \<Rightarrow> (nat \<Rightarrow> u16 list) \<Rightarrow> u8 list \<Rightarrow> string \<times> string \<Rightarrow> (('d, 'j) desktop, 'q) io" where
  "LytroImage_load G Q L alloc m_gamma path =
     bind_io (LytroImage_source Q L alloc path) (\<lambda>showImg. lift (show_image G m_gamma showImg))"

subsection \<open>Ownership\<close>

text \<open>The objects that are alive with their \<open>m_image\<close>, and the images that \<open>new\<close> has made.\<close>

record 'q image_store =
  owned :: "nat \<rightharpoonup> nat option"
  heap :: "nat \<rightharpoonup> 'q"
  fresh :: nat

definition m_image :: "nat \<Rightarrow> 'q image_store \<Rightarrow> nat option res" where
  "m_image a s = (case owned s a of None \<Rightarrow> Inl NullPointer | Some p \<Rightarrow> Inr p)"

definition set_image :: "nat \<Rightarrow> nat option \<Rightarrow> 'q image_store \<Rightarrow> 'q image_store" where
  "set_image a p s = s\<lparr>owned := (owned s)(a \<mapsto> p)\<rparr>"

definition new_image :: "nat \<Rightarrow> 'q \<Rightarrow> 'q image_store \<Rightarrow> 'q image_store" where
  "new_image a q s = s\<lparr>owned := (owned s)(a \<mapsto> Some (fresh s)), heap := (heap s)(fresh s \<mapsto> q), fresh := fresh s + 1\<rparr>"

text \<open>\<open>delete\<close> of a pointer; deleting an image twice is a fault.\<close>

definition delete_image :: "nat option \<Rightarrow> 'q image_store \<Rightarrow> 'q image_store res" where
  "delete_image p s =
     (case p of
        None \<Rightarrow> Inr s
      | Some k \<Rightarrow> if heap s k = None then Inl NullPointer else Inr (s\<lparr>heap := (heap s)(k := None)\<rparr>))"

definition LytroImage_default :: "nat \<Rightarrow> 'q image_store \<Rightarrow> 'q image_store res" where
  "LytroImage_default this s = Inr (set_image this None s)"

definition LytroImage_dtor :: "nat \<Rightarrow> 'q image_store \<Rightarrow> 'q image_store res" where
  "LytroImage_dtor this s =
     rbind (m_image this s) (\<lambda>p. rbind (delete_image p s) (\<lambda>s'. Inr (s'\<lparr>owned := (owned s')(this := None)\<rparr>)))"

definition LytroImage_copy :: "nat \<Rightarrow> nat \<Rightarrow> 'q image_store \<Rightarrow> 'q image_store res" where
  "LytroImage_copy this other s =
     rbind (m_image other s) (\<lambda>p.
     case p of
       None \<Rightarrow> Inl NullPointer
     | Some k \<Rightarrow> (case heap s k of None \<Rightarrow> Inl NullPointer | Some q \<Rightarrow> Inr (new_image this q s)))"

definition LytroImage_move :: "nat \<Rightarrow> nat \<Rightarrow> 'q image_store \<Rightarrow> 'q image_store res" where
  "LytroImage_move this other s =
     rbind (m_image other s) (\<lambda>p. Inr (set_image other None (set_image this p s)))"

text \<open>The local \<open>tmp\<close> of the assignment is an object at an unused address.\<close>

definition LytroImage_assign :: "nat \<Rightarrow> nat \<Rightarrow> nat \<Rightarrow> 'q image_store \<Rightarrow> 'q image_store res" where
  "LytroImage_assign tmp this other s =
     (if this \<noteq> other then
        rbind (LytroImage_copy tmp other s) (\<lambda>s1.
        rbind (m_image this s1) (\<lambda>p. rbind (m_image tmp s1) (\<lambda>q.
        LytroImage_dtor tmp (set_image tmp p (set_image this q s1)))))
      else Inr s)"

definition LytroImage_move_assign :: "nat \<Rightarrow> nat \<Rightarrow> 'q image_store \<Rightarrow> 'q image_store res" where
  "LytroImage_move_assign this other s =
     (if this \<noteq> other then
        rbind (m_image this s) (\<lambda>p.
        rbind (delete_image p s) (\<lambda>s1.
        rbind (m_image other s1) (\<lambda>q. Inr (set_image other None (set_image this q s1)))))
      else Inr s)"

subsection \<open>ViewerForm\<close>

text \<open>The widgets the code reads or sets: the pixmap of the label and the sizes, whether the button to zoom in is
  enabled, the directory that is shown, and the files that were saved. \<open>scaled\<close> is the product of a number and a \<open>QSize\<close>.\<close>

record 'q viewer =
  m_scale :: fl
  v_image :: "'q option"
  v_pixmap :: "(nat \<times> nat) option"
  v_label :: "nat \<times> nat"
  v_minimum :: "nat \<times> nat"
  v_zoom_in :: bool
  v_root :: string
  v_saved :: "(string \<times> 'q) list"

definition ViewerForm_ctor :: "string \<Rightarrow> 'q viewer" where
  "ViewerForm_ctor cwd = \<lparr>m_scale = Fin 1, v_image = None, v_pixmap = None, v_label = (0, 0), v_minimum = (0, 0),
     v_zoom_in = True, v_root = cwd, v_saved = []\<rparr>"

definition directoryViewClicked :: "string \<Rightarrow> 'q viewer \<Rightarrow> 'q viewer" where
  "directoryViewClicked selected v = v\<lparr>v_root := selected\<rparr>"

definition scaleImage :: "(fl \<Rightarrow> nat \<times> nat \<Rightarrow> nat \<times> nat) \<Rightarrow> 'q viewer \<Rightarrow> 'q viewer" where
  "scaleImage scaled v =
     (case v_pixmap v of
        None \<Rightarrow> v
      | Some sz \<Rightarrow> (let s = scaled (m_scale v) sz in
          v\<lparr>v_label := s, v_minimum := s, v_zoom_in := flt (m_scale v) (Fin 3)\<rparr>))"

text \<open>\<open>fileViewClicked\<close>, with the image that was loaded.\<close>

definition fileViewClicked :: "'q qt_image \<Rightarrow> 'q \<Rightarrow> 'q viewer \<Rightarrow> 'q viewer" where
  "fileViewClicked G q v = v\<lparr>v_image := Some q, v_pixmap := Some (img_width G q, img_height G q)\<rparr>"

definition saveAs :: "string \<Rightarrow> 'q viewer \<Rightarrow> 'q viewer res" where
  "saveAs fileName v =
     (if fileName \<noteq> [] then
        (case v_image v of None \<Rightarrow> Inl NullPointer | Some q \<Rightarrow> Inr (v\<lparr>v_saved := v_saved v @ [(fileName, q)]\<rparr>))
      else Inr v)"

definition zoomIn :: "(fl \<Rightarrow> nat \<times> nat \<Rightarrow> nat \<times> nat) \<Rightarrow> 'q viewer \<Rightarrow> 'q viewer" where
  "zoomIn scaled v = scaleImage scaled (v\<lparr>m_scale := fmul binary64 (m_scale v) (Fin (125 / 100))\<rparr>)"

definition zoomOut :: "(fl \<Rightarrow> nat \<times> nat \<Rightarrow> nat \<times> nat) \<Rightarrow> 'q viewer \<Rightarrow> 'q viewer" where
  "zoomOut scaled v = scaleImage scaled (v\<lparr>m_scale := fmul binary64 (m_scale v) (Fin (75 / 100))\<rparr>)"

definition size_ratio :: "nat \<Rightarrow> nat \<Rightarrow> fl" where
  "size_ratio a b = fdiv binary64 (fl_of_int binary64 (int a)) (fl_of_int binary64 (int b))"

definition zoomFit :: "(fl \<Rightarrow> nat \<times> nat \<Rightarrow> nat \<times> nat) \<Rightarrow> nat \<times> nat \<Rightarrow> 'q viewer \<Rightarrow> 'q viewer res" where
  "zoomFit scaled area v =
     (case v_pixmap v of
        None \<Rightarrow> Inl NullPointer
      | Some (w, h) \<Rightarrow>
          (let a = size_ratio (fst area) w; b = size_ratio (snd area) h in
           Inr (scaleImage scaled (v\<lparr>m_scale := (if flt b a then b else a)\<rparr>))))"

definition zoomOriginal :: "(fl \<Rightarrow> nat \<times> nat \<Rightarrow> nat \<times> nat) \<Rightarrow> 'q viewer \<Rightarrow> 'q viewer" where
  "zoomOriginal scaled v = scaleImage scaled (v\<lparr>m_scale := Fin 1\<rparr>)"

definition resizeEvent :: "(fl \<Rightarrow> nat \<times> nat \<Rightarrow> nat \<times> nat) \<Rightarrow> 'q viewer \<Rightarrow> 'q viewer" where
  "resizeEvent scaled v = scaleImage scaled v"

subsection \<open>Painting an image\<close>

locale qimage =
  fixes G :: "'q qt_image"
  assumes new_size: "img_width G (img_new G w h) = w" "img_height G (img_new G w h) = h"
    and set_size: "img_width G (img_set G x y c q) = img_width G q" "img_height G (img_set G x y c q) = img_height G q"
    and set_pixel: "x < img_width G q \<Longrightarrow> y < img_height G q
      \<Longrightarrow> img_pixel G (img_set G x y (img_rgb G r g b) q) x' y' = (if x' = x \<and> y' = y then img_rgb G r g b else img_pixel G q x' y')"
    and null_size: "img_null G q \<longleftrightarrow> img_width G q = 0 \<or> img_height G q = 0"
    and none_null: "img_null G (img_none G)"
begin

text \<open>The first \<open>n\<close> pixels, line by line, have the colours \<open>f\<close>.\<close>

definition painted_to :: "nat \<Rightarrow> nat \<Rightarrow> (nat \<Rightarrow> nat \<times> nat \<times> nat) \<Rightarrow> nat \<Rightarrow> 'q \<Rightarrow> bool" where
  "painted_to w h f n q \<longleftrightarrow> img_width G q = w \<and> img_height G q = h
     \<and> (\<forall>k < n. img_pixel G q (k mod w) (k div w) = (case f k of (r, g, b) \<Rightarrow> img_rgb G r g b))"

lemma painted_new: "painted_to w h f 0 (img_new G w h)"
  by (simp add: painted_to_def new_size)

lemma painted_step:
  assumes "painted_to w h f n q" and "n < h * w" and "f n = (r, g, b)"
  shows "painted_to w h f (Suc n) (img_set G (n mod w) (n div w) (img_rgb G r g b) q)"
proof -
  have w: "0 < w" using assms(2) by (cases w) auto
  have xy: "n mod w < w" "n div w < h" using w assms(2) by (auto simp: less_mult_imp_div_less)
  let ?q = "img_set G (n mod w) (n div w) (img_rgb G r g b) q"
  have q: "img_width G q = w" "img_height G q = h" using assms(1) by (simp_all add: painted_to_def)
  have old: "img_pixel G q (k mod w) (k div w) = (case f k of (r, g, b) \<Rightarrow> img_rgb G r g b)" if "k < n" for k
    using assms(1) that by (simp add: painted_to_def)
  have eq: "k = n" if "k mod w = n mod w" "k div w = n div w" for k
    using that by (metis div_mult_mod_eq)
  have pixel: "img_pixel G ?q x y = (if x = n mod w \<and> y = n div w then img_rgb G r g b else img_pixel G q x y)" for x y
    by (rule set_pixel) (use xy q in simp_all)
  have "img_pixel G ?q (k mod w) (k div w) = (case f k of (r, g, b) \<Rightarrow> img_rgb G r g b)" if "k < Suc n" for k
  proof (cases "k = n")
    case True
    then show ?thesis using assms(3) by (simp add: pixel)
  next
    case False
    then show ?thesis using eq [of k] old [of k] that by (auto simp: pixel)
  qed
  then show ?thesis using q by (simp add: painted_to_def set_size)
qed

lemma painted_at: "painted_to w h f (h * w) q \<Longrightarrow> x < w \<Longrightarrow> y < h
    \<Longrightarrow> img_pixel G q x y = (case f (w * y + x) of (r, g, b) \<Rightarrow> img_rgb G r g b)"
proof -
  assume p: "painted_to w h f (h * w) q" and x: "x < w" and y: "y < h"
  have "w * (y + 1) \<le> w * h" using y by (intro mult_left_mono) auto
  then have "w * y + x < h * w" using x by (simp add: mult.commute)
  moreover have "(w * y + x) mod w = x" "(w * y + x) div w = y" using x by simp_all
  ultimately show ?thesis using p by (auto simp: painted_to_def)
qed

end

lemma row_major_eq: "row_major h w = map (\<lambda>p. (p div w, p mod w)) [0..<h * w]"
proof (induction h)
  case 0
  then show ?case by (simp add: row_major_def)
next
  case (Suc h)
  have "map (\<lambda>p. (p div w, p mod w)) [h * w..<h * w + w] = map (\<lambda>x. ((h * w + x) div w, (h * w + x) mod w)) [0..<w]"
    by (rule nth_equalityI) simp_all
  also have "\<dots> = map (\<lambda>x. (h, x)) [0..<w]" 
  proof (rule map_cong [OF refl])
    fix x assume "x \<in> set [0..<w]"
    then have "x < w" by simp
    then show "((h * w + x) div w, (h * w + x) mod w) = (h, x)" by simp
  qed
  finally have "map (\<lambda>x. (h, x)) [0..<w] = map (\<lambda>p. (p div w, p mod w)) [h * w..<h * w + w]" by (rule sym)
  moreover have "[0..<Suc h * w] = [0..<h * w] @ [h * w..<h * w + w]"
  proof -
    have "Suc h * w = h * w + w" by simp
    then show ?thesis by (simp only: upt_add_eq_append [OF le0])
  qed
  ultimately show ?case using Suc by (simp add: row_major_def)
qed

text \<open>The colour of pixel \<open>k\<close> of a 16-bit image with three channels.\<close>

definition gamma_colour :: "u8 list \<Rightarrow> u16 list \<Rightarrow> nat \<Rightarrow> nat \<times> nat \<times> nat" where
  "gamma_colour m_gamma d k =
     (let v = (\<lambda>c. unat (m_gamma ! unat (drop_bit 4 (d ! (3 * k + c))))) in (v 0, v 1, v 2))"

lemma gamma_of_ok:
  assumes "length m_gamma = 4096"
  shows "gamma_of m_gamma v = Inr (unat (m_gamma ! unat (drop_bit 4 v)))"
proof -
  have "unat (drop_bit 4 v) = drop_bit 4 (unat v)" by (rule unat_drop_bit_eq)
  then have "unat (drop_bit 4 v) = unat v div 16" by (simp add: drop_bit_eq_div)
  moreover have "unat v < 65536" using unsigned_less [where 'a = nat, of v] by simp
  ultimately have "unat (drop_bit 4 v) < length m_gamma" using assms by linarith
  then show ?thesis unfolding gamma_of_def by (simp only: ld_nat rbind.simps)
qed

context qimage begin

lemma show_pixel_ok:
  assumes "length m_gamma = 4096" and "length d = 3 * (h * w)" and "k < h * w"
    and "painted_to w h (gamma_colour m_gamma d) k q"
  shows "\<exists>q'. show_pixel G m_gamma d (k div w, k mod w) (3 * k, q) = Inr (3 * Suc k, q')
    \<and> painted_to w h (gamma_colour m_gamma d) (Suc k) q'"
proof -
  obtain r g b where c: "gamma_colour m_gamma d k = (r, g, b)" by (cases "gamma_colour m_gamma d k")
  have l: "3 * k < length d" "3 * k + 1 < length d" "3 * k + 2 < length d" using assms(2,3) by simp_all
  have "show_pixel G m_gamma d (k div w, k mod w) (3 * k, q)
      = Inr (3 * k + 3, img_set G (k mod w) (k div w) (img_rgb G r g b) q)"
    unfolding show_pixel_def using c l by (simp only: prod.case ld_nat rbind.simps gamma_of_ok [OF assms(1)]) (simp add: gamma_colour_def)
  then show ?thesis using painted_step [OF assms(4,3) c] by simp
qed

lemma show_image_ok:
  assumes "length m_gamma = 4096" and "length (data m) = 3 * (rows m * cols m)"
  shows "\<exists>q. show_image G m_gamma m = Inr q \<and> painted_to (cols m) (rows m) (gamma_colour m_gamma (data m)) (rows m * cols m) q"
proof -
  let ?f = "\<lambda>k. show_pixel G m_gamma (data m) (k div cols m, k mod cols m)"
  let ?P = "\<lambda>k s. fst s = 3 * k \<and> painted_to (cols m) (rows m) (gamma_colour m_gamma (data m)) k (snd s)"
  have "\<exists>t. rfold ?f [0..<rows m * cols m] (0, img_new G (cols m) (rows m)) = Inr t \<and> ?P (rows m * cols m) t"
  proof (rule rfold_upto)
    show "?P 0 (0, img_new G (cols m) (rows m))" by (simp add: painted_new)
  next
    fix k and s :: "nat \<times> 'q"
    assume k: "k < rows m * cols m" and P: "?P k s"
    obtain q where s: "s = (3 * k, q)" using P by (cases s) simp
    show "\<exists>s'. ?f k s = Inr s' \<and> ?P (Suc k) s'"
      using show_pixel_ok [OF assms k, of q] P unfolding s by fastforce
  qed
  then show ?thesis by (auto simp: show_image_def row_major_eq rfold_map)
qed

end

text \<open>An image as a table of pixels.\<close>

record cells =
  c_width :: nat
  c_height :: nat
  c_pixel :: "nat \<times> nat \<Rightarrow> u32"

definition cell_image :: "cells qt_image" where
  "cell_image = \<lparr>img_new = (\<lambda>w h. \<lparr>c_width = w, c_height = h, c_pixel = (\<lambda>_. 0)\<rparr>),
     img_set = (\<lambda>x y c q. if x < c_width q \<and> y < c_height q then q\<lparr>c_pixel := (c_pixel q)((x, y) := c)\<rparr> else q),
     img_pixel = (\<lambda>q x y. c_pixel q (x, y)), img_width = c_width, img_height = c_height,
     img_null = (\<lambda>q. c_width q = 0 \<or> c_height q = 0), img_none = \<lparr>c_width = 0, c_height = 0, c_pixel = (\<lambda>_. 0)\<rparr>,
     img_gray = (\<lambda>q. q\<lparr>c_pixel := (\<lambda>_. 0xffa0a0a4)\<rparr>),
     img_rgb = (\<lambda>r g b. 0xff000000 + of_nat (65536 * (r mod 256) + 256 * (g mod 256) + b mod 256))\<rparr>"

interpretation cells: qimage cell_image
  by unfold_locales (simp_all add: cell_image_def)

subsection \<open>The gamma table\<close>

text \<open>\<open>std::pow\<close> of a number below 1 and a positive exponent is a number from 0 to 1.\<close>

definition pow_unit :: "(fl \<Rightarrow> fl \<Rightarrow> fl) \<Rightarrow> bool" where
  "pow_unit pow_fn \<longleftrightarrow> (\<forall>x. 0 \<le> x \<and> x < 1 \<longrightarrow> (\<exists>y. pow_fn (Fin x) gamma_exponent = Fin y \<and> 0 \<le> y \<and> y \<le> 1))"

definition gamma_value :: "(fl \<Rightarrow> fl \<Rightarrow> fl) \<Rightarrow> nat \<Rightarrow> fl" where
  "gamma_value pow_fn i = fmul binary64 (pow_fn (Fin (of_nat i / 4096)) gamma_exponent) (Fin 255)"

lemma gamma_value_byte:
  assumes "pow_unit pow_fn" and "i < 4096"
  shows "\<exists>a. gamma_value pow_fn i = Fin a \<and> 0 \<le> a \<and> a \<le> 255"
proof -
  have "0 \<le> (of_nat i / 4096 :: rat)" "(of_nat i / 4096 :: rat) < 1" using assms(2) by simp_all
  then obtain y where y: "pow_fn (Fin (of_nat i / 4096)) gamma_exponent = Fin y" "0 \<le> y" "y \<le> 1"
    using assms(1) unfolding pow_unit_def by blast
  have "gamma_value pow_fn i = rnd binary64 (y * 255)" using y(1) by (simp add: gamma_value_def)
  moreover have "fle (Fin 0) (rnd binary64 (y * 255))" using rnd_mono [OF binary_format(2,4), of 0 "y * 255"] y(2) by (simp add: rnd_zero)
  moreover have "fle (rnd binary64 (y * 255)) (Fin 255)" using rnd_mono [OF binary_format(2,4), of "y * 255" 255] y(3) rnd64_numeral [of "num.Bit1 (num.Bit1 (num.Bit1 (num.Bit1 (num.Bit1 (num.Bit1 (num.Bit1 num.One))))))"] by simp
  ultimately show ?thesis by (cases "rnd binary64 (y * 255)") (auto simp: fle_def)
qed

lemma uint8_of_byte: "0 \<le> a \<Longrightarrow> a \<le> 255 \<Longrightarrow> uint8_of (Fin a) = Inr (of_int \<lfloor>a\<rfloor>)"
proof -
  assume a: "0 \<le> a" "a \<le> 255"
  then have "0 \<le> \<lfloor>a\<rfloor>" "\<lfloor>a\<rfloor> \<le> 255" by (simp_all add: floor_le_iff)
  then show ?thesis using a(1) by (simp add: uint8_of_def Let_def)
qed

lemma gamma_step: "fdiv binary64 (Fin (of_nat i)) (Fin 4096) = Fin (of_nat i / 4096)" if "i < 4096"
proof -
  have "rnd binary64 (of_nat i / 4096) = Fin (of_nat i / 4096)"
    by (rule rnd64_exact [of _ "int i" "- 12"]) (use that in \<open>simp_all add: power_int_def power_one_over\<close>)
  then show ?thesis by simp
qed

text \<open>The level of a 16-bit sample in the table.\<close>

definition level_of :: "fl \<Rightarrow> nat" where
  "level_of a = (case a of Fin x \<Rightarrow> nat \<lfloor>x\<rfloor> | _ \<Rightarrow> 0)"

definition gamma_level :: "(fl \<Rightarrow> fl \<Rightarrow> fl) \<Rightarrow> u16 \<Rightarrow> nat" where
  "gamma_level pow_fn v = level_of (gamma_value pow_fn (unat v div 16))"

lemma init_entry_ok:
  assumes "pow_unit pow_fn" and "i < 4096" and "length m_gamma = 4096"
  shows "\<exists>v. init_entry pow_fn i m_gamma = Inr (m_gamma[i := v]) \<and> unat v = level_of (gamma_value pow_fn i)"
proof -
  obtain a where a: "gamma_value pow_fn i = Fin a" "0 \<le> a" "a \<le> 255" using gamma_value_byte [OF assms(1,2)] by blast
  have "st m_gamma (int i) v = Inr (m_gamma[i := v])" for v using assms(2,3) by (intro st_nat) simp
  then have "init_entry pow_fn i m_gamma = Inr (m_gamma[i := of_int \<lfloor>a\<rfloor>])"
    using a(1) uint8_of_byte [OF a(2,3)] unfolding init_entry_def gamma_step [OF assms(2)] Let_def gamma_value_def [symmetric] by simp
  moreover have "unat (of_int \<lfloor>a\<rfloor> :: u8) = nat \<lfloor>a\<rfloor>"
  proof -
    have "0 \<le> \<lfloor>a\<rfloor>" "\<lfloor>a\<rfloor> < 256" using a(2,3) by (simp_all add: floor_less_iff)
    then show ?thesis by (simp add: unsigned_of_int take_bit_int_eq_self)
  qed
  ultimately show ?thesis using a(1) by (auto simp: level_of_def)
qed

lemma LytroImage_init_ok:
  assumes "pow_unit pow_fn" and "length m_gamma = 4096"
  shows "\<exists>tbl. LytroImage_init pow_fn m_gamma = Inr tbl \<and> length tbl = 4096
    \<and> (\<forall>i < 4096. unat (tbl ! i) = level_of (gamma_value pow_fn i))"
proof -
  let ?P = "\<lambda>k t :: u8 list. length t = 4096 \<and> (\<forall>i < k. unat (t ! i) = level_of (gamma_value pow_fn i))"
  have "\<exists>t. rfold (init_entry pow_fn) [0..<4096] m_gamma = Inr t \<and> ?P 4096 t"
  proof (rule rfold_upto [of ?P])
    show "?P 0 m_gamma" using assms(2) by simp
  next
    fix k and t :: "u8 list"
    assume k: "k < 4096" and P: "?P k t"
    obtain v where "init_entry pow_fn k t = Inr (t[k := v])" "unat v = level_of (gamma_value pow_fn k)"
      using init_entry_ok [OF assms(1) k] P by blast
    then show "\<exists>t'. init_entry pow_fn k t = Inr t' \<and> ?P (Suc k) t'"
      using P k by (auto simp: nth_list_update less_Suc_eq)
  qed
  then show ?thesis unfolding LytroImage_init_def .
qed

lemma gamma_index: "unat (drop_bit 4 (v :: u16)) = unat v div 16 \<and> unat v div 16 < 4096"
proof -
  have "unat (drop_bit 4 v) = drop_bit 4 (unat v)" by (rule unat_drop_bit_eq)
  moreover have "unat v < 65536" using unsigned_less [where 'a = nat, of v] by simp
  ultimately show ?thesis by (simp add: drop_bit_eq_div less_mult_imp_div_less)
qed

subsection \<open>What the viewer shows\<close>

text \<open>
  C35: The viewer starts with the gamma table and shows a picture with it: every pixel of the image on the screen has,
  for red, green and blue, the whole part of 255 times the gamma function of the upper 12 bits of the
  sample. The table is complete and no access leaves it or the picture.\<close>

theorem LytroImage_correct:
  assumes "qimage G" and "pow_unit pow_fn" and "LytroImage_source Q L alloc path s = Some (Inr m, s')"
    and "length (data m) = 3 * (rows m * cols m)"
  shows "\<exists>tbl q. LytroImage_init pow_fn static_gamma = Inr tbl \<and> LytroImage_load G Q L alloc tbl path s = Some (Inr q, s')
    \<and> img_width G q = cols m \<and> img_height G q = rows m
    \<and> (\<forall>x y. x < cols m \<and> y < rows m \<longrightarrow> img_pixel G q x y
        = img_rgb G (gamma_level pow_fn (data m ! (3 * (cols m * y + x)))) (gamma_level pow_fn (data m ! (3 * (cols m * y + x) + 1)))
            (gamma_level pow_fn (data m ! (3 * (cols m * y + x) + 2))))"
proof -
  obtain tbl where tbl: "LytroImage_init pow_fn static_gamma = Inr tbl" "length tbl = 4096"
      "\<And>i. i < 4096 \<Longrightarrow> unat (tbl ! i) = level_of (gamma_value pow_fn i)"
    using LytroImage_init_ok [OF assms(2), of static_gamma] by (auto simp: static_gamma_def)
  obtain q where q: "show_image G tbl m = Inr q"
      "qimage.painted_to G (cols m) (rows m) (gamma_colour tbl (data m)) (rows m * cols m) q"
    using qimage.show_image_ok [OF assms(1) tbl(2) assms(4)] by blast
  have "unat (tbl ! unat (drop_bit 4 v)) = gamma_level pow_fn v" for v :: u16
    using gamma_index [of v] tbl(3) [of "unat v div 16"] by (simp add: gamma_level_def)
  then have "img_pixel G q x y = img_rgb G (gamma_level pow_fn (data m ! (3 * (cols m * y + x))))
      (gamma_level pow_fn (data m ! (3 * (cols m * y + x) + 1))) (gamma_level pow_fn (data m ! (3 * (cols m * y + x) + 2)))"
    if "x < cols m" "y < rows m" for x y
    using qimage.painted_at [OF assms(1) q(2) that] by (simp add: gamma_colour_def)
  moreover have "img_width G q = cols m" "img_height G q = rows m" using q(2) by (simp_all add: qimage.painted_to_def [OF assms(1)])
  moreover have "LytroImage_load G Q L alloc tbl path s = Some (Inr q, s')"
    using assms(3) q(1) by (simp add: LytroImage_load_def bind_step ret_app)
  ultimately show ?thesis using tbl(1) by blast
qed

text \<open>Without a calibration of the camera the picture is the raw image.\<close>

lemma source_raw:
  assumes "read_raw L (file_content path s) (u_world s) = Some (Inr raw, u_world s)"
    and "read_metadata L (file_content (fst path, without_extension (snd path) @ ''.TXT'') s) (u_world s) = Some (Inr md, w1)"
    and "metadata_serial L md w1 = Some (Inr sn, w2)" and "w_disk w2 (qt_config Q, sn @ ''.json'') = None"
  shows "LytroImage_source Q L alloc path s = Some (Inr raw, s\<lparr>u_world := w2\<rparr>)"
  using assms readCalibrationData_none [of Q sn "s\<lparr>u_world := w2\<rparr>" L]
  by (simp add: LytroImage_source_def reads_def bind_io_def on_world_def file_content_def shown_image_def ret_app)

text \<open>A raw file of zeros on an empty system, and a function with the range of \<open>pow\<close>.\<close>

definition raw_libs :: "json libs" where
  "raw_libs = sample_libs\<lparr>lib_alloc := replicate (3 * 3280 * 3280) 0, lib_buf := [0, 0, 0]\<rparr>"

definition raw_desktop :: "(sim, json) desktop" where
  "raw_desktop = \<lparr>u_world = photo_world\<lparr>w_disk := [(''/home'', ''a.RAW'') \<mapsto> replicate (3 * 3280 * 3280) 0]\<rparr>, u_dirs = {}\<rparr>"

lemma raw_zeros: "\<exists>d. RawImage ref_copy (replicate (3 * 3280 * 3280) 0) [0, 0, 0]
    \<lparr>is_bytes = replicate (3 * 3280 * 3280) 0, is_fail = False\<rparr> 3280 3280 = Inr \<lparr>rows = 3280, cols = 3280, data = d\<rparr>
  \<and> length d = 3 * (3280 * 3280)"
proof -
  let ?bs = "replicate (3 * 3280 * 3280) 0 :: u8 list" and ?a = "replicate (3 * 3280 * 3280) 0 :: u16 list"
  let ?m = "\<lparr>rows = 3280, cols = 3280, data = bayer_image ?a ?bs 3280 (3280 * 3280)\<rparr>"
  have "unpack ?a [0, 0, 0] \<lparr>is_bytes = ?bs, is_fail = False\<rparr> 3280 3280 = Inr ?m"
    by (rule unpack_ok) simp_all
  moreover have "length (data ?m) = 3 * (3280 * 3280)" by (simp add: bayer_image_def)
  ultimately show ?thesis
    using cv_mat_copy.demosaic_borders [OF ref_copy.cv_mat_copy_axioms, of ?m 0 0 0] by (auto simp: RawImage_def)
qed

lemma without_extension_sample: "without_extension ''a.RAW'' = ''a''"
  by (simp add: without_extension_def)

lemma null_serial: "\<exists>mem. read_serial tree_json (Metadata (Some 0)) [0 \<mapsto> JNull] = Inr ([], mem)"
proof -
  obtain v where "resolve tree_json (priv [K ''camera'', K ''serialNumber'']) JNull = Inr (JNull, v)"
    using tree.resolve_null [of "priv [K ''camera'', K ''serialNumber'']"] by (auto simp: tree_json_def)
  moreover have "as_string tree_json JNull = Inr []" by (simp add: tree_json_def)
  ultimately show ?thesis
    by (simp add: read_serial_def Privatemetadata_Camera_getSerialnumber_def Privatemetadata_getCamera_def
        Metadata_getPrivatemetadata_def access_def deref_root_def)
qed

lemma pow_unit_zero: "pow_unit (\<lambda>_ _. Fin 0)"
  by (simp add: pow_unit_def)

theorem LytroImage_correct_witness:
  "\<exists>tbl q s'. LytroImage_load cell_image plain_qt raw_libs (\<lambda>n. replicate n 0) tbl (''/home'', ''a.RAW'') raw_desktop = Some (Inr q, s')
    \<and> c_width q = 3280 \<and> c_height q = 3280"
proof -
  obtain d where d: "RawImage ref_copy (replicate (3 * 3280 * 3280) 0) [0, 0, 0]
      \<lparr>is_bytes = replicate (3 * 3280 * 3280) 0, is_fail = False\<rparr> 3280 3280 = Inr \<lparr>rows = 3280, cols = 3280, data = d\<rparr>"
    and len: "length d = 3 * (3280 * 3280)" using raw_zeros by blast
  let ?m = "\<lparr>rows = 3280, cols = 3280, data = d\<rparr>" and ?p = "(''/home'', ''a.RAW'')"
  have raw: "read_raw raw_libs (file_content ?p raw_desktop) (u_world raw_desktop) = Some (Inr ?m, u_world raw_desktop)"
    unfolding read_raw_def using d by (simp add: file_content_def raw_desktop_def raw_libs_def sample_libs_def stream_of_def ret_app)
  obtain mem where mem: "read_serial tree_json (Metadata (Some 0)) [0 \<mapsto> JNull] = Inr ([], mem)" using null_serial by blast
  let ?w = "(u_world raw_desktop)\<lparr>w_trees := [0 \<mapsto> JNull], w_next := 1\<rparr>"
  have none: "file_content (fst ?p, without_extension (snd ?p) @ ''.TXT'') raw_desktop = None"
    by (simp add: without_extension_sample file_content_def raw_desktop_def photo_world_def)
  have md: "read_metadata raw_libs (file_content (fst ?p, without_extension (snd ?p) @ ''.TXT'') raw_desktop) (u_world raw_desktop)
      = Some (Inr (Metadata (Some 0)), ?w)"
    unfolding none by (simp add: read_metadata_def read_def raw_libs_def sample_libs_def raw_desktop_def photo_world_def)
  have sn: "metadata_serial raw_libs (Metadata (Some 0)) ?w = Some (Inr [], ?w\<lparr>w_trees := mem\<rparr>)"
    using mem by (simp add: metadata_serial_def raw_libs_def sample_libs_def)
  have "LytroImage_source plain_qt raw_libs (\<lambda>n. replicate n 0) ?p raw_desktop = Some (Inr ?m, raw_desktop\<lparr>u_world := ?w\<lparr>w_trees := mem\<rparr>\<rparr>)"
    by (rule source_raw [OF raw md sn]) (simp add: raw_desktop_def plain_qt_def)
  from LytroImage_correct [OF cells.qimage_axioms pow_unit_zero this] len
  obtain tbl q where "LytroImage_load cell_image plain_qt raw_libs (\<lambda>n. replicate n 0) tbl ?p raw_desktop
      = Some (Inr q, raw_desktop\<lparr>u_world := ?w\<lparr>w_trees := mem\<rparr>\<rparr>)" "img_width cell_image q = 3280" "img_height cell_image q = 3280"
    by auto
  moreover have "img_width cell_image q = c_width q" "img_height cell_image q = c_height q" by (simp_all add: cell_image_def)
  ultimately show ?thesis by auto
qed

subsection \<open>Who owns an image\<close>

text \<open>What a program can do with \<open>LytroImage\<close> objects: construct at an address where no object is, use and
  destroy live ones.\<close>

inductive image_step :: "'q image_store \<Rightarrow> 'q image_store \<Rightarrow> bool" where
  default: "owned s this = None \<Longrightarrow> LytroImage_default this s = Inr s' \<Longrightarrow> image_step s s'"
| load: "owned s this = None \<Longrightarrow> image_step s (new_image this q s)"
| copy: "owned s this = None \<Longrightarrow> LytroImage_copy this other s = Inr s' \<Longrightarrow> image_step s s'"
| move: "owned s this = None \<Longrightarrow> LytroImage_move this other s = Inr s' \<Longrightarrow> image_step s s'"
| assign: "owned s tmp = None \<Longrightarrow> owned s this \<noteq> None \<Longrightarrow> LytroImage_assign tmp this other s = Inr s' \<Longrightarrow> image_step s s'"
| move_assign: "LytroImage_move_assign this other s = Inr s' \<Longrightarrow> image_step s s'"
| dtor: "LytroImage_dtor this s = Inr s' \<Longrightarrow> image_step s s'"

inductive image_reachable :: "'q image_store \<Rightarrow> bool" where
  start: "image_reachable \<lparr>owned = Map.empty, heap = Map.empty, fresh = 0\<rparr>"
| step: "image_reachable s \<Longrightarrow> image_step s s' \<Longrightarrow> image_reachable s'"

definition owners_ok :: "'q image_store \<Rightarrow> bool" where
  "owners_ok s \<longleftrightarrow> (\<forall>a b k. owned s a = Some (Some k) \<longrightarrow> owned s b = Some (Some k) \<longrightarrow> a = b)
     \<and> (\<forall>k. heap s k \<noteq> None \<longleftrightarrow> (\<exists>a. owned s a = Some (Some k))) \<and> (\<forall>k. heap s k \<noteq> None \<longrightarrow> k < fresh s)"

lemma owners_unique: "owners_ok s \<Longrightarrow> owned s a = Some (Some k) \<Longrightarrow> owned s b = Some (Some k) \<Longrightarrow> a = b"
  by (auto simp: owners_ok_def)

lemma owners_heap: "owners_ok s \<Longrightarrow> owned s a = Some (Some k) \<Longrightarrow> \<exists>q. heap s k = Some q"
  unfolding owners_ok_def by blast

lemma owners_fresh: "owners_ok s \<Longrightarrow> owned s a = Some (Some k) \<Longrightarrow> k < fresh s"
  unfolding owners_ok_def by blast

lemma owners_new:
  assumes ok: "owners_ok s" and dead: "owned s this = None"
  shows "owners_ok (new_image this q s)"
proof -
  have f: "owned s a \<noteq> Some (Some (fresh s))" for a using owners_fresh [OF ok, of a "fresh s"] by auto
  have k: "k < fresh s" if "heap s k \<noteq> None" for k using ok that by (auto simp: owners_ok_def)
  have h: "heap s k \<noteq> None \<longleftrightarrow> (\<exists>a. a \<noteq> this \<and> owned s a = Some (Some k))" for k
    using ok dead unfolding owners_ok_def by (metis option.distinct(1))
  show ?thesis
    unfolding owners_ok_def new_image_def using f h owners_unique [OF ok] k by (auto simp: less_Suc_eq)
qed

lemma owners_default: "owners_ok s \<Longrightarrow> owned s this = None \<Longrightarrow> owners_ok (set_image this None s)"
  unfolding owners_ok_def set_image_def by (auto; metis option.distinct(1))

text \<open>Handing the image of one object to another one that has none.\<close>

lemma owners_move:
  assumes ok: "owners_ok s" and none: "owned s this = None \<or> owned s this = Some None" and other: "owned s other = Some p" and diff: "this \<noteq> other"
  shows "owners_ok (set_image other None (set_image this p s))"
proof -
  let ?s = "set_image other None (set_image this p s)"
  have o: "owned ?s a = Some (Some k) \<longleftrightarrow> (if a = this then p = Some k else a \<noteq> other \<and> owned s a = Some (Some k))" for a k
    using diff by (auto simp: set_image_def)
  have "(\<exists>a. owned ?s a = Some (Some k)) \<longleftrightarrow> (\<exists>a. owned s a = Some (Some k))" for k
    using none other diff by (auto simp: o) (metis option.distinct(1) option.inject)+
  moreover have "a = b" if "owned ?s a = Some (Some k)" "owned ?s b = Some (Some k)" for a b k
    using that other owners_unique [OF ok] by (auto simp: o split: if_splits)
  moreover have "heap ?s = heap s" "fresh ?s = fresh s" by (simp_all add: set_image_def)
  ultimately show ?thesis using ok unfolding owners_ok_def by auto
qed

lemma owners_delete:
  assumes ok: "owners_ok s" and alive: "owned s this = Some p"
  shows "\<exists>s'. delete_image p s = Inr s' \<and> owned s' = owned s \<and> fresh s' = fresh s
    \<and> owners_ok (set_image this None s') \<and> owners_ok (s'\<lparr>owned := (owned s)(this := None)\<rparr>)"
proof (cases p)
  case None
  then have "owned (set_image this None s) = owned s" using alive by (auto simp: set_image_def)
  then have "set_image this None s = s" by (simp add: set_image_def)
  moreover have "owners_ok (s\<lparr>owned := (owned s)(this := None)\<rparr>)"
    using ok alive None unfolding owners_ok_def by (auto; metis option.inject option.distinct(1))
  ultimately show ?thesis using None ok by (simp add: delete_image_def)
next
  case (Some k)
  obtain q where q: "heap s k = Some q" using owners_heap [OF ok] alive Some by blast
  have u: "owned s a = Some (Some k) \<longleftrightarrow> a = this" for a using owners_unique [OF ok] alive Some by auto
  have h: "heap s j \<noteq> None \<longleftrightarrow> (\<exists>a. owned s a = Some (Some j))" for j using ok by (auto simp: owners_ok_def)
  let ?h = "(heap s)(k := None)"
  have h': "?h j \<noteq> None \<longleftrightarrow> (\<exists>a. a \<noteq> this \<and> owned s a = Some (Some j))" for j
  proof (cases "j = k")
    case True
    then show ?thesis using u by auto
  next
    case False
    then have "a \<noteq> this" if "owned s a = Some (Some j)" for a using that alive Some by auto
    then show ?thesis using h [of j] False by auto
  qed
  have "owners_ok (set_image this None (s\<lparr>heap := ?h\<rparr>))" "owners_ok (s\<lparr>heap := ?h, owned := (owned s)(this := None)\<rparr>)"
    unfolding owners_ok_def set_image_def using h' owners_fresh [OF ok] owners_unique [OF ok] by auto
  then show ?thesis using Some q by (simp add: delete_image_def)
qed

lemma owners_swap:
  assumes ok: "owners_ok s" and a: "owned s a = Some p" and b: "owned s b = Some q" and diff: "a \<noteq> b"
  shows "owners_ok (set_image b p (set_image a q s))"
proof -
  let ?s = "set_image b p (set_image a q s)"
  define pi where "pi c = (if c = a then b else if c = b then a else c)" for c
  have pi: "pi (pi c) = c" for c by (simp add: pi_def)
  have own: "owned ?s c = owned s (pi c)" for c using a b diff by (simp add: set_image_def pi_def)
  have "(\<exists>c. owned ?s c = Some (Some k)) \<longleftrightarrow> (\<exists>c. owned s c = Some (Some k))" for k
    unfolding own using pi by metis
  moreover have "c = d" if "owned ?s c = Some (Some k)" "owned ?s d = Some (Some k)" for c d k
    using that owners_unique [OF ok, of "pi c" k "pi d"] pi unfolding own by metis
  moreover have "heap ?s = heap s" "fresh ?s = fresh s" by (simp_all add: set_image_def)
  ultimately show ?thesis using ok unfolding owners_ok_def by auto
qed

lemma dtor_ok:
  "owners_ok s \<Longrightarrow> owned s this = Some p \<Longrightarrow> \<exists>s'. LytroImage_dtor this s = Inr s' \<and> owners_ok s' \<and> owned s' = (owned s)(this := None)"
  using owners_delete [of s this p] by (auto simp: LytroImage_dtor_def m_image_def)

lemma copy_cases:
  assumes "owners_ok s"
  shows "LytroImage_copy this other s = (case owned s other of Some (Some k) \<Rightarrow> Inr (new_image this (the (heap s k)) s) | _ \<Rightarrow> Inl NullPointer)"
  using owners_heap [OF assms, of other] by (auto simp: LytroImage_copy_def m_image_def split: option.splits)

lemma delete_owned: "delete_image p s = Inr s1 \<Longrightarrow> owned s1 = owned s"
  by (auto simp: delete_image_def split: option.splits if_splits)

lemma move_assign_ok:
  assumes ok: "owners_ok s" and "owned s this = Some p" and "owned s other = Some q" and "this \<noteq> other"
  shows "\<exists>s'. LytroImage_move_assign this other s = Inr s' \<and> owners_ok s'"
proof -
  obtain s1 where s1: "delete_image p s = Inr s1" "owned s1 = owned s" "owners_ok (set_image this None s1)"
    using owners_delete [OF ok assms(2)] by blast
  have "owners_ok (set_image other None (set_image this q (set_image this None s1)))"
    by (rule owners_move [OF s1(3)]) (use assms(3,4) s1(2) in \<open>simp_all add: set_image_def\<close>)
  moreover have "set_image this q (set_image this None s1) = set_image this q s1" by (simp add: set_image_def)
  ultimately show ?thesis
    using assms(2-4) s1(1,2) by (simp add: LytroImage_move_assign_def m_image_def)
qed

lemma assign_ok:
  assumes ok: "owners_ok s" and "owned s tmp = None" and "owned s this = Some p" and "owned s other = Some (Some k)" and "this \<noteq> other"
  shows "\<exists>s'. LytroImage_assign tmp this other s = Inr s' \<and> owners_ok s'"
proof -
  let ?s1 = "new_image tmp (the (heap s k)) s"
  have s1: "owners_ok ?s1" using owners_new [OF ok assms(2)] .
  have diff: "this \<noteq> tmp" using assms(2,3) by auto
  have own: "owned ?s1 this = Some p" "owned ?s1 tmp = Some (Some (fresh s))" using assms(3) diff by (simp_all add: new_image_def)
  let ?s2 = "set_image tmp p (set_image this (Some (fresh s)) ?s1)"
  have "owners_ok ?s2" by (rule owners_swap [OF s1 own diff])
  moreover have "owned ?s2 tmp = Some p" by (simp add: set_image_def)
  ultimately obtain s' where "LytroImage_dtor tmp ?s2 = Inr s'" "owners_ok s'" using dtor_ok by blast
  then show ?thesis
    using assms(4,5) own by (simp add: LytroImage_assign_def copy_cases [OF ok] m_image_def)
qed

lemma image_step_ok: "image_step s s' \<Longrightarrow> owners_ok s \<Longrightarrow> owners_ok s'"
proof (induction rule: image_step.induct)
  case (default s this s')
  then show ?case by (auto simp: LytroImage_default_def intro: owners_default)
next
  case (load s this q)
  then show ?case by (rule owners_new [rotated])
next
  case (copy s this other s')
  then show ?case by (auto simp: copy_cases intro: owners_new split: option.splits)
next
  case (move s this other s')
  then obtain p where "owned s other = Some p" "s' = set_image other None (set_image this p s)"
    by (auto simp: LytroImage_move_def m_image_def split: option.splits)
  with move show ?case using owners_move [of s this other p] by (cases "this = other") auto
next
  case (assign s tmp this other s')
  then show ?case
    using assign_ok [of s tmp this _ other]
    by (cases "this = other") (fastforce simp: LytroImage_assign_def copy_cases split: option.splits)+
next
  case (move_assign this other s s')
  show ?case
  proof (cases "this = other")
    case True
    then show ?thesis using move_assign by (simp add: LytroImage_move_assign_def)
  next
    case False
    with move_assign(1) obtain p s1 q where "m_image this s = Inr p" "delete_image p s = Inr s1" "m_image other s1 = Inr q"
      by (auto simp: LytroImage_move_assign_def res_simps)
    then have "owned s this = Some p" "owned s other = Some q"
      using delete_owned [of p s s1] by (auto simp: m_image_def split: option.splits)
    from move_assign_ok [OF move_assign(2) this False] move_assign(1) show ?thesis by auto
  qed
next
  case (dtor this s s')
  then obtain p where "owned s this = Some p" by (auto simp: LytroImage_dtor_def m_image_def split: option.splits)
  with dtor show ?case using dtor_ok [of s this p] by auto
qed

lemma image_reachable_ok: "image_reachable s \<Longrightarrow> owners_ok s"
proof (induction rule: image_reachable.induct)
  case start
  show ?case by (simp add: owners_ok_def)
next
  case (step s s')
  then show ?case using image_step_ok by blast
qed

text \<open>
  C36: However a program constructs, copies, moves, assigns and destroys \<open>LytroImage\<close> objects, every image has exactly one
  owner and none is leaked or deleted twice: destroying an object and moving into one never fail. Copying from
  or assigning from an object fails exactly when that object has no image.\<close>

theorem LytroImage_ownership:
  assumes "image_reachable s" and "owned s this = Some p" and "owned s other = Some q" and "owned s tmp = None"
  shows "owners_ok s \<and> (\<exists>s'. LytroImage_dtor this s = Inr s') \<and> (\<exists>s'. LytroImage_move_assign this other s = Inr s')
    \<and> (LytroImage_copy tmp other s = Inl NullPointer \<longleftrightarrow> q = None)
    \<and> (LytroImage_assign tmp this other s = Inl NullPointer \<longleftrightarrow> this \<noteq> other \<and> q = None)"
proof -
  have ok: "owners_ok s" using assms(1) by (rule image_reachable_ok)
  have "\<exists>s'. LytroImage_move_assign this other s = Inr s'"
    using move_assign_ok [OF ok assms(2,3)] by (cases "this = other") (auto simp: LytroImage_move_assign_def)
  moreover have "LytroImage_copy tmp other s = Inl NullPointer \<longleftrightarrow> q = None"
    using assms(3) by (cases q) (simp_all add: copy_cases [OF ok])
  moreover have "LytroImage_assign tmp this other s = Inl NullPointer \<longleftrightarrow> this \<noteq> other \<and> q = None"
  proof (cases "this = other \<or> q = None")
    case True
    then show ?thesis using assms(3) by (auto simp: LytroImage_assign_def copy_cases [OF ok])
  next
    case False
    then show ?thesis using assign_ok [OF ok assms(4,2)] assms(3) by fastforce
  qed
  ultimately show ?thesis using ok dtor_ok [OF ok assms(2)] by blast
qed

theorem LytroImage_ownership_witness:
  "\<exists>s :: nat image_store. image_reachable s \<and> (\<exists>s'. LytroImage_dtor 0 s = Inr s')
    \<and> (\<exists>s'. LytroImage_move_assign 1 0 s = Inr s') \<and> LytroImage_copy 2 1 s = Inl NullPointer"
proof -
  let ?start = "\<lparr>owned = Map.empty, heap = Map.empty, fresh = 0\<rparr> :: nat image_store"
  let ?s = "set_image 1 None (new_image 0 7 ?start)"
  have "image_reachable (new_image 0 7 ?start)" by (rule image_reachable.step [OF image_reachable.start image_step.load]) simp
  then have r: "image_reachable ?s"
  proof (rule image_reachable.step)
    show "image_step (new_image 0 7 ?start) ?s"
      by (rule image_step.default [where this = 1]) (simp_all add: new_image_def LytroImage_default_def)
  qed
  have o: "owned ?s 0 = Some (Some 0)" "owned ?s 1 = Some None" "owned ?s 2 = None" by (simp_all add: set_image_def new_image_def)
  show ?thesis
    using LytroImage_ownership [OF r o(1) o(2) o(3)] LytroImage_ownership [OF r o(2) o(1) o(3)] r by blast
qed

subsection \<open>The form\<close>

text \<open>The label has a pixmap when an image was loaded, and all operations keep that. As long as no image was
  loaded, saving and fitting the zoom dereference a null pointer.\<close>

definition viewer_ok :: "'q viewer \<Rightarrow> bool" where
  "viewer_ok v \<longleftrightarrow> (v_image v = None \<longleftrightarrow> v_pixmap v = None)"

lemma scale_keeps: "v_image (scaleImage scaled v) = v_image v" "v_pixmap (scaleImage scaled v) = v_pixmap v"
  by (simp_all add: scaleImage_def Let_def split: option.splits)

lemma viewer_steps:
  "viewer_ok (ViewerForm_ctor cwd)" and "viewer_ok (fileViewClicked G q v)"
  and "viewer_ok v \<Longrightarrow> viewer_ok (zoomIn scaled v)" and "viewer_ok v \<Longrightarrow> viewer_ok (zoomOut scaled v)"
  and "viewer_ok v \<Longrightarrow> viewer_ok (zoomOriginal scaled v)" and "viewer_ok v \<Longrightarrow> viewer_ok (resizeEvent scaled v)"
  and "viewer_ok v \<Longrightarrow> viewer_ok (directoryViewClicked dir v)"
  by (simp_all add: viewer_ok_def ViewerForm_ctor_def fileViewClicked_def zoomIn_def zoomOut_def zoomOriginal_def
      resizeEvent_def directoryViewClicked_def scale_keeps)

lemma viewer_faults:
  assumes "viewer_ok v" and "name \<noteq> []"
  shows "saveAs name v = Inl NullPointer \<longleftrightarrow> v_image v = None" and "zoomFit scaled area v = Inl NullPointer \<longleftrightarrow> v_image v = None"
  using assms by (auto simp: viewer_ok_def saveAs_def zoomFit_def Let_def split: option.splits)

end
