(* ===== verification/Camera_Calibrator.thy ===== *)
theory Camera_Calibrator
  imports Lyli_Config
begin

text \<open>
  \<open>ui/cameraview/cameracalibrator\<close> and the test of \<open>ui/calibrationwizard\<close>: calibrating a camera that is new to the
  desktop program.

  The calls that only change the progress dialog are left out. The dialog answers \<open>wasCanceled\<close>, which is asked
  after each image: \<open>cancelled n\<close> is its answer after the \<open>n\<close>-th. \<open>cache\<close> is the text of the field of the wizard,
  which the code reads however the wizard was closed. \<open>tbb\<close> runs the images as in the theory of the command line.
\<close>

subsection \<open>CalibrationWizardPageCacheDir\<close>

text \<open>\<open>cdUp\<close> goes to the parent when it exists, and reports otherwise; the code does not look at that.\<close>

definition isComplete :: "(string \<Rightarrow> bool) \<Rightarrow> (string \<Rightarrow> string) \<Rightarrow> string \<Rightarrow> bool" where
  "isComplete isWritable cdUp dir =
     (if isWritable dir then True
      else if isWritable (cdUp dir) then True
      else False)"

definition selectDirectory :: "string \<Rightarrow> string \<Rightarrow> string" where
  "selectDirectory cacheDir field_text = (if cacheDir \<noteq> [] then cacheDir else field_text)"

subsection \<open>CameraCalibrator\<close>

definition download_missing ::
  "os \<Rightarrow> string \<Rightarrow> Camera_Files.Image \<Rightarrow> string \<Rightarrow> ('d Camera_Device.Camera list, u8 list) io \<Rightarrow> (('d, 'j) desktop, unit) io" where
  "download_missing sys dir img ext get =
     bind_io (lift (getName img)) (\<lambda>name.
     let path = (dir, name @ ext) in
     bind_io (reads (file_content path)) (\<lambda>content.
     if content = None then
       bind_io (out_open sys path) (\<lambda>_.
       bind_io (on_world (on_cameras get)) (\<lambda>bs. out_write sys path bs))
     else ret ()))"

fun downloadCalib_from ::
  "'d usb_ops \<Rightarrow> os \<Rightarrow> string \<Rightarrow> (nat \<Rightarrow> bool) \<Rightarrow> nat \<Rightarrow> Camera_Files.Image list \<Rightarrow> (('d, 'j) desktop, bool) io" where
  "downloadCalib_from ops sys dir cancelled n [] = ret True"
| "downloadCalib_from ops sys dir cancelled n (img # fileList) =
     bind_io (download_missing sys dir img ''.TXT'' (getImageMetadata ops img)) (\<lambda>_.
     bind_io (download_missing sys dir img ''.RAW'' (getImageData ops img)) (\<lambda>_.
     if cancelled (n + 1) then ret False
     else downloadCalib_from ops sys dir cancelled (n + 1) fileList))"

definition CameraCalibrator_downloadCalib ::
  "'d usb_ops \<Rightarrow> os \<Rightarrow> string \<Rightarrow> (nat \<Rightarrow> bool) \<Rightarrow> Camera_Files.Image list \<Rightarrow> (('d, 'j) desktop, bool) io" where
  "CameraCalibrator_downloadCalib ops sys dir cancelled fileList = downloadCalib_from ops sys dir cancelled 0 fileList"

definition preprocess_file :: "'j libs \<Rightarrow> string \<Rightarrow> string \<Rightarrow> (('d, 'j) desktop, unit) io" where
  "preprocess_file L dir filebase =
     bind_io (reads (file_content (dir, filebase @ ''.TXT''))) (\<lambda>finmeta.
     if finmeta = None then ret ()
     else
       bind_io (on_world (read_metadata L finmeta)) (\<lambda>metadata.
       bind_io (reads (file_content (dir, filebase @ ''.RAW''))) (\<lambda>fin.
       bind_io (on_world (read_raw L fin)) (\<lambda>rawimg.
       bind_io (lift (detect (lib_image L) (sqrt_f (lib_math L)) rawimg)) (\<lambda>pointGrid.
       if isEmpty pointGrid then ret ()
       else on_world (add_to_calibrator L pointGrid metadata))))))"

text \<open>The handler of \<open>CameraDiffersException\<close>.\<close>

definition catch_camera_differs :: "(('d, 'j) desktop, bool) io \<Rightarrow> (('d, 'j) desktop, bool) io" where
  "catch_camera_differs m s =
     (case m s of
        Some (Inl e, s') \<Rightarrow> (case differs_text e of None \<Rightarrow> Some (Inl e, s') | Some _ \<Rightarrow> Some (Inr False, s'))
      | r \<Rightarrow> r)"

definition CameraCalibrator_preprocess :: "qt \<Rightarrow> 'j libs \<Rightarrow> string \<Rightarrow> (('d, 'j) desktop, bool) io" where
  "CameraCalibrator_preprocess Q L dir =
     bind_io (reads (\<lambda>s. qt_raw_files Q (w_disk (u_world s)) dir)) (\<lambda>fileList.
     let files = map without_extension fileList in
     catch_camera_differs (bind_io (for_io (lib_sched L files) (preprocess_file L dir)) (\<lambda>_. ret True)))"

definition CameraCalibrator_calibrate :: "'j libs \<Rightarrow> (('d, 'j) desktop, CalibrationData) io" where
  "CameraCalibrator_calibrate L = on_world (finish_calibration L)"

text \<open>Only when the directory of the cache is missing the directory of the camera in it is made.\<close>

definition ensure_cache :: "qt \<Rightarrow> string \<Rightarrow> string \<Rightarrow> (('d, 'j) desktop, unit) io" where
  "ensure_cache Q cachePath qserial = modify (\<lambda>s.
     if cachePath \<notin> u_dirs s then s\<lparr>u_dirs := qt_mkpath Q cachePath qserial (u_dirs s)\<rparr> else s)"

definition camera_serial :: "'d usb_ops \<Rightarrow> nat \<Rightarrow> (('d, 'j) desktop, string) io" where
  "camera_serial ops camera =
     bind_io (on_world (on_cameras (at_camera camera (getCameraInformation ops)))) (\<lambda>info. ret (serial info))"

definition run_calibration ::
  "'d usb_ops \<Rightarrow> qt \<Rightarrow> os \<Rightarrow> 'j libs \<Rightarrow> string \<Rightarrow> (nat \<Rightarrow> bool) \<Rightarrow> nat \<Rightarrow> (('d, 'j) desktop, unit) io" where
  "run_calibration ops Q sys L cacheDir cancelled camera =
     bind_io (CameraCalibrator_downloadCalib ops sys cacheDir cancelled (getCalibrationList camera)) (\<lambda>res.
     if \<not> res then ret ()
     else
       bind_io (on_world new_calibrator) (\<lambda>_.
       bind_io (CameraCalibrator_preprocess Q L cacheDir) (\<lambda>res.
       if \<not> res then ret ()
       else bind_io (CameraCalibrator_calibrate L) (storeCalibrationData Q sys L))))"

definition CameraCalibrator_onCameraChanged ::
  "'d usb_ops \<Rightarrow> qt \<Rightarrow> os \<Rightarrow> 'j libs \<Rightarrow> string \<Rightarrow> (nat \<Rightarrow> bool) \<Rightarrow> nat \<Rightarrow> (('d, 'j) desktop, unit) io" where
  "CameraCalibrator_onCameraChanged ops Q sys L cache cancelled camera =
     bind_io (camera_serial ops camera) (\<lambda>sn.
     bind_io (readCalibrationData Q L sn) (\<lambda>stored.
     if stored \<noteq> None then ret ()
     else
       bind_io (camera_serial ops camera) (\<lambda>qserial.
       bind_io (ensure_cache Q cache qserial) (\<lambda>_.
       run_calibration ops Q sys L (qt_subdir Q cache qserial) cancelled camera))))"

subsection \<open>The download\<close>

text \<open>A camera that is not in use and has the files \<open>F\<close>; the files of \<open>P\<close> that were missing and can be written,
  fetched from it.\<close>

definition idle_camera :: "('d \<Rightarrow> u8 list \<Rightarrow> u8 list) \<Rightarrow> nat \<Rightarrow> (u8 list \<Rightarrow> u8 list) \<Rightarrow> ('d, 'j) desktop \<Rightarrow> bool" where
  "idle_camera stored c F s \<longleftrightarrow> c < length (w_cameras (u_world s))
     \<and> (\<exists>d. w_cameras (u_world s) ! c = Some d \<and> \<not> cameraAccessMutex d \<and> stored (device d) = F)"

definition calib_prefix :: string where
  "calib_prefix = ''C:'' @ [backslash] @ ''T1CALIB'' @ [backslash]"

definition fetched :: "os \<Rightarrow> (u8 list \<Rightarrow> u8 list) \<Rightarrow> (string \<times> string) set \<Rightarrow> ('d, 'j) desktop \<Rightarrow> ('d, 'j) desktop \<Rightarrow> bool" where
  "fetched sys F P s t \<longleftrightarrow> u_dirs t = u_dirs s
     \<and> (\<forall>p. file_content p t = (if p \<in> P \<and> file_content p s = None \<and> can_write sys p s
                                 then Some (F (c_bytes (calib_prefix @ snd p))) else file_content p s))"

lemma fetched_none [simp]: "fetched sys F {} s s"
  by (simp add: fetched_def)

lemma fetchedD:
  "fetched sys F P s t \<Longrightarrow> file_content p t = (if p \<in> P \<and> file_content p s = None \<and> can_write sys p s
     then Some (F (c_bytes (calib_prefix @ snd p))) else file_content p s)"
  unfolding fetched_def by blast

lemma fetched_trans:
  assumes "fetched sys F P s t" and "fetched sys F P' t u"
  shows "fetched sys F (P \<union> P') s u"
proof -
  have w: "can_write sys p t = can_write sys p s" for p using assms(1) by (simp add: fetched_def can_write_def)
  have t: "file_content p t = (if p \<in> P \<and> file_content p s = None \<and> can_write sys p s
      then Some (F (c_bytes (calib_prefix @ snd p))) else file_content p s)" for p using assms(1) unfolding fetched_def by blast
  have u: "file_content p u = (if p \<in> P' \<and> file_content p t = None \<and> can_write sys p s
      then Some (F (c_bytes (calib_prefix @ snd p))) else file_content p t)" for p using assms(2) unfolding fetched_def w by blast
  have "file_content p u = (if p \<in> P \<union> P' \<and> file_content p s = None \<and> can_write sys p s
      then Some (F (c_bytes (calib_prefix @ snd p))) else file_content p s)" for p
    unfolding u t by auto
  moreover have "u_dirs u = u_dirs s" using assms by (simp add: fetched_def)
  ultimately show ?thesis by (simp add: fetched_def)
qed

lemma download_missing_ok:
  assumes "camera_protocol ops pending stored listing info busy" and cam: "idle_camera stored c F s"
    and "\<forall>f. length (F f) < 256 * 65536"
    and img: "img = Some \<lparr>m_camera = c, m_fullpath = calib_prefix @ name, m_basename = name\<rparr>"
  shows "\<exists>t. download_missing sys dir img ext (get_with ops ext img) s = Some (Inr (), t)
    \<and> idle_camera stored c F t \<and> fetched sys F {(dir, name @ ext)} s t"
proof -
  let ?p = "(dir, name @ ext)" and ?bs = "F (c_bytes (calib_prefix @ name @ ext))"
  have name: "getName img = Inr name" by (simp add: img getName_def image_get_def)
  show ?thesis
  proof (cases "file_content ?p s = None")
    case False
    then show ?thesis using cam
      by (intro exI [of _ s]) (auto simp: download_missing_def name Let_def reads_step ret_app fetched_def)
  next
    case True
    let ?o = "if can_write sys ?p s then put_file ?p [] s else s"
    have o: "w_cameras (u_world ?o) = w_cameras (u_world s)" by (simp add: put_file_def)
    obtain d where d: "c < length (w_cameras (u_world s))" "w_cameras (u_world s) ! c = Some d" "\<not> cameraAccessMutex d" "stored (device d) = F"
      using cam by (auto simp: idle_camera_def)
    obtain d' where get: "get_with ops ext img (w_cameras (u_world ?o)) = Some (Inr ?bs, (w_cameras (u_world s))[c := Some d'])"
        "stored (device d') = F" "\<not> cameraAccessMutex d'"
      using get_with_ok [OF assms(1) d(1-3), of "calib_prefix @ name" ext name] d(4) assms(3) unfolding img o by auto
    let ?q = "?o\<lparr>u_world := (u_world ?o)\<lparr>w_cameras := (w_cameras (u_world s))[c := Some d']\<rparr>\<rparr>"
    let ?t = "if can_write sys ?p s then put_file ?p ?bs ?q else ?q"
    have q: "can_write sys ?p ?q = can_write sys ?p s" "can_write sys ?p s \<Longrightarrow> file_content ?p ?q = Some []"
      by (simp_all add: can_write_def put_file_def file_content_def)
    have "download_missing sys dir img ext (get_with ops ext img) s = bind_io (on_world (on_cameras (get_with ops ext img))) (out_write sys ?p) ?o"
      using True by (simp add: download_missing_def name Let_def reads_step) (simp add: out_open_def modify_step)
    also have "\<dots> = out_write sys ?p ?bs ?q"
      using get(1) by (simp add: bind_io_def on_world_def on_cameras_def)
    also have "\<dots> = Some (Inr (), ?t)" using q by (simp add: out_write_def modify_def)
    finally have "download_missing sys dir img ext (get_with ops ext img) s = Some (Inr (), ?t)" .
    moreover have "idle_camera stored c F ?t" using d(1) get(2,3) by (simp add: idle_camera_def put_file_def)
    moreover have "fetched sys F {?p} s ?t" using True by (auto simp: fetched_def put_file_def file_content_def)
    ultimately show ?thesis by blast
  qed
qed

definition calib_files :: "string \<Rightarrow> Camera_Files.Image list \<Rightarrow> (string \<times> string) set" where
  "calib_files dir imgs = (\<Union>img \<in> set imgs. case getName img of Inl _ \<Rightarrow> {} | Inr name \<Rightarrow> {(dir, name @ ''.TXT''), (dir, name @ ''.RAW'')})"

lemma downloadCalib_ok:
  assumes "camera_protocol ops pending stored listing info busy" and "idle_camera stored c F s"
    and "\<forall>f. length (F f) < 256 * 65536" and "cancelled = (\<lambda>_. False)"
    and "\<forall>img \<in> set imgs. \<exists>name. img = Some \<lparr>m_camera = c, m_fullpath = calib_prefix @ name, m_basename = name\<rparr>"
  shows "\<exists>t. downloadCalib_from ops sys dir cancelled n imgs s = Some (Inr True, t) \<and> idle_camera stored c F t
    \<and> fetched sys F (calib_files dir imgs) s t"
  using assms(2,5)
proof (induction imgs arbitrary: n s)
  case Nil
  then show ?case by (simp add: ret_app calib_files_def)
next
  case (Cons img imgs)
  then obtain name where img: "img = Some \<lparr>m_camera = c, m_fullpath = calib_prefix @ name, m_basename = name\<rparr>" by auto
  obtain t where t: "download_missing sys dir img ''.TXT'' (get_with ops ''.TXT'' img) s = Some (Inr (), t)"
      "idle_camera stored c F t" "fetched sys F {(dir, name @ ''.TXT'')} s t"
    using download_missing_ok [OF assms(1) Cons.prems(1) assms(3) img] by blast
  obtain u where u: "download_missing sys dir img ''.RAW'' (get_with ops ''.RAW'' img) t = Some (Inr (), u)"
      "idle_camera stored c F u" "fetched sys F {(dir, name @ ''.RAW'')} t u"
    using download_missing_ok [OF assms(1) t(2) assms(3) img] by blast
  obtain v where v: "downloadCalib_from ops sys dir cancelled (n + 1) imgs u = Some (Inr True, v)" "idle_camera stored c F v"
      "fetched sys F (calib_files dir imgs) u v"
    using Cons.IH [OF u(2), of "n + 1"] Cons.prems(2) by auto
  have "calib_files dir (img # imgs) = ({(dir, name @ ''.TXT'')} \<union> {(dir, name @ ''.RAW'')}) \<union> calib_files dir imgs"
    by (auto simp: calib_files_def img getName_def image_get_def)
  then have "fetched sys F (calib_files dir (img # imgs)) s v"
    using fetched_trans [OF fetched_trans [OF t(3) u(3)] v(3)] by simp
  then show ?case
    using t(1) u(1) v(1,2) assms(4) by (simp add: getImageMetadata_def getImageData_def bind_step)
qed

lemma calibration_list_images:
  "img \<in> set (getCalibrationList c) \<Longrightarrow> \<exists>name. img = Some \<lparr>m_camera = c, m_fullpath = calib_prefix @ name, m_basename = name\<rparr>"
  by (auto simp: getCalibrationList_def calibration_image_def Image_ctor_def calib_prefix_def simp del: upt_rec_numeral)

lemma calib_files_list:
  "calib_files dir (getCalibrationList c) = {(dir, ''MOD_'' @ fill0 4 (show_nat k) @ ext) |k ext. k < 62 \<and> ext \<in> {''.TXT'', ''.RAW''}}"
proof -
  have name: "getName (calibration_image c k) = Inr (''MOD_'' @ fill0 4 (show_nat k))" for k
    by (simp add: calibration_image_def Image_ctor_def getName_def image_get_def)
  have below: "set [0..<n] = {k. k < n}" for n :: nat by auto
  have "calib_files dir (getCalibrationList c) = (\<Union>k \<in> {k. k < 62}. {(dir, ''MOD_'' @ fill0 4 (show_nat k) @ ''.TXT''), (dir, ''MOD_'' @ fill0 4 (show_nat k) @ ''.RAW'')})"
    unfolding calib_files_def getCalibrationList_def set_map below by (simp only: name sum.case image_image append_assoc)
  then show ?thesis by blast
qed

text \<open>
  C37: The download of the calibration images, not cancelled, from a camera that answers by its protocol. Of the 124 files in the directory
  those that were missing are there afterwards with the content of the files of the camera; files that existed,
  an empty file an interrupted download has left among them, and all other files are as before.\<close>

theorem CameraCalibrator_downloadCalib_correct:
  assumes "camera_protocol ops pending stored listing info busy" and "idle_camera stored c F s"
    and "\<forall>f. length (F f) < 256 * 65536" and "cancelled = (\<lambda>_. False)"
    and "dir \<in> u_dirs s" and "\<forall>p. os_writable sys p"
  shows "\<exists>t. CameraCalibrator_downloadCalib ops sys dir cancelled (getCalibrationList c) s = Some (Inr True, t)
    \<and> (\<forall>p. file_content p t =
        (if p \<in> {(dir, ''MOD_'' @ fill0 4 (show_nat k) @ ext) |k ext. k < 62 \<and> ext \<in> {''.TXT'', ''.RAW''}} \<and> file_content p s = None
         then Some (F (c_bytes (calib_prefix @ snd p))) else file_content p s))"
proof -
  obtain t where t: "downloadCalib_from ops sys dir cancelled 0 (getCalibrationList c) s = Some (Inr True, t)"
      "fetched sys F (calib_files dir (getCalibrationList c)) s t"
    using downloadCalib_ok [OF assms(1-4)] calibration_list_images by blast
  have "can_write sys p s" if "p \<in> calib_files dir (getCalibrationList c)" for p
    using that assms(5,6) by (auto simp: calib_files_list can_write_def)
  then have "file_content p t = (if p \<in> calib_files dir (getCalibrationList c) \<and> file_content p s = None
         then Some (F (c_bytes (calib_prefix @ snd p))) else file_content p s)" for p
    using fetchedD [OF t(2), of p] by (auto simp del: split_paired_All)
  then show ?thesis using t(1) unfolding CameraCalibrator_downloadCalib_def calib_files_list by blast
qed

subsection \<open>A cache without the directory of the camera\<close>

lemma no_access:
  assumes "fetched sys F P s t" and "\<forall>p \<in> P. \<not> can_write sys p s"
  shows "file_content p t = file_content p s"
  using fetchedD [OF assms(1), of p] assms(2) by auto

text \<open>What the directory lists are files.\<close>

definition lists_files :: "qt \<Rightarrow> bool" where
  "lists_files Q \<longleftrightarrow> (\<forall>d dir name. name \<in> set (qt_raw_files Q d dir) \<longrightarrow> d (dir, name) \<noteq> None)"

lemma preprocess_nothing:
  assumes "lists_files Q" and "\<forall>name. file_content (dir, name) s = None" and "lib_sched L [] = []"
  shows "CameraCalibrator_preprocess Q L dir s = Some (Inr True, s)"
proof -
  have "qt_raw_files Q (w_disk (u_world s)) dir = []"
  proof (rule ccontr)
    assume "qt_raw_files Q (w_disk (u_world s)) dir \<noteq> []"
    then obtain name where "name \<in> set (qt_raw_files Q (w_disk (u_world s)) dir)" using hd_in_set by blast
    then show False using assms(1,2) unfolding lists_files_def file_content_def by blast
  qed
  then show ?thesis using assms(3)
    by (simp add: CameraCalibrator_preprocess_def reads_step Let_def) (simp add: catch_camera_differs_def bind_io_def ret_app)
qed

text \<open>The serial number in the information of the camera, which asking for it does not change.\<close>

definition serial_text :: "u8 list \<Rightarrow> string" where
  "serial_text i = chars (takeWhile (\<lambda>b. b \<noteq> 0) (drop 0x100 i))"

definition info_block :: "u8 list \<Rightarrow> bool" where
  "info_block i \<longleftrightarrow> length i < 256 * 65536 \<and> 0 \<in> set (drop 0x100 i) \<and> 0 \<in> set (drop 0x200 i)"

definition camera_info :: "('d \<Rightarrow> u8 list) \<Rightarrow> nat \<Rightarrow> ('d, 'j) desktop \<Rightarrow> u8 list" where
  "camera_info info c s = (case w_cameras (u_world s) ! c of None \<Rightarrow> [] | Some d \<Rightarrow> info (device d))"

lemma camera_serial_ok:
  assumes P: "camera_protocol ops pending stored listing info busy" and inquiry: "answers_inquiry ops stored listing info"
    and cam: "idle_camera stored c F s" and block: "info_block (camera_info info c s)"
  shows "\<exists>t. camera_serial ops c s = Some (Inr (serial_text (camera_info info c s)), t) \<and> idle_camera stored c F t
    \<and> camera_info info c t = camera_info info c s \<and> u_dirs t = u_dirs s \<and> (\<forall>p. file_content p t = file_content p s)"
proof -
  obtain d where d: "c < length (w_cameras (u_world s))" "w_cameras (u_world s) ! c = Some d" "\<not> cameraAccessMutex d" "stored (device d) = F"
    using cam by (auto simp: idle_camera_def)
  then have i: "camera_info info c s = info (device d)" by (simp add: camera_info_def)
  obtain q d1 where "sendInquiry ops 2 0 (device d) = (Inr q, d1)" "stored d1 = stored (device d)" "listing d1 = listing (device d)"
      "info d1 = info (device d)" using inquiry unfolding answers_inquiry_def by blast
  from camera_protocol.info_ok [OF P d(3) _ this] block
  obtain d' r where r: "Impl_getCameraInformation ops d = Some (Inr r, d')" "serial r = serial_text (info (device d))"
      "camera_protocol.same stored listing info d d'"
    unfolding i info_block_def serial_text_def by blast
  let ?t = "s\<lparr>u_world := (u_world s)\<lparr>w_cameras := (w_cameras (u_world s))[c := Some d']\<rparr>\<rparr>"
  have "at_camera c (getCameraInformation ops) (w_cameras (u_world s)) = Some (Inr r, (w_cameras (u_world s))[c := Some d'])"
    using d(1,2) r(1) by (simp add: at_camera_def getCameraInformation_def checked_def pimpl_def)
  then have "camera_serial ops c s = Some (Inr (serial_text (camera_info info c s)), ?t)"
    using r(2) i by (simp add: camera_serial_def bind_io_def on_world_def on_cameras_def ret_app)
  moreover have "idle_camera stored c F ?t" "camera_info info c ?t = camera_info info c s"
    using d r(3) camera_protocol.same_def [OF P] i by (auto simp: idle_camera_def camera_info_def)
  ultimately show ?thesis by (intro exI [of _ ?t]) (simp add: file_content_def)
qed

text \<open>
  When the directory of the cache exists, the directory of the camera in it is not made: without it the calibration
  fetches all images and stores none, finds nothing to process, and then calibrates without images, which reads
  the first grid of an empty vector. No file has changed.\<close>

lemma onCameraChanged_no_directory:
  assumes "camera_protocol ops pending stored listing info busy" and "answers_inquiry ops stored listing info"
    and "idle_camera stored c F s" and "info_block (camera_info info c s)" and "sn = serial_text (camera_info info c s)"
    and "\<forall>f. length (F f) < 256 * 65536" and "cancelled = (\<lambda>_. False)"
    and "cache \<in> u_dirs s" and "qt_subdir Q cache sn \<notin> u_dirs s" and "\<forall>name. file_content (qt_subdir Q cache sn, name) s = None"
    and "file_content (qt_config Q, sn @ ''.json'') s = None" and "lists_files Q" and "lib_sched L [] = []"
  shows "\<exists>t. CameraCalibrator_onCameraChanged ops Q sys L cache cancelled c s = Some (Inl OutOfBounds, t)
    \<and> (\<forall>p. file_content p t = file_content p s)"
proof -
  let ?dir = "qt_subdir Q cache sn"
  obtain s1 where s1: "camera_serial ops c s = Some (Inr sn, s1)" "idle_camera stored c F s1" "camera_info info c s1 = camera_info info c s"
      "u_dirs s1 = u_dirs s" "\<And>p. file_content p s1 = file_content p s"
    using camera_serial_ok [OF assms(1-4)] assms(5) by blast
  obtain s2 where s2: "camera_serial ops c s1 = Some (Inr sn, s2)" "idle_camera stored c F s2"
      "u_dirs s2 = u_dirs s" "\<And>p. file_content p s2 = file_content p s"
    using camera_serial_ok [OF assms(1,2) s1(2)] assms(4,5) s1(3-5) by metis
  obtain t where t: "downloadCalib_from ops sys ?dir cancelled 0 (getCalibrationList c) s2 = Some (Inr True, t)"
      "fetched sys F (calib_files ?dir (getCalibrationList c)) s2 t"
    using downloadCalib_ok [OF assms(1) s2(2) assms(6,7)] calibration_list_images by blast
  have "\<not> can_write sys p s2" if "p \<in> calib_files ?dir (getCalibrationList c)" for p
    using that assms(9) s2(3) by (auto simp: calib_files_list can_write_def)
  then have t_same: "file_content p t = file_content p s" for p using no_access [OF t(2)] s2(4) by simp
  let ?u = "t\<lparr>u_world := (u_world t)\<lparr>w_calibrator := Calibrator_ctor\<rparr>\<rparr>"
  have u_same: "file_content p ?u = file_content p s" for p using t_same [of p] by (simp add: file_content_def)
  have pre: "CameraCalibrator_preprocess Q L ?dir ?u = Some (Inr True, ?u)"
    using u_same assms(10) by (intro preprocess_nothing [OF assms(12) _ assms(13)]) simp
  have cal: "CameraCalibrator_calibrate L ?u = Some (Inl OutOfBounds, ?u)"
    using calibrate_no_images [of Calibrator_ctor "lib_json L" "lib_math L" "lib_order L"]
    by (simp add: CameraCalibrator_calibrate_def on_world_def finish_calibration_def Calibrator_ctor_def)
  have new: "\<And>f. bind_io (on_world new_calibrator) f t = f () ?u"
    by (simp add: bind_io_def on_world_def new_calibrator_def modify_def)
  have run: "run_calibration ops Q sys L ?dir cancelled c s2 = Some (Inl OutOfBounds, ?u)"
    using t(1) pre cal
    by (simp add: run_calibration_def CameraCalibrator_downloadCalib_def bind_step new) (simp add: bind_io_def)
  have "readCalibrationData Q L sn s1 = Some (Inr None, s1)"
    using assms(11) s1(5) by (intro readCalibrationData_none) simp
  moreover have "ensure_cache Q cache sn s2 = Some (Inr (), s2)"
    using assms(8) s2(3) by (simp add: ensure_cache_def modify_def)
  ultimately have "CameraCalibrator_onCameraChanged ops Q sys L cache cancelled c s = Some (Inl OutOfBounds, ?u)"
    using s1(1) s2(1) run by (simp add: CameraCalibrator_onCameraChanged_def bind_step)
  then show ?thesis using u_same by blast
qed

text \<open>A camera with empty files and an empty serial number.\<close>

definition blank_camera :: sim where
  "blank_camera = \<lparr>sim_files = [], sim_list = [], sim_info = replicate 1024 0, sim_busy = 0, sim_pending = []\<rparr>"

definition blank_desktop :: "(sim, json) desktop" where
  "blank_desktop = \<lparr>u_world = photo_world\<lparr>w_cameras := [Some \<lparr>device = blank_camera, cameraAccessMutex = False\<rparr>]\<rparr>, u_dirs = {''/cache''}\<rparr>"

lemma blank_idle: "idle_camera sim_stored 0 (\<lambda>_. []) blank_desktop"
  by (simp add: idle_camera_def blank_desktop_def blank_camera_def sim_stored_def fun_eq_iff)

lemma blank_info: "camera_info sim_info 0 blank_desktop = replicate 1024 0" "info_block (replicate 1024 0)" "serial_text (replicate 1024 0) = []"
  by (simp_all add: camera_info_def blank_desktop_def blank_camera_def info_block_def serial_text_def chars_def)

lemma blank_files: "file_content p blank_desktop = None"
  by (simp add: file_content_def blank_desktop_def photo_world_def)

theorem CameraCalibrator_downloadCalib_correct_witness:
  "\<exists>t. CameraCalibrator_downloadCalib sim_ops any_os ''/cache'' (\<lambda>_. False) (getCalibrationList 0) blank_desktop = Some (Inr True, t)
    \<and> file_content (''/cache'', ''MOD_'' @ fill0 4 (show_nat 7) @ ''.RAW'') t = Some []"
proof -
  let ?p = "(''/cache'', ''MOD_'' @ fill0 4 (show_nat 7) @ ''.RAW'')"
  let ?P = "{(''/cache'', ''MOD_'' @ fill0 4 (show_nat k) @ ext) |k ext. k < 62 \<and> ext \<in> {''.TXT'', ''.RAW''}}"
  have dir: "''/cache'' \<in> u_dirs blank_desktop" and w: "\<forall>p. os_writable any_os p" by (simp_all add: blank_desktop_def any_os_def)
  have inside: "?p \<in> ?P" by (rule CollectI, rule exI [of _ 7], rule exI [of _ "''.RAW''"]) simp
  obtain t where t: "CameraCalibrator_downloadCalib sim_ops any_os ''/cache'' (\<lambda>_. False) (getCalibrationList 0) blank_desktop = Some (Inr True, t)"
      and b: "\<forall>p. file_content p t = (if p \<in> ?P \<and> file_content p blank_desktop = None then Some [] else file_content p blank_desktop)"
    using CameraCalibrator_downloadCalib_correct [OF simulated.camera_protocol_axioms blank_idle _ refl dir w] by auto
  have "file_content ?p t = Some []" using spec [OF b, of ?p] inside blank_files by (simp only: if_True simp_thms)
  with t show ?thesis by blast
qed

lemma onCameraChanged_no_directory_example:
  "\<exists>t. CameraCalibrator_onCameraChanged sim_ops plain_qt any_os sample_libs ''/cache'' (\<lambda>_. False) 0 blank_desktop = Some (Inl OutOfBounds, t)"
proof -
  have "lists_files plain_qt" "lib_sched sample_libs [] = []" "''/cache'' \<in> u_dirs blank_desktop"
      "qt_subdir plain_qt ''/cache'' [] \<notin> u_dirs blank_desktop"
    by (simp_all add: lists_files_def plain_qt_def sample_libs_def blank_desktop_def)
  then show ?thesis
    using onCameraChanged_no_directory [OF simulated.camera_protocol_axioms simulated_inquiry blank_idle, unfolded blank_info,
        OF blank_info(2) refl, of "\<lambda>_. False" "''/cache''" plain_qt sample_libs any_os] blank_files by auto
qed

end
