(* ===== verification/Camera_View.thy ===== *)
theory Camera_View
  imports Image_View Camera_Calibrator
begin

text \<open>
  \<open>ui/cameraview\<close>: the list of cameras (\<open>cameracontext\<close>, \<open>cameralistmodel\<close>), the pictures of the selected camera
  (\<open>imagelistmodel\<close>, \<open>imagelistitem\<close>) and the slots of \<open>cameraform\<close> that connect them.

  The state adds to the desktop the context, the model of the picture list and the \<open>QImage\<close> objects that items share.
  \<open>m_cameraList\<close> is the list of cameras of the world. A \<open>Camera*\<close> is a position in that list and the number
  of the list, as an assignment to the vector invalidates the pointers into it: using a pointer into an old list
  is a fault. \<open>size_t\<close> has 64 bits. The handlers of Qt get the row of a \<open>QModelIndex\<close>; what Qt does with
  signals is to call the connected slots, in the order they were connected.
\<close>

type_synonym camera_ptr = "nat \<times> nat"

record item =
  item_camera :: "camera_ptr option"
  item_photo :: Photo
  item_image :: "nat option"

record ('d, 'j, 'q) view =
  v_desktop :: "('d, 'j) desktop"
  v_epoch :: nat
  m_current :: int
  m_fileList :: "item list"
  v_heap :: "nat \<Rightarrow> 'q"
  v_free :: nat

abbreviation cameras_of :: "('d, 'j, 'q) view \<Rightarrow> 'd Camera_Device.Camera list" where
  "cameras_of s \<equiv> w_cameras (u_world (v_desktop s))"

definition on_desktop :: "(('d, 'j) desktop, 'a) io \<Rightarrow> (('d, 'j, 'q) view, 'a) io" where
  "on_desktop m s = map_option (\<lambda>(r, d). (r, s\<lparr>v_desktop := d\<rparr>)) (m (v_desktop s))"

definition on_list :: "('d Camera_Device.Camera list, 'a) io \<Rightarrow> (('d, 'j, 'q) view, 'a) io" where
  "on_list m = on_desktop (on_world (on_cameras m))"

text \<open>Using a \<open>Camera*\<close>.\<close>

definition valid_ptr :: "camera_ptr \<Rightarrow> ('d, 'j, 'q) view \<Rightarrow> bool" where
  "valid_ptr p s \<longleftrightarrow> fst p = v_epoch s \<and> snd p < length (cameras_of s)"

definition with_ptr :: "camera_ptr \<Rightarrow> (nat \<Rightarrow> (('d, 'j, 'q) view, 'a) io) \<Rightarrow> (('d, 'j, 'q) view, 'a) io" where
  "with_ptr p f s = (if valid_ptr p s then f (snd p) s else Some (Inl NullPointer, s))"

subsection \<open>Context\<close>

definition Context_ctor :: "('d, 'j) desktop \<Rightarrow> 'q \<Rightarrow> ('d, 'j, 'q) view" where
  "Context_ctor d q = \<lparr>v_desktop = d, v_epoch = 0, m_current = - 1, m_fileList = [], v_heap = (\<lambda>_. q), v_free = 0\<rparr>"

definition updateCameraList ::
  "'d usb_ops \<Rightarrow> ('d \<Rightarrow> (u16 \<times> u16) res) \<Rightarrow> 'd list \<Rightarrow> (('d, 'j, 'q) view, unit) io" where
  "updateCameraList ops getDescriptor devices =
     bind_io (on_desktop (on_world (open_cameras ops getDescriptor devices))) (\<lambda>_.
     modify (\<lambda>s. s\<lparr>v_epoch := v_epoch s + 1\<rparr>))"

definition getCameraCount :: "('d, 'j, 'q) view \<Rightarrow> nat" where
  "getCameraCount s = length (cameras_of s)"

definition Context_getCamera :: "nat \<Rightarrow> ('d, 'j, 'q) view \<Rightarrow> camera_ptr option" where
  "Context_getCamera i s = (if length (cameras_of s) \<le> i then None else Some (v_epoch s, i))"

text \<open>The conversions between \<open>int\<close> and \<open>size_t\<close>.\<close>

definition as_size :: "int \<Rightarrow> nat" where
  "as_size row = nat (row mod 2 ^ 64)"

definition int32_of :: "nat \<Rightarrow> int" where
  "int32_of i = (let r = int i mod 2 ^ 32 in if r < 2 ^ 31 then r else r - 2 ^ 32)"

text \<open>The result is the argument of the signal \<open>cameraChanged\<close>, if there is one.\<close>

definition changeCurrentCamera :: "nat \<Rightarrow> (('d, 'j, 'q) view, camera_ptr option) io" where
  "changeCurrentCamera i =
     bind_io (reads (\<lambda>s. m_current s < 0 \<or> (as_size (m_current s) \<noteq> i \<and> i < length (cameras_of s)))) (\<lambda>change.
     if change then
       bind_io (modify (\<lambda>s. s\<lparr>m_current := int32_of i\<rparr>)) (\<lambda>_.
       bind_io (reads (\<lambda>s. (as_size (m_current s) < length (cameras_of s), (v_epoch s, as_size (m_current s))))) (\<lambda>(inside, ptr).
       if inside then ret (Some ptr) else stop OutOfBounds))
     else ret None)"

subsection \<open>CameraListModel\<close>

definition CameraListModel_data ::
  "'d usb_ops \<Rightarrow> (string \<Rightarrow> string) \<Rightarrow> bool \<Rightarrow> int \<Rightarrow> bool \<Rightarrow> (('d, 'j, 'q) view, string option) io" where
  "CameraListModel_data ops trimmed isValid row displayRole =
     bind_io (reads getCameraCount) (\<lambda>n.
     if \<not> isValid \<or> n \<le> as_size row then ret None
     else if displayRole then
       bind_io (reads (Context_getCamera (as_size row))) (\<lambda>camera.
       case camera of
         None \<Rightarrow> stop NullPointer
       | Some p \<Rightarrow>
           bind_io (with_ptr p (\<lambda>c. on_list (at_camera c (getCameraInformation ops)))) (\<lambda>info.
           ret (Some (trimmed (vendor info) @ '' '' @ trimmed (product info) @ '' '' @ trimmed (revision info)))))
     else ret None)"

definition CameraListModel_rowCount :: "('d, 'j, 'q) view \<Rightarrow> int" where
  "CameraListModel_rowCount s = int32_of (getCameraCount s)"

subsection \<open>ImageListItem\<close>

definition IMG_WIDTH :: nat where "IMG_WIDTH = 128"
definition IMG_HEIGHT :: nat where "IMG_HEIGHT = 128"

definition ImageListItem_default :: item where
  "ImageListItem_default = \<lparr>item_camera = None, item_photo = (None, None), item_image = None\<rparr>"

text \<open>\<open>make_shared<QImage>()\<close>\<close>

definition ImageListItem_ctor :: "'q qt_image \<Rightarrow> camera_ptr \<Rightarrow> Photo \<Rightarrow> (('d, 'j, 'q) view, item) io" where
  "ImageListItem_ctor G camera photo s =
     Some (Inr \<lparr>item_camera = Some camera, item_photo = photo, item_image = Some (v_free s)\<rparr>,
           s\<lparr>v_heap := (v_heap s)(v_free s := img_none G), v_free := v_free s + 1\<rparr>)"

definition ImageListItem_copy :: "item \<Rightarrow> item" where
  "ImageListItem_copy other = \<lparr>item_camera = item_camera other, item_photo = item_photo other, item_image = item_image other\<rparr>"

definition ImageListItem_assign :: "item \<Rightarrow> item \<Rightarrow> item" where
  "ImageListItem_assign this other = this\<lparr>item_camera := item_camera other, item_photo := item_photo other, item_image := item_image other\<rparr>"

definition isNull :: "item \<Rightarrow> bool" where
  "isNull i \<longleftrightarrow> item_camera i = None"

definition item_time :: "item \<Rightarrow> int option res" where
  "item_time i =
     (if item_camera i = None then Inr None
      else rbind (getTime (item_photo i)) (\<lambda>t. Inr (Some t)))"

text \<open>The loop of \<open>getImage\<close>; \<open>buf\<close> keeps its content when nothing can be read.\<close>

definition u16_of :: "u8 list \<Rightarrow> nat" where
  "u16_of buf = unat (buf ! 0) + 256 * unat (buf ! 1)"

function thumbnail_loop :: "'q qt_image \<Rightarrow> nat \<Rightarrow> istream \<Rightarrow> u8 list \<Rightarrow> 'q \<Rightarrow> 'q" where
  "thumbnail_loop G pos ss buf q =
     (if IMG_HEIGHT \<le> pos div IMG_WIDTH then q
      else
        (let (ss', buf') = istream_read 2 ss buf;
             tmpVal = u16_of buf'; y = pos div IMG_WIDTH; x = pos mod IMG_WIDTH
         in thumbnail_loop G (pos + 1) ss' buf' (img_set G x y (img_rgb G tmpVal tmpVal tmpVal) q)))"
  by pat_completeness auto
termination
  by (relation "measure (\<lambda>(G, pos, ss, buf, q). IMG_HEIGHT * IMG_WIDTH - pos)")
    (auto simp: IMG_HEIGHT_def IMG_WIDTH_def not_le less_mult_imp_div_less div_less_iff_less_mult)

declare thumbnail_loop.simps [simp del]

definition store_image :: "nat \<Rightarrow> 'q \<Rightarrow> (('d, 'j, 'q) view, 'q) io" where
  "store_image a q s = Some (Inr q, s\<lparr>v_heap := (v_heap s)(a := q)\<rparr>)"

definition getImage :: "'d usb_ops \<Rightarrow> 'q qt_image \<Rightarrow> u8 list \<Rightarrow> item \<Rightarrow> (('d, 'j, 'q) view, 'q) io" where
  "getImage ops G buf0 i =
     bind_io (reads (\<lambda>s. map_option (v_heap s) (item_image i))) (\<lambda>cached.
     case (item_image i, cached) of
       (Some a, Some q) \<Rightarrow>
         if \<not> img_null G q then ret q
         else
           bind_io (store_image a (img_new G IMG_WIDTH IMG_HEIGHT)) (\<lambda>fresh_image.
           case item_camera i of
             None \<Rightarrow> store_image a (img_gray G fresh_image)
           | Some p \<Rightarrow>
               bind_io (with_ptr p (\<lambda>_. on_list (getImageThumbnail ops (item_photo i)))) (\<lambda>bs.
               store_image a (thumbnail_loop G 0 \<lparr>is_bytes = bs, is_fail = False\<rparr> buf0 fresh_image)))
     | _ \<Rightarrow> stop NullPointer)"

subsection \<open>ImageListModel\<close>

definition ImageListModel_data :: "bool \<Rightarrow> int \<Rightarrow> bool \<Rightarrow> ('d, 'j, 'q) view \<Rightarrow> item option" where
  "ImageListModel_data isValid row displayRole s =
     (if \<not> isValid \<or> length (m_fileList s) \<le> as_size row then None
      else if displayRole then Some (m_fileList s ! as_size row)
      else None)"

definition ImageListModel_rowCount :: "('d, 'j, 'q) view \<Rightarrow> int" where
  "ImageListModel_rowCount s = int32_of (length (m_fileList s))"

definition push_item :: "'q qt_image \<Rightarrow> camera_ptr \<Rightarrow> Photo \<Rightarrow> (('d, 'j, 'q) view, unit) io" where
  "push_item G camera entry =
     bind_io (ImageListItem_ctor G camera entry) (\<lambda>i. modify (\<lambda>s. s\<lparr>m_fileList := m_fileList s @ [i]\<rparr>))"

definition ImageListModel_onCameraChanged ::
  "'d usb_ops \<Rightarrow> 'q qt_image \<Rightarrow> clock \<Rightarrow> camera_ptr option \<Rightarrow> (('d, 'j, 'q) view, unit) io" where
  "ImageListModel_onCameraChanged ops G clk camera =
     bind_io (modify (\<lambda>s. s\<lparr>m_fileList := []\<rparr>)) (\<lambda>_.
     case camera of
       None \<Rightarrow> ret ()
     | Some p \<Rightarrow>
         bind_io (with_ptr p (\<lambda>c. on_list (getPictureList ops clk c))) (\<lambda>fileList.
         for_io fileList (push_item G p)))"

text \<open>\<open>downloadFile\<close>: the name is the time of the picture, as \<open>toString\<close> of \<open>QDateTime\<close> writes it; an
  invalid time is \<open>None\<close>.\<close>

definition save_to :: "os \<Rightarrow> string \<times> string \<Rightarrow> (('d, 'j, 'q) view, u8 list) io \<Rightarrow> (('d, 'j, 'q) view, unit) io" where
  "save_to sys path get =
     bind_io (on_desktop (out_open sys path)) (\<lambda>_. bind_io get (\<lambda>bs. on_desktop (out_write sys path bs)))"

definition of_item :: "item \<Rightarrow> (('d, 'j, 'q) view, 'a) io \<Rightarrow> (('d, 'j, 'q) view, 'a) io" where
  "of_item i m = (case item_camera i of None \<Rightarrow> m | Some p \<Rightarrow> with_ptr p (\<lambda>_. m))"

definition ImageListModel_downloadFile :: "'d usb_ops \<Rightarrow> os \<Rightarrow> (int option \<Rightarrow> string) \<Rightarrow> string \<Rightarrow> int \<Rightarrow> (('d, 'j, 'q) view, unit) io" where
  "ImageListModel_downloadFile ops sys time_text outputDirectory row =
     bind_io (reads (\<lambda>s. ld (m_fileList s) row)) (\<lambda>file.
     bind_io (lift file) (\<lambda>i.
     bind_io (lift (item_time i)) (\<lambda>datetime.
     bind_io (save_to sys (outputDirectory, time_text datetime @ ''.TXT'') (of_item i (on_list (getImageMetadata ops (fst (item_photo i)))))) (\<lambda>_.
     save_to sys (outputDirectory, time_text datetime @ ''.RAW'') (of_item i (on_list (getImageData ops (fst (item_photo i)))))))))"

subsection \<open>CameraForm\<close>

text \<open>The slots on \<open>cameraChanged\<close>: the model of the pictures and the calibrator.\<close>

definition CameraForm_onCameraChanged ::
  "'d usb_ops \<Rightarrow> 'q qt_image \<Rightarrow> clock \<Rightarrow> (nat \<Rightarrow> (('d, 'j) desktop, unit) io) \<Rightarrow> int \<Rightarrow> (('d, 'j, 'q) view, unit) io" where
  "CameraForm_onCameraChanged ops G clk calib row =
     bind_io (changeCurrentCamera (as_size row)) (\<lambda>changed.
     case changed of
       None \<Rightarrow> ret ()
     | Some p \<Rightarrow>
         bind_io (ImageListModel_onCameraChanged ops G clk (Some p)) (\<lambda>_.
         with_ptr p (\<lambda>c. on_desktop (calib c))))"

definition CameraForm_onInit ::
  "'d usb_ops \<Rightarrow> 'q qt_image \<Rightarrow> clock \<Rightarrow> (nat \<Rightarrow> (('d, 'j) desktop, unit) io) \<Rightarrow> ('d \<Rightarrow> (u16 \<times> u16) res) \<Rightarrow> 'd list
     \<Rightarrow> (('d, 'j, 'q) view, unit) io" where
  "CameraForm_onInit ops G clk calib getDescriptor devices =
     bind_io (updateCameraList ops getDescriptor devices) (\<lambda>_.
     bind_io (reads CameraListModel_rowCount) (\<lambda>n.
     if 0 < n then CameraForm_onCameraChanged ops G clk calib 0 else ret ()))"

subsection \<open>Thumbnails\<close>

definition thumbnail_colour :: "u8 list \<Rightarrow> nat \<Rightarrow> nat \<times> nat \<times> nat" where
  "thumbnail_colour bs k = (let v = u16_of (drop (2 * k) bs) in (v, v, v))"

lemma istream_read_two:
  assumes "2 * k + 2 \<le> length bs"
  shows "istream_read 2 \<lparr>is_bytes = drop (2 * k) bs, is_fail = False\<rparr> buf
    = (\<lparr>is_bytes = drop (2 * (k + 1)) bs, is_fail = False\<rparr>, take 2 (drop (2 * k) bs) @ drop 2 buf)"
proof -
  have "length (take 2 (drop (2 * k) bs)) = 2" using assms by simp
  then show ?thesis by (simp only: istream_read_def Let_def istream.simps if_False drop_drop) simp
qed

lemma u16_of_take: "2 \<le> length bs \<Longrightarrow> u16_of (take 2 bs @ rest) = u16_of bs"
  by (simp add: u16_of_def nth_append)

lemma thumbnail_loop_ok:
  assumes "qimage G" and "2 * (IMG_HEIGHT * IMG_WIDTH) \<le> length bs" and "pos \<le> IMG_HEIGHT * IMG_WIDTH"
    and "qimage.painted_to G IMG_WIDTH IMG_HEIGHT (thumbnail_colour bs) pos q"
  shows "qimage.painted_to G IMG_WIDTH IMG_HEIGHT (thumbnail_colour bs) (IMG_HEIGHT * IMG_WIDTH)
    (thumbnail_loop G pos \<lparr>is_bytes = drop (2 * pos) bs, is_fail = False\<rparr> buf q)"
  using assms(3,4)
proof (induction "IMG_HEIGHT * IMG_WIDTH - pos" arbitrary: pos buf q)
  case 0
  then have pos: "pos = IMG_HEIGHT * IMG_WIDTH" by simp
  then have "IMG_HEIGHT \<le> pos div IMG_WIDTH" by (simp add: IMG_WIDTH_def)
  then show ?case using 0(3) unfolding pos by (simp only: thumbnail_loop.simps [of G "IMG_HEIGHT * IMG_WIDTH"] if_True)
next
  case (Suc j)
  then have less: "pos < IMG_HEIGHT * IMG_WIDTH" by simp
  then have d: "\<not> IMG_HEIGHT \<le> pos div IMG_WIDTH" by (simp add: not_le less_mult_imp_div_less)
  have len: "2 * pos + 2 \<le> length bs" using less assms(2) by simp
  let ?v = "u16_of (drop (2 * pos) bs)"
  have v: "u16_of (take 2 (drop (2 * pos) bs) @ drop 2 buf) = ?v" using len by (intro u16_of_take) simp
  have c: "thumbnail_colour bs pos = (?v, ?v, ?v)" by (simp add: thumbnail_colour_def Let_def)
  let ?q = "img_set G (pos mod IMG_WIDTH) (pos div IMG_WIDTH) (img_rgb G ?v ?v ?v) q"
  have P: "qimage.painted_to G IMG_WIDTH IMG_HEIGHT (thumbnail_colour bs) (pos + 1) ?q"
    using qimage.painted_step [OF assms(1) Suc.prems(2) less c] by simp
  have j: "j = IMG_HEIGHT * IMG_WIDTH - (pos + 1)" and le: "pos + 1 \<le> IMG_HEIGHT * IMG_WIDTH" using Suc.hyps(2) less by simp_all
  have "qimage.painted_to G IMG_WIDTH IMG_HEIGHT (thumbnail_colour bs) (IMG_HEIGHT * IMG_WIDTH)
    (thumbnail_loop G (pos + 1) \<lparr>is_bytes = drop (2 * (pos + 1)) bs, is_fail = False\<rparr> (take 2 (drop (2 * pos) bs) @ drop 2 buf) ?q)"
    by (rule Suc.hyps(1) [OF j le P])
  then show ?case
    unfolding thumbnail_loop.simps [of G pos] istream_read_two [OF len] Let_def prod.case v using d by (simp only: if_False)
qed

text \<open>
  C39: The thumbnail of a picture. For an item of the current list of cameras without an image yet, and a camera
  that answers by its protocol, \<open>getImage\<close> gives an image of 128 by 128 pixels that shows at each
  the 16-bit sample of the file of the camera, for all three colours. From then on every call returns that image
  without using the camera.\<close>

theorem getImage_correct:
  assumes "qimage G" and "camera_protocol ops pending stored listing info busy"
    and "item_camera i = Some (v_epoch s, c)" and "item_image i = Some a" and "img_null G (v_heap s a)"
    and "fst (item_photo i) = Some \<lparr>m_camera = c, m_fullpath = path, m_basename = name\<rparr>"
    and "idle_camera stored c F (v_desktop s)" and "bs = F (c_bytes (path @ ''.128''))"
    and "2 * (128 * 128) \<le> length bs" and "length bs < 256 * 65536"
  shows "\<exists>q s'. getImage ops G buf0 i s = Some (Inr q, s') \<and> getImage ops G buf0 i s' = Some (Inr q, s')
    \<and> img_width G q = 128 \<and> img_height G q = 128
    \<and> (\<forall>x y. x < 128 \<and> y < 128 \<longrightarrow> (let v = u16_of (drop (2 * (128 * y + x)) bs) in img_pixel G q x y = img_rgb G v v v))"
proof -
  obtain d where d: "c < length (cameras_of s)" "cameras_of s ! c = Some d" "\<not> cameraAccessMutex d" "stored (device d) = F"
    using assms(7) by (auto simp: idle_camera_def)
  let ?f = "img_new G IMG_WIDTH IMG_HEIGHT"
  let ?s1 = "s\<lparr>v_heap := (v_heap s)(a := ?f)\<rparr>"
  obtain d' where get: "getImageThumbnail ops (item_photo i) (cameras_of s) = Some (Inr bs, (cameras_of s)[c := Some d'])"
    using get_with_ok [OF assms(2) d(1-3), of path "''.128''" name] d(4) assms(6,8,10) unfolding getImageThumbnail_def by auto
  let ?s2 = "?s1\<lparr>v_desktop := (v_desktop s)\<lparr>u_world := (u_world (v_desktop s))\<lparr>w_cameras := (cameras_of s)[c := Some d']\<rparr>\<rparr>\<rparr>"
  have list: "on_list (getImageThumbnail ops (item_photo i)) ?s1 = Some (Inr bs, ?s2)"
    using get by (simp add: on_list_def on_desktop_def on_world_def on_cameras_def)
  let ?q = "thumbnail_loop G 0 \<lparr>is_bytes = bs, is_fail = False\<rparr> buf0 ?f"
  have size: "IMG_WIDTH = 128" "IMG_HEIGHT = 128" by (simp_all add: IMG_WIDTH_def IMG_HEIGHT_def)
  have p: "qimage.painted_to G 128 128 (thumbnail_colour bs) (128 * 128) ?q"
    using thumbnail_loop_ok [OF assms(1), of bs 0 ?f buf0] qimage.painted_new [OF assms(1)] assms(9) by (simp add: size)
  have wh: "img_width G ?q = 128" "img_height G ?q = 128" using p by (simp_all add: qimage.painted_to_def [OF assms(1)])
  then have nn: "\<not> img_null G ?q" using qimage.null_size [OF assms(1)] by simp
  have "valid_ptr (v_epoch s, c) ?s1" using d(1) by (simp add: valid_ptr_def)
  then have "getImage ops G buf0 i s = Some (Inr ?q, ?s2\<lparr>v_heap := (v_heap s)(a := ?q)\<rparr>)"
    using assms(3-5) list
    by (simp add: getImage_def reads_step store_image_def bind_step) (simp add: bind_io_def with_ptr_def store_image_def)
  moreover have "getImage ops G buf0 i (?s2\<lparr>v_heap := (v_heap s)(a := ?q)\<rparr>) = Some (Inr ?q, ?s2\<lparr>v_heap := (v_heap s)(a := ?q)\<rparr>)"
    using assms(4) nn by (simp add: getImage_def reads_step ret_app)
  moreover have "let v = u16_of (drop (2 * (128 * y + x)) bs) in img_pixel G ?q x y = img_rgb G v v v" if "x < 128" "y < 128" for x y
    using qimage.painted_at [OF assms(1) p that] by (simp add: thumbnail_colour_def Let_def)
  ultimately show ?thesis using wh by blast
qed

subsection \<open>The selected camera\<close>

text \<open>Operations that keep the number of cameras.\<close>

definition count_kept :: "('d Camera_Device.Camera list, 'a) io \<Rightarrow> bool" where
  "count_kept m \<longleftrightarrow> (\<forall>n. keeps (\<lambda>cs. length cs = n) m)"

definition cameras_kept :: "(('d, 'j) desktop, 'a) io \<Rightarrow> bool" where
  "cameras_kept m \<longleftrightarrow> (\<forall>n. keeps (\<lambda>d. length (w_cameras (u_world d)) = n) m)"

named_theorems kept \<open>operations that keep the cameras\<close>

lemma at_camera_kept [kept]: "count_kept (at_camera c m)"
  by (auto simp: count_kept_def keeps_def at_camera_def split: if_splits)

lemma count_kept_bind [kept]: "count_kept m \<Longrightarrow> (\<And>a. count_kept (f a)) \<Longrightarrow> count_kept (bind_io m f)"
  unfolding count_kept_def by (blast intro: keeps_bind)

lemma count_kept_lift [kept]: "count_kept (lift r)" "count_kept (ret a)"
  by (simp_all add: count_kept_def)

lemma get_with_kept [kept]: "count_kept (get_with ops ext i)" "count_kept (getImageMetadata ops i)" "count_kept (getImageData ops i)"
  "count_kept (getImageThumbnail ops p)"
  unfolding getImageMetadata_def getImageData_def getImageThumbnail_def get_with_def by (intro kept)+

lemma getPictureList_kept [kept]: "count_kept (getPictureList ops clk c)"
proof -
  have "count_kept (\<lambda>cameras. map_option (\<lambda>r. (r, cameras)) (parseFileList clk c buf))" for buf
    by (auto simp: count_kept_def keeps_def)
  then show ?thesis unfolding getPictureList_def by (intro kept)
qed

lemma cameras_kept_bind [kept]: "cameras_kept m \<Longrightarrow> (\<And>a. cameras_kept (f a)) \<Longrightarrow> cameras_kept (bind_io m f)"
  unfolding cameras_kept_def by (blast intro: keeps_bind)

lemma cameras_kept_for [kept]: "(\<And>x. cameras_kept (f x)) \<Longrightarrow> cameras_kept (for_io xs f)"
  unfolding cameras_kept_def by (blast intro: keeps_for)

lemma cameras_kept_simple [kept]: "cameras_kept (lift r)" "cameras_kept (ret a)" "cameras_kept (stop e)" "cameras_kept (reads f)"
  by (simp_all add: cameras_kept_def) (simp add: keeps_def reads_def)

lemma cameras_kept_files [kept]: "cameras_kept (out_open sys path)" "cameras_kept (out_write sys path bs)"
  by (auto simp: cameras_kept_def keeps_def out_open_def out_write_def modify_def put_file_def)

lemma cameras_kept_dirs [kept]: "cameras_kept (ensure_config Q)" "cameras_kept (ensure_cache Q cache sn)"
  by (auto simp: cameras_kept_def keeps_def ensure_config_def ensure_cache_def modify_def)

lemma on_cameras_kept [kept]: "count_kept m \<Longrightarrow> cameras_kept (on_world (on_cameras m))"
  by (auto simp: cameras_kept_def count_kept_def keeps_def on_world_def on_cameras_def)

lemma on_world_kept [kept]:
  "cameras_kept (on_world (read_metadata L f))" "cameras_kept (on_world (read_raw L f))"
  "cameras_kept (on_world (add_to_calibrator L g md))" "cameras_kept (on_world new_calibrator)"
  "cameras_kept (on_world (finish_calibration L))"
  by (auto simp: cameras_kept_def keeps_def on_world_def read_metadata_def read_raw_def lift_def add_to_calibrator_def
      new_calibrator_def modify_def finish_calibration_def read_def split: sum.splits prod.splits)

lemma if_kept [kept]: "cameras_kept m \<Longrightarrow> cameras_kept m' \<Longrightarrow> cameras_kept (if b then m else m')"
  by simp

lemma option_kept [kept]: "cameras_kept m \<Longrightarrow> (\<And>a. cameras_kept (f a)) \<Longrightarrow> cameras_kept (case x of None \<Rightarrow> m | Some a \<Rightarrow> f a)"
  by (cases x) simp_all

lemma download_missing_kept [kept]: "count_kept get \<Longrightarrow> cameras_kept (download_missing sys dir img ext get)"
  unfolding download_missing_def Let_def by (intro kept)

lemma downloadCalib_kept [kept]: "cameras_kept (downloadCalib_from ops sys dir cancelled n imgs)"
proof (induction imgs arbitrary: n)
  case Nil
  show ?case unfolding downloadCalib_from.simps by (intro kept)
next
  case (Cons img imgs)
  show ?case unfolding downloadCalib_from.simps by (intro kept Cons.IH)
qed

lemma catch_kept [kept]: "cameras_kept m \<Longrightarrow> cameras_kept (catch_camera_differs m)"
  by (auto simp: cameras_kept_def keeps_def catch_camera_differs_def split: option.splits sum.splits)

lemma preprocess_kept [kept]: "cameras_kept (CameraCalibrator_preprocess Q L dir)"
  unfolding CameraCalibrator_preprocess_def preprocess_file_def Let_def by (intro kept)

lemma config_kept [kept]: "cameras_kept (readCalibrationData Q L sn)" "cameras_kept (storeCalibrationData Q sys L d)"
  unfolding readCalibrationData_def getCalibrationPath_def storeCalibrationData_def Let_def by (intro kept)+

lemma calibrator_kept [kept]: "cameras_kept (CameraCalibrator_onCameraChanged ops Q sys L cache cancelled c)"
  unfolding CameraCalibrator_onCameraChanged_def camera_serial_def run_calibration_def CameraCalibrator_downloadCalib_def
    CameraCalibrator_calibrate_def
  by (intro kept)

text \<open>Operations of the form that keep list, epoch and selection, and the pointer of the items.\<close>

definition shows_camera :: "nat \<Rightarrow> nat \<Rightarrow> int \<Rightarrow> camera_ptr \<Rightarrow> ('d, 'j, 'q) view \<Rightarrow> bool" where
  "shows_camera e n k p s \<longleftrightarrow> v_epoch s = e \<and> length (cameras_of s) = n \<and> m_current s = k
     \<and> (\<forall>i \<in> set (m_fileList s). item_camera i = Some p)"

definition view_kept :: "(('d, 'j, 'q) view, 'a) io \<Rightarrow> bool" where
  "view_kept m \<longleftrightarrow> (\<forall>e n k p. keeps (shows_camera e n k p) m) \<and> keeps (\<lambda>s. m_fileList s = []) m"

lemma view_kept_bind [kept]: "view_kept m \<Longrightarrow> (\<And>a. view_kept (f a)) \<Longrightarrow> view_kept (bind_io m f)"
  unfolding view_kept_def by (blast intro: keeps_bind)

lemma view_kept_simple [kept]: "view_kept (lift r)" "view_kept (ret a)" "view_kept (stop e)" "view_kept (reads f)"
  by (simp_all add: view_kept_def) (simp add: keeps_def reads_def)

lemma on_desktop_kept [kept]: "cameras_kept m \<Longrightarrow> view_kept (on_desktop m)"
  by (auto simp: view_kept_def cameras_kept_def keeps_def on_desktop_def shows_camera_def)

lemma on_list_kept [kept]: "count_kept m \<Longrightarrow> view_kept (on_list m)"
  unfolding on_list_def by (intro kept)

lemma with_ptr_kept [kept]: "(\<And>c. view_kept (f c)) \<Longrightarrow> view_kept (with_ptr p f)"
  by (auto simp: view_kept_def keeps_def with_ptr_def split: if_splits)

lemma store_image_kept [kept]: "view_kept (store_image a q)"
  by (auto simp: view_kept_def keeps_def store_image_def shows_camera_def)

lemma view_cases_kept [kept]:
  "view_kept m \<Longrightarrow> (\<And>a. view_kept (f a)) \<Longrightarrow> view_kept (case x of None \<Rightarrow> m | Some a \<Rightarrow> f a)"
  "view_kept m1 \<Longrightarrow> view_kept m2 \<Longrightarrow> view_kept (if b then m1 else m2)"
  by (cases x; simp) simp

lemma getImage_kept: "view_kept (getImage ops G buf0 i)"
  unfolding getImage_def by (auto intro!: kept split: option.splits prod.splits)

lemma downloadFile_kept: "view_kept (ImageListModel_downloadFile ops sys time_text dir row)"
  unfolding ImageListModel_downloadFile_def save_to_def of_item_def by (intro kept)

lemma push_items: "keeps (shows_camera e n k p) (for_io fileList (push_item G p))"
  by (rule keeps_for) (auto simp: keeps_def push_item_def bind_io_def ImageListItem_ctor_def modify_def shows_camera_def)

text \<open>Choosing a camera of the list.\<close>

lemma as_size_row: "0 \<le> row \<Longrightarrow> row < 2 ^ 31 \<Longrightarrow> as_size row = nat row \<and> int32_of (nat row) = row"
  by (simp add: as_size_def int32_of_def Let_def)

lemma view_keptD: "view_kept m \<Longrightarrow> keeps (shows_camera e n k p) m"
  by (cases p) (simp add: view_kept_def)

lemma pictures_kept: "keeps (shows_camera e n k q) (with_ptr p (\<lambda>c. on_list (getPictureList ops clk c)))"
  by (rule view_keptD) (intro kept)

lemma model_shows:
  assumes "ImageListModel_onCameraChanged ops G clk (Some (v_epoch s, c)) s = Some (r, s')" and "m_current s = int c" and "c < length (cameras_of s)"
  shows "shows_camera (v_epoch s) (length (cameras_of s)) (int c) (v_epoch s, c) s'"
proof -
  let ?s1 = "s\<lparr>m_fileList := []\<rparr>" and ?K = "shows_camera (v_epoch s) (length (cameras_of s)) (int c) (v_epoch s, c)"
  have "?K ?s1" using assms(2) by (simp add: shows_camera_def)
  moreover have "keeps ?K (with_ptr (v_epoch s, c) (\<lambda>c. on_list (getPictureList ops clk c)))"
    by (rule pictures_kept)
  moreover have "keeps ?K (for_io fileList (push_item G (v_epoch s, c)))" for fileList
    by (rule push_items)
  ultimately have "keeps ?K (bind_io (with_ptr (v_epoch s, c) (\<lambda>c. on_list (getPictureList ops clk c))) (\<lambda>fileList. for_io fileList (push_item G (v_epoch s, c))))"
    by (intro keeps_bind)
  then show ?thesis using assms(1) \<open>?K ?s1\<close>
    by (auto simp: ImageListModel_onCameraChanged_def modify_step dest: keepsD)
qed

text \<open>Before the list is read there is no camera. No camera is selected and no picture shown, or all pictures shown are of
  the selected position in one of the lists that were read; if it is the present list, that list has this position.\<close>

definition selection_ok :: "('d, 'j, 'q) view \<Rightarrow> bool" where
  "selection_ok s \<longleftrightarrow> (m_current s = - 1 \<and> m_fileList s = [] \<and> (v_epoch s = 0 \<longrightarrow> cameras_of s = []))
     \<or> (0 \<le> m_current s \<and> m_current s < 2 ^ 31 \<and> (\<exists>e. 1 \<le> e \<and> e \<le> v_epoch s
        \<and> (e = v_epoch s \<longrightarrow> m_current s < int (length (cameras_of s)))
        \<and> (\<forall>i \<in> set (m_fileList s). item_camera i = Some (e, nat (m_current s)))))"

lemma shows_selection:
  "shows_camera e n k (l, nat k) s \<Longrightarrow> 0 \<le> k \<Longrightarrow> k < 2 ^ 31 \<Longrightarrow> 1 \<le> l \<Longrightarrow> l \<le> e \<Longrightarrow> (l = e \<Longrightarrow> k < int n) \<Longrightarrow> selection_ok s"
  unfolding shows_camera_def selection_ok_def by blast

lemma form_camera_changed:
  assumes "CameraForm_onCameraChanged ops G clk calib row s = Some (r, s')" and "\<And>c. cameras_kept (calib c)"
    and "selection_ok s" and "0 \<le> row" and "row < int (length (cameras_of s))" and "row < 2 ^ 31"
  shows "selection_ok s'"
proof -
  let ?c = "nat row" and ?s = "s\<lparr>m_current := row\<rparr>"
  note row = as_size_row [OF assms(4,6)]
  have "changeCurrentCamera ?c s = (if m_current s < 0 \<or> as_size (m_current s) \<noteq> ?c then Some (Inr (Some (v_epoch s, ?c)), ?s) else Some (Inr None, s))"
    using row assms(4,5) by (auto simp: changeCurrentCamera_def reads_step modify_step ret_app)
  then consider "CameraForm_onCameraChanged ops G clk calib row s = Some (Inr (), s)"
    | "CameraForm_onCameraChanged ops G clk calib row s = bind_io (ImageListModel_onCameraChanged ops G clk (Some (v_epoch s, ?c))) (\<lambda>_.
         with_ptr (v_epoch s, ?c) (\<lambda>c. on_desktop (calib c))) ?s"
    using row by (auto simp: CameraForm_onCameraChanged_def bind_io_def ret_def split: if_splits)
  then show ?thesis
  proof cases
    case 1
    then show ?thesis using assms(1,3) by simp
  next
    case 2
    let ?K = "shows_camera (v_epoch s) (length (cameras_of s)) (int ?c) (v_epoch s, ?c)"
    have some: "1 \<le> v_epoch s" using assms(3-5) by (cases "v_epoch s") (auto simp: selection_ok_def)
    have calib: "keeps ?K (with_ptr (v_epoch s, ?c) (\<lambda>c. on_desktop (calib c)))"
      by (rule view_keptD) (intro kept assms(2))
    from 2 assms(1) obtain r1 s1 where s1: "ImageListModel_onCameraChanged ops G clk (Some (v_epoch s, ?c)) ?s = Some (r1, s1)"
        and or: "s' = s1 \<or> with_ptr (v_epoch s, ?c) (\<lambda>c. on_desktop (calib c)) s1 = Some (r, s')"
      by (auto simp: bind_io_def split: option.splits sum.splits prod.splits)
    have "?K s1" using model_shows [of ops G clk ?s ?c r1 s1] s1 assms(4,5) by simp
    then have "?K s'" using or keepsD [OF calib] by blast
    then show ?thesis
      using shows_selection [of "v_epoch s" "length (cameras_of s)" row "v_epoch s" s'] assms(4-6) some by simp
  qed
qed

lemma stale_item: "item_camera i = Some p \<Longrightarrow> \<not> valid_ptr p s \<Longrightarrow> item_image i = Some a \<Longrightarrow> img_null G (v_heap s a)
    \<Longrightarrow> \<exists>s'. getImage ops G buf0 i s = Some (Inl NullPointer, s')"
  by (simp add: getImage_def reads_step) (auto simp: store_image_def bind_io_def with_ptr_def valid_ptr_def)

text \<open>The runs of the form: the window is shown, for the first time or again, with the devices that are connected then; a camera
  of the list is chosen; a picture is drawn or downloaded.\<close>

inductive camera_run ::
  "'d usb_ops \<Rightarrow> os \<Rightarrow> 'q qt_image \<Rightarrow> clock \<Rightarrow> (int option \<Rightarrow> string) \<Rightarrow> u8 list \<Rightarrow> (nat \<Rightarrow> (('d, 'j) desktop, unit) io)
     \<Rightarrow> ('d, 'j, 'q) view \<Rightarrow> bool"
  for ops sys G clk time_text buf0 calib where
  constructed: "w_cameras (u_world d) = [] \<Longrightarrow> camera_run ops sys G clk time_text buf0 calib (Context_ctor d q)"
| shown: "camera_run ops sys G clk time_text buf0 calib s
    \<Longrightarrow> CameraForm_onInit ops G clk calib getDescriptor devices s = Some (r, s') \<Longrightarrow> camera_run ops sys G clk time_text buf0 calib s'"
| activate: "camera_run ops sys G clk time_text buf0 calib s \<Longrightarrow> 0 \<le> row \<Longrightarrow> row < int (length (cameras_of s)) \<Longrightarrow> row < 2 ^ 31
    \<Longrightarrow> CameraForm_onCameraChanged ops G clk calib row s = Some (r, s') \<Longrightarrow> camera_run ops sys G clk time_text buf0 calib s'"
| paint: "camera_run ops sys G clk time_text buf0 calib s \<Longrightarrow> ImageListModel_data True row True s = Some i
    \<Longrightarrow> getImage ops G buf0 i s = Some (r, s') \<Longrightarrow> camera_run ops sys G clk time_text buf0 calib s'"
| download: "camera_run ops sys G clk time_text buf0 calib s
    \<Longrightarrow> ImageListModel_downloadFile ops sys time_text dir row s = Some (r, s') \<Longrightarrow> camera_run ops sys G clk time_text buf0 calib s'"

lemma view_kept_selection:
  assumes "view_kept m" and "m s = Some (r, s')" and "selection_ok s"
  shows "selection_ok s'"
proof -
  have kept: "shows_camera e n k p s \<Longrightarrow> shows_camera e n k p s'" for e n k p using keepsD [OF view_keptD [OF assms(1)] _ assms(2)] by blast
  show ?thesis
  proof (cases "m_current s = - 1 \<and> m_fileList s = []")
    case True
    then have "shows_camera (v_epoch s) (length (cameras_of s)) (- 1) p s" for p by (simp add: shows_camera_def)
    then have "m_current s' = - 1" "v_epoch s' = v_epoch s" "length (cameras_of s') = length (cameras_of s)"
      using kept by (auto simp: shows_camera_def)
    moreover have "m_fileList s' = []" using assms(1,2) True by (auto simp: view_kept_def dest: keepsD)
    ultimately show ?thesis using assms(3) True by (auto simp: selection_ok_def)
  next
    case False
    then obtain e where e: "0 \<le> m_current s" "m_current s < 2 ^ 31" "1 \<le> e" "e \<le> v_epoch s"
        "e = v_epoch s \<Longrightarrow> m_current s < int (length (cameras_of s))"
        "shows_camera (v_epoch s) (length (cameras_of s)) (m_current s) (e, nat (m_current s)) s"
      using assms(3) by (auto simp: selection_ok_def shows_camera_def)
    show ?thesis using shows_selection [OF kept [OF e(6)] e(1-5)] .
  qed
qed

text \<open>A display of the window: the list is read again and the pointers into the list before it are invalid.\<close>

lemma updateCameraList_step:
  "updateCameraList ops getDescriptor devices s =
    (case getCameras ops getDescriptor devices of None \<Rightarrow> None | Some (Inl e) \<Rightarrow> Some (Inl e, s)
     | Some (Inr cs) \<Rightarrow> Some (Inr (), s\<lparr>v_desktop := (v_desktop s)\<lparr>u_world := (u_world (v_desktop s))\<lparr>w_cameras := cs\<rparr>\<rparr>, v_epoch := v_epoch s + 1\<rparr>))"
  by (auto simp: updateCameraList_def bind_io_def on_desktop_def on_world_def open_cameras_def modify_def split: option.splits sum.splits)

lemma rowCount_pos: "0 < CameraListModel_rowCount s \<Longrightarrow> 0 < int (length (cameras_of s))"
  by (cases "cameras_of s") (auto simp: CameraListModel_rowCount_def getCameraCount_def int32_of_def Let_def)

lemma init_selection:
  assumes "CameraForm_onInit ops G clk calib getDescriptor devices s = Some (r, s')" and "\<And>c. cameras_kept (calib c)"
    and "selection_ok s"
  shows "selection_ok s'"
proof -
  consider (failed) e where "getCameras ops getDescriptor devices = Some (Inl e)" | (found) cs where "getCameras ops getDescriptor devices = Some (Inr cs)"
    using assms(1) by (cases "getCameras ops getDescriptor devices") (auto simp: CameraForm_onInit_def updateCameraList_step bind_io_def split: sum.splits)
  then show ?thesis
  proof cases
    case failed
    then show ?thesis using assms(1,3) by (simp add: CameraForm_onInit_def updateCameraList_step bind_io_def)
  next
    case found
    let ?t = "s\<lparr>v_desktop := (v_desktop s)\<lparr>u_world := (u_world (v_desktop s))\<lparr>w_cameras := cs\<rparr>\<rparr>, v_epoch := v_epoch s + 1\<rparr>"
    have t: "selection_ok ?t" using assms(3) by (force simp: selection_ok_def)
    have "CameraForm_onInit ops G clk calib getDescriptor devices s
        = (if 0 < CameraListModel_rowCount ?t then CameraForm_onCameraChanged ops G clk calib 0 ?t else Some (Inr (), ?t))"
      using found by (simp add: CameraForm_onInit_def updateCameraList_step bind_step reads_step ret_app)
    then show ?thesis
      using assms(1,2) t rowCount_pos [of ?t] form_camera_changed [of ops G clk calib 0 ?t r s'] by (auto split: if_splits)
  qed
qed

text \<open>
  C38: The form in every run, whatever cameras are found whenever the window is shown, chosen, and pictures drawn or downloaded,
  whether the operations succeed or not: nothing is selected and shown, or all pictures shown have the pointer to the
  selected position in one list \<open>e\<close> of those read so far. If \<open>e\<close> is the present list, the position is in it and
  the pointers can be used. If the list was read again since (the selection and the pictures are kept then), none of them can:
  every picture that was not drawn before is a fault when it is drawn.\<close>

theorem camera_run_selection:
  assumes "camera_run ops sys G clk time_text buf0 (\<lambda>c. CameraCalibrator_onCameraChanged ops Q sys L cache cancelled c) s"
  shows "(m_current s = - 1 \<and> m_fileList s = [])
    \<or> (0 \<le> m_current s \<and> (\<exists>e. 1 \<le> e \<and> e \<le> v_epoch s
       \<and> (\<forall>i \<in> set (m_fileList s). item_camera i = Some (e, nat (m_current s)))
       \<and> (if e = v_epoch s then m_current s < int (length (cameras_of s)) \<and> valid_ptr (e, nat (m_current s)) s
          else \<not> valid_ptr (e, nat (m_current s)) s
            \<and> (\<forall>i \<in> set (m_fileList s). \<forall>a buf1. item_image i = Some a \<and> img_null G (v_heap s a)
                 \<longrightarrow> (\<exists>s'. getImage ops G buf1 i s = Some (Inl NullPointer, s'))))))"
proof -
  have "selection_ok s"
    using assms
  proof (induction rule: camera_run.induct)
    case (constructed d q)
    then show ?case by (simp add: selection_ok_def Context_ctor_def)
  next
    case (shown s getDescriptor devices r s')
    then show ?case using init_selection [OF shown(2) calibrator_kept shown(3)] by blast
  next
    case (activate s row r s')
    then show ?case using form_camera_changed [OF activate(5) calibrator_kept activate(6)] by blast
  next
    case (paint s row i r s')
    then show ?case using view_kept_selection [OF getImage_kept] by blast
  next
    case (download s dir row r s')
    then show ?case using view_kept_selection [OF downloadFile_kept] by blast
  qed
  then show ?thesis
    unfolding selection_ok_def
  proof (elim disjE exE conjE)
    fix e assume k: "0 \<le> m_current s" "m_current s < 2 ^ 31" and e: "1 \<le> e" "e \<le> v_epoch s"
      and c: "e = v_epoch s \<longrightarrow> m_current s < int (length (cameras_of s))" and items: "\<forall>i \<in> set (m_fileList s). item_camera i = Some (e, nat (m_current s))"
    have v: "valid_ptr (e, nat (m_current s)) s \<longleftrightarrow> e = v_epoch s" using c k(1) by (auto simp: valid_ptr_def nat_less_iff)
    have fault: "\<exists>s'. getImage ops G buf1 i s = Some (Inl NullPointer, s')"
      if "\<not> valid_ptr (e, nat (m_current s)) s" "i \<in> set (m_fileList s)" "item_image i = Some a" "img_null G (v_heap s a)" for i a buf1
      using stale_item [OF _ that(1,3,4)] items that(2) by blast
    show ?thesis using k(1) e c items v fault by (intro disjI2 conjI exI [of _ e]) auto
  qed simp
qed

text \<open>The window shown again while the first camera is selected.\<close>

lemma second_show_stale:
  assumes "getCameras ops getDescriptor devices = Some (Inr cs)" and "m_current s = 0"
  shows "CameraForm_onInit ops G clk calib getDescriptor devices s
    = Some (Inr (), s\<lparr>v_desktop := (v_desktop s)\<lparr>u_world := (u_world (v_desktop s))\<lparr>w_cameras := cs\<rparr>\<rparr>, v_epoch := v_epoch s + 1\<rparr>)"
  using assms by (simp add: CameraForm_onInit_def updateCameraList_step bind_step reads_step ret_app CameraForm_onCameraChanged_def
      changeCurrentCamera_def as_size_def)

text \<open>The default item has no image to draw into.\<close>

lemma default_item: "getImage ops G buf0 ImageListItem_default s = Some (Inl NullPointer, s)"
  by (simp add: getImage_def reads_step ImageListItem_default_def stop_app)

subsection \<open>Downloads\<close>

lemma save_to_ok:
  assumes "can_write sys path (v_desktop s)"
    and "get (s\<lparr>v_desktop := put_file path [] (v_desktop s)\<rparr>) = Some (Inr bs, s\<lparr>v_desktop := put_file path [] (v_desktop s)\<lparr>u_world := (u_world (put_file path [] (v_desktop s)))\<lparr>w_cameras := cs\<rparr>\<rparr>\<rparr>)"
  shows "save_to sys path get s = Some (Inr (), s\<lparr>v_desktop := (put_file path bs (v_desktop s))\<lparr>u_world := (u_world (put_file path bs (v_desktop s)))\<lparr>w_cameras := cs\<rparr>\<rparr>\<rparr>)"
  using assms by (simp add: save_to_def bind_io_def on_desktop_def out_open_def out_write_def modify_def can_write_def put_file_def file_content_def)

text \<open>A picture of the present list: both files have the content of the files of the camera, whatever was there under
  the name, which is the time of the picture in seconds.\<close>

lemma item_fetch:
  assumes "camera_protocol ops pending stored listing info busy" and "idle_camera stored c F (v_desktop s)"
    and "item_camera i = Some (v_epoch s, c)" and "fst (item_photo i) = Some \<lparr>m_camera = c, m_fullpath = path, m_basename = name\<rparr>"
    and "\<forall>f. length (F f) < 256 * 65536" and "can_write sys p (v_desktop s)"
  shows "\<exists>s'. save_to sys p (of_item i (on_list (get_with ops ext (fst (item_photo i))))) s = Some (Inr (), s')
    \<and> idle_camera stored c F (v_desktop s') \<and> v_epoch s' = v_epoch s \<and> u_dirs (v_desktop s') = u_dirs (v_desktop s)
    \<and> (\<forall>f. file_content f (v_desktop s') = (if f = p then Some (F (c_bytes (path @ ext))) else file_content f (v_desktop s)))"
proof -
  obtain d where d: "c < length (cameras_of s)" "cameras_of s ! c = Some d" "\<not> cameraAccessMutex d" "stored (device d) = F"
    using assms(2) by (auto simp: idle_camera_def)
  obtain d' where get: "get_with ops ext (fst (item_photo i)) (cameras_of s) = Some (Inr (F (c_bytes (path @ ext))), (cameras_of s)[c := Some d'])"
      "stored (device d') = F" "\<not> cameraAccessMutex d'"
    using get_with_ok [OF assms(1) d(1-3), of path ext name] d(4) assms(4,5) by auto
  let ?s1 = "s\<lparr>v_desktop := put_file p [] (v_desktop s)\<rparr>"
  have "of_item i (on_list (get_with ops ext (fst (item_photo i)))) ?s1 = Some (Inr (F (c_bytes (path @ ext))),
      s\<lparr>v_desktop := put_file p [] (v_desktop s)\<lparr>u_world := (u_world (put_file p [] (v_desktop s)))\<lparr>w_cameras := (cameras_of s)[c := Some d']\<rparr>\<rparr>\<rparr>)"
    using assms(3) d(1) get(1)
    by (simp add: of_item_def with_ptr_def valid_ptr_def on_list_def on_desktop_def on_world_def on_cameras_def put_file_def)
  from save_to_ok [of sys p s "of_item i (on_list (get_with ops ext (fst (item_photo i))))" "F (c_bytes (path @ ext))" "(cameras_of s)[c := Some d']",
    OF assms(6) this] show ?thesis
    using d(1) get(2,3) by (intro exI conjI) (assumption, auto simp: idle_camera_def put_file_def file_content_def)
qed

text \<open>A camera with one picture for the example.\<close>

definition sample_calib :: "nat \<Rightarrow> ((sim, json) desktop, unit) io" where
  "sample_calib = CameraCalibrator_onCameraChanged sim_ops plain_qt any_os sample_libs ''/cache'' (\<lambda>_. False)"

definition photo_camera :: sim where
  "photo_camera = \<lparr>sim_files = [], sim_list = list_bytes [0, 0, 0, 0] [] [sample_entry], sim_info = replicate 1024 0, sim_busy = 0, sim_pending = []\<rparr>"

definition no_cameras :: "(sim, json) desktop" where
  "no_cameras = \<lparr>u_world = photo_world\<lparr>w_cameras := []\<rparr>, u_dirs = {''/cache''}\<rparr>"

lemma photo_found:
  "getCameras sim_ops (\<lambda>_. Inr (LYTRO_VENDOR, LYTRO_PRODUCT)) [photo_camera] = Some (Inr [Some \<lparr>device = photo_camera, cameraAccessMutex = False\<rparr>])"
  by (simp add: probe_def Camera_ctor_def Impl_ctor_def bind_io_def on_device_def sim_ops_def)

text \<open>The first display: the picture of the camera is listed, and the calibration that starts then does not change that.\<close>

lemma photo_shown:
  "\<exists>r s i. CameraForm_onInit sim_ops cell_image sample_clock sample_calib (\<lambda>_. Inr (LYTRO_VENDOR, LYTRO_PRODUCT)) [photo_camera]
      (Context_ctor no_cameras (img_none cell_image)) = Some (r, s) \<and> m_current s = 0 \<and> v_epoch s = 1 \<and> m_fileList s = [i] \<and> item_camera i = Some (1, 0)"
proof -
  let ?cam = "\<lparr>device = photo_camera, cameraAccessMutex = False\<rparr>" and ?ph = "photo_of sample_clock 0 sample_entry"
  let ?s = "Context_ctor no_cameras (img_none cell_image) :: (sim, json, cells) view"
  let ?with = "\<lambda>cam (s :: (sim, json, cells) view). s\<lparr>v_desktop := (v_desktop s)\<lparr>u_world := (u_world (v_desktop s))\<lparr>w_cameras := [Some cam]\<rparr>\<rparr>, v_epoch := 1\<rparr>"
  have len: "length (sim_list (device ?cam)) < 256 * 65536"
    using length_entry_bytes [OF sample_entry_ok] by (simp add: photo_camera_def list_bytes_def)
  obtain cam where cam: "Impl_getPictureList sim_ops ?cam = Some (Inr (list_bytes [0, 0, 0, 0] [] [sample_entry]), cam)" "simulated.same ?cam cam"
    using simulated.list_ok [OF _ len] by (auto simp: photo_camera_def)
  have "parseFileList sample_clock 0 (list_bytes [0, 0, 0, 0] [] [sample_entry]) = Some (Inr [?ph])"
    using parse_list_ok [of "[sample_entry]" "[0, 0, 0, 0]" "[]" sample_clock 0] sample_entry_ok by simp
  then have list: "getPictureList sim_ops sample_clock 0 [Some ?cam] = Some (Inr [?ph], [Some cam])"
    using cam(1) by (simp add: getPictureList_def bind_io_def at_camera_def Camera_getPictureList_def checked_def pimpl_def)
  let ?t = "?with ?cam ?s" and ?i = "\<lparr>item_camera = Some (1, 0), item_photo = ?ph, item_image = Some 0\<rparr>"
  let ?u = "(?with cam ?s)\<lparr>m_current := 0, m_fileList := [?i], v_heap := (\<lambda>_. img_none cell_image), v_free := 1\<rparr>"
  have "ImageListModel_onCameraChanged sim_ops cell_image sample_clock (Some (1, 0)) (?t\<lparr>m_current := 0\<rparr>) = Some (Inr (), ?u)"
    using list by (simp add: ImageListModel_onCameraChanged_def modify_step bind_io_def with_ptr_def valid_ptr_def on_list_def on_desktop_def
        on_world_def on_cameras_def push_item_def ImageListItem_ctor_def modify_def ret_def Context_ctor_def fun_upd_idem)
  moreover have "updateCameraList sim_ops (\<lambda>_. Inr (LYTRO_VENDOR, LYTRO_PRODUCT)) [photo_camera] ?s = Some (Inr (), ?t)"
    unfolding updateCameraList_step photo_found by (simp add: Context_ctor_def)
  ultimately have init: "CameraForm_onInit sim_ops cell_image sample_clock sample_calib (\<lambda>_. Inr (LYTRO_VENDOR, LYTRO_PRODUCT)) [photo_camera] ?s
      = with_ptr (1, 0) (\<lambda>c. on_desktop (sample_calib c)) ?u"
    by (simp add: CameraForm_onInit_def bind_step reads_step CameraListModel_rowCount_def getCameraCount_def
        int32_of_def CameraForm_onCameraChanged_def changeCurrentCamera_def as_size_def Context_ctor_def)
      (simp add: bind_io_def reads_def modify_def ret_def int32_of_def as_size_def)
  have d: "idle_camera sim_stored 0 (\<lambda>_. []) (v_desktop ?u)" "camera_info sim_info 0 (v_desktop ?u) = replicate 1024 0"
      "\<And>p. file_content p (v_desktop ?u) = None" "''/cache'' \<in> u_dirs (v_desktop ?u)" "qt_subdir plain_qt ''/cache'' [] \<notin> u_dirs (v_desktop ?u)"
    using cam(2) by (auto simp: idle_camera_def simulated.same_def photo_camera_def sim_stored_def camera_info_def file_content_def
        Context_ctor_def no_cameras_def photo_world_def plain_qt_def)
  have "lists_files plain_qt" "lib_sched sample_libs [] = []" by (simp_all add: lists_files_def plain_qt_def sample_libs_def)
  from onCameraChanged_no_directory [OF simulated.camera_protocol_axioms simulated_inquiry d(1), unfolded d(2) blank_info(3), OF blank_info(2) refl _ refl d(4,5) _ _ this, of any_os]
  obtain e where e: "sample_calib 0 (v_desktop ?u) = Some (Inl OutOfBounds, e)"
    using d(3) unfolding sample_calib_def by auto
  have "with_ptr (1, 0) (\<lambda>c. on_desktop (sample_calib c)) ?u = Some (Inl OutOfBounds, ?u\<lparr>v_desktop := e\<rparr>)"
    using e by (simp add: with_ptr_def valid_ptr_def on_desktop_def)
  with init show ?thesis by (intro exI [of _ "Inl OutOfBounds"] exI [of _ "?u\<lparr>v_desktop := e\<rparr>"] exI [of _ ?i]) simp
qed

theorem camera_run_selection_witness:
  "\<exists>(s1 :: (sim, json, cells) view) s2 i. camera_run sim_ops any_os cell_image sample_clock (\<lambda>_. ''t'') [0, 0] sample_calib s1
    \<and> m_fileList s1 = [i] \<and> valid_ptr (1, 0) s1
    \<and> camera_run sim_ops any_os cell_image sample_clock (\<lambda>_. ''t'') [0, 0] sample_calib s2
    \<and> m_fileList s2 = [i] \<and> length (cameras_of s2) = 1 \<and> item_camera i = Some (1, 0) \<and> \<not> valid_ptr (1, 0) s2"
proof -
  let ?run = "camera_run sim_ops any_os cell_image sample_clock (\<lambda>_. ''t'') [0, 0] sample_calib"
  obtain r i and s1 :: "(sim, json, cells) view" where s1: "CameraForm_onInit sim_ops cell_image sample_clock sample_calib (\<lambda>_. Inr (LYTRO_VENDOR, LYTRO_PRODUCT)) [photo_camera]
      (Context_ctor no_cameras (img_none cell_image)) = Some (r, s1)" "m_current s1 = 0" "v_epoch s1 = 1" "m_fileList s1 = [i]" "item_camera i = Some (1, 0)"
    using photo_shown by blast
  have run1: "?run s1" by (rule camera_run.shown [OF camera_run.constructed s1(1)]) (simp add: no_cameras_def)
  let ?s2 = "s1\<lparr>v_desktop := (v_desktop s1)\<lparr>u_world := (u_world (v_desktop s1))\<lparr>w_cameras := [Some \<lparr>device = photo_camera, cameraAccessMutex = False\<rparr>]\<rparr>\<rparr>, v_epoch := v_epoch s1 + 1\<rparr>"
  have run2: "?run ?s2" by (rule camera_run.shown [OF run1 second_show_stale [OF photo_found s1(2)]])
  from camera_run_selection [OF run1 [unfolded sample_calib_def]] s1(2-5) have "valid_ptr (1, 0) s1" by auto
  moreover from camera_run_selection [OF run2 [unfolded sample_calib_def]] s1(2-5) have "\<not> valid_ptr (1, 0) ?s2" by auto
  ultimately show ?thesis using run1 run2 s1(4,5) by (intro exI [of _ s1] exI [of _ ?s2] exI [of _ i]) simp
qed

text \<open>The conditions under which the picture of an item can be fetched.\<close>

definition fetchable :: "('d \<Rightarrow> u8 list \<Rightarrow> u8 list) \<Rightarrow> nat \<Rightarrow> (u8 list \<Rightarrow> u8 list) \<Rightarrow> string \<Rightarrow> item \<Rightarrow> ('d, 'j, 'q) view \<Rightarrow> bool" where
  "fetchable stored c F path i s \<longleftrightarrow> idle_camera stored c F (v_desktop s) \<and> item_camera i = Some (v_epoch s, c)
     \<and> (\<exists>name. fst (item_photo i) = Some \<lparr>m_camera = c, m_fullpath = path, m_basename = name\<rparr>)"

lemma downloadFile_ok:
  assumes P: "camera_protocol ops pending stored listing info busy" and f: "fetchable stored c F path i s"
    and "row < length (m_fileList s)" and "m_fileList s ! row = i" and time: "item_time i = Inr t"
    and size: "\<forall>f. length (F f) < 256 * 65536" and dir: "dir \<in> u_dirs (v_desktop s)" and w: "\<forall>p. os_writable sys p"
  shows "\<exists>s'. ImageListModel_downloadFile ops sys time_text dir (int row) s = Some (Inr (), s')
    \<and> idle_camera stored c F (v_desktop s') \<and> v_epoch s' = v_epoch s \<and> u_dirs (v_desktop s') = u_dirs (v_desktop s)
    \<and> file_content (dir, time_text t @ ''.TXT'') (v_desktop s') = Some (F (c_bytes (path @ ''.TXT'')))
    \<and> file_content (dir, time_text t @ ''.RAW'') (v_desktop s') = Some (F (c_bytes (path @ ''.RAW'')))"
proof -
  let ?p = "(dir, time_text t @ ''.TXT'')" and ?q = "(dir, time_text t @ ''.RAW'')"
  obtain name where img: "fst (item_photo i) = Some \<lparr>m_camera = c, m_fullpath = path, m_basename = name\<rparr>"
    and cam: "idle_camera stored c F (v_desktop s)" and ptr: "item_camera i = Some (v_epoch s, c)"
    using f by (auto simp: fetchable_def)
  obtain s1 where s1: "save_to sys ?p (of_item i (on_list (get_with ops ''.TXT'' (fst (item_photo i))))) s = Some (Inr (), s1)"
      "idle_camera stored c F (v_desktop s1)" "v_epoch s1 = v_epoch s" "u_dirs (v_desktop s1) = u_dirs (v_desktop s)"
      "\<And>f. file_content f (v_desktop s1) = (if f = ?p then Some (F (c_bytes (path @ ''.TXT''))) else file_content f (v_desktop s))"
    using item_fetch [OF P cam ptr img size, of sys ?p "''.TXT''"] dir w by (auto simp: can_write_def)
  obtain s2 where s2: "save_to sys ?q (of_item i (on_list (get_with ops ''.RAW'' (fst (item_photo i))))) s1 = Some (Inr (), s2)"
      "idle_camera stored c F (v_desktop s2)" "v_epoch s2 = v_epoch s1" "u_dirs (v_desktop s2) = u_dirs (v_desktop s1)"
      "\<And>f. file_content f (v_desktop s2) = (if f = ?q then Some (F (c_bytes (path @ ''.RAW''))) else file_content f (v_desktop s1))"
    using item_fetch [OF P s1(2) ptr [folded s1(3)] img size, of sys ?q "''.RAW''"] dir w s1(4) by (auto simp: can_write_def)
  have "ImageListModel_downloadFile ops sys time_text dir (int row) s = Some (Inr (), s2)"
    using assms(3,4) time s1(1) s2(1)
    by (simp add: ImageListModel_downloadFile_def reads_step getImageMetadata_def getImageData_def bind_step)
  then show ?thesis using s1(3,4,5) s2(2-5) by (intro exI [of _ s2]) auto
qed

lemma on_desktop_list: "keeps (\<lambda>t. m_fileList t = l) (on_desktop m)"
  by (auto simp: keeps_def on_desktop_def)

lemma save_to_list: "keeps (\<lambda>t. m_fileList t = l) get \<Longrightarrow> keeps (\<lambda>t. m_fileList t = l) (save_to sys path get)"
  unfolding save_to_def by (intro keeps_bind on_desktop_list)

lemma of_item_list: "keeps (\<lambda>t. m_fileList t = l) (of_item i (on_list m))"
proof -
  have m: "keeps (\<lambda>t. m_fileList t = l) (on_list m)" unfolding on_list_def by (rule on_desktop_list)
  then show ?thesis by (auto simp: of_item_def keeps_def with_ptr_def split: option.splits if_splits)
qed

lemma downloadFile_list:
  assumes "ImageListModel_downloadFile ops sys time_text dir row s = Some (r, s')"
  shows "m_fileList s' = m_fileList s"
proof -
  have "keeps (\<lambda>t. m_fileList t = m_fileList s) (ImageListModel_downloadFile ops sys time_text dir row)"
    unfolding ImageListModel_downloadFile_def by (intro keeps_bind save_to_list of_item_list keeps_lift) (simp add: keeps_def reads_def)
  then show ?thesis using assms unfolding keeps_def by blast
qed

text \<open>Two pictures of the same second have the same name: of the first only what the second has not replaced is left, which
  is nothing.\<close>

lemma downloadFile_overwrites:
  assumes P: "camera_protocol ops pending stored listing info busy" and "fetchable stored c F path1 i1 s" and "fetchable stored c F path2 i2 s"
    and "row1 < length (m_fileList s)" and "m_fileList s ! row1 = i1" and "row2 < length (m_fileList s)" and "m_fileList s ! row2 = i2"
    and "item_time i1 = Inr t" and "item_time i2 = Inr t" and "\<forall>f. length (F f) < 256 * 65536" and "dir \<in> u_dirs (v_desktop s)"
    and "\<forall>p. os_writable sys p"
  shows "\<exists>s1 s2. ImageListModel_downloadFile ops sys time_text dir (int row1) s = Some (Inr (), s1)
    \<and> ImageListModel_downloadFile ops sys time_text dir (int row2) s1 = Some (Inr (), s2)
    \<and> file_content (dir, time_text t @ ''.RAW'') (v_desktop s2) = Some (F (c_bytes (path2 @ ''.RAW'')))"
proof -
  obtain s1 where s1: "ImageListModel_downloadFile ops sys time_text dir (int row1) s = Some (Inr (), s1)" "idle_camera stored c F (v_desktop s1)"
      "v_epoch s1 = v_epoch s" "u_dirs (v_desktop s1) = u_dirs (v_desktop s)"
    using downloadFile_ok [OF P assms(2,4,5,8,10,11,12)] by blast
  have "fetchable stored c F path2 i2 s1" using assms(3) s1(2,3) by (simp add: fetchable_def)
  from downloadFile_ok [OF P this _ _ assms(9,10)] obtain s2 where "ImageListModel_downloadFile ops sys time_text dir (int row2) s1 = Some (Inr (), s2)"
      "file_content (dir, time_text t @ ''.RAW'') (v_desktop s2) = Some (F (c_bytes (path2 @ ''.RAW'')))"
    using assms(6,7,11,12) s1(4) downloadFile_list [OF s1(1)] by metis
  with s1(1) show ?thesis by blast
qed

theorem getImage_correct_witness:
  "\<exists>q s' i. \<exists>s :: (sim, json, cells) view. getImage sim_ops cell_image [0, 0] i s = Some (Inr q, s')
    \<and> getImage sim_ops cell_image [0, 0] i s' = Some (Inr q, s') \<and> img_pixel cell_image q 3 5 = img_rgb cell_image 257 257 257"
proof -
  let ?cam = "blank_camera\<lparr>sim_files := [(c_bytes ''x.128'', replicate 32768 1)]\<rparr>"
  let ?d = "\<lparr>u_world = photo_world\<lparr>w_cameras := [Some \<lparr>device = ?cam, cameraAccessMutex = False\<rparr>]\<rparr>, u_dirs = {}\<rparr> :: (sim, json) desktop"
  let ?s = "Context_ctor ?d (img_none cell_image) :: (sim, json, cells) view"
  let ?i = "\<lparr>item_camera = Some (0, 0), item_photo = (Some \<lparr>m_camera = 0, m_fullpath = ''x'', m_basename = ''x''\<rparr>, None), item_image = Some 0\<rparr>"
  let ?F = "sim_stored ?cam"
  have cam: "idle_camera sim_stored 0 ?F (v_desktop ?s)" by (simp add: idle_camera_def Context_ctor_def)
  have bs: "replicate 32768 1 = ?F (c_bytes (''x'' @ ''.128''))" by (simp add: sim_stored_def)
  have "item_camera ?i = Some (v_epoch ?s, 0)" "item_image ?i = Some 0" "img_null cell_image (v_heap ?s 0)"
      "fst (item_photo ?i) = Some \<lparr>m_camera = 0, m_fullpath = ''x'', m_basename = ''x''\<rparr>"
    by (simp_all add: Context_ctor_def cell_image_def)
  from getImage_correct [OF cells.qimage_axioms simulated.camera_protocol_axioms this cam bs, of "[0, 0]"]
  obtain q s' where "getImage sim_ops cell_image [0, 0] ?i ?s = Some (Inr q, s')" "getImage sim_ops cell_image [0, 0] ?i s' = Some (Inr q, s')"
      "\<forall>x y. x < 128 \<and> y < 128 \<longrightarrow> (let v = u16_of (drop (2 * (128 * y + x)) (replicate 32768 1)) in img_pixel cell_image q x y = img_rgb cell_image v v v)"
    by (auto simp del: replicate.simps)
  moreover from this(3) [rule_format, of 3 5] have "img_pixel cell_image q 3 5 = img_rgb cell_image 257 257 257"
    by (simp add: u16_of_def)
  ultimately show ?thesis by blast
qed

end
