(* ===== verification/Download_Form.thy ===== *)
theory Download_Form
  imports Camera_View
begin

text \<open>
  \<open>ui/cameraview/imagedownloader\<close>, the downloads of \<open>cameraform\<close> and \<open>ui/progressbar\<close>.

  A download runs in the slots of a thread, and its signals are queued for the thread of the form, so the state has
  the slots that the thread still has to call, what is left of the present one (\<open>task\<close>), and the queue of
  signals; \<open>download_step\<close> interleaves both threads. \<open>QThread::start\<close> does nothing when the thread
  runs, emits \<open>started\<close> otherwise, and the thread then runs its event loop until \<open>quit\<close>. Qt emits \<open>started\<close>
  from the new thread, a moment after \<open>start()\<close>; the slots it calls are taken to be those connected at the call of \<open>start()\<close>, as the
  next download is only connected when the user has gone through the dialog for its directory. A button can be
  clicked when it is enabled. \<open>f_requested\<close> and \<open>f_ran\<close> record the downloads asked for and begun.
\<close>

datatype DownloadMode = Mode_ALL | Mode_SELECTED

datatype signal = Started int | Progress int | Finished

datatype task = Emit signal | Fetch int string

record ImageDownloader =
  m_mode :: DownloadMode
  m_indices :: "int list"
  m_outputDir :: string

record ProgressBar =
  bar_enabled :: bool
  bar_maximum :: int
  bar_value :: int

record ('d, 'j, 'q) form =
  f_view :: "('d, 'j, 'q) view"
  f_running :: bool
  f_connected :: "ImageDownloader list"
  f_slots :: "ImageDownloader list"
  f_tasks :: "task list"
  f_signals :: "signal list"
  f_buttons :: bool
  f_bar :: ProgressBar
  f_requested :: "ImageDownloader list"
  f_ran :: "ImageDownloader list"

subsection \<open>ImageDownloader\<close>

definition file_tasks :: "string \<Rightarrow> int list \<Rightarrow> task list" where
  "file_tasks dir rs = concat (map (\<lambda>(i, row). [Fetch row dir, Emit (Progress (int i + 1))]) (enumerate 0 rs))"

definition onDownloadAll :: "string \<Rightarrow> int \<Rightarrow> task list" where
  "onDownloadAll dir rowCount = Emit (Started rowCount) # file_tasks dir [0..rowCount - 1] @ [Emit Finished]"

definition onDownloadSelected :: "string \<Rightarrow> int list \<Rightarrow> task list" where
  "onDownloadSelected dir indices = Emit (Started (int (length indices))) # file_tasks dir indices @ [Emit Finished]"

text \<open>The slot connected to the start of the thread, with the rows of the model when it is called.\<close>

definition slot_tasks :: "int \<Rightarrow> ImageDownloader \<Rightarrow> task list" where
  "slot_tasks rowCount d =
     (case m_mode d of
        Mode_ALL \<Rightarrow> onDownloadAll (m_outputDir d) rowCount
      | Mode_SELECTED \<Rightarrow> onDownloadSelected (m_outputDir d) (m_indices d))"

subsection \<open>ProgressBar\<close>

definition ProgressBar_ctor :: ProgressBar where
  "ProgressBar_ctor = \<lparr>bar_enabled = False, bar_maximum = 100, bar_value = - 1\<rparr>"

definition onProgressStart :: "int \<Rightarrow> ProgressBar \<Rightarrow> ProgressBar" where
  "onProgressStart files b = b\<lparr>bar_enabled := True, bar_maximum := files\<rparr>"

definition onProgress :: "int \<Rightarrow> ProgressBar \<Rightarrow> ProgressBar" where
  "onProgress progress b = b\<lparr>bar_value := progress\<rparr>"

definition onProgressFinish :: "ProgressBar \<Rightarrow> ProgressBar" where
  "onProgressFinish b = b\<lparr>bar_enabled := False\<rparr>"

subsection \<open>CameraForm\<close>

definition CameraForm_ctor :: "('d, 'j, 'q) view \<Rightarrow> ('d, 'j, 'q) form" where
  "CameraForm_ctor v = \<lparr>f_view = v, f_running = False, f_connected = [], f_slots = [], f_tasks = [], f_signals = [],
     f_buttons = True, f_bar = ProgressBar_ctor, f_requested = [], f_ran = []\<rparr>"

text \<open>The slots of the form emit the signals that the main window connects to the progress bar.\<close>

definition onDownloadStarted :: "int \<Rightarrow> ('d, 'j, 'q) form \<Rightarrow> ('d, 'j, 'q) form" where
  "onDownloadStarted files s = s\<lparr>f_buttons := False, f_bar := onProgressStart files (f_bar s)\<rparr>"

definition onDownloadRunning :: "int \<Rightarrow> ('d, 'j, 'q) form \<Rightarrow> ('d, 'j, 'q) form" where
  "onDownloadRunning progress s = s\<lparr>f_bar := onProgress progress (f_bar s)\<rparr>"

definition onDownloadFinished :: "('d, 'j, 'q) form \<Rightarrow> ('d, 'j, 'q) form" where
  "onDownloadFinished s = s\<lparr>f_buttons := True, f_bar := onProgressFinish (f_bar s)\<rparr>"

fun handle :: "signal \<Rightarrow> ('d, 'j, 'q) form \<Rightarrow> ('d, 'j, 'q) form" where
  "handle (Started files) s = onDownloadStarted files s"
| "handle (Progress progress) s = onDownloadRunning progress s"
| "handle Finished s = onDownloadFinished s"

definition thread_start :: "('d, 'j, 'q) form \<Rightarrow> ('d, 'j, 'q) form" where
  "thread_start s = (if f_running s then s else s\<lparr>f_running := True, f_slots := f_connected s\<rparr>)"

definition download :: "DownloadMode \<Rightarrow> string \<Rightarrow> int list \<Rightarrow> ('d, 'j, 'q) form \<Rightarrow> ('d, 'j, 'q) form" where
  "download mode outputDirectory selectedIndexes s =
     (if outputDirectory \<noteq> [] then
        (let downloader = \<lparr>m_mode = mode, m_indices = selectedIndexes, m_outputDir = outputDirectory\<rparr> in
         thread_start (s\<lparr>f_connected := f_connected s @ [downloader], f_requested := f_requested s @ [downloader]\<rparr>))
      else s)"

text \<open>The slots of the two buttons, with the directory chosen in the dialog, empty when it was cancelled.\<close>

definition CameraForm_onDownloadAll :: "string \<Rightarrow> int list \<Rightarrow> ('d, 'j, 'q) form \<Rightarrow> ('d, 'j, 'q) form" where
  "CameraForm_onDownloadAll dir selected = download Mode_ALL dir selected"

definition CameraForm_onDownloadSelected :: "string \<Rightarrow> int list \<Rightarrow> ('d, 'j, 'q) form \<Rightarrow> ('d, 'j, 'q) form" where
  "CameraForm_onDownloadSelected dir selected = download Mode_SELECTED dir selected"

inductive download_step ::
  "'d usb_ops \<Rightarrow> os \<Rightarrow> (int option \<Rightarrow> string) \<Rightarrow> ('d, 'j, 'q) form \<Rightarrow> ('d, 'j, 'q) form \<Rightarrow> bool"
  for ops sys time_text where
  click_all: "f_buttons s \<Longrightarrow> download_step ops sys time_text s (CameraForm_onDownloadAll dir selected s)"
| click_selected: "f_buttons s \<Longrightarrow> download_step ops sys time_text s (CameraForm_onDownloadSelected dir selected s)"
| slot: "f_tasks s = [] \<Longrightarrow> f_slots s = d # ds \<Longrightarrow> download_step ops sys time_text s
    (s\<lparr>f_tasks := slot_tasks (ImageListModel_rowCount (f_view s)) d, f_slots := ds, f_ran := f_ran s @ [d]\<rparr>)"
| fetch: "f_tasks s = Fetch row dir # ts \<Longrightarrow> ImageListModel_downloadFile ops sys time_text dir row (f_view s) = Some (Inr (), v)
    \<Longrightarrow> download_step ops sys time_text s (s\<lparr>f_view := v, f_tasks := ts\<rparr>)"
| emit: "f_tasks s = Emit g # ts \<Longrightarrow> download_step ops sys time_text s (s\<lparr>f_tasks := ts, f_signals := f_signals s @ [g]\<rparr>)"
| deliver: "f_signals s = g # gs \<Longrightarrow> download_step ops sys time_text s (handle g (s\<lparr>f_signals := gs\<rparr>))"
| browse: "download_step ops sys time_text s (s\<lparr>f_view := v\<rparr>)"

inductive download_run :: "'d usb_ops \<Rightarrow> os \<Rightarrow> (int option \<Rightarrow> string) \<Rightarrow> ('d, 'j, 'q) form \<Rightarrow> bool"
  for ops sys time_text where
  start: "download_run ops sys time_text (CameraForm_ctor v)"
| step: "download_run ops sys time_text s \<Longrightarrow> download_step ops sys time_text s s' \<Longrightarrow> download_run ops sys time_text s'"

subsection \<open>One download\<close>

text \<open>The signals still to be handled: those in the queue and those the present slot has to emit.\<close>

fun emits :: "task list \<Rightarrow> signal list" where
  "emits [] = []"
| "emits (Emit g # ts) = g # emits ts"
| "emits (Fetch row dir # ts) = emits ts"

definition pending_signals :: "('d, 'j, 'q) form \<Rightarrow> signal list" where
  "pending_signals s = f_signals s @ emits (f_tasks s)"

fun is_progress :: "signal \<Rightarrow> bool" where
  "is_progress (Progress _) = True"
| "is_progress _ = False"

definition running_signals :: "signal list \<Rightarrow> bool" where
  "running_signals gs \<longleftrightarrow> (\<exists>mid. gs = mid @ [Finished] \<and> (\<forall>g \<in> set mid. is_progress g))"

definition signals_ok :: "('d, 'j, 'q) form \<Rightarrow> bool" where
  "signals_ok s \<longleftrightarrow> bar_enabled (f_bar s) = (\<not> f_buttons s)
     \<and> (if f_buttons s then pending_signals s = [] \<or> (\<exists>n gs. pending_signals s = Started n # gs \<and> running_signals gs)
        else running_signals (pending_signals s))"

lemma emits_append [simp]: "emits (a @ b) = emits a @ emits b"
  by (induction a rule: emits.induct) simp_all

lemma emits_files: "\<forall>g \<in> set (emits (file_tasks dir rs)). is_progress g"
proof -
  have "\<forall>g \<in> set (emits (concat (map (\<lambda>(i, row). [Fetch row dir, Emit (Progress (int i + 1))]) xs))). is_progress g" for xs
    by (induction xs) auto
  then show ?thesis unfolding file_tasks_def .
qed

lemma emits_slot: "\<exists>n gs. emits (slot_tasks k d) = Started n # gs \<and> running_signals gs"
  using emits_files
  by (auto simp: slot_tasks_def onDownloadAll_def onDownloadSelected_def running_signals_def split: DownloadMode.splits)

lemma running_cons: "running_signals (g # gs) \<longleftrightarrow> (g = Finished \<and> gs = []) \<or> (is_progress g \<and> running_signals gs)"
proof -
  have "running_signals (g # gs) \<longleftrightarrow> (\<exists>mid. g # gs = mid @ [Finished] \<and> (\<forall>g \<in> set mid. is_progress g))"
    by (simp add: running_signals_def)
  also have "\<dots> \<longleftrightarrow> (g = Finished \<and> gs = []) \<or> (is_progress g \<and> running_signals gs)"
    by (auto simp: running_signals_def Cons_eq_append_conv)
  finally show ?thesis .
qed

lemma not_running_nil: "\<not> running_signals []"
  by (simp add: running_signals_def)

text \<open>The first download is the only one whose slot the thread calls.\<close>

definition first_only :: "('d, 'j, 'q) form \<Rightarrow> bool" where
  "first_only s \<longleftrightarrow> f_ran s @ f_slots s = take 1 (f_requested s) \<and> f_connected s = f_requested s
     \<and> (f_running s \<longleftrightarrow> f_requested s \<noteq> []) \<and> (f_slots s \<noteq> [] \<longrightarrow> pending_signals s = [] \<and> f_buttons s)
     \<and> (f_ran s = [] \<longrightarrow> pending_signals s = [])"

lemma handle_fields [simp]:
  "f_signals (handle g s) = f_signals s" "f_tasks (handle g s) = f_tasks s" "f_slots (handle g s) = f_slots s" "f_ran (handle g s) = f_ran s"
  "f_requested (handle g s) = f_requested s" "f_connected (handle g s) = f_connected s" "f_running (handle g s) = f_running s"
  by (cases g; simp add: onDownloadStarted_def onDownloadRunning_def onDownloadFinished_def)+

lemma download_first_only: "first_only s \<Longrightarrow> f_buttons s \<Longrightarrow> first_only (download mode dir selected s)"
  by (cases "f_requested s") (auto simp: download_def Let_def thread_start_def first_only_def pending_signals_def)

lemma download_signals: "signals_ok s \<Longrightarrow> signals_ok (download mode dir selected s)"
  by (auto simp: download_def Let_def thread_start_def signals_ok_def pending_signals_def)

lemma step_first_only:
  assumes "download_step ops sys time_text s s'" and "first_only s" and "signals_ok s"
  shows "first_only s'"
  using assms(1)
proof (cases rule: download_step.cases)
  case (click_all dir selected)
  then show ?thesis using download_first_only [OF assms(2)] by (simp add: CameraForm_onDownloadAll_def)
next
  case (click_selected dir selected)
  then show ?thesis using download_first_only [OF assms(2)] by (simp add: CameraForm_onDownloadSelected_def)
next
  case (slot d ds)
  then have "length (f_ran s @ d # ds) \<le> 1" using assms(2) by (auto simp: first_only_def)
  then have "ds = []" by simp
  then show ?thesis using slot assms(2) by (auto simp: first_only_def)
next
  case (fetch row dir ts v)
  then show ?thesis using assms(2) by (auto simp: first_only_def pending_signals_def)
next
  case (emit g ts)
  then show ?thesis using assms(2) by (auto simp: first_only_def pending_signals_def)
next
  case (deliver g gs)
  then show ?thesis using assms(2) by (auto simp: first_only_def pending_signals_def)
next
  case (browse v)
  then show ?thesis using assms(2) by (auto simp: first_only_def pending_signals_def)
qed

lemma handle_ok:
  assumes "signals_ok s" and "pending_signals s = g # gs" and "pending_signals t = gs" and "f_buttons t = f_buttons s" and "f_bar t = f_bar s"
  shows "signals_ok (handle g t)"
proof -
  have p: "pending_signals (handle g t) = gs" using assms(3) by (simp add: pending_signals_def)
  show ?thesis
  proof (cases "f_buttons s")
    case True
    then obtain n where "g = Started n" "running_signals gs" using assms(1,2) by (auto simp: signals_ok_def)
    then show ?thesis using p by (auto simp: signals_ok_def onDownloadStarted_def onProgressStart_def pending_signals_def)
  next
    case False
    then have r: "running_signals (g # gs)" "bar_enabled (f_bar s)" using assms(1,2) by (simp_all add: signals_ok_def)
    show ?thesis
    proof (cases g)
      case (Progress k)
      then show ?thesis using r p assms(4,5) False
        by (simp add: running_cons signals_ok_def onDownloadRunning_def onProgress_def pending_signals_def)
    next
      case Finished
      then show ?thesis using r p by (simp add: running_cons signals_ok_def onDownloadFinished_def onProgressFinish_def pending_signals_def)
    qed (use r in \<open>simp add: running_cons\<close>)
  qed
qed

lemma step_signals:
  assumes "download_step ops sys time_text s s'" and "first_only s" and "signals_ok s"
  shows "signals_ok s'"
  using assms(1)
proof (cases rule: download_step.cases)
  case (click_all dir selected)
  then show ?thesis using download_signals [OF assms(3)] by (simp add: CameraForm_onDownloadAll_def)
next
  case (click_selected dir selected)
  then show ?thesis using download_signals [OF assms(3)] by (simp add: CameraForm_onDownloadSelected_def)
next
  case (slot d ds)
  then have "f_signals s = []" "f_buttons s" using assms(2) by (auto simp: first_only_def pending_signals_def)
  then show ?thesis using slot assms(3) emits_slot [of "ImageListModel_rowCount (f_view s)" d] by (auto simp: signals_ok_def pending_signals_def)
next
  case (fetch row dir ts v)
  then show ?thesis using assms(3) by (auto simp: signals_ok_def pending_signals_def)
next
  case (emit g ts)
  then show ?thesis using assms(3) by (auto simp: signals_ok_def pending_signals_def)
next
  case (deliver g gs)
  show ?thesis unfolding deliver(1)
    by (rule handle_ok [OF assms(3)]) (simp_all add: pending_signals_def deliver(2))
next
  case (browse v)
  then show ?thesis using assms(3) by (auto simp: signals_ok_def pending_signals_def)
qed

lemma run_ok: "download_run ops sys time_text s \<Longrightarrow> first_only s \<and> signals_ok s"
proof (induction rule: download_run.induct)
  case (start v)
  show ?case by (simp add: first_only_def signals_ok_def CameraForm_ctor_def pending_signals_def ProgressBar_ctor_def)
next
  case (step s s')
  then show ?case using step_first_only step_signals by blast
qed

text \<open>
  C40: Only the first download ever runs. The thread is not ended after a download, so starting it again does nothing. Let
  \<open>started\<close> be emitted before another download is connected. Then the downloads begun or about to begin are the first
  one asked for, although, when that one has ended and its signals were handled, the buttons are enabled, the progress bar
  is not, and the form seems to accept another one.\<close>

theorem only_first_download:
  assumes "download_run ops sys time_text s"
  shows "f_ran s @ f_slots s = take 1 (f_requested s)
    \<and> (f_slots s = [] \<and> f_tasks s = [] \<and> f_signals s = [] \<longrightarrow> f_buttons s \<and> \<not> bar_enabled (f_bar s))"
  using run_ok [OF assms] not_running_nil by (auto simp: first_only_def signals_ok_def pending_signals_def split: if_splits)

theorem only_first_download_witness:
  "\<exists>s :: (sim, json, cells) form. length (f_requested s) = 2 \<and> length (f_ran s @ f_slots s) = 1"
proof -
  let ?v = "Context_ctor empty_desktop (img_none cell_image) :: (sim, json, cells) view"
  let ?s = "CameraForm_onDownloadAll ''/home'' [] (CameraForm_ctor ?v)"
  let ?t = "CameraForm_onDownloadAll ''/tmp'' [] ?s"
  have b: "f_buttons (CameraForm_ctor ?v)" "f_buttons ?s" by (simp_all add: CameraForm_onDownloadAll_def CameraForm_ctor_def download_def Let_def thread_start_def)
  have "download_run sim_ops any_os (\<lambda>_. ''t'') ?t"
    using download_run.step [OF download_run.step [OF download_run.start download_step.click_all [OF b(1)]] download_step.click_all [OF b(2)]] .
  from only_first_download [OF this] have "f_ran ?t @ f_slots ?t = take 1 (f_requested ?t)" by blast
  moreover have "length (f_requested ?t) = 2" by (simp add: CameraForm_onDownloadAll_def CameraForm_ctor_def download_def Let_def thread_start_def)
  ultimately show ?thesis by (intro exI [of _ ?t]) simp
qed

end
