(* ===== verification/Desktop_Shell.thy ===== *)
theory Desktop_Shell
  imports Download_Form
begin

text \<open>
  \<open>ui/cameraview/imagelistdelegate\<close>, \<open>ui/mainwindow\<close> and \<open>ui/main.cpp\<close>: how an entry of the picture list is drawn, and
  when the form of the camera is initialised.

  A \<open>QPainter\<close> is the list of the calls it got. A \<open>QRect\<close> has the coordinates of its first and last pixels.
  \<open>QStyledItemDelegate::paint\<close> is the call \<open>Base_paint\<close>. The text of a date or time is a parameter, by its format.
  \<open>windowShown\<close> is connected by a queued connection: every show of the window adds a call of \<open>onInit\<close> to the event
  queue, and the event loop runs it. The connections of the window to the progress bar are those of \<open>Download_Form\<close>.
\<close>

subsection \<open>ImageListDelegate\<close>

record QRect =
  q_left :: int
  q_top :: int
  q_right :: int
  q_bottom :: int

datatype 'q paint_call =
  Painter_save | Painter_restore | Set_brush_highlight | Set_pen_black | Draw_rect QRect
  | Draw_image int int 'q | Draw_text int int string | Base_paint

record view_option =
  opt_rect :: QRect
  opt_selected :: bool

definition painter_call :: "'q paint_call \<Rightarrow> (('d, 'j, 'q) view \<times> 'q paint_call list, unit) io" where
  "painter_call c = modify (\<lambda>(v, cs). (v, cs @ [c]))"

definition on_view :: "(('d, 'j, 'q) view, 'a) io \<Rightarrow> (('d, 'j, 'q) view \<times> 'q paint_call list, 'a) io" where
  "on_view m = (\<lambda>(v, cs). map_option (\<lambda>(r, v'). (r, (v', cs))) (m v))"

text \<open>\<open>QRect rect(option.rect.topLeft() + QPoint(8,8), option.rect.bottomRight() - QPoint(8,8))\<close>\<close>

definition inner_rect :: "QRect \<Rightarrow> QRect" where
  "inner_rect r = \<lparr>q_left = q_left r + 8, q_top = q_top r + 8, q_right = q_right r - 8, q_bottom = q_bottom r - 8\<rparr>"

definition delegate_paint ::
  "'d usb_ops \<Rightarrow> 'q qt_image \<Rightarrow> u8 list \<Rightarrow> (string \<Rightarrow> int option \<Rightarrow> string) \<Rightarrow> view_option \<Rightarrow> item option
     \<Rightarrow> (('d, 'j, 'q) view \<times> 'q paint_call list, unit) io" where
  "delegate_paint ops G buf0 time_format opt entry =
     (case entry of
        None \<Rightarrow> painter_call Base_paint
      | Some i \<Rightarrow>
          if isNull i then painter_call Base_paint
          else
            bind_io (painter_call Painter_save) (\<lambda>_.
            bind_io (if opt_selected opt then painter_call Set_brush_highlight else ret ()) (\<lambda>_.
            bind_io (painter_call Set_pen_black) (\<lambda>_.
            let rect = inner_rect (opt_rect opt); x = q_left rect; y = q_top rect in
            bind_io (painter_call (Draw_rect rect)) (\<lambda>_.
            bind_io (on_view (getImage ops G buf0 i)) (\<lambda>img.
            bind_io (painter_call (Draw_image (x + 8) (y + 8) img)) (\<lambda>_.
            bind_io (lift (item_time i)) (\<lambda>date.
            bind_io (painter_call (Draw_text (x + 8) (y + 148) (time_format ''d MMM yyyy'' date))) (\<lambda>_.
            bind_io (lift (item_time i)) (\<lambda>time.
            bind_io (painter_call (Draw_text (x + 8) (y + 168) (time_format ''hh:mm:ss'' time))) (\<lambda>_.
            painter_call Painter_restore)))))))))))"

definition sizeHint :: "int \<times> int" where
  "sizeHint = (160, 200)"

text \<open>A cell of the size that the delegate asks for.\<close>

definition cell_at :: "int \<Rightarrow> int \<Rightarrow> QRect" where
  "cell_at x y = \<lparr>q_left = x, q_top = y, q_right = x + fst sizeHint - 1, q_bottom = y + snd sizeHint - 1\<rparr>"

definition in_rect :: "QRect \<Rightarrow> int \<Rightarrow> int \<Rightarrow> bool" where
  "in_rect r x y \<longleftrightarrow> q_left r \<le> x \<and> x \<le> q_right r \<and> q_top r \<le> y \<and> y \<le> q_bottom r"

text \<open>The pixels of a picture, and the base points of texts; the border is a call of its own.\<close>

fun call_inside :: "'q qt_image \<Rightarrow> QRect \<Rightarrow> 'q paint_call \<Rightarrow> bool" where
  "call_inside G r (Draw_image x y q) \<longleftrightarrow>
     (\<forall>i < img_width G q. \<forall>j < img_height G q. in_rect r (x + int i) (y + int j))"
| "call_inside G r (Draw_text x y text) \<longleftrightarrow> in_rect r x y"
| "call_inside G r c \<longleftrightarrow> True"

lemma call_step: "bind_io (painter_call c) f (v, cs) = f () (v, cs @ [c])"
  by (simp add: painter_call_def modify_step)

lemma paint_base:
  assumes "entry = None \<or> (\<exists>i. entry = Some i \<and> isNull i)"
  shows "delegate_paint ops G buf0 tf opt entry (v, cs) = Some (Inr (), v, cs @ [Base_paint])"
  using assms by (auto simp: delegate_paint_def painter_call_def modify_def)

text \<open>The calls up to the picture, and what follows.\<close>

definition first_calls :: "view_option \<Rightarrow> 'q paint_call list" where
  "first_calls opt = [Painter_save] @ (if opt_selected opt then [Set_brush_highlight] else []) @ [Set_pen_black, Draw_rect (inner_rect (opt_rect opt))]"

lemma paint_first:
  assumes "\<not> isNull i"
  shows "delegate_paint ops G buf0 tf opt (Some i) (v, cs) =
    bind_io (on_view (getImage ops G buf0 i)) (\<lambda>img.
    bind_io (painter_call (Draw_image (q_left (opt_rect opt) + 16) (q_top (opt_rect opt) + 16) img)) (\<lambda>_.
    bind_io (lift (item_time i)) (\<lambda>date.
    bind_io (painter_call (Draw_text (q_left (opt_rect opt) + 16) (q_top (opt_rect opt) + 156) (tf ''d MMM yyyy'' date))) (\<lambda>_.
    bind_io (lift (item_time i)) (\<lambda>time.
    bind_io (painter_call (Draw_text (q_left (opt_rect opt) + 16) (q_top (opt_rect opt) + 176) (tf ''hh:mm:ss'' time))) (\<lambda>_.
    painter_call Painter_restore)))))) (v, cs @ first_calls opt)"
  using assms by (simp add: delegate_paint_def call_step Let_def inner_rect_def first_calls_def add.commute)

lemma paint_picture:
  assumes "\<not> isNull i" and "getImage ops G buf0 i v = Some (Inr q, v')" and "item_time i = Inr t"
    and "img_width G q = 128" and "img_height G q = 128" and "opt_rect opt = cell_at x y"
  shows "\<exists>ds. delegate_paint ops G buf0 tf opt (Some i) (v, []) = Some (Inr (), v', Painter_save # ds @ [Painter_restore])
    \<and> Draw_image (x + 16) (y + 16) q \<in> set ds \<and> Painter_save \<notin> set ds \<and> Painter_restore \<notin> set ds
    \<and> (\<forall>c \<in> set ds. call_inside G (inner_rect (cell_at x y)) c)"
proof -
  let ?ds = "tl (first_calls opt) @ [Draw_image (x + 16) (y + 16) q, Draw_text (x + 16) (y + 156) (tf ''d MMM yyyy'' t),
    Draw_text (x + 16) (y + 176) (tf ''hh:mm:ss'' t)]"
  have f: "first_calls opt = Painter_save # tl (first_calls opt)" by (simp add: first_calls_def)
  have img: "bind_io (on_view (getImage ops G buf0 i)) f (v, cs) = f q (v', cs)" for f cs
    using assms(2) by (simp add: bind_io_def on_view_def)
  have "delegate_paint ops G buf0 tf opt (Some i) (v, []) = Some (Inr (), v', Painter_save # ?ds @ [Painter_restore])"
    unfolding paint_first [OF assms(1)] img using assms(3,6) f
    by (simp add: call_step cell_at_def) (simp add: painter_call_def modify_def)
  moreover have "\<forall>c \<in> set ?ds. call_inside G (inner_rect (cell_at x y)) c"
    using assms(4,5) by (auto simp: first_calls_def in_rect_def inner_rect_def cell_at_def sizeHint_def)
  ultimately show ?thesis by (intro exI [of _ ?ds]) (auto simp: first_calls_def)
qed

text \<open>An exception of the camera leaves \<open>paint\<close> with the painter saved and not restored.\<close>

lemma paint_fails:
  assumes "\<not> isNull i" and "getImage ops G buf0 i v = Some (Inl e, v')"
  shows "delegate_paint ops G buf0 tf opt (Some i) (v, []) = Some (Inl e, v', first_calls opt)
    \<and> Painter_save \<in> set (first_calls opt :: 'q paint_call list) \<and> Painter_restore \<notin> set (first_calls opt :: 'q paint_call list)"
  unfolding paint_first [OF assms(1)] using assms(2)
  by (auto simp: bind_io_def on_view_def first_calls_def)

subsection \<open>MainWindow\<close>

record ('d, 'j, 'q) window =
  m_cameraForm :: "('d, 'j, 'q) form"
  m_queue :: nat

definition MainWindow_ctor :: "('d, 'j) desktop \<Rightarrow> 'q \<Rightarrow> ('d, 'j, 'q) window" where
  "MainWindow_ctor d q = \<lparr>m_cameraForm = CameraForm_ctor (Context_ctor d q), m_queue = 0\<rparr>"

definition showEvent :: "('d, 'j, 'q) window \<Rightarrow> ('d, 'j, 'q) window" where
  "showEvent w = w\<lparr>m_queue := m_queue w + 1\<rparr>"

text \<open>The event loop takes a queued call of \<open>onInit\<close>.\<close>

definition run_onInit :: "(('d, 'j, 'q) view, unit) io \<Rightarrow> (('d, 'j, 'q) window, unit) io" where
  "run_onInit onInit w = map_option (\<lambda>(r, v). (r, w\<lparr>m_cameraForm := (m_cameraForm w)\<lparr>f_view := v\<rparr>, m_queue := m_queue w - 1\<rparr>))
     (onInit (f_view (m_cameraForm w)))"

definition desktop_main :: "('d, 'j) desktop \<Rightarrow> 'q \<Rightarrow> ('d, 'j, 'q) window" where
  "desktop_main d q = showEvent (MainWindow_ctor d q)"

text \<open>Runs of the program with the number of shows and of calls of \<open>onInit\<close>; an exception of a slot ends the program.\<close>

inductive window_run ::
  "'d usb_ops \<Rightarrow> os \<Rightarrow> (int option \<Rightarrow> string) \<Rightarrow> (('d, 'j, 'q) view, unit) io \<Rightarrow> nat \<Rightarrow> nat \<Rightarrow> ('d, 'j, 'q) window \<Rightarrow> bool"
  for ops sys time_text onInit where
  begun: "window_run ops sys time_text onInit 1 0 (desktop_main d q)"
| shown_again: "window_run ops sys time_text onInit n k w \<Longrightarrow> window_run ops sys time_text onInit (n + 1) k (showEvent w)"
| initialised: "window_run ops sys time_text onInit n k w \<Longrightarrow> 0 < m_queue w \<Longrightarrow> run_onInit onInit w = Some (Inr (), w')
    \<Longrightarrow> window_run ops sys time_text onInit n (k + 1) w'"
| form_step: "window_run ops sys time_text onInit n k w \<Longrightarrow> download_step ops sys time_text (m_cameraForm w) f
    \<Longrightarrow> window_run ops sys time_text onInit n k (w\<lparr>m_cameraForm := f\<rparr>)"

text \<open>Every show of the window reads the cameras once, after the show.\<close>

lemma window_run_counts: "window_run ops sys time_text onInit n k w \<Longrightarrow> k + m_queue w = n"
  by (induction rule: window_run.induct) (auto simp: desktop_main_def MainWindow_ctor_def showEvent_def run_onInit_def)

lemma window_run_form: "window_run ops sys time_text onInit n k w \<Longrightarrow> k = 0 \<Longrightarrow> download_run ops sys time_text (m_cameraForm w)"
  by (induction rule: window_run.induct)
    (auto simp: desktop_main_def MainWindow_ctor_def showEvent_def intro: download_run.intros)

text \<open>Each of them is a step of the runs of the camera view: the first one finds the form as it was constructed, a later one
  the form with its selection and its pictures.\<close>

lemma run_onInit_view: "run_onInit m w = Some (r, w') \<Longrightarrow> m (f_view (m_cameraForm w)) = Some (r, f_view (m_cameraForm w'))"
  by (auto simp: run_onInit_def)

lemma first_show: "w_cameras (u_world d) = [] \<Longrightarrow> camera_run ops sys G clk time_text buf0 calib (f_view (m_cameraForm (desktop_main d q)))"
  by (simp add: desktop_main_def MainWindow_ctor_def showEvent_def CameraForm_ctor_def camera_run.constructed)

lemma every_init:
  assumes "camera_run ops sys G clk time_text buf0 calib (f_view (m_cameraForm w))"
    and "run_onInit (CameraForm_onInit ops G clk calib getDescriptor devices) w = Some (r, w')"
  shows "camera_run ops sys G clk time_text buf0 calib (f_view (m_cameraForm w'))"
  using camera_run.shown [OF assms(1) run_onInit_view [OF assms(2)]] .

end
