(* ===== verification/Float_Bounds.thy ===== *)
theory Float_Bounds
  imports Grid_Math
begin

text \<open>
  Ranges of computed \<open>float\<close> and \<open>double\<close> values: rounding a number twice is rounding it once, scaling by a power of two
  commutes with rounding, and the operations keep a value between 0 and a bound that the format can
  represent (\<open>upto\<close>). A rounding that is not subnormal has a relative error of half a unit (\<open>round_relative\<close>). The analysis
  of the lens detector and of the averages rests on them.
\<close>

subsection \<open>Rounded numbers\<close>

lemma rne_le: "y \<le> of_int n \<Longrightarrow> rne y \<le> n"
  using rne_mono [of y "of_int n"] by simp

lemma rne_ge: "of_int n \<le> y \<Longrightarrow> n \<le> rne y"
  using rne_mono [of "of_int n" y] by simp

lemma rnd_Fin: "rnd fmt x = Fin y \<Longrightarrow> y = round_to fmt x"
  by (auto simp: rnd_def Let_def split: if_splits)

definition represents :: "format \<Rightarrow> fl \<Rightarrow> bool" where
  "represents fmt a \<longleftrightarrow> to_fmt fmt a = a"

text \<open>Values between 0 and a bound.\<close>

definition upto_bound :: "rat \<Rightarrow> fl \<Rightarrow> bool" where
  "upto_bound c a \<longleftrightarrow> (\<exists>x. a = Fin x \<and> 0 \<le> x \<and> x \<le> c)"

lemma upto_mono: "upto_bound c a \<Longrightarrow> c \<le> d \<Longrightarrow> upto_bound d a"
  by (auto simp: upto_bound_def)

lemma within_error: "\<bar>a - x\<bar> \<le> x * c \<Longrightarrow> a \<le> x * (1 + c) \<and> x * (1 - c) \<le> a" for x :: rat
  using abs_le_D1 [of "a - x" "x * c"] abs_le_D2 [of "a - x" "x * c"] by (simp add: distrib_left right_diff_distrib)

lemma ilog2_ge:
  assumes "0 < x" and "2 powi k \<le> x"
  shows "k \<le> ilog2 x"
proof -
  have "(2 :: rat) powi k < 2 powi (ilog2 x + 1)" using assms(2) ilog2_bounds(2) [OF assms(1)] by (rule le_less_trans)
  then show ?thesis using power_int_increasing [of "ilog2 x + 1" k "2 :: rat"] by linarith
qed

subsection \<open>Formats\<close>

locale number_format =
  fixes fmt :: format
  assumes prec: "1 \<le> fmt_prec fmt" and max_pos: "0 < fmt_max fmt"
begin

sublocale rounding "rnd fmt"
  by unfold_locales (simp_all only: rnd_mono rnd_neg rnd_zero prec max_pos)

text \<open>The relative error of a rounding that is not subnormal.\<close>

lemma round_relative:
  assumes "0 < x" and "fmt_qmin fmt \<le> ilog2 x - int (fmt_prec fmt) + 1"
  shows "\<bar>round_to fmt x - x\<bar> \<le> x * 2 powi (- int (fmt_prec fmt))"
proof -
  define q where "q = ilog2 x - int (fmt_prec fmt) + 1"
  let ?e = "2 powi q :: rat"
  have "max q (fmt_qmin fmt) = q" using assms(2) by (simp add: q_def)
  then have r: "round_to fmt x = of_int (rne (x / ?e)) * ?e"
    using assms(1) by (simp add: round_to_def round_pos_def Let_def q_def [symmetric])
  have "\<bar>of_int (rne (x / ?e)) - x / ?e\<bar> \<le> 1 / 2" using rne_bounds [of "x / ?e"] by linarith
  then have "\<bar>of_int (rne (x / ?e)) - x / ?e\<bar> * ?e \<le> 1 / 2 * ?e" by (intro mult_right_mono) simp_all
  moreover have "\<bar>of_int (rne (x / ?e)) - x / ?e\<bar> * ?e = \<bar>round_to fmt x - x\<bar>"
  proof -
    have "\<bar>of_int (rne (x / ?e)) - x / ?e\<bar> * ?e = \<bar>(of_int (rne (x / ?e)) - x / ?e) * ?e\<bar>" by (simp add: abs_mult)
    then show ?thesis by (simp add: r left_diff_distrib)
  qed
  moreover have "1 / 2 * ?e = 2 powi ilog2 x * 2 powi (- int (fmt_prec fmt))"
    by (simp add: q_def power_int_add power_int_diff power_int_minus) (simp only: divide_inverse)
  moreover have "\<dots> \<le> x * 2 powi (- int (fmt_prec fmt))" using ilog2_bounds(1) [OF assms(1)] by (intro mult_right_mono) simp_all
  ultimately show ?thesis by linarith
qed

text \<open>The number of units a positive value is rounded to.\<close>

lemma round_pos_form:
  assumes "0 < x"
  shows "\<exists>n j. round_pos fmt x = of_int n * 2 powi j \<and> 0 \<le> n \<and> n < 2 ^ fmt_prec fmt \<and> fmt_qmin fmt \<le> j"
proof -
  let ?p = "int (fmt_prec fmt)"
  define q where "q = max (ilog2 x - ?p + 1) (fmt_qmin fmt)"
  define n where "n = rne (x / 2 powi q)"
  have r: "round_pos fmt x = of_int n * 2 powi q" by (simp add: round_pos_def Let_def n_def q_def)
  have n0: "0 \<le> n" unfolding n_def by (rule rne_ge) (use assms in simp)
  have "x / 2 powi q \<le> 2 powi (ilog2 x + 1) / 2 powi q"
    using ilog2_bounds(2) [OF assms] by (intro divide_right_mono) simp_all
  also have "\<dots> \<le> 2 powi ?p"
    unfolding pow2_divide by (intro power_int_increasing) (simp_all add: q_def)
  finally have "n \<le> 2 ^ fmt_prec fmt" unfolding n_def by (intro rne_le) simp
  then consider "n < 2 ^ fmt_prec fmt" | "n = 2 ^ fmt_prec fmt" by linarith
  then show ?thesis
  proof cases
    case 1
    then show ?thesis using r n0 by (intro exI [of _ n] exI [of _ q]) (simp add: q_def)
  next
    case 2
    then have "round_pos fmt x = of_int 1 * 2 powi (?p + q)" using r by (simp add: power_int_add)
    moreover have "(1 :: int) < 2 ^ fmt_prec fmt" using prec by simp
    ultimately show ?thesis by (intro exI [of _ 1] exI [of _ "?p + q"]) (simp add: q_def)
  qed
qed

lemma round_to_form:
  "\<exists>n j. round_to fmt x = of_int n * 2 powi j \<and> \<bar>n\<bar> < 2 ^ fmt_prec fmt \<and> fmt_qmin fmt \<le> j"
proof -
  consider "x = 0" | "0 < x" | "x < 0" by linarith
  then show ?thesis
  proof cases
    case 1
    then show ?thesis by (intro exI [of _ 0] exI [of _ "fmt_qmin fmt"]) simp
  next
    case 2
    then obtain n j where "round_pos fmt x = of_int n * 2 powi j" "0 \<le> n" "n < 2 ^ fmt_prec fmt" "fmt_qmin fmt \<le> j"
      using round_pos_form [OF 2] by blast
    then show ?thesis using 2 by (intro exI [of _ n] exI [of _ j]) (simp add: round_to_def)
  next
    case 3
    then obtain n j where "round_pos fmt (- x) = of_int n * 2 powi j" "0 \<le> n" "n < 2 ^ fmt_prec fmt" "fmt_qmin fmt \<le> j"
      using round_pos_form [of "- x"] 3 by auto
    then show ?thesis using 3 by (intro exI [of _ "- n"] exI [of _ j]) (simp add: round_to_def)
  qed
qed

lemma round_to_idem:
  "round_to fmt (round_to fmt x) = round_to fmt x"
proof -
  obtain n j where "round_to fmt x = of_int n * 2 powi j" "\<bar>n\<bar> < 2 ^ fmt_prec fmt" "fmt_qmin fmt \<le> j"
    using round_to_form by blast
  then show ?thesis by (rule round_to_exact [OF _ _ _ prec])
qed

lemma rnd_idem: "rnd fmt x = Fin y \<Longrightarrow> rnd fmt y = Fin y"
  by (frule rnd_Fin) (simp only: rnd_def round_to_idem)

text \<open>Values that the format has.\<close>

lemma represents_to_fmt [simp, intro]: "represents fmt (to_fmt fmt a)"
proof (cases a)
  case (Fin x)
  then show ?thesis using rnd_idem [of x] by (cases "rnd fmt x") (auto simp: represents_def)
qed (auto simp: represents_def)

lemma represents_rnd [simp, intro]: "represents fmt (rnd fmt x)"
  using represents_to_fmt [of "Fin x"] by simp

lemma represents_fadd [simp, intro]: "represents fmt (fadd fmt a b)"
  by (cases a; cases b) (simp_all only: fadd.simps represents_rnd, simp_all add: represents_def)

lemma represents_0 [simp]: "represents fmt (Fin 0)"
  by (simp add: represents_def r_zero)

lemma upto_rnd:
  assumes "0 \<le> x" and "x \<le> c" and "represents fmt (Fin c)"
  shows "upto_bound c (rnd fmt x)"
proof -
  have "fle (rnd fmt x) (Fin c)" using r_mono [OF assms(2)] assms(3) by (simp add: represents_def)
  moreover have "fle (Fin 0) (rnd fmt x)" using r_nonneg [OF assms(1)] .
  ultimately show ?thesis by (cases "rnd fmt x") (auto simp: upto_bound_def fle_def)
qed

lemma upto_fadd:
  assumes "upto_bound c a" and "upto_bound d b" and "represents fmt (Fin (c + d))"
  shows "upto_bound (c + d) (fadd fmt a b)"
proof -
  obtain x y where "a = Fin x" "0 \<le> x" "x \<le> c" "b = Fin y" "0 \<le> y" "y \<le> d" using assms(1,2) unfolding upto_bound_def by blast
  then show ?thesis using upto_rnd [of "x + y" "c + d"] assms(3-) by simp
qed

lemma upto_fmul:
  assumes "upto_bound c a" and "upto_bound d b" and "represents fmt (Fin (c * d))"
  shows "upto_bound (c * d) (fmul fmt a b)"
proof -
  obtain x y where "a = Fin x" "0 \<le> x" "x \<le> c" "b = Fin y" "0 \<le> y" "y \<le> d" using assms(1,2) unfolding upto_bound_def by blast
  then show ?thesis using upto_rnd [of "x * y" "c * d"] assms(3-) by (simp add: mult_mono)
qed

lemma upto_to_fmt:
  "upto_bound c a \<Longrightarrow> represents fmt (Fin c) \<Longrightarrow> upto_bound c (to_fmt fmt a)"
  using upto_rnd unfolding upto_bound_def [of c a] by auto

end

interpretation b32: number_format binary32
  by unfold_locales (simp_all only: binary_format)

interpretation b64: number_format binary64
  by unfold_locales (simp_all only: binary_format)

lemma represents_int:
  "\<bar>n\<bar> < 16777216 \<Longrightarrow> represents binary32 (Fin (of_int n))" "\<bar>m\<bar> < 2 ^ 53 \<Longrightarrow> represents binary64 (Fin (of_int m))"
  by (simp_all add: represents_def rnd32_int rnd64_int)

lemma represents_numeral [simp]:
  "(numeral k :: int) < 2 ^ 24 \<Longrightarrow> represents binary32 (Fin (numeral k))"
  "(numeral k :: int) < 2 ^ 53 \<Longrightarrow> represents binary64 (Fin (numeral k))"
  "represents binary32 (Fin 1)" "represents binary64 (Fin 1)"
  using represents_int(1) [of "numeral k"] represents_int(2) [of "numeral k"] represents_int(1) [of 1] represents_int(2) [of 1] by simp_all

subsection \<open>Scaling\<close>

lemma round_pos_scale:
  assumes "0 < x" and "fmt_qmin fmt \<le> ilog2 x - int (fmt_prec fmt) + 1"
  shows "round_pos fmt (2 ^ k * x) = 2 ^ k * round_pos fmt x"
proof -
  note b = ilog2_bounds [OF assms(1)]
  have il: "ilog2 (2 ^ k * x) = ilog2 x + int k"
  proof (rule ilog2_eqI)
    show "2 powi (ilog2 x + int k) \<le> 2 ^ k * x" using b(1) by (simp add: power_int_add mult.commute)
    show "2 ^ k * x < 2 powi (ilog2 x + int k + 1)"
      using mult_strict_left_mono [OF b(2), of "2 ^ k"] by (simp add: power_int_add ac_simps)
  qed
  define q where "q = ilog2 x - int (fmt_prec fmt) + 1"
  have "max (ilog2 (2 ^ k * x) - int (fmt_prec fmt) + 1) (fmt_qmin fmt) = q + int k"
    using assms(2) by (simp add: il q_def)
  moreover have "max (ilog2 x - int (fmt_prec fmt) + 1) (fmt_qmin fmt) = q" using assms(2) by (simp add: q_def)
  moreover have "2 ^ k * x / 2 powi (q + int k) = x / 2 powi q" by (simp add: power_int_add)
  ultimately show ?thesis by (simp add: round_pos_def Let_def power_int_add ac_simps)
qed

text \<open>No sum of \<open>float\<close> numbers is subnormal in \<open>double\<close>.\<close>

definition normal :: "rat \<Rightarrow> bool" where
  "normal x \<longleftrightarrow> x = 0 \<or> 2 powi (- 149) \<le> x"

lemma normal_nonneg: "normal x \<Longrightarrow> 0 \<le> x"
  unfolding normal_def by (metis order.trans order_refl zero_le_numeral zero_le_power_int)

lemma normal_add: "normal x \<Longrightarrow> normal y \<Longrightarrow> normal (x + y)"
  using normal_nonneg [of x] normal_nonneg [of y] by (auto simp: normal_def)

lemma round_scale:
  assumes "normal x"
  shows "round_to binary64 (2 ^ k * x) = 2 ^ k * round_to binary64 x"
proof (cases "x = 0")
  case False
  then have x: "0 < x" "2 powi (- 149) \<le> x" using assms normal_nonneg [OF assms] by (auto simp: normal_def)
  have "(2 :: rat) powi (- 149) < 2 powi (ilog2 x + 1)" using x(2) ilog2_bounds(2) [OF x(1)] by (rule le_less_trans)
  then have "- 149 < ilog2 x + 1" by (metis less_le_not_le not_le numeral_One numeral_less_iff power_int_increasing semiring_norm(76) order_less_imp_le)
  then have "round_pos binary64 (2 ^ k * x) = 2 ^ k * round_pos binary64 x"
    using x(1) by (intro round_pos_scale) (simp_all add: binary64_def)
  then show ?thesis using x(1) by (simp add: round_to_def)
qed simp

lemma normal_rnd:
  assumes "normal x" and "rnd binary64 x = Fin y"
  shows "normal y"
proof (cases "x = 0")
  case True
  then show ?thesis using assms(2) by (simp add: r64.r_zero normal_def)
next
  case False
  then have "2 powi (- 149) \<le> x" using assms(1) by (simp add: normal_def)
  moreover have "rnd binary64 (2 powi (- 149)) = Fin (2 powi (- 149))" by (rule rnd64_exact [of _ 1 "-149"]) simp_all
  ultimately show ?thesis using r64.r_mono [of "2 powi (- 149)" x] assms(2) by (simp add: normal_def)
qed

lemma normal_float:
  assumes "represents binary32 (Fin x)" and "0 \<le> x"
  shows "normal x"
proof -
  have "x = round_to binary32 x" using assms(1) rnd_Fin [of binary32 x x] by (simp add: represents_def)
  then obtain n j where x: "x = of_int n * 2 powi j" "- 149 \<le> j"
    using b32.round_to_form [of x] by (auto simp: binary32_def)
  show ?thesis
  proof (cases "n \<le> 0")
    case True
    then have "x \<le> 0" unfolding x(1) by (simp add: mult_nonpos_nonneg)
    then show ?thesis using assms(2) by (simp add: normal_def)
  next
    case False
    have "(2 :: rat) powi (- 149) \<le> 2 powi j" using x(2) by (intro power_int_increasing) simp_all
    also have "\<dots> \<le> of_int n * 2 powi j" using False by simp
    finally show ?thesis by (simp add: normal_def x(1))
  qed
qed

subsection \<open>Relative errors\<close>

lemma normal_relative:
  assumes "normal x"
  shows "round_to binary64 x \<le> x * (1 + 2 powi (- 53))" and "x * (1 - 2 powi (- 53)) \<le> round_to binary64 x"
proof -
  have "\<bar>round_to binary64 x - x\<bar> \<le> x * 2 powi (- 53)"
  proof (cases "x = 0")
    case False
    then have x: "0 < x" "2 powi (- 149) \<le> x" using assms normal_nonneg [OF assms] by (auto simp: normal_def)
    then have "- 149 \<le> ilog2 x" using ilog2_ge by blast
    then have "fmt_qmin binary64 \<le> ilog2 x - int (fmt_prec binary64) + 1" by (simp add: binary64_def)
    from b64.round_relative [OF x(1) this] show ?thesis by (simp add: binary64_def)
  qed simp
  from within_error [OF this] show "round_to binary64 x \<le> x * (1 + 2 powi (- 53))" "x * (1 - 2 powi (- 53)) \<le> round_to binary64 x"
    by simp_all
qed

text \<open>Scaling a \<open>float\<close> by a small number: the product may be subnormal, but then it is exact.\<close>

lemma float_times:
  assumes "represents binary32 (Fin v)" and "0 \<le> v" and "v \<le> 1020" and "0 \<le> M" and "M \<le> 2 ^ 14"
  shows "\<exists>z. rnd binary32 (of_int M * v) = Fin z \<and> z \<le> of_int M * v * (1 + 2 powi (- 24))"
proof -
  let ?x = "of_int M * v"
  have M: "0 \<le> (of_int M :: rat)" "of_int M \<le> (2 ^ 14 :: rat)" using assms(4,5) of_int_le_iff [of M "2 ^ 14", where 'a = rat] by simp_all
  have "?x \<le> 2 ^ 14 * 1020" using M assms(2,3) by (intro mult_mono) simp_all
  then have "upto_bound 16711680 (rnd binary32 ?x)" using M assms(2) by (intro b32.upto_rnd) simp_all
  then obtain z where z: "rnd binary32 ?x = Fin z" by (auto simp: upto_bound_def)
  have "z \<le> ?x * (1 + 2 powi (- 24))"
  proof (cases "2 powi (- 126) \<le> ?x")
    case True
    then have x: "0 < ?x" by (metis less_le_trans zero_less_numeral zero_less_power_int)
    then have "- 126 \<le> ilog2 ?x" using True ilog2_ge by blast
    then have "fmt_qmin binary32 \<le> ilog2 ?x - int (fmt_prec binary32) + 1" by (simp add: binary32_def)
    from within_error [OF b32.round_relative [OF x this]] show ?thesis unfolding rnd_Fin [OF z, symmetric] by (simp add: binary32_def)
  next
    case False
    have "v = round_to binary32 v" using assms(1) rnd_Fin [of binary32 v v] by (simp add: represents_def)
    then obtain n j where v: "v = of_int n * 2 powi j" "- 149 \<le> j" using b32.round_to_form [of v] by (auto simp: binary32_def)
    let ?k = "M * n * 2 ^ nat (j + 149)"
    have "(2 :: rat) powi j = 2 powi (int (nat (j + 149)) + - 149)" using v(2) by simp
    also have "\<dots> = 2 ^ nat (j + 149) * 2 powi (- 149)" by (subst power_int_add) (simp_all only: power_int_of_nat, simp)
    finally have "(2 :: rat) powi j = 2 ^ nat (j + 149) * 2 powi (- 149)" .
    then have x: "?x = of_int ?k * 2 powi (- 149)" by (simp add: v(1))
    have "(2 :: rat) powi (- 126) = 2 ^ 23 * 2 powi (- 149)" by (simp add: power_int_minus)
    then have "of_int ?k * (2 :: rat) powi (- 149) < 2 ^ 23 * 2 powi (- 149)" using False unfolding x by (simp only: not_le)
    then have "(of_int ?k :: rat) < 2 ^ 23" by (simp only: mult_less_cancel_right_pos zero_less_power_int zero_less_numeral)
    then have "?k < 2 ^ 23" by (metis of_int_less_iff of_int_numeral of_int_power)
    moreover have "0 \<le> ?k"
    proof -
      have "0 \<le> of_int ?k * (2 :: rat) powi (- 149)" using M assms(2) unfolding x [symmetric] by simp
      then have "0 \<le> (of_int ?k :: rat)" by (simp only: zero_le_mult_iff) (auto simp: not_le)
      then show ?thesis by (simp only: of_int_0_le_iff)
    qed
    ultimately have "rnd binary32 ?x = Fin ?x" using x by (intro rnd32_exact [of _ ?k "- 149"]) simp_all
    then show ?thesis using z M assms(2) by simp
  qed
  then show ?thesis using z by blast
qed

end
