(* ===== verification/Even_Picture.thy ===== *)
theory Even_Picture
  imports Lens_Detector Float_Bounds
begin

text \<open>
  The lens detector on a picture that is equally bright everywhere, with a mask of single object pixels: \<open>findCentroid\<close> finds the
  position of each of them (\<open>findCentroid_lonely\<close>), \<open>refineCentroid\<close> leaves it as it is (\<open>refineCentroid_even\<close>), and \<open>detect\<close> finalizes the
  grid of these positions in the order of the scan (\<open>detect_even\<close>). The picture of 24 lenses at the end is a run of the
  detector with a grid as its result; the examples of the pipeline use it.
\<close>

subsection \<open>Pictures\<close>

definition picture :: "nat \<Rightarrow> nat \<Rightarrow> (nat \<Rightarrow> nat \<Rightarrow> u8) \<Rightarrow> gmat" where
  "picture r c f = \<lparr>g_rows = int r, g_cols = int c, g_data = concat (map (\<lambda>i. map (f i) [0..<c]) [0..<r])\<rparr>"

lemma pixel_inside:
  assumes "i < r" and "j < c"
  shows "c * i + j < r * (c :: nat)"
proof -
  have "c * i + j < c * Suc i" using assms(2) by simp
  also have "\<dots> \<le> c * r" by (rule mult_le_mono2) (use assms(1) in simp)
  finally show ?thesis by (simp add: mult.commute)
qed

lemma length_rows: "length (concat (map (\<lambda>i. map (f i) [0..<c]) [0..<r])) = r * c"
  by (induction r) simp_all

lemma nth_rows: "i < r \<Longrightarrow> j < c \<Longrightarrow> concat (map (\<lambda>i. map (f i) [0..<c]) [0..<r]) ! (c * i + j) = f i j"
proof (induction r)
  case (Suc r)
  show ?case
  proof (cases "i = r")
    case True
    then show ?thesis using Suc.prems by (simp add: nth_append length_rows mult.commute)
  next
    case False
    then have "i < r" using Suc.prems by simp
    then have "c * i + j < r * c" using Suc.prems(2) by (intro pixel_inside)
    then show ?thesis using Suc.IH [OF \<open>i < r\<close> Suc.prems(2)] by (simp add: nth_append length_rows)
  qed
qed simp

lemma picture_pixel: "i < r \<Longrightarrow> j < c \<Longrightarrow> g_data (picture r c f) ! (c * i + j) = f i j"
  unfolding picture_def by (simp add: nth_rows)

lemma picture_size [simp]: "g_rows (picture r c f) = int r" "g_cols (picture r c f) = int c" "length (g_data (picture r c f)) = r * c"
  by (simp_all add: picture_def length_rows)

lemma transposed_picture: "transposed (picture r c f) = picture c r (\<lambda>i j. f j i)"
proof -
  have "map (\<lambda>x. map (\<lambda>y. g_data (picture r c f) ! (y * c + x)) [0..<r]) [0..<c] = map (\<lambda>x. map (\<lambda>y. f y x) [0..<r]) [0..<c]"
    using picture_pixel [of _ r _ c f] by (intro map_cong refl) (simp add: mult.commute)
  then show ?thesis unfolding transposed_def picture_size nat_int by (simp only: picture_def)
qed

text \<open>A mask of such a picture while it is scanned.\<close>

definition mask_is :: "nat \<Rightarrow> nat \<Rightarrow> (nat \<Rightarrow> nat \<Rightarrow> u8) \<Rightarrow> gmat \<Rightarrow> bool" where
  "mask_is r c f m \<longleftrightarrow> g_rows m = int r \<and> g_cols m = int c \<and> length (g_data m) = r * c
     \<and> (\<forall>i < r. \<forall>j < c. g_data m ! (c * i + j) = f i j)"

lemma mask_is_picture: "mask_is r c f (picture r c f)"
  by (simp add: mask_is_def picture_pixel)

lemma pixel_inj: "j < c \<Longrightarrow> j' < c \<Longrightarrow> c * i + j = c * i' + j' \<longleftrightarrow> i = i' \<and> j = (j' :: nat)"
  by (metis add.commute div_mult_self2 add_left_cancel div_less add_cancel_right_left gr_implies_not_zero)

lemma mask_read:
  assumes "mask_is r c f m" and "i < r" and "j < c" and "p = int (c * i + j)"
  shows "ld (g_data m) p = Inr (f i j)"
  using assms pixel_inside [OF assms(2,3)] by (simp add: ld_def mask_is_def del: of_nat_add of_nat_mult)

lemma mask_write:
  assumes "mask_is r c f m" and "i < r" and "j < c" and "p = int (c * i + j)"
  shows "\<exists>d. st (g_data m) p v = Inr d \<and> mask_is r c (\<lambda>i' j'. if i' = i \<and> j' = j then v else f i' j') (m\<lparr>g_data := d\<rparr>)"
proof -
  have in_p: "c * i + j < length (g_data m)" using pixel_inside [OF assms(2,3)] assms(1) by (simp add: mask_is_def)
  have "st (g_data m) p v = Inr ((g_data m)[c * i + j := v])" using in_p unfolding assms(4) by (simp add: st_def del: of_nat_add of_nat_mult)
  moreover have "(g_data m)[c * i + j := v] ! (c * i' + j') = (if i' = i \<and> j' = j then v else f i' j')" if "i' < r" "j' < c" for i' j'
    using assms(1) in_p that pixel_inj [OF that(2) assms(3), of i' i] by (auto simp: mask_is_def nth_list_update)
  ultimately show ?thesis using assms(1) by (simp add: mask_is_def)
qed

subsection \<open>An object pixel of its own\<close>

text \<open>Of a pixel whose neighbours to the left, to the right and below are no object pixels, \<open>findCentroid\<close> finds the position.\<close>

definition lonely :: "nat \<Rightarrow> nat \<Rightarrow> (nat \<Rightarrow> nat \<Rightarrow> u8) \<Rightarrow> nat \<Rightarrow> nat \<Rightarrow> bool" where
  "lonely r c f i j \<longleftrightarrow> 0 < j \<and> j + 1 < c \<and> i + 1 < r \<and> f i j = OBJECT
     \<and> f i (j - 1) \<noteq> OBJECT \<and> f i (j + 1) \<noteq> OBJECT \<and> f (i + 1) j \<noteq> OBJECT"

lemma rnd_small: "0 \<le> n \<Longrightarrow> n < 16777216 \<Longrightarrow> rnd binary32 (of_int n) = Fin (of_int n) \<and> rnd binary64 (of_int n) = Fin (of_int n)"
  by (simp add: rnd32_int rnd64_int)

lemma quotient_exact:
  "0 < n \<Longrightarrow> 0 \<le> k \<Longrightarrow> k < 16777216 \<Longrightarrow> fdiv binary64 (Fin (of_int (k * n))) (Fin (of_int n)) = Fin (of_int k)"
  "0 \<le> k \<Longrightarrow> k < 16777216 \<Longrightarrow> to_fmt binary32 (Fin (of_int k)) = Fin (of_int k)"
  using rnd_small [of k] by simp_all

lemma findCentroid_lonely:
  assumes m: "mask_is r c f msk" and l: "lonely r c f i j" and img: "mask_is r c b img" and v: "0 < uint (b i j)"
    and size: "r \<le> 16384" "c \<le> 16384"
  shows "\<exists>msk'. findCentroid img msk (int j, int i) = Inr ((Fin (of_nat j), Fin (of_nat i)), msk')
    \<and> mask_is r c (\<lambda>i' j'. if i' = i \<and> j' = j then PROCESSED else f i' j') msk'"
proof -
  have ij: "0 < j" "j + 1 < c" "i + 1 < r" "j < c" "i < r" and o: "f i j = OBJECT" "f i (j - 1) \<noteq> OBJECT" "f i (j + 1) \<noteq> OBJECT" "f (i + 1) j \<noteq> OBJECT"
    using l by (auto simp: lonely_def)
  have mm: "g_rows img = int r" "g_cols img = int c" using img by (simp_all add: mask_is_def)
  obtain d where d: "st (g_data msk) (int (c * i + j)) PROCESSED = Inr d"
      "mask_is r c (\<lambda>i' j'. if i' = i \<and> j' = j then PROCESSED else f i' j') (msk\<lparr>g_data := d\<rparr>)"
    using mask_write [OF m ij(5,4) refl] by blast
  let ?s0 = "\<lparr>m01 = Fin 0, m10 = Fin 0, m_sum = Fin 0, f_mask = g_data msk\<rparr>" and ?v = "uint (b i j)" and ?p = "int (c * i + j)"
  let ?maxx = "min (int j + 15) (int c)" and ?minx = "max (int j - 15) 0" and ?maxy = "min (int i + 15) (int r)"
  have v255: "?v < 256" using uint_lt2p [of "b i j"] by simp
  have small: "int i * ?v < 16777216" "int j * ?v < 16777216"
    using size ij v v255 mult_strict_mono [of "int i" 16384 ?v 256] mult_strict_mono [of "int j" 16384 ?v 256] by simp_all
  let ?s1 = "\<lparr>m01 = Fin (of_int (int j * ?v)), m10 = Fin (of_int (int i * ?v)), m_sum = Fin (of_int ?v), f_mask = d\<rparr>"
  have add: "add_pixel (g_data img) (int i) (int j) ?p ?s0 = Inr ?s1"
    using mask_read [OF img ij(5,4) refl] d(1) rnd_small [of "int i * ?v"] rnd_small [of "int j * ?v"] rnd_small [of ?v] small v v255
    by (simp add: add_pixel_def del: of_nat_add of_nat_mult of_int_mult)
  have rd: "ld (g_data msk) ?p = Inr OBJECT" "ld (g_data msk) (?p - 1) = Inr (f i (j - 1))" "ld d (?p + 1) = Inr (f i (j + 1))"
      "ld d (int c * (int i + 1) + int j) = Inr (f (i + 1) j)"
    using mask_read [OF m ij(5,4) refl] o(1) mask_read [OF m ij(5), of "j - 1" "?p - 1"] mask_read [OF d(2) ij(5,2), of "?p + 1"]
      mask_read [OF d(2) ij(3,4), of "int c * (int i + 1) + int j"] ij by (simp_all add: algebra_simps of_nat_diff)
  have left: "fill_left (g_data img) (int i) ?minx (int j - 1) (?p - 1) ?s0 = Inr (int j, ?s0)"
    using ij rd(2) o(2) by (subst fill_left.simps) simp
  have right1: "fill_right (g_data img) (int i) ?maxx (int j + 1) (?p + 1) ?s1 = Inr (int j + 1, ?s1)"
    using ij rd(3) o(3) by (subst fill_right.simps) simp
  have right: "fill_right (g_data img) (int i) ?maxx (int j) ?p ?s0 = Inr (int j + 1, ?s1)"
    using ij rd(1) add right1 by (subst fill_right.simps) simp
  have below: "search_rows (g_data img) (int c) ?maxy ?minx ?maxx (int i + 1) (int j) (int j) ?s1 = Inr ?s1"
    using ij rd(4) o(4) by (subst search_rows.simps) (simp add: Let_def find_start.simps)
  have row_left: "\<not> ?maxy \<le> int i" using ij by simp
  have rows: "search_rows (g_data img) (int c) ?maxy ?minx ?maxx (int i) (int j) (int j + 1) ?s0 = Inr ?s1"
    using rd(1) left right below row_left by (subst search_rows.simps) (simp add: Let_def)
  have q: "fdiv binary64 (Fin (of_int (int k * ?v))) (Fin (of_int ?v)) = Fin (of_nat k)" if "k < 16777216" for k
    using quotient_exact(1) [OF v, of "int k"] that by simp
  have t: "to_fmt binary32 (Fin (of_nat k)) = Fin (of_nat k)" if "k < 16777216" for k using that rnd_small [of "int k"] by simp
  have "findCentroid img msk (int j, int i) = Inr ((Fin (of_nat j), Fin (of_nat i)), msk\<lparr>g_data := d\<rparr>)"
    using rows ij size by (simp add: findCentroid_def mm Let_def MAX_LENS_SIZE_def q t del: of_int_mult of_int_uint fdiv.simps to_fmt.simps)
  with d(2) show ?thesis by blast
qed

subsection \<open>Centroids in an even picture\<close>

text \<open>Where all pixels around have the same brightness, a mask that is symmetric leaves the position as it is.\<close>

lemma interpolated_color:
  assumes "mask_is r c (\<lambda>_ _. b) img" and "r \<le> 16384" and "c \<le> 16384" and "0 \<le> x" and "x + 1 < int c" and "0 \<le> y" and "y + 1 < int r"
  shows "getInterpolatedColor img (Fin (of_int x), Fin (of_int y)) = Inr (pixel_fl b)"
proof -
  have mm: "g_rows img = int r" "g_cols img = int c" "length (g_data img) = r * c" using assms(1) by (simp_all add: mask_is_def)
  have at_xy: "g_data img ! nat (g_cols img * y + x) = b"
  proof -
    have "nat (g_cols img * y + x) = c * nat y + nat x" using assms(4,6) mm by (simp add: nat_eq_iff)
    then show ?thesis using assms mm by (simp add: mask_is_def nat_less_iff)
  qed
  show ?thesis
    using interpolation_exact [of img x y 0 0] assms(2-) mm at_xy by (simp add: pixel_fl_def mult.commute)
qed

definition offsets :: "(int \<times> int) list \<Rightarrow> (fl \<times> fl) list" where
  "offsets ds = map (\<lambda>(dx, dy). (Fin (of_int dx), Fin (of_int dy))) ds"

definition near :: "int \<Rightarrow> (int \<times> int) list \<Rightarrow> bool" where
  "near m ds \<longleftrightarrow> (\<forall>(dx, dy) \<in> set ds. - m \<le> dx \<and> dx \<le> m \<and> - m \<le> dy \<and> dy \<le> m)"

lemma refine_even:
  assumes img: "mask_is r c (\<lambda>_ _. b) img" "r \<le> 16384" "c \<le> 16384"
    and ex: "m \<le> ex" "ex + m + 1 < int c" and ey: "m \<le> ey" "ey + m + 1 < int r" and m: "0 \<le> m" "m \<le> 6"
    and "near m ds" and "0 \<le> s" "s + int (length ds) * 2 ^ 24 \<le> 2 ^ 40" "0 \<le> t" "t + int (length ds) * 2 ^ 24 \<le> 2 ^ 40"
      "0 \<le> w" "w + int (length ds) * 2 ^ 24 \<le> 2 ^ 40"
  shows "rfold (refine_pixel img (Fin (of_int ex), Fin (of_int ey))) (offsets ds) (Fin (of_int s), Fin (of_int t), Fin (of_int w))
    = Inr (Fin (of_int (s + uint b * sum_list (map (\<lambda>d. ex + fst d) ds))), Fin (of_int (t + uint b * sum_list (map (\<lambda>d. ey + snd d) ds))),
        Fin (of_int (w + uint b * int (length ds))))"
  using assms(10-)
proof (induction ds arbitrary: s t w)
  case Nil
  then show ?case by (simp add: offsets_def)
next
  case (Cons d ds)
  obtain dx dy where d: "d = (dx, dy)" by (cases d)
  have b: "0 \<le> uint b" "uint b < 256" using uint_lt2p [of b] by simp_all
  have near: "- m \<le> dx" "dx \<le> m" "- m \<le> dy" "dy \<le> m" using Cons.prems(1) by (simp_all add: near_def d)
  let ?x = "ex + dx" and ?y = "ey + dy"
  have p: "0 \<le> ?x" "?x + 1 < int c" "0 \<le> ?y" "?y + 1 < int r" using near ex ey by simp_all
  have small: "?x < 16384" "?y < 16384" using p img(2,3) by simp_all
  have px: "fadd binary32 (Fin (of_int dx)) (Fin (of_int ex)) = Fin (of_int ?x)" "fadd binary32 (Fin (of_int dy)) (Fin (of_int ey)) = Fin (of_int ?y)"
    using rnd_small [of ?x] rnd_small [of ?y] p small by (simp_all add: add.commute)
  have bx: "0 \<le> uint b * k" "uint b * k < 2 ^ 24" if "0 \<le> k" "k < 16384" for k
    using that b mult_mono [of "uint b" 256 k 16384] mult_strict_mono [of "uint b" 256 k 16384] by (cases "k = 0"; simp)+
  have mul: "fmul binary32 (Fin (of_int k)) (pixel_fl b) = Fin (of_int (uint b * k))" if "0 \<le> k" "k < 16384" for k
    using bx [OF that] rnd_small [of "uint b * k"] by (simp add: pixel_fl_def mult.commute)
  have add: "fadd binary64 (Fin (of_int u)) (Fin (of_int k)) = Fin (of_int (u + k))" if "0 \<le> u" "u \<le> 2 ^ 40" "0 \<le> k" "k < 2 ^ 24" for u k
    using rnd64_int [of "u + k"] that by simp
  have step: "refine_pixel img (Fin (of_int ex), Fin (of_int ey)) (Fin (of_int dx), Fin (of_int dy)) (Fin (of_int s), Fin (of_int t), Fin (of_int w))
      = Inr (Fin (of_int (s + uint b * ?x)), Fin (of_int (t + uint b * ?y)), Fin (of_int (w + uint b)))"
    using interpolated_color [OF img p] mul [OF p(1) small(1)] mul [OF p(3) small(2)] add [of s "uint b * ?x"] add [of t "uint b * ?y"] add [of w "uint b"]
      bx [OF p(1) small(1)] bx [OF p(3) small(2)] b Cons.prems(2-)
    by (simp add: refine_pixel_def Let_def px pixel_fl_def [of b] del: fadd.simps fmul.simps of_int_add of_int_mult)
  have rest: "near m ds" using Cons.prems(1) by (simp add: near_def)
  have "rfold (refine_pixel img (Fin (of_int ex), Fin (of_int ey))) (offsets ds) (Fin (of_int (s + uint b * ?x)), Fin (of_int (t + uint b * ?y)), Fin (of_int (w + uint b)))
    = Inr (Fin (of_int ((s + uint b * ?x) + uint b * sum_list (map (\<lambda>d. ex + fst d) ds))), Fin (of_int ((t + uint b * ?y) + uint b * sum_list (map (\<lambda>d. ey + snd d) ds))),
        Fin (of_int ((w + uint b) + uint b * int (length ds))))"
    by (rule Cons.IH [OF rest]) (use Cons.prems(2-) bx [OF p(1) small(1)] bx [OF p(3) small(2)] b in simp_all)
  then show ?case using step by (simp add: offsets_def d algebra_simps del: of_int_add of_int_mult)
qed

lemma refine_step_even:
  assumes "mask_is r c (\<lambda>_ _. b) img" "r \<le> 16384" "c \<le> 16384" and "0 < uint b"
    and "m \<le> ex" "ex + m + 1 < int c" and "m \<le> ey" "ey + m + 1 < int r" and "0 \<le> m" "m \<le> 6"
    and ds: "near m ds" "ds \<noteq> []" "length ds \<le> 1000" "sum_list (map fst ds) = 0" "sum_list (map snd ds) = 0"
  shows "refine_step img (offsets ds) (Fin (of_int ex), Fin (of_int ey)) = Inr (Fin (of_int ex), Fin (of_int ey))"
proof -
  let ?n = "int (length ds)"
  have sums: "sum_list (map (\<lambda>d. ex + fst d) ds) = ?n * ex" "sum_list (map (\<lambda>d. ey + snd d) ds) = ?n * ey"
    using ds(4,5) by (simp_all add: sum_list_addf sum_list_const_mult [symmetric] sum_list_triv)
  have "rfold (refine_pixel img (Fin (of_int ex), Fin (of_int ey))) (offsets ds) (Fin (of_int 0), Fin (of_int 0), Fin (of_int 0))
    = Inr (Fin (of_int (uint b * (?n * ex))), Fin (of_int (uint b * (?n * ey))), Fin (of_int (uint b * ?n)))"
    using refine_even [OF assms(1-3,5-11), of 0 0 0] ds(3) unfolding sums by simp
  moreover have "fdiv binary64 (Fin (of_int (uint b * (?n * k)))) (Fin (of_int (uint b * ?n))) = Fin (of_int k)" if "0 \<le> k" "k < 16384" for k
    using quotient_exact(1) [of "uint b * ?n" k] assms(4) ds(2) that by (simp only: ac_simps) simp
  moreover have "to_fmt binary32 (Fin (of_int k)) = Fin (of_int k)" if "0 \<le> k" "k < 16384" for k using that rnd_small [of k] by simp
  ultimately show ?thesis using assms(2,3,5-9) by (simp add: refine_step_def del: of_int_mult fdiv.simps)
qed


text \<open>A square root whose masks are symmetric.\<close>

definition even_masks :: "(fl \<Rightarrow> fl) \<Rightarrow> bool" where
  "even_masks sqrt_fn \<longleftrightarrow> (\<forall>radius \<in> {3, 4, 5, 6}. \<exists>ds. computeMask sqrt_fn radius = Inr (offsets ds)
     \<and> near 6 ds \<and> ds \<noteq> [] \<and> length ds \<le> 1000 \<and> sum_list (map fst ds) = 0 \<and> sum_list (map snd ds) = 0)"

lemma refineCentroid_even:
  assumes "even_masks sqrt_fn" and "mask_is r c (\<lambda>_ _. b) img" "r \<le> 16384" "c \<le> 16384" and "0 < uint b"
    and "6 \<le> ex" "ex + 7 < int c" and "6 \<le> ey" "ey + 7 < int r"
  shows "refineCentroid sqrt_fn img (Fin (of_int ex), Fin (of_int ey)) = Inr (Fin (of_int ex), Fin (of_int ey))"
proof -
  let ?e = "(Fin (of_int ex), Fin (of_int ey))"
  have msk: "\<exists>msk. computeMask sqrt_fn radius = Inr msk \<and> refine_step img msk ?e = Inr ?e" if r: "radius \<in> {3, 4, 5, 6}" for radius
  proof -
    obtain ds where ds: "computeMask sqrt_fn radius = Inr (offsets ds)" "near 6 ds" "ds \<noteq> []" "length ds \<le> 1000" "sum_list (map fst ds) = 0" "sum_list (map snd ds) = 0"
      using assms(1) r unfolding even_masks_def by blast
    show ?thesis using ds(1) refine_step_even [OF assms(2-6) _ assms(8) _ _ _ ds(2-6)] assms(7,9) by simp
  qed
  obtain m3 m4 m5 m6 where "computeMask sqrt_fn 3 = Inr m3" "refine_step img m3 ?e = Inr ?e" "computeMask sqrt_fn 4 = Inr m4" "refine_step img m4 ?e = Inr ?e"
      "computeMask sqrt_fn 5 = Inr m5" "refine_step img m5 ?e = Inr ?e" "computeMask sqrt_fn 6 = Inr m6" "refine_step img m6 ?e = Inr ?e"
    using msk [of 3] msk [of 4] msk [of 5] msk [of 6] by auto
  then show ?thesis by (simp add: refineCentroid_def)
qed

subsection \<open>Scanning\<close>

definition scan_mask :: "(nat \<times> nat) set \<Rightarrow> (nat \<times> nat) set \<Rightarrow> nat \<Rightarrow> nat \<Rightarrow> u8" where
  "scan_mask objs seen i j = (if (i, j) \<in> objs then if (i, j) \<in> seen then 192 else OBJECT else EMPTY)"

definition isolated :: "nat \<Rightarrow> nat \<Rightarrow> (nat \<times> nat) set \<Rightarrow> bool" where
  "isolated r c objs \<longleftrightarrow> (\<forall>(i, j) \<in> objs. 6 \<le> i \<and> i + 7 < r \<and> 6 \<le> j \<and> j + 7 < c
     \<and> (i, j - 1) \<notin> objs \<and> (i, j + 1) \<notin> objs \<and> (i + 1, j) \<notin> objs)"

definition add_object :: "nat \<times> nat \<Rightarrow> PointGrid \<Rightarrow> PointGrid" where
  "add_object = (\<lambda>(i, j). addPoint (Fin (of_nat j), Fin (of_nat i)))"

lemma OBJECT_values: "EMPTY \<noteq> OBJECT" "(192 :: u8) \<noteq> OBJECT"
  by (simp_all add: EMPTY_def OBJECT_def)

lemma mask_is_cong: "mask_is r c f m \<Longrightarrow> (\<And>i j. i < r \<Longrightarrow> j < c \<Longrightarrow> f i j = f' i j) \<Longrightarrow> mask_is r c f' m"
  by (simp add: mask_is_def)

lemma detect_pixel_even:
  assumes sq: "even_masks sqrt_fn" and img: "mask_is r c (\<lambda>_ _. b) img" "r \<le> 16384" "c \<le> 16384" "0 < uint b" and objs: "isolated r c objs"
    and m: "mask_is r c (scan_mask objs seen) m" and p: "i < r" "j < c" "(i, j) \<notin> seen"
  shows "\<exists>m'. detect_pixel sqrt_fn img (int i, int j) (m, g) = Inr (m', if (i, j) \<in> objs then add_object (i, j) g else g)
    \<and> mask_is r c (scan_mask objs (insert (i, j) seen)) m'"
proof -
  have at_p: "mat_at m (int i) (int j) = Inr (scan_mask objs seen i j)"
    using mask_read [OF m p(1,2), of "int c * int i + int j"] m by (simp add: mat_at_def mask_is_def)
  show ?thesis
  proof (cases "(i, j) \<in> objs")
    case False
    then have "mask_is r c (scan_mask objs (insert (i, j) seen)) m" using m by (auto simp: scan_mask_def elim: mask_is_cong)
    then show ?thesis using False at_p OBJECT_values by (simp add: detect_pixel_def scan_mask_def)
  next
    case True
    have o: "6 \<le> i" "i + 7 < r" "6 \<le> j" "j + 7 < c" "(i, j - 1) \<notin> objs" "(i, j + 1) \<notin> objs" "(i + 1, j) \<notin> objs"
      using objs True unfolding isolated_def by auto
    have v: "scan_mask objs seen i j = OBJECT" using True p(3) by (simp add: scan_mask_def)
    have "lonely r c (scan_mask objs seen) i j" using o v OBJECT_values by (simp add: lonely_def) (simp add: scan_mask_def)
    from findCentroid_lonely [OF m this img(1) img(4) img(2,3)] obtain m1 where
      m1: "findCentroid img m (int j, int i) = Inr ((Fin (of_nat j), Fin (of_nat i)), m1)"
        "mask_is r c (\<lambda>i' j'. if i' = i \<and> j' = j then PROCESSED else scan_mask objs seen i' j') m1" by blast
    have rf: "refineCentroid sqrt_fn img (Fin (of_nat j), Fin (of_nat i)) = Inr (Fin (of_nat j), Fin (of_nat i))"
      using refineCentroid_even [OF sq img(1-4), of "int j" "int i"] o by simp
    obtain d where d: "st (g_data m1) (int (c * i + j)) 192 = Inr d"
        "mask_is r c (\<lambda>i' j'. if i' = i \<and> j' = j then 192 else if i' = i \<and> j' = j then PROCESSED else scan_mask objs seen i' j') (m1\<lparr>g_data := d\<rparr>)"
      using mask_write [OF m1(2) p(1,2) refl] by blast
    have "mark_centroid (Fin (of_nat j), Fin (of_nat i)) m1 = Inr (m1\<lparr>g_data := d\<rparr>)"
      using d(1) m1(2) rne_of_int [of "int i"] rne_of_int [of "int j"] by (simp add: mark_centroid_def mask_is_def)
    then have "detect_pixel sqrt_fn img (int i, int j) (m, g) = Inr (m1\<lparr>g_data := d\<rparr>, add_object (i, j) g)"
      using at_p v m1(1) rf by (simp add: detect_pixel_def add_object_def)
    moreover have "mask_is r c (scan_mask objs (insert (i, j) seen)) (m1\<lparr>g_data := d\<rparr>)"
      using d(2) by (rule mask_is_cong) (use True in \<open>auto simp: scan_mask_def\<close>)
    ultimately show ?thesis using True by auto
  qed
qed

lemma scan_even:
  assumes sq: "even_masks sqrt_fn" and img: "mask_is r c (\<lambda>_ _. b) img" "r \<le> 16384" "c \<le> 16384" "0 < uint b" and objs: "isolated r c objs"
    and "mask_is r c (scan_mask objs seen) m" and "distinct ps" and "\<forall>(i, j) \<in> set ps. i < r \<and> j < c \<and> (i, j) \<notin> seen"
  shows "\<exists>m'. rfold (detect_pixel sqrt_fn img) (map (map_prod int int) ps) (m, g) = Inr (m', fold add_object (filter (\<lambda>p. p \<in> objs) ps) g)"
  using assms(7-)
proof (induction ps arbitrary: m g seen)
  case (Cons p ps)
  obtain i j where p: "p = (i, j)" by (cases p)
  let ?g = "if (i, j) \<in> objs then add_object (i, j) g else g"
  obtain m1 where m1: "detect_pixel sqrt_fn img (int i, int j) (m, g) = Inr (m1, ?g)" "mask_is r c (scan_mask objs (insert (i, j) seen)) m1"
    using detect_pixel_even [OF sq img objs Cons.prems(1), of i j g] Cons.prems(3) by (auto simp: p)
  have "distinct ps" "\<forall>(i', j') \<in> set ps. i' < r \<and> j' < c \<and> (i', j') \<notin> insert (i, j) seen" using Cons.prems(2,3) by (auto simp: p)
  from Cons.IH [OF m1(2) this, of ?g] m1(1) show ?case by (auto simp: p)
qed simp

text \<open>All pixels of a picture, row by row.\<close>

definition places :: "nat \<Rightarrow> nat \<Rightarrow> (nat \<times> nat) list" where
  "places r c = List.product [0..<r] [0..<c]"

lemma upto_upt: "[0..int n - 1] = map int [0..<n]"
  by (induction n) (simp_all add: upto_rec2)

lemma pixels_places: "g_rows m = int r \<Longrightarrow> g_cols m = int c \<Longrightarrow> pixels m = map (map_prod int int) (places r c)"
  by (simp add: pixels_def places_def upto_upt product_concat_map map_concat comp_def)

lemma set_places: "(i, j) \<in> set (places r c) \<longleftrightarrow> i < r \<and> j < c"
  by (simp add: places_def)

lemma distinct_places: "distinct (places r c)"
  unfolding places_def by (intro distinct_product) simp_all

text \<open>The detector on an even picture with isolated objects: it finds their positions, row by row, and finalizes the grid of them.\<close>

lemma detect_even:
  assumes "even_masks sqrt_fn" and gray: "to_gray cv img = picture c r (\<lambda>_ _. b)" and msk: "preprocess cv (to_gray cv img) = picture c r (\<lambda>j i. scan_mask objs {} i j)"
    and mean: "mean_of cv (to_gray cv img) (1620, 1620, 40, 40) = Inr (Fin (of_int v))" "16 \<le> v" "v \<le> 240"
    and "r \<le> 16384" "c \<le> 16384" "0 < uint b" and "isolated r c objs"
  shows "detect cv sqrt_fn img = finalize (fold add_object (filter (\<lambda>p. p \<in> objs) (places r c)) PointGrid_ctor)"
proof -
  let ?m = "picture r c (scan_mask objs {})"
  have m: "transposed (preprocess cv (to_gray cv img)) = ?m" "transposed (to_gray cv img) = picture r c (\<lambda>_ _. b)"
    by (simp_all only: msk, simp_all only: gray transposed_picture)
  obtain m' where m': "rfold (detect_pixel sqrt_fn (picture r c (\<lambda>_ _. b))) (map (map_prod int int) (places r c)) (?m, PointGrid_ctor)
      = Inr (m', fold add_object (filter (\<lambda>p. p \<in> objs) (places r c)) PointGrid_ctor)"
    using scan_even [OF assms(1) mask_is_picture assms(7-10) mask_is_picture distinct_places [of r c], where seen = "{}" and g = PointGrid_ctor] by (fastforce simp: set_places)
  have u: "uint8_of (Fin (of_int v)) = Inr (of_int v)" using mean(2,3) by (simp add: uint8_of_def)
  have "uint (of_int v :: u8) = v" using mean(2,3) by (simp add: uint_word_of_int)
  then have w: "\<not> ((of_int v :: u8) < 16 \<or> 240 < (of_int v :: u8))" using mean(2,3) by (simp add: word_less_def)
  show ?thesis
    using w by (simp add: detect_def Let_def mean(1) u m pixels_places m')
qed

subsection \<open>A picture of 24 lenses\<close>

text \<open>The square root of the numbers that the masks need, to the nearest integer.\<close>

fun nearest_root :: "fl \<Rightarrow> fl" where
  "nearest_root (Fin a) = Fin (of_nat (length (filter (\<lambda>k. of_int (k * (k - 1)) < a) [1..6])))"
| "nearest_root a = a"

definition disc :: "int \<Rightarrow> (int \<times> int) list" where
  "disc radius = concat (map (\<lambda>y. let h = int (length (filter (\<lambda>k. k * (k - 1) < radius * radius - y * y) [1..6]))
     in map (\<lambda>x. (x, y)) [- h..h]) (rev [- radius..radius]))"

lemma round_int_small: "h \<le> 6 \<Longrightarrow> round_int (Fin (of_int (int h))) = Inr (int h)"
proof -
  assume h: "h \<le> 6"
  have "\<lfloor>of_int (int h) + (1 / 2 :: rat)\<rfloor> = int h" by (rule floor_unique) simp_all
  then show ?thesis using h by (simp add: Let_def)
qed

lemma mask_row_disc:
  assumes "\<bar>y\<bar> \<le> radius" and "radius \<le> 6"
  shows "mask_row nearest_root (fl_of_int binary32 (radius * radius)) y acc =
    Inr (acc @ offsets (let h = int (length (filter (\<lambda>k. k * (k - 1) < radius * radius - y * y) [1..6])) in map (\<lambda>x. (x, y)) [- h..h]))"
proof -
  let ?h = "length (filter (\<lambda>k. k * (k - 1) < radius * radius - y * y) [1..6])"
  have "\<bar>y\<bar> * \<bar>y\<bar> \<le> radius * radius" "radius * radius \<le> 6 * 6" using assms by (intro mult_mono; simp)+
  then have r: "0 \<le> radius * radius" "radius * radius \<le> 36" "0 \<le> y * y" "y * y \<le> radius * radius" by simp_all
  then have d: "\<bar>radius * radius - y * y\<bar> < 16777216" by linarith
  have h: "?h \<le> 6" using length_filter_le [of _ "[1..6]"] by (rule order_trans) simp
  have s: "fsub binary32 (fl_of_int binary32 (radius * radius)) (fl_of_int binary32 (y * y)) = Fin (of_int (radius * radius - y * y))"
    using r d rnd32_int [of "radius * radius"] rnd32_int [of "y * y"] rnd32_int [of "radius * radius - y * y"]
    by (simp add: fl_of_int_def fsub_def)
  have n: "nearest_root (Fin (of_int (radius * radius - y * y))) = Fin (of_int (int ?h))"
    by (simp only: nearest_root.simps of_int_less_iff of_int_of_nat_eq)
  note i = round_int_small [OF h]
  have m: "fl_of_int binary32 k = Fin (of_int k)" if "\<bar>k\<bar> \<le> 6" for k
    using that rnd32_int [of k] by (simp add: fl_of_int_def)
  have row: "map (\<lambda>x. (fl_of_int binary32 x, fl_of_int binary32 y)) [- int k..int k]
      = map (\<lambda>(dx, dy). (Fin (of_int dx), Fin (of_int dy))) (map (\<lambda>x. (x, y)) [- int k..int k])" if "k \<le> 6" for k
    using that m assms by auto
  show ?thesis
    unfolding mask_row_def s n i offsets_def Let_def rbind.simps row [OF h] ..
qed

lemma computeMask_disc:
  assumes "radius \<le> 6"
  shows "computeMask nearest_root radius = Inr (offsets (disc radius))"
proof -
  have "rfold (mask_row nearest_root (fl_of_int binary32 (radius * radius))) ys acc
    = Inr (acc @ offsets (concat (map (\<lambda>y. let h = int (length (filter (\<lambda>k. k * (k - 1) < radius * radius - y * y) [1..6]))
        in map (\<lambda>x. (x, y)) [- h..h]) ys)))" if "\<forall>y \<in> set ys. \<bar>y\<bar> \<le> radius" for ys acc
    using that
  proof (induction ys arbitrary: acc)
    case (Cons y ys)
    then show ?case using mask_row_disc [OF _ assms, of y acc] by (simp add: offsets_def)
  qed (simp add: offsets_def)
  from this [of "rev [- radius..radius]" "[]"] show ?thesis by (simp add: computeMask_def disc_def abs_le_iff)
qed

lemma nearest_root_even: "even_masks nearest_root"
proof -
  have "near 6 (disc r) \<and> disc r \<noteq> [] \<and> length (disc r) \<le> 1000 \<and> sum_list (map fst (disc r)) = 0 \<and> sum_list (map snd (disc r)) = 0"
    if "r \<in> {3, 4, 5, 6}" for r
  proof -
    have "\<forall>r \<in> set [3, 4, 5, 6]. near 6 (disc r) \<and> disc r \<noteq> [] \<and> length (disc r) \<le> 1000 \<and> sum_list (map fst (disc r)) = 0 \<and> sum_list (map snd (disc r)) = 0"
      by code_simp
    then show ?thesis using that by auto
  qed
  then show ?thesis unfolding even_masks_def using computeMask_disc by fastforce
qed

definition lens_cols :: "nat \<Rightarrow> nat list" where
  "lens_cols i = (if i \<in> {8, 18, 38} then [8, 16, 24, 32] else if i \<in> {13, 23, 43} then [12, 20, 28, 36] else [])"

definition lens_list :: "(nat \<times> nat) list" where
  "lens_list = concat (map (\<lambda>i. map (Pair i) (lens_cols i)) [8, 13, 18, 23, 38, 43])"

lemma lens_isolated: "isolated 52 44 (set lens_list)"
  unfolding isolated_def by code_simp

lemma lens_list_iff: "(i, j) \<in> set lens_list \<longleftrightarrow> j \<in> set (lens_cols i)"
  by (auto simp: lens_list_def lens_cols_def)

lemma lens_cols_filter: "filter (\<lambda>j. j \<in> set (lens_cols i)) [0..<44] = lens_cols i"
proof -
  have "filter (\<lambda>j. j \<in> set [8, 16, 24, 32]) [0..<44] = [8, 16, 24, 32]" "filter (\<lambda>j. j \<in> set [12, 20, 28, 36]) [0..<44] = [12, 20, 28, 36]"
    by code_simp+
  then show ?thesis by (simp add: lens_cols_def)
qed

lemma lens_places: "filter (\<lambda>p. p \<in> set lens_list) (places 52 44) = lens_list"
proof -
  have "filter (\<lambda>p. p \<in> set lens_list) (places 52 44) = concat (map (\<lambda>i. map (Pair i) (filter (\<lambda>j. j \<in> set (lens_cols i)) [0..<44])) [0..<52])"
    by (simp only: places_def product_concat_map filter_concat map_map comp_def filter_map lens_list_iff)
  moreover have "concat (map (\<lambda>i. map (Pair i) (lens_cols i)) [0..<52]) = lens_list" by code_simp
  ultimately show ?thesis by (simp only: lens_cols_filter)
qed

definition lens_grid :: PointGrid where
  "lens_grid = fold add_object lens_list PointGrid_ctor"

definition lens_points :: "(fl \<times> fl) list" where
  "lens_points = [(Fin 8, Fin 8), (Fin 16, Fin 8), (Fin 24, Fin 8), (Fin 32, Fin 8), (Fin 12, Fin 13), (Fin 20, Fin 13), (Fin 28, Fin 13), (Fin 36, Fin 13),
     (Fin 8, Fin 18), (Fin 16, Fin 18), (Fin 24, Fin 18), (Fin 32, Fin 18), (Fin 12, Fin 23), (Fin 20, Fin 23), (Fin 28, Fin 23), (Fin 36, Fin 23),
     (Fin 8, Fin 38), (Fin 16, Fin 38), (Fin 24, Fin 38), (Fin 32, Fin 38), (Fin 12, Fin 43), (Fin 20, Fin 43), (Fin 28, Fin 43), (Fin 36, Fin 43)]"

lemma lens_grid_points: "lens_grid = fold addPoint lens_points PointGrid_ctor"
  by (simp add: lens_grid_def lens_list_def lens_cols_def lens_points_def add_object_def)

lemma lens_grid_finalized:
  "case finalize lens_grid of
     Inl e \<Rightarrow> False
   | Inr g \<Rightarrow> length (linesHorizontal g) = 8 \<and> linesVertical g \<noteq> [] \<and> length (linesVertical g) \<le> 24 \<and> list_all (\<lambda>l. 2 \<le> length (line l)) (linesHorizontal g @ linesVertical g)"
  unfolding lens_grid_points by code_simp

definition even_camera :: "'i cv_image" where
  "even_camera = \<lparr>to_gray = (\<lambda>_. picture 44 52 (\<lambda>_ _. 200)), mean_of = (\<lambda>_ _. Inr (Fin 128)),
     preprocess = (\<lambda>_. picture 44 52 (\<lambda>j i. scan_mask (set lens_list) {} i j))\<rparr>"

lemma even_camera_size: "g_rows (to_gray even_camera img) = 44" "g_cols (to_gray even_camera img) = 52"
  by (simp_all add: even_camera_def)

lemma even_camera_grid:
  "\<exists>g. detect even_camera nearest_root img = Inr g \<and> length (linesHorizontal g) = 8 \<and> linesVertical g \<noteq> []
    \<and> length (linesVertical g) \<le> 24 \<and> (\<forall>l \<in> set (linesHorizontal g) \<union> set (linesVertical g). 2 \<le> length (line l))"
proof -
  have "detect even_camera nearest_root img = finalize lens_grid"
    using detect_even [OF nearest_root_even, of even_camera img 44 52 200 "set lens_list" 128] lens_isolated lens_places
    by (simp add: even_camera_def lens_grid_def)
  then show ?thesis using lens_grid_finalized by (auto simp: list_all_iff split: sum.splits)
qed

end
