(* ===== verification/Lens_Scan.thy ===== *)
theory Lens_Scan
  imports Even_Picture
begin

text \<open>
  What the lens detector returns, as a whole: whatever the mask and the picture are, the grid that \<open>detect\<close> returns is
  the empty one of a flat picture or a finished grid with coordinates inside of this picture.

  The argument follows a centroid through \<open>refineCentroid\<close>. Each step is a mean of positions weighted by
  interpolated brightness; positions outside of the picture have the weight 0. The sums are compared with each other (\<open>weighted\<close>):
  with every pixel the roundings can raise their quotient by the factor \<open>growth\<close>, and all pixels of a mask together by less
  than half a pixel (\<open>last_bound\<close>). A step that divides by a sum of 0 gives
  a NaN, which the next one and \<open>mark_centroid\<close> cannot convert, so it never gets into a grid that is returned.
\<close>

subsection \<open>Interpolation\<close>

definition MAX_SIDE :: int where "MAX_SIDE = 2 ^ 14"

lemma upto_part:
  assumes "upto_bound 1 a" and "upto_bound 1 b"
  shows "upto_bound 255 (fmul binary32 (fmul binary32 (pixel_fl p) a) b)"
proof -
  have "uint p \<le> 255" using uint_lt2p [of p] by simp
  then have "(of_int (uint p) :: rat) \<le> of_int 255" by (simp only: of_int_le_iff)
  moreover have "0 \<le> (of_int (uint p) :: rat)" by (simp only: of_int_0_le_iff uint_ge_0)
  ultimately have "upto_bound 255 (pixel_fl p)" by (simp add: upto_bound_def pixel_fl_def)
  from b32.upto_fmul [OF this assms(1)] have "upto_bound 255 (fmul binary32 (pixel_fl p) a)" by simp
  from b32.upto_fmul [OF this assms(2)] show ?thesis by simp
qed

lemma upto_fraction:
  assumes "0 \<le> x" and "\<lfloor>x\<rfloor> < 16777216"
  shows "upto_bound 1 (fsub binary32 (Fin x) (fl_of_int binary32 \<lfloor>x\<rfloor>))"
proof -
  have "fsub binary32 (Fin x) (fl_of_int binary32 \<lfloor>x\<rfloor>) = rnd binary32 (x - of_int \<lfloor>x\<rfloor>)"
    using assms by (simp add: fsub_def fl_of_int_def rnd32_int)
  then show ?thesis using b32.upto_rnd [of "x - of_int \<lfloor>x\<rfloor>" 1] by simp linarith
qed

lemma upto_rest:
  assumes "upto_bound 1 a"
  shows "upto_bound 1 (to_fmt binary32 (fsub binary64 (Fin 1) a))"
proof -
  obtain x where x: "a = Fin x" "0 \<le> x" "x \<le> 1" using assms unfolding upto_bound_def by blast
  then have "upto_bound 1 (fsub binary64 (Fin 1) a)" using b64.upto_rnd [of "1 - x" 1] by (simp add: fsub_def)
  then show ?thesis by (rule b32.upto_to_fmt) simp_all
qed

lemma upto_sum4:
  assumes "upto_bound 255 a" "upto_bound 255 b" "upto_bound 255 c" "upto_bound 255 d"
  shows "upto_bound 1020 (fadd binary32 (fadd binary32 (fadd binary32 a b) c) d)"
  using b32.upto_fadd [OF b32.upto_fadd [OF b32.upto_fadd [OF assms(1,2)] assms(3)] assms(4)]
  by simp

text \<open>A coordinate of a picture with \<open>n\<close> columns, or rows.\<close>

definition on_side :: "int \<Rightarrow> fl \<Rightarrow> bool" where
  "on_side n c \<longleftrightarrow> 1 \<le> n \<and> upto_bound (of_int (n - 1)) c"

text \<open>The interpolated brightness is between 0 and 1020, and 0 outside of the picture.\<close>

lemma interpolated:
  assumes "getInterpolatedColor img (px, py) = Inr a" and "g_cols img \<le> MAX_SIDE" and "g_rows img \<le> MAX_SIDE"
  shows "upto_bound 1020 a \<and> represents binary32 a
    \<and> (a = Fin 0 \<or> on_side (g_cols img) px \<and> on_side (g_rows img) py)"
proof (cases "a = Fin 0")
  case True
  then show ?thesis by (simp add: upto_bound_def)
next
  case False
  let ?w = "fl_of_int binary32 (g_cols img - 1)" and ?h = "fl_of_int binary32 (g_rows img - 1)"
  have within_image: "\<not> (flt px (Fin 0) \<or> flt ?w px \<or> flt py (Fin 0) \<or> flt ?h py)"
    using assms(1) False by (auto simp: getInterpolatedColor_def)
  obtain x0 y0 f00 f01 f10 f11 x1dif y1dif where x0: "floor_uint px = Inr x0" and y0: "floor_uint py = Inr y0"
    and x1: "x1dif = to_fmt binary32 (fsub binary64 (Fin 1) (fsub binary32 px (fl_of_int binary32 x0)))"
    and y1: "y1dif = to_fmt binary32 (fsub binary64 (Fin 1) (fsub binary32 py (fl_of_int binary32 y0)))"
    and a: "a = fadd binary32 (fadd binary32 (fadd binary32
        (fmul binary32 (fmul binary32 (pixel_fl f00) y1dif) x1dif)
        (fmul binary32 (fmul binary32 (pixel_fl f10) (fsub binary32 px (fl_of_int binary32 x0))) y1dif))
        (fmul binary32 (fmul binary32 (pixel_fl f01) x1dif) (fsub binary32 py (fl_of_int binary32 y0))))
        (fmul binary32 (fmul binary32 (pixel_fl f11) (fsub binary32 px (fl_of_int binary32 x0))) (fsub binary32 py (fl_of_int binary32 y0)))"
    using assms(1) within_image by (auto simp: getInterpolatedColor_def res_simps Let_def)
  have coordinate: "\<exists>x. p = Fin x \<and> 0 \<le> x \<and> x \<le> of_int (n - 1) \<and> 1 \<le> n \<and> i = \<lfloor>x\<rfloor> \<and> \<lfloor>x\<rfloor> < 16777216"
    if p: "floor_uint p = Inr i" "\<not> flt p (Fin 0)" "\<not> flt (fl_of_int binary32 (n - 1)) p" "n \<le> MAX_SIDE" for p i n
  proof -
    obtain x where x: "p = Fin x" "i = \<lfloor>x\<rfloor>" using p(1) by (cases p) (auto split: if_splits)
    have x0: "0 \<le> x" using p(2) by (simp add: x)
    have le: "fle (Fin x) (rnd binary32 (of_int (n - 1)))" using p(3) x r32.r_not_NaN not_flt_iff unfolding fl_of_int_def by blast
    have n: "1 \<le> n"
    proof (rule ccontr)
      assume "\<not> 1 \<le> n"
      then have "fle (rnd binary32 (of_int (n - 1))) (rnd binary32 (of_int (- 1)))" by (intro r32.r_mono) simp
      then have "fle (Fin x) (rnd binary32 (of_int (- 1)))" using le fle_trans by blast
      then show False using x0 rnd32_int [of "- 1"] by simp
    qed
    have "rnd binary32 (of_int (n - 1)) = Fin (of_int (n - 1))" using p(4) n by (intro rnd32_int) (simp add: MAX_SIDE_def)
    then have "x \<le> of_int (n - 1)" using le by simp
    moreover from this have "\<lfloor>x\<rfloor> \<le> n - 1" by (simp only: floor_le_iff)
    ultimately show ?thesis using x x0 n p(4) by (simp add: MAX_SIDE_def)
  qed
  obtain x where x: "px = Fin x" "0 \<le> x" "x \<le> of_int (g_cols img - 1)" "1 \<le> g_cols img" "x0 = \<lfloor>x\<rfloor>" "\<lfloor>x\<rfloor> < 16777216"
    using coordinate [OF x0 _ _ assms(2)] within_image by blast
  obtain y where y: "py = Fin y" "0 \<le> y" "y \<le> of_int (g_rows img - 1)" "1 \<le> g_rows img" "y0 = \<lfloor>y\<rfloor>" "\<lfloor>y\<rfloor> < 16777216"
    using coordinate [OF y0 _ _ assms(3)] within_image by blast
  have d: "upto_bound 1 (fsub binary32 px (fl_of_int binary32 x0))" "upto_bound 1 (fsub binary32 py (fl_of_int binary32 y0))"
    using upto_fraction [OF x(2,6)] upto_fraction [OF y(2,6)] x y by simp_all
  have r: "upto_bound 1 x1dif" "upto_bound 1 y1dif" using upto_rest [OF d(1)] upto_rest [OF d(2)] x1 y1 by simp_all
  have "upto_bound 1020 a"
    unfolding a by (intro upto_sum4 upto_part d r)
  moreover have "represents binary32 a" unfolding a by (rule b32.represents_fadd)
  ultimately show ?thesis using x y by (simp add: on_side_def upto_bound_def)
qed

subsection \<open>Weighted sums\<close>

text \<open>The sum of positions, each weighted, against the sum of the weights, for a side of \<open>n\<close> pixels: the quotient is at most \<open>k\<close>,
  which grows with every step by what the two roundings to \<open>double\<close> can add.\<close>

definition weighted :: "int \<Rightarrow> rat \<Rightarrow> fl \<Rightarrow> fl \<Rightarrow> bool" where
  "weighted n k s w \<longleftrightarrow> s = NaN
     \<or> (w = Fin 0 \<or> 1 \<le> n) \<and> (s = PInf \<or> (\<exists>u. s = Fin u \<and> 0 \<le> u)) \<and> (w = PInf
          \<or> (\<exists>m. w = Fin m \<and> normal m \<and> (\<forall>u. s = Fin u \<longrightarrow> u \<le> k * m)))"

definition eps :: rat where "eps = 2 powi (- 53)"

definition growth :: rat where "growth = (1 + eps) / (1 - eps)"

definition first_bound :: "int \<Rightarrow> rat" where
  "first_bound n = of_int (max 0 (n - 1)) * (1 + 2 powi (- 24))"

lemma eps_bounds: "0 < eps" "0 < 1 - eps"
  by (simp_all add: eps_def power_int_minus)

lemma growth_ge: "1 \<le> growth"
  using eps_bounds by (simp add: growth_def)

definition wide :: "rat \<Rightarrow> bool" where
  "wide k \<longleftrightarrow> k = 0 \<or> 1 \<le> k"

lemma wide_first: "wide (first_bound n)"
proof (cases "2 \<le> n")
  case True
  then have "of_int 1 \<le> (of_int (n - 1) :: rat)" by (simp only: of_int_le_iff)
  then have "1 \<le> (of_int (n - 1) :: rat)" by simp
  moreover have "1 \<le> (1 + 2 powi (- 24) :: rat)" by simp
  ultimately have "1 * 1 \<le> of_int (n - 1) * (1 + 2 powi (- 24) :: rat)" by (intro mult_mono) simp_all
  then show ?thesis using True by (simp add: wide_def first_bound_def)
qed (simp add: wide_def first_bound_def)

lemma wide_growth: "wide k \<Longrightarrow> wide (k * growth)"
  using growth_ge mult_mono [of 1 k 1 growth] by (auto simp: wide_def)

lemma wide_normal: "wide k \<Longrightarrow> normal m \<Longrightarrow> normal (k * m)"
  using normal_nonneg [of m] mult_mono [of 1 k m m] order_trans [of "2 powi (- 149)" m "k * m"]
  unfolding wide_def normal_def by (cases "m = 0") auto

text \<open>What one pixel adds.\<close>

definition pixel_term :: "int \<Rightarrow> fl \<Rightarrow> fl \<Rightarrow> bool" where
  "pixel_term n a t \<longleftrightarrow> (\<exists>x v. a = Fin v \<and> normal v \<and> (v = 0 \<or> 1 \<le> n) \<and> t = Fin x \<and> 0 \<le> x \<and> x \<le> first_bound n * v)"

lemma weighted_term:
  assumes "upto_bound 1020 a" and "represents binary32 a" and "a = Fin 0 \<or> on_side n p" and "n \<le> MAX_SIDE"
  shows "fmul binary32 p a = NaN \<or> pixel_term n a (fmul binary32 p a)"
proof -
  obtain v where v: "a = Fin v" "0 \<le> v" "v \<le> 1020" using assms(1) unfolding upto_bound_def by blast
  have nv: "normal v" using normal_float assms(2) v by simp
  show ?thesis
  proof (cases "v = 0")
    case True
    then show ?thesis using v nv by (cases p) (auto simp: r32.r_zero pixel_term_def)
  next
    case False
    then have n: "1 \<le> n" using assms(3) v(1) by (auto simp: on_side_def)
    obtain x where x: "p = Fin x" "0 \<le> x" "x \<le> of_int (n - 1)" using False assms(3) v(1) by (auto simp: on_side_def upto_bound_def)
    obtain z where z: "rnd binary32 (of_int (n - 1) * v) = Fin z" "z \<le> of_int (n - 1) * v * (1 + 2 powi (- 24))"
      using float_times [of v "n - 1"] assms(2,4) v n unfolding MAX_SIDE_def by auto
    have b: "of_int (n - 1) * v * (1 + 2 powi (- 24)) = first_bound n * v" using n by (simp add: first_bound_def)
    have "fle (rnd binary32 (x * v)) (rnd binary32 (of_int (n - 1) * v))" using x v(2) by (intro r32.r_mono mult_right_mono)
    moreover have "fle (Fin 0) (rnd binary32 (x * v))" using x v(2) by (intro r32.r_nonneg) simp
    ultimately obtain y where y: "rnd binary32 (x * v) = Fin y" "0 \<le> y" "y \<le> z"
      using z(1) by (cases "rnd binary32 (x * v)") (auto simp: fle_def)
    have "y \<le> first_bound n * v" using y(3) z(2) unfolding b by (rule order_trans)
    then have "pixel_term n a (Fin y)" unfolding pixel_term_def using n nv v(1) y(2) by blast
    then show ?thesis using x(1) y(1) v(1) by simp
  qed
qed

lemma weighted_start: "weighted n k (Fin 0) (Fin 0)"
  by (simp add: weighted_def normal_def)

lemma rnd64_nonneg: "0 \<le> x \<Longrightarrow> rnd binary64 x = PInf \<or> (\<exists>y. rnd binary64 x = Fin y \<and> 0 \<le> y)"
  using r64.r_nonneg [of x] by (cases "rnd binary64 x") (auto simp: fle_def)

lemma add_nonneg_cases:
  assumes "s = PInf \<or> (\<exists>u. s = Fin u \<and> 0 \<le> u)" and "0 \<le> x"
  shows "fadd binary64 s (Fin x) = PInf
    \<or> (\<exists>u u'. s = Fin u \<and> rnd binary64 (u + x) = Fin u' \<and> fadd binary64 s (Fin x) = Fin u' \<and> 0 \<le> u')"
  using assms(1)
proof (elim disjE exE conjE)
  fix u assume "s = Fin u" "0 \<le> u"
  then show ?thesis using rnd64_nonneg [of "u + x"] assms(2) by auto
qed simp

lemma rounded_sums:
  assumes "u + x \<le> k * (m + v)" and "wide k" and "normal (m + v)" and "rnd binary64 (u + x) = Fin u'" and "rnd binary64 (m + v) = Fin m'"
  shows "u' \<le> k * growth * m'"
proof -
  have e: "0 < 1 - eps" "0 < 1 + eps" using eps_bounds by simp_all
  have k: "0 \<le> k" using assms(2) by (auto simp: wide_def)
  have "u' \<le> round_to binary64 (k * (m + v))"
    unfolding rnd_Fin [OF assms(4)] using assms(1) by (rule round_to_mono [OF b64.prec])
  also have "\<dots> \<le> k * (m + v) * (1 + eps)" unfolding eps_def by (rule normal_relative(1) [OF wide_normal [OF assms(2,3)]])
  also have "\<dots> = k * (1 + eps) * (m + v)" by simp
  also have "\<dots> \<le> k * (1 + eps) * (m' / (1 - eps))"
    using normal_relative(2) [OF assms(3)] rnd_Fin [OF assms(5)] e k
    by (intro mult_left_mono) (simp_all add: pos_le_divide_eq eps_def)
  finally show ?thesis by (simp add: growth_def)
qed

lemma weighted_add:
  assumes wt: "weighted n k s w" and k: "wide k" "first_bound n \<le> k" and t: "t = NaN \<or> pixel_term n a t"
  shows "weighted n (k * growth) (fadd binary64 s t) (fadd binary64 w a)"
proof -
  have nan: "fadd binary64 s NaN = NaN" by (cases s) simp_all
  have side: "fadd binary64 w a = Fin 0 \<or> 1 \<le> n" if "a = Fin v" "v = 0 \<or> 1 \<le> n" "w = Fin 0 \<or> 1 \<le> n" for v
    using that by (auto simp: r64.r_zero)
  have t': "t = NaN \<or> (\<exists>x v. a = Fin v \<and> normal v \<and> (v = 0 \<or> 1 \<le> n) \<and> t = Fin x \<and> 0 \<le> x \<and> x \<le> k * v)"
    using t order_trans [OF _ mult_right_mono [OF k(2) normal_nonneg]] unfolding pixel_term_def by blast
  consider "s = NaN" | "t = NaN"
    | x v where "a = Fin v" "normal v" "t = Fin x" "0 \<le> x" "x \<le> k * v" "s \<noteq> NaN" "w = PInf" "v = 0 \<or> 1 \<le> n"
    | x v m where "a = Fin v" "normal v" "t = Fin x" "0 \<le> x" "x \<le> k * v" "s \<noteq> NaN" "w = Fin m" "normal m"
        "\<forall>u. s = Fin u \<longrightarrow> u \<le> k * m" "v = 0 \<or> 1 \<le> n"
    using wt t' unfolding weighted_def by blast
  then show ?thesis
  proof cases
    case 1
    then show ?thesis by (simp add: weighted_def)
  next
    case 2
    then show ?thesis by (simp add: weighted_def nan)
  next
    case 3
    then have "s = PInf \<or> (\<exists>u. s = Fin u \<and> 0 \<le> u)" and n: "1 \<le> n" using wt by (auto simp: weighted_def)
    from add_nonneg_cases [OF this(1) 3(4)] have "fadd binary64 s t = PInf \<or> (\<exists>u. fadd binary64 s t = Fin u \<and> 0 \<le> u)"
      using 3(3) by auto
    then show ?thesis using 3(1,7) n by (auto simp: weighted_def)
  next
    case 4
    have y: "normal (m + v)" using 4 by (intro normal_add)
    have s: "s = PInf \<or> (\<exists>u. s = Fin u \<and> 0 \<le> u)" and w: "w = Fin 0 \<or> 1 \<le> n" using wt 4(6) by (auto simp: weighted_def)
    note add = add_nonneg_cases [OF s 4(4), folded 4(3)] and n = side [OF 4(1,10) w]
    have "fadd binary64 w a = PInf \<or> (\<exists>m'. rnd binary64 (m + v) = Fin m' \<and> fadd binary64 w a = Fin m')"
      using 4(1,7) rnd64_nonneg [OF normal_nonneg [OF y]] by auto
    then show ?thesis
    proof
      assume "fadd binary64 w a = PInf"
      then show ?thesis using add n by (auto simp: weighted_def)
    next
      assume "\<exists>m'. rnd binary64 (m + v) = Fin m' \<and> fadd binary64 w a = Fin m'"
      then obtain m' where m': "rnd binary64 (m + v) = Fin m'" "fadd binary64 w a = Fin m'" by blast
      have "u' \<le> k * growth * m'" if u': "fadd binary64 s t = Fin u'" for u'
      proof -
        obtain u where u: "s = Fin u" "rnd binary64 (u + x) = Fin u'" using add u' by auto
        have "u + x \<le> k * (m + v)" using 4(5,9) u(1) by (simp add: distrib_left add_mono)
        from rounded_sums [OF this k(1) y u(2) m'(1)] show ?thesis .
      qed
      then show ?thesis using add n m' normal_rnd [OF y m'(1)] by (auto simp: weighted_def)
    qed
  qed
qed

text \<open>Masks of up to \<open>2 ^ 36\<close> pixels do not take the quotient beyond the middle of the next pixel.\<close>

lemma power_rest: "0 \<le> c \<Longrightarrow> c \<le> 1 \<Longrightarrow> 1 - of_nat n * c \<le> (1 - c) ^ n" for c :: rat
proof (induction n)
  case (Suc n)
  have "1 - of_nat (Suc n) * c \<le> (1 - of_nat n * c) * (1 - c)" using Suc.prems by (simp add: algebra_simps)
  also have "\<dots> \<le> (1 - c) ^ n * (1 - c)" using Suc by (intro mult_right_mono) simp_all
  finally show ?case by (simp add: mult.commute)
qed simp

lemma growth_power:
  assumes "n \<le> 2 ^ 36"
  shows "growth ^ n \<le> 65536 / 65535"
proof -
  have e: "0 < 1 - 2 * eps" "1 - 2 * eps \<le> 1" by (simp_all add: eps_def power_int_minus)
  have "growth * (1 - 2 * eps) \<le> 1" by (simp add: growth_def eps_def power_int_minus)
  then have "(growth * (1 - 2 * eps)) ^ n \<le> 1" using growth_ge e by (intro power_le_one) simp_all
  then have g: "growth ^ n * (1 - 2 * eps) ^ n \<le> 1" by (simp add: power_mult_distrib)
  have "(of_nat n :: rat) \<le> of_nat (2 ^ 36)" using assms by (simp only: of_nat_le_iff)
  then have "of_nat n * (2 * eps) \<le> 2 ^ 36 * (2 * eps)" using eps_bounds by (intro mult_right_mono) simp_all
  also have "\<dots> = 1 / 65536" by (simp add: eps_def power_int_minus)
  finally have "65535 / 65536 \<le> (1 - 2 * eps) ^ n" using power_rest [of "2 * eps" n] e by simp
  then have "growth ^ n * (65535 / 65536) \<le> growth ^ n * (1 - 2 * eps) ^ n" using growth_ge by (intro mult_left_mono) simp_all
  with g show ?thesis by simp
qed

lemma last_bound:
  assumes "n \<le> 2 ^ 36" and "m \<le> MAX_SIDE" and "1 \<le> m"
  shows "first_bound m * growth ^ n \<le> of_int (m - 1) + 1 / 2"
proof -
  let ?M = "of_int (m - 1) :: rat"
  have "?M \<le> of_int (2 ^ 14)" using assms(2) unfolding MAX_SIDE_def by (simp only: of_int_le_iff)
  then have M: "0 \<le> ?M" "?M \<le> 16384" using assms(3) by simp_all
  have b: "first_bound m = ?M * (1 + 2 powi (- 24))" using assms(3) by (simp add: first_bound_def)
  have "first_bound m * growth ^ n \<le> first_bound m * (65536 / 65535)"
    using growth_power [OF assms(1)] M unfolding b by (intro mult_left_mono) simp_all
  also have "\<dots> = ?M * (1 + 2 powi (- 24)) * (65536 / 65535)" by (simp only: b)
  also have "?M * (1 + 2 powi (- 24)) * (65536 / 65535) \<le> ?M + 1 / 2" using M by (simp add: power_int_minus)
  finally show ?thesis .
qed

text \<open>The quotient of the sums: a number that is returned is a position in the picture.\<close>

definition in_picture :: "int \<Rightarrow> fl \<Rightarrow> bool" where
  "in_picture n c \<longleftrightarrow> (\<forall>x. c = Fin x \<longrightarrow> 0 \<le> x \<and> x < of_int n)"

lemma represents_half:
  assumes "0 \<le> n" and "n < 2 ^ 20"
  shows "represents binary32 (Fin (of_int n + 1 / 2))" and "represents binary64 (Fin (of_int n + 1 / 2))"
proof -
  have h: "of_int n + 1 / 2 = of_int (2 * n + 1) * (2 :: rat) powi (- 1)" by (simp add: power_int_minus)
  then have "rnd binary32 (of_int n + 1 / 2) = Fin (of_int n + 1 / 2)" "rnd binary64 (of_int n + 1 / 2) = Fin (of_int n + 1 / 2)"
    using assms by (intro rnd32_exact [of _ "2 * n + 1" "- 1"] rnd64_exact [of _ "2 * n + 1" "- 1"]; simp)+
  then show "represents binary32 (Fin (of_int n + 1 / 2))" "represents binary64 (Fin (of_int n + 1 / 2))"
    by (simp_all add: represents_def)
qed

lemma quotient_in_picture:
  assumes "weighted n k s w" and "n \<le> MAX_SIDE" and "1 \<le> n \<Longrightarrow> k \<le> of_int (n - 1) + 1 / 2"
  shows "in_picture n (to_fmt binary32 (fdiv binary64 s w))"
proof (cases "\<exists>u m. s = Fin u \<and> w = Fin m \<and> m \<noteq> 0")
  case True
  then obtain u m where v: "s = Fin u" "w = Fin m" "m \<noteq> 0" by blast
  then have "0 \<le> u" "u \<le> k * m" "0 < m" and n: "1 \<le> n" using assms(1) normal_nonneg [of m] by (auto simp: weighted_def)
  let ?b = "of_int (n - 1) + 1 / 2 :: rat"
  have r: "represents binary32 (Fin ?b)" "represents binary64 (Fin ?b)" using n assms(2) by (intro represents_half; simp add: MAX_SIDE_def)+
  have "0 \<le> u / m" "u / m \<le> k" using \<open>0 \<le> u\<close> \<open>u \<le> k * m\<close> \<open>0 < m\<close> by (simp_all add: divide_le_eq)
  then have "upto_bound ?b (rnd binary64 (u / m))" using assms(3) [OF n] r(2) by (intro b64.upto_rnd) simp_all
  from b32.upto_to_fmt [OF this r(1)] have "upto_bound ?b (to_fmt binary32 (fdiv binary64 s w))" using v by simp
  moreover have "?b < of_int n" by simp
  ultimately show ?thesis unfolding in_picture_def upto_bound_def by force
next
  case False
  have "fdiv binary64 s w = NaN \<or> fdiv binary64 s w = PInf \<or> fdiv binary64 s w = Fin 0 \<and> 1 \<le> n"
    using assms(1) False unfolding weighted_def by (auto simp: normal_def)
  then show ?thesis by (auto simp: in_picture_def r32.r_zero)
qed

subsection \<open>Centroids\<close>

definition small_picture :: "gmat \<Rightarrow> bool" where
  "small_picture img \<longleftrightarrow> g_cols img \<le> MAX_SIDE \<and> g_rows img \<le> MAX_SIDE"

definition both_weighted :: "gmat \<Rightarrow> nat \<Rightarrow> fl \<times> fl \<times> fl \<Rightarrow> bool" where
  "both_weighted img n = (\<lambda>(s01, s10, w). weighted (g_cols img) (first_bound (g_cols img) * growth ^ n) s01 w
     \<and> weighted (g_rows img) (first_bound (g_rows img) * growth ^ n) s10 w)"

lemma wide_power: "wide (first_bound m * growth ^ n)" "first_bound m \<le> first_bound m * growth ^ n"
proof -
  show "wide (first_bound m * growth ^ n)"
  proof (induction n)
    case (Suc n)
    from wide_growth [OF this] show ?case by (simp only: power_Suc2 mult.assoc)
  qed (simp add: wide_first)
  have "1 \<le> growth ^ n" "0 \<le> first_bound m" using growth_ge by (simp_all add: first_bound_def)
  then show "first_bound m \<le> first_bound m * growth ^ n" using mult_left_mono [of 1 "growth ^ n" "first_bound m"] by simp
qed

lemma refine_pixel_weighted:
  assumes "small_picture img" and "refine_pixel img estimate point s = Inr s'" and "both_weighted img n s"
  shows "both_weighted img (Suc n) s'"
proof -
  obtain s01 s10 w where s: "s = (s01, s10, w)" by (cases s)
  let ?x = "fadd binary32 (fst point) (fst estimate)" and ?y = "fadd binary32 (snd point) (snd estimate)"
  obtain a where a: "getInterpolatedColor img (?x, ?y) = Inr a"
      "s' = (fadd binary64 s01 (fmul binary32 ?x a), fadd binary64 s10 (fmul binary32 ?y a), fadd binary64 w a)"
    using assms(2) by (auto simp: refine_pixel_def res_simps Let_def s)
  have c: "g_cols img \<le> MAX_SIDE" "g_rows img \<le> MAX_SIDE" using assms(1) by (simp_all add: small_picture_def)
  have i: "upto_bound 1020 a" "represents binary32 a" "a = Fin 0 \<or> on_side (g_cols img) ?x" "a = Fin 0 \<or> on_side (g_rows img) ?y"
    using interpolated [OF a(1) c] by auto
  show ?thesis
    using assms(3) weighted_add [OF _ wide_power weighted_term [OF i(1-3) c(1)]] weighted_add [OF _ wide_power weighted_term [OF i(1,2,4) c(2)]]
    by (simp add: both_weighted_def s a(2) mult.commute mult.left_commute)
qed

lemma refine_pixels_weighted:
  assumes "small_picture img" and "rfold (refine_pixel img estimate) msk s = Inr s'" and "both_weighted img n s"
  shows "both_weighted img (n + length msk) s'"
  using assms(2,3)
proof (induction msk arbitrary: n s)
  case (Cons p msk)
  then obtain s1 where s1: "refine_pixel img estimate p s = Inr s1" "rfold (refine_pixel img estimate) msk s1 = Inr s'" by (auto simp: res_simps)
  from Cons.IH [OF s1(2) refine_pixel_weighted [OF assms(1) s1(1) Cons.prems(2)]] show ?case by simp
qed simp

lemma refine_step_in_picture:
  assumes "small_picture img" and "refine_step img msk estimate = Inr (x, y)" and "length msk \<le> 2 ^ 36"
  shows "in_picture (g_cols img) x \<and> in_picture (g_rows img) y"
proof -
  obtain s01 s10 w where f: "rfold (refine_pixel img estimate) msk (Fin 0, Fin 0, Fin 0) = Inr (s01, s10, w)"
      "x = to_fmt binary32 (fdiv binary64 s01 w)" "y = to_fmt binary32 (fdiv binary64 s10 w)"
    using assms(2) by (auto simp: refine_step_def res_simps)
  have "both_weighted img 0 (Fin 0, Fin 0, Fin 0)" by (simp add: both_weighted_def weighted_start)
  from refine_pixels_weighted [OF assms(1) f(1) this]
  show ?thesis using quotient_in_picture last_bound [OF assms(3)] assms(1) unfolding f(2,3) both_weighted_def small_picture_def by auto
qed

text \<open>The masks: a row has fewer than \<open>2 ^ 32\<close> pixels whatever \<open>sqrt\<close> returns, as its half is an \<open>int\<close>.\<close>

lemma round_int_bound: "round_int a = Inr n \<Longrightarrow> n < 2 ^ 31"
  by (cases a) (auto split: if_splits)

lemma mask_row_length:
  assumes "mask_row sqrt_fn r2 y acc = Inr acc'"
  shows "length acc' \<le> length acc + 2 ^ 32"
proof -
  obtain x0 where x0: "round_int (sqrt_fn (fsub binary32 r2 (fl_of_int binary32 (y * y)))) = Inr x0"
      "acc' = acc @ map (\<lambda>x. (fl_of_int binary32 x, fl_of_int binary32 y)) [- x0..x0]"
    using assms by (auto simp: mask_row_def res_simps)
  then show ?thesis using round_int_bound [OF x0(1)] by simp
qed

lemma mask_rows_length: "rfold (mask_row sqrt_fn r2) ys acc = Inr acc' \<Longrightarrow> length acc' \<le> length acc + length ys * 2 ^ 32"
proof (induction ys arbitrary: acc)
  case (Cons y ys)
  then obtain acc1 where "mask_row sqrt_fn r2 y acc = Inr acc1" "rfold (mask_row sqrt_fn r2) ys acc1 = Inr acc'" by (auto simp: res_simps)
  then show ?case using Cons.IH [of acc1] mask_row_length by fastforce
qed simp

lemma computeMask_length:
  assumes "computeMask sqrt_fn radius = Inr msk" and "radius \<le> 6"
  shows "length msk \<le> 2 ^ 36"
proof -
  have "length (rev [- radius..radius]) \<le> 13" using assms(2) by simp
  then show ?thesis using mask_rows_length [OF assms(1) [unfolded computeMask_def]] by simp
qed

lemma refineCentroid_in_picture:
  assumes "small_picture img" and "refineCentroid sqrt_fn img start = Inr (x, y)"
  shows "in_picture (g_cols img) x \<and> in_picture (g_rows img) y"
proof -
  obtain m3 m4 m5 m6 p where "computeMask sqrt_fn 6 = Inr m6" "refine_step img m6 p = Inr (x, y)"
    using assms(2) by (auto simp: refineCentroid_def res_simps)
  then show ?thesis using refine_step_in_picture [OF assms(1)] computeMask_length by fastforce
qed

subsection \<open>The grid\<close>

text \<open>The grid while a picture of \<open>c\<close> columns and \<open>r\<close> rows is scanned, and the grid that \<open>detect\<close> returns.\<close>

definition in_area :: "int \<Rightarrow> int \<Rightarrow> Point \<Rightarrow> bool" where
  "in_area c r q \<longleftrightarrow> (\<exists>x y. position q = (Fin x, Fin y) \<and> 0 \<le> x \<and> x < of_int c \<and> 0 \<le> y \<and> y < of_int r)"

definition scanned :: "int \<Rightarrow> int \<Rightarrow> PointGrid \<Rightarrow> bool" where
  "scanned c r g \<longleftrightarrow> building g \<and> distinct (map fst (storage g)) \<and> (\<forall>e \<in> set (storage g). fst e < next g \<and> in_area c r (snd e))"

definition in_range :: "Point \<Rightarrow> bool" where
  "in_range q \<longleftrightarrow> upto_bound (of_int MAX_SIDE) (fst (position q)) \<and> upto_bound (of_int MAX_SIDE) (snd (position q))"

definition finished :: "PointGrid \<Rightarrow> bool" where
  "finished g \<longleftrightarrow> grid_ok g \<and> 8 \<le> length (linesHorizontal g) \<and> distinct (map fst (storage g))
     \<and> (\<forall>e \<in> set (storage g). in_range (snd e))"

lemma in_area_range:
  assumes "in_area c r q" and "c \<le> MAX_SIDE" and "r \<le> MAX_SIDE"
  shows "in_range q"
proof -
  have "(of_int c :: rat) \<le> of_int MAX_SIDE" "(of_int r :: rat) \<le> of_int MAX_SIDE" using assms(2,3) by (simp_all only: of_int_le_iff)
  then show ?thesis using assms(1) by (fastforce simp: in_area_def in_range_def upto_bound_def)
qed

lemma in_area_coord: "in_area c r q \<Longrightarrow> c \<le> MAX_SIDE \<Longrightarrow> r \<le> MAX_SIDE \<Longrightarrow> coord (fst (position q)) \<and> coord (snd (position q))"
  using in_area_range [of c r q] by (auto simp: in_range_def upto_bound_def coord_def MAX_SIDE_def)

lemma scanned_ctor: "scanned c r PointGrid_ctor"
  by (simp add: scanned_def building_def PointGrid_ctor_def points_ok_def)

lemma scanned_addPoint:
  assumes "scanned c r g" and "in_area c r (Point_ctor p)" and "c \<le> MAX_SIDE" and "r \<le> MAX_SIDE"
  shows "scanned c r (addPoint p g)"
proof -
  have new: "next g \<notin> fst ` set (storage g)" using assms(1) by (auto simp: scanned_def)
  moreover have "coord (fst p)" "coord (snd p)" using in_area_coord [OF assms(2-4)] by (simp_all add: Point_ctor_def)
  ultimately show ?thesis
    using assms(1,2) by (auto simp: scanned_def building_def points_ok_def addPoint_def storageAdd_def Point_ctor_def less_SucI)
qed

lemma detect_pixel_scanned:
  assumes "small_picture img" and "detect_pixel sqrt_fn img rc (msk, g) = Inr (msk', g')" and "scanned (g_cols img) (g_rows img) g"
  shows "scanned (g_cols img) (g_rows img) g'"
proof (cases "g' = g")
  case False
  then obtain start x y msk1 msk2 where c: "refineCentroid sqrt_fn img start = Inr (x, y)" "mark_centroid (x, y) msk1 = Inr msk2" "g' = addPoint (x, y) g"
    using assms(2) by (auto simp: detect_pixel_def res_simps Let_def split: prod.splits if_splits)
  obtain n m where "round_even x = Inr n" "round_even y = Inr m"
    using c(2) by (auto simp: mark_centroid_def res_simps)
  then obtain a b where "x = Fin a" "y = Fin b" by (cases x; cases y) auto
  then have "in_area (g_cols img) (g_rows img) (Point_ctor (x, y))"
    using refineCentroid_in_picture [OF assms(1) c(1)] by (simp add: in_picture_def in_area_def Point_ctor_def)
  then show ?thesis using scanned_addPoint [OF assms(3)] assms(1) c(3) by (simp add: small_picture_def)
qed (use assms(3) in simp)

lemma link_lines_keys: "link_lines f i ls s = Inr s' \<Longrightarrow> map fst s' = map fst s"
proof (induction ls arbitrary: i s)
  case (Cons l ls)
  have "map fst s1 = map fst s" if "rfold (write_point (f i)) (line l) s = Inr s1" for s1
    by (rule rfold_invariant [OF that]) (auto simp: write_point_def comp_def case_prod_beta split: if_splits)
  then show ?case using Cons by (auto simp: res_simps)
qed simp

lemma finalize_keys:
  assumes "finalize g = Inr g'" and "distinct (map fst (storage g))"
  shows "distinct (map fst (storage g'))"
proof -
  have keep: "distinct (map fst (filter P s))" if "distinct (map fst s)" for P and s :: PointStore
    using that distinct_map_filter by blast
  show ?thesis
    using assms keep by (auto simp: finalize_def res_simps Let_def prune_lines_eq dest!: link_lines_keys)
qed

lemma finalize_scanned:
  assumes "scanned c r g" and "c \<le> MAX_SIDE" and "r \<le> MAX_SIDE" and "finalize g = Inr g'"
  shows "finished g' \<and> (\<forall>e \<in> set (storage g'). in_area c r (snd e))"
proof -
  have g: "building g" using assms(1) by (simp add: scanned_def)
  have s: "stops g"
  proof (rule ccontr)
    assume "\<not> stops g"
    then show False using construct_horizontal_overrun [OF g] assms(4) by (simp add: finalize_def)
  qed
  obtain h where h: "construct_horizontal g = Inr h" using assms(4) by (auto simp: finalize_def res_simps)
  have acc: "points_ok (storage g) (accumulator g)" using g by (simp add: building_def)
  have "horizontal_ok (storage g) (set (accumulator g)) h" using construct_horizontal_ok [OF g s] h by simp
  then have n: "8 \<le> length h" using construct_vertical_overrun [OF acc] assms(4) h by (force simp: finalize_def not_less)
  have f: "grid_ok g'" "same_positions (storage g) (storage g')" "length (linesHorizontal g') = length h"
    using finalize_ok [OF g s h n] assms(4) by auto
  have d: "distinct (map fst (storage g'))" using finalize_keys [OF assms(4)] assms(1) by (simp add: scanned_def)
  have "in_area c r q" if "(p, q) \<in> set (storage g')" for p q
  proof -
    have "map_of (storage g') p = Some q" using that d by simp
    then obtain q0 where "map_of (storage g) p = Some q0" "position q = position q0" using f(2) by (auto simp: same_positions_def)
    moreover from this have "(p, q0) \<in> set (storage g)" by (simp add: map_of_SomeD)
    ultimately show ?thesis using assms(1) by (auto simp: scanned_def in_area_def)
  qed
  then show ?thesis using f n d in_area_range [OF _ assms(2,3)] by (fastforce simp: finished_def)
qed

lemma detect_area:
  assumes "small_picture (to_gray cv img)" and "detect cv sqrt_fn img = Inr g" and "g \<noteq> PointGrid_ctor"
  shows "finished g \<and> (\<forall>e \<in> set (storage g). in_area (g_rows (to_gray cv img)) (g_cols (to_gray cv img)) (snd e))"
proof -
  let ?img = "transposed (to_gray cv img)"
  obtain g0 msk msk' where f: "rfold (detect_pixel sqrt_fn ?img) (pixels msk) (msk, PointGrid_ctor) = Inr (msk', g0)" "finalize g0 = Inr g"
    using assms(2,3) by (auto simp: detect_def res_simps Let_def split: if_splits)
  have small: "small_picture ?img" using assms(1) by (simp add: small_picture_def transposed_def)
  have "(\<lambda>(msk, g). scanned (g_cols ?img) (g_rows ?img) g) (msk', g0)"
    by (rule rfold_invariant [OF f(1)]) (auto simp: scanned_ctor dest: detect_pixel_scanned [OF small])
  then show ?thesis using finalize_scanned [OF _ _ _ f(2)] assms(1) by (simp add: transposed_def small_picture_def)
qed

lemma detect_finished:
  "small_picture (to_gray cv img) \<Longrightarrow> detect cv sqrt_fn img = Inr g \<Longrightarrow> g = PointGrid_ctor \<or> finished g"
  using detect_area [of cv img sqrt_fn g] by blast

text \<open>
  C3: The grid that \<open>LensDetector::detect\<close> returns for a picture of at most 16384 rows and columns. It is empty when the picture is
  too dark or too bright. Otherwise it has at least eight horizontal lines; the points of the lines of either direction are exactly
  the points of the storage, which have addresses of their own; every point is linked to a line of either direction that it is on; and every point is in
  the picture: the detector works on the transposed picture, so its x coordinate is below the number of rows and its y coordinate
  below the number of columns.\<close>

theorem detect_grids:
  assumes "small_picture (to_gray cv img)" and "detect cv sqrt_fn img = Inr g"
  shows "if g = PointGrid_ctor then isEmpty g else grid_ok g \<and> 8 \<le> length (linesHorizontal g) \<and> distinct (map fst (storage g))
    \<and> (\<forall>e \<in> set (storage g). \<exists>x y. position (snd e) = (Fin x, Fin y)
         \<and> 0 \<le> x \<and> x < of_int (g_rows (to_gray cv img)) \<and> 0 \<le> y \<and> y < of_int (g_cols (to_gray cv img)))"
proof (cases "g = PointGrid_ctor")
  case True
  then show ?thesis by (simp add: isEmpty_def PointGrid_ctor_def)
next
  case False
  then show ?thesis using detect_area [OF assms] by (simp add: finished_def in_area_def)
qed

definition dark_camera :: "unit cv_image" where
  "dark_camera = \<lparr>to_gray = (\<lambda>_. \<lparr>g_rows = 2, g_cols = 2, g_data = [0, 0, 0, 0]\<rparr>), mean_of = (\<lambda>_ _. Inr (Fin 0)), preprocess = id\<rparr>"

theorem detect_grids_witness:
  "(\<exists>g. detect even_camera nearest_root () = Inr g \<and> grid_ok g \<and> length (linesHorizontal g) = 8
      \<and> (\<forall>e \<in> set (storage g). \<exists>x y. position (snd e) = (Fin x, Fin y) \<and> 0 \<le> x \<and> x < 44 \<and> 0 \<le> y \<and> y < 52))
    \<and> isEmpty PointGrid_ctor \<and> detect dark_camera id () = Inr PointGrid_ctor"
proof -
  obtain g where g: "detect even_camera nearest_root () = Inr g" "length (linesHorizontal g) = 8" using even_camera_grid [of "()"] by auto
  then have ne: "g \<noteq> PointGrid_ctor" by (auto simp: PointGrid_ctor_def)
  have "small_picture (to_gray even_camera ())" by (simp add: even_camera_size small_picture_def MAX_SIDE_def)
  from detect_grids [OF this g(1)] ne have "grid_ok g \<and> (\<forall>e \<in> set (storage g). \<exists>x y. position (snd e) = (Fin x, Fin y) \<and> 0 \<le> x \<and> x < 44 \<and> 0 \<le> y \<and> y < 52)"
    by (simp add: even_camera_size)
  moreover have "detect dark_camera id () = Inr PointGrid_ctor" by (simp add: dark_camera_def detect_def uint8_of_def)
  moreover have "isEmpty PointGrid_ctor" by (simp add: isEmpty_def PointGrid_ctor_def)
  ultimately show ?thesis using g by blast
qed

end
