(* ===== verification/Averaging.thy ===== *)
theory Averaging
  imports Float_Bounds
begin

text \<open>
  When the averages of \<open>linegrid.cpp\<close> and \<open>gridmath.cpp\<close> are defined. \<open>averageGrids\<close> uses positions as keys of
  a \<open>std::map\<close>, which a NaN breaks, and reads the nearest line of a map that may have none. For grids with positions that
  are numbers and not negative, the first of which has lines of both directions, none of that happens
  (\<open>averageGrids_total\<close>). The positions of the average are \<open>float\<close> values, which is what storing them needs.
\<close>

subsection \<open>The running mean\<close>

text \<open>Positions in the largest picture the library is used for, of up to 16384 rows and columns.\<close>

abbreviation picture_pos :: "fl \<Rightarrow> bool" where
  "picture_pos \<equiv> upto_bound (16384)"

lemma picture_pos_coord: "picture_pos a \<Longrightarrow> coord a"
  by (auto simp: upto_bound_def coord_def)

lemma picture_pos_number: "picture_pos a \<Longrightarrow> a \<noteq> NaN"
  by (auto simp: upto_bound_def)

lemma rnd64_relative:
  assumes "2 powi (- 33) \<le> x" and "rnd binary64 x = Fin y"
  shows "y \<le> x * (1 + 2 powi (- 53))"
proof -
  have x: "0 < x" using assms(1) by (simp add: power_int_minus less_le_trans)
  note b = ilog2_bounds [OF x]
  have "(2 :: rat) powi (- 33) < 2 powi (ilog2 x + 1)" using assms(1) b(2) by (rule le_less_trans)
  then have "- 33 < ilog2 x + 1" using power_int_increasing [of "ilog2 x + 1" "- 33" "2 :: rat"] by linarith
  then have q: "max (ilog2 x - int (fmt_prec binary64) + 1) (fmt_qmin binary64) = ilog2 x - 52" by (simp add: binary64_def)
  let ?e = "2 powi (ilog2 x - 52) :: rat"
  have "y = of_int (rne (x / ?e)) * ?e"
    using rnd_Fin [OF assms(2)] x by (simp only: round_to_def round_pos_def Let_def q) simp
  also have "\<dots> \<le> (x / ?e + 1 / 2) * ?e" using rne_bounds(1) by (intro mult_right_mono) simp_all
  also have "\<dots> = x + ?e / 2" by (simp add: distrib_right)
  also have "?e / 2 = 2 powi ilog2 x * 2 powi (- 53)" by (simp add: power_int_diff power_int_minus)
  also have "\<dots> \<le> x * 2 powi (- 53)" using b(1) by (intro mult_right_mono) simp_all
  finally show ?thesis by (simp add: distrib_left)
qed

text \<open>The weights of the running mean are positive, and their sum is 1 up to the roundings.\<close>

lemma merge_weights:
  assumes "c \<noteq> (0 :: u32)"
  obtains d w where "fdiv binary64 (Fin 1) (fadd binary64 (fl_of_int binary64 (uint c)) (Fin 1)) = Fin d"
    and "fmul binary64 (fl_of_int binary64 (uint c)) (Fin d) = Fin w" and "2 powi (- 33) \<le> d" and "2 powi (- 33) \<le> w" and "w + d \<le> 1 + 2 powi (- 50)"
    and "rnd binary64 d = Fin d" and "rnd binary64 w = Fin w"
proof -
  obtain m where m: "uint c = m" by simp
  let ?n = "of_int m :: rat"
  have "m < 2 ^ 32" "m \<noteq> 0" "0 \<le> m" using uint_lt2p [of c] uint_ge_0 [of c] assms m by (simp, metis uint_0_iff, simp)
  then have m1: "1 \<le> m" "m \<le> 4294967295" by simp_all
  then have c: "fl_of_int binary64 (uint c) = Fin ?n" "fadd binary64 (Fin ?n) (Fin 1) = Fin (?n + 1)"
    using rnd64_int [of m] rnd64_int [of "m + 1"] by (simp_all add: fl_of_int_def m)
  have n: "1 \<le> ?n" "?n \<le> 4294967295"
    using m1 of_int_le_iff [of 1 m, where 'a = rat] of_int_le_iff [of m 4294967295, where 'a = rat] by simp_all
  have eps: "rnd binary64 (2 powi (- 33)) = Fin (2 powi (- 33))" by (rule rnd64_exact [of _ 1 "-33"]) simp_all
  have low: "2 powi (- 33) \<le> 1 / (?n + 1)"
    using n by (simp add: divide_simps power_int_minus)
  have "upto_bound 1 (rnd binary64 (1 / (?n + 1)))" using n by (intro b64.upto_rnd) simp_all
  then obtain d where d: "rnd binary64 (1 / (?n + 1)) = Fin d" "d \<le> 1" unfolding upto_bound_def by blast
  have d0: "2 powi (- 33) \<le> d" using r64.r_mono [OF low] eps d(1) by simp
  then have "2 powi (- 33) \<le> ?n * d"
    using n mult_mono [of 1 ?n "2 powi (- 33)" d] by simp
  moreover have "?n * d \<le> 4294967295" using n d(2) d0 mult_mono [of ?n 4294967295 d 1] by (simp add: power_int_minus)
  moreover have d1: "0 < d" using d0 by (simp add: power_int_minus less_le_trans)
  ultimately have "upto_bound 4294967295 (rnd binary64 (?n * d))" using n by (intro b64.upto_rnd) simp_all
  then obtain w where w: "rnd binary64 (?n * d) = Fin w" unfolding upto_bound_def by blast
  have "2 powi (- 33) \<le> w" using r64.r_mono [OF \<open>2 powi (- 33) \<le> ?n * d\<close>] eps w by simp
  moreover have "w + d \<le> 1 + 2 powi (- 50)"
  proof -
    define e where "e = (1 + 2 powi (- 53) :: rat)"
    have e: "1 \<le> e" by (simp add: e_def)
    have dle: "d \<le> 1 / (?n + 1) * e"
      using rnd64_relative [of "1 / (?n + 1)" d] low d(1) n by (simp add: e_def)
    have "w \<le> ?n * d * e" using rnd64_relative [OF _ w] \<open>2 powi (- 33) \<le> ?n * d\<close> by (simp add: e_def)
    then have "w + d \<le> d * (?n * e + 1)" by (simp add: algebra_simps)
    also have "\<dots> \<le> (1 / (?n + 1) * e) * ((?n + 1) * e)"
      using dle n d1 e by (intro mult_mono) (simp_all add: distrib_right)
    also have "\<dots> = e * e" using n by simp
    also have "\<dots> \<le> 1 + 2 powi (- 50)" by (simp add: e_def power_int_minus)
    finally show ?thesis .
  qed
  ultimately show thesis using that [of d w] c d(1) d0 w n b64.rnd_idem [OF d(1)] b64.rnd_idem [OF w] by simp
qed

lemma merge_bounded:
  assumes "c \<noteq> 0" and "picture_pos old" and "picture_pos new"
  shows "picture_pos (merge_position c old new)"
proof -
  obtain d w where dw: "fdiv binary64 (Fin 1) (fadd binary64 (fl_of_int binary64 (uint c)) (Fin 1)) = Fin d"
      "fmul binary64 (fl_of_int binary64 (uint c)) (Fin d) = Fin w"
    and lo: "2 powi (- 33) \<le> d" "2 powi (- 33) \<le> w" and s: "w + d \<le> 1 + 2 powi (- 50)"
    and rep: "rnd binary64 d = Fin d" "rnd binary64 w = Fin w"
    using merge_weights [OF assms(1)] by blast
  obtain x y where xy: "old = Fin x" "0 \<le> x" "x \<le> 16384" "new = Fin y" "0 \<le> y" "y \<le> 16384"
    using assms(2,3) unfolding upto_bound_def by blast
  have pos: "0 < d" "0 < w" using lo by (simp_all add: power_int_minus less_le_trans)
  have exact: "upto_bound (16384 * z) (rnd binary64 (z * v))"
    if z: "rnd binary64 z = Fin z" "2 powi (- 33) \<le> z" "z \<le> 2" and v: "0 \<le> v" "v \<le> 16384" for z v
  proof -
    have z0: "0 < z" using z(2) by (simp add: power_int_minus less_le_trans)
    have "normal z" using z(2) by (simp add: normal_def power_int_minus)
    from round_scale [OF this, of 14] have "round_to binary64 (16384 * z) = 16384 * z"
      using rnd_Fin [OF z(1)] by simp
    moreover have "16384 * z \<le> fmt_max binary64" using z(3) by (simp add: binary64_def)
    moreover have "- fmt_max binary64 \<le> 16384 * z" using z0 by (simp add: binary64_def)
    ultimately have "represents binary64 (Fin (16384 * z))" by (simp add: represents_def rnd_def)
    then show ?thesis using z0 v by (intro b64.upto_rnd) (simp_all add: mult.commute [of z])
  qed
  have le2: "w \<le> 2" "d \<le> 2" using s pos by (simp_all add: power_int_minus)
  obtain u v where uv: "rnd binary64 (w * x) = Fin u" "0 \<le> u" "u \<le> 16384 * w"
      "rnd binary64 (y * d) = Fin v" "0 \<le> v" "v \<le> 16384 * d"
    using exact [OF rep(2) lo(2) le2(1) xy(2,3)] exact [OF rep(1) lo(1) le2(2) xy(5,6)]
    unfolding upto_bound_def mult.commute [of d y] by blast
  define top_sum where "top_sum = (16384 + 2 powi (- 36) :: rat)"
  have "u + v \<le> 16384 * (w + d)" using uv(3,6) by (simp add: distrib_left)
  also have "\<dots> \<le> 16384 * (1 + 2 powi (- 50))" using s by (intro mult_left_mono) simp_all
  also have "\<dots> = top_sum" by (simp add: top_sum_def power_int_minus)
  finally have sum: "u + v \<le> top_sum" .
  have "top_sum = of_int (2 ^ 50 + 1) * 2 powi (- 36)" by (simp add: top_sum_def power_int_minus)
  then have "represents binary64 (Fin top_sum)"
    unfolding represents_def to_fmt.simps by (rule rnd64_exact) simp_all
  then have "upto_bound top_sum (rnd binary64 (u + v))" using uv(2,5) sum by (intro b64.upto_rnd) simp_all
  then obtain z where z: "rnd binary64 (u + v) = Fin z" "0 \<le> z" "z \<le> top_sum" unfolding upto_bound_def by blast
  have "rnd binary32 top_sum = Fin (16384)"
    unfolding top_sum_def by code_simp
  then have "picture_pos (rnd binary32 z)"
    using r32.r_mono [OF z(3)] r32.r_nonneg [OF z(2)] by (cases "rnd binary32 z") (auto simp: upto_bound_def fle_def)
  then show ?thesis using dw xy(1,4) uv(1,4) z(1) by (simp add: merge_position_def Let_def)
qed

subsection \<open>The position of a line\<close>

definition points_in :: "PointStore \<Rightarrow> ptr list \<Rightarrow> bool" where
  "points_in s ps \<longleftrightarrow> (\<forall>p \<in> set ps. \<exists>q. map_of s p = Some q \<and> picture_pos (fst (position q)) \<and> picture_pos (snd (position q)))"

lemma points_in_ok: "points_in s ps \<Longrightarrow> points_ok s ps"
  unfolding points_in_def points_ok_def using picture_pos_coord by blast

text \<open>The sum of coordinates against their number.\<close>

definition ratio :: "fl \<times> fl \<Rightarrow> bool" where
  "ratio acc \<longleftrightarrow> (\<exists>u n. acc = (Fin u, Fin n) \<and> 0 \<le> u \<and> u \<le> 16384 * n \<and> (n = 0 \<or> 1 \<le> n) \<and> n \<le> 2 ^ 53)"

lemma ratio_step:
  assumes "ratio (s, c)" and "picture_pos a"
  shows "ratio (fadd binary64 s a, fadd binary64 c (Fin 1))"
proof -
  obtain u n x where v: "s = Fin u" "c = Fin n" "0 \<le> u" "u \<le> 16384 * n" "n = 0 \<or> 1 \<le> n" "n \<le> 2 ^ 53" "a = Fin x" "0 \<le> x" "x \<le> 16384"
    using assms unfolding ratio_def upto_bound_def by blast
  have "c = Fin 0 \<or> counted c" using v by (auto simp: counted_def)
  from counted_Suc [OF this] obtain m where m: "rnd binary64 (n + 1) = Fin m" "1 \<le> m" "m \<le> 2 ^ 53"
    using v(2) by (auto simp: counted_def)
  have le: "u + x \<le> 16384 * (n + 1)" using v by (simp add: distrib_left)
  also have "\<dots> \<le> 2 ^ 68" using v(6) by simp
  finally have "upto_bound (2 ^ 68) (rnd binary64 (u + x))"
    using v(3,8) rnd64_exact [of "2 ^ 68" 1 68] by (intro b64.upto_rnd) (simp_all add: represents_def)
  then obtain y where y: "rnd binary64 (u + x) = Fin y" "0 \<le> y" unfolding upto_bound_def by blast
  have "normal (n + 1)" using v(5) by (auto simp: normal_def power_int_minus)
  from round_scale [OF this, of 14] round_to_mono [OF b64.prec le] have "y \<le> 16384 * m"
    using rnd_Fin [OF y(1)] rnd_Fin [OF m(1)] by simp
  then show ?thesis using v(1,2,7) y m by (simp add: ratio_def)
qed

lemma ratio_quotient:
  assumes "ratio (s, c)" and "fdiv binary64 s c \<noteq> NaN"
  shows "picture_pos (to_fmt binary32 (fdiv binary64 s c))"
proof -
  obtain u n where v: "s = Fin u" "c = Fin n" "0 \<le> u" "u \<le> 16384 * n" "n = 0 \<or> 1 \<le> n" using assms(1) by (auto simp: ratio_def)
  then have n: "1 \<le> n" using assms(2) by auto
  then have "0 \<le> u / n" "u / n \<le> 16384" using v by (simp_all add: divide_le_eq)
  then have "picture_pos (rnd binary64 (u / n))" by (intro b64.upto_rnd) simp_all
  then show ?thesis using v(1,2) n by (auto intro!: b32.upto_to_fmt)
qed

lemma average_over_in:
  assumes "points_in s ps" and "\<forall>i \<in> set is. i < length ps" and "c = fst \<or> c = snd" and "is \<noteq> []"
  shows "\<exists>a. average_over c s ps is = Inr a \<and> picture_pos a"
proof -
  obtain a where a: "average_over c s ps is = Inr a" "a \<noteq> NaN"
    using average_over_ok [OF points_in_ok [OF assms(1)] assms(2,3)] assms(4) by blast
  then obtain u n where f: "rfold (sum_step c s ps) is (Fin 0, Fin 0) = Inr (u, n)" "a = to_fmt binary32 (fdiv binary64 u n)"
    by (auto simp: average_over_def res_simps)
  have "ratio (u, n)"
  proof (rule rfold_invariant [OF f(1)])
    show "ratio (Fin 0, Fin 0)" by (simp add: ratio_def)
    fix i acc acc' assume i: "i \<in> set is" "ratio acc" "sum_step c s ps i acc = Inr acc'"
    then have p: "ps ! i \<in> set ps" using assms(2) by simp
    then have "picture_pos (c (pos_of s (ps ! i)))"
      using assms(1,3) by (fastforce simp: points_in_def pos_of_def)
    moreover have "acc' = (fadd binary64 (fst acc) (c (pos_of s (ps ! i))), fadd binary64 (snd acc) (Fin 1))"
      using i p assms(2) getPosition_ok [OF points_in_ok [OF assms(1)] p] by (simp add: sum_step_def)
    ultimately show "ratio acc'" using ratio_step [of "fst acc" "snd acc"] i(2) by simp
  qed
  then show ?thesis using ratio_quotient [of u n] a f(2) by (auto simp: to_fmt_NaN)
qed

definition lines_in :: "LineList \<Rightarrow> PointStore \<Rightarrow> bool" where
  "lines_in ls s \<longleftrightarrow> (\<forall>l \<in> set ls. points_in s (line l) \<and> 2 \<le> length (line l))"

lemma LineGrid_ctor_in:
  assumes "lines_in (linesHorizontal g) (storage g)" and "lines_in (linesVertical g) (storage g)"
  shows "\<exists>lg. LineGrid_ctor g = Inr lg
    \<and> list_all2 (\<lambda>l l'. l_subgrid l' = subgrid l \<and> picture_pos (l_position l')) (linesHorizontal g) (horizonalLines lg)
    \<and> list_all2 (\<lambda>l l'. l_subgrid l' = subgrid l \<and> picture_pos (l_position l')) (linesVertical g) (verticalLines lg)"
proof -
  let ?R = "\<lambda>l l'. l_subgrid l' = subgrid l \<and> picture_pos (l_position l')"
  have line: "\<exists>l'. horizontal_line (storage g) l = Inr l' \<and> ?R l l'" "\<exists>l'. vertical_line (storage g) l = Inr l' \<and> ?R l l'"
    if l: "points_in (storage g) (line l)" "2 \<le> length (line l)" for l
    using average_over_in [OF l(1), of "horizontal_indices (length (line l))" fst]
      average_over_in [OF l(1), of "vertical_indices (length (line l))" snd] l(2)
    by (auto simp: horizontal_line_def vertical_line_def index_bounds horizontal_indices_Nil vertical_indices_Nil)
  have h: "\<forall>l \<in> set (linesHorizontal g). \<exists>l'. horizontal_line (storage g) l = Inr l' \<and> ?R l l'"
    and v: "\<forall>l \<in> set (linesVertical g). \<exists>l'. vertical_line (storage g) l = Inr l' \<and> ?R l l'"
    using line assms unfolding lines_in_def by blast+
  show ?thesis using push_lines_ok [OF h] push_lines_ok [OF v] by (auto simp: LineGrid_ctor_def)
qed

subsection \<open>The average of several grids\<close>

text \<open>A map that has a line, with all lines inside of the picture. Each line of the maps refers to at most one line of
  the input, of which there are fewer than \<open>2 ^ 32\<close>, so no counter is 0.\<close>

definition usable :: "LineMap \<Rightarrow> bool" where
  "usable m \<longleftrightarrow> m \<noteq> [] \<and> (\<forall>e \<in> set m. picture_pos (fst e))"

lemma keys_ok_emplace: "keys_ok m \<Longrightarrow> k \<noteq> NaN \<Longrightarrow> keys_ok (snd (map_emplace m k e))"
  by (cases "k \<in> fst ` set m") (simp_all add: map_emplace_new(2), simp add: map_emplace_cases)

lemma usable_emplace:
  assumes "keys_ok m" and "m = [] \<or> usable m" and "picture_pos k"
  shows "usable (snd (map_emplace m k e))"
  using assms by (auto simp: usable_def map_emplace_cases picture_pos_number set_put)

lemma few_referees:
  assumes "entries_ok f S m" and "finite S" and "e \<in> set m"
  shows "length (e_referees (snd e)) \<le> card S"
proof -
  let ?rs = "e_referees (snd e)"
  have sub: "mset ?rs \<subseteq># refs m" using assms(3) unfolding refs_def
    by (metis (no_types, lifting) in_multiset_in_set mset_subset_eq_add_left multi_member_split sum_mset.insert image_mset_add_mset)
  have cnt: "count (mset ?rs) r \<le> (if r \<in> S then 1 else 0)" for r
    using assms(1) mset_subset_eq_count [OF sub, of r] unfolding entries_ok_def by (meson le_trans)
  have "distinct ?rs" using cnt by (rule distinct_countI)
  moreover have "set ?rs \<subseteq> S"
  proof
    fix r assume "r \<in> set ?rs"
    then have "0 < count (mset ?rs) r" by (simp only: count_mset_gt_0)
    then show "r \<in> S" using cnt [of r] by (cases "r \<in> S") auto
  qed
  ultimately show ?thesis using assms(2) by (metis card_mono distinct_card)
qed

lemma counter_positive:
  assumes "entries_ok f S m" and "finite S" and "card S < 2 ^ 32" and "e \<in> set m"
  shows "e_counter (snd e) \<noteq> 0"
proof -
  let ?rs = "e_referees (snd e)"
  have e: "?rs \<noteq> []" "e_counter (snd e) = of_nat (length ?rs)" using assms(1,4) by (auto simp: entries_ok_def entry_ok_def)
  have "length ?rs < 2 ^ 32" using few_referees [OF assms(1,2,4)] assms(3) by simp
  moreover have "0 < length ?rs" using e(1) by simp
  ultimately have "unat (of_nat (length ?rs) :: u32) \<noteq> 0" by (simp add: unsigned_of_nat take_bit_nat_eq_self)
  then show ?thesis using e(2) by (metis unat_0)
qed

lemma insertLine_total:
  assumes m: "entries_ok f S m" and S: "finite S" "card S < 2 ^ 32" and u: "usable m" and k: "picture_pos (l_position (f r))"
  shows "\<exists>m'. insertLine limit (f r) r m = Inr m' \<and> usable m'"
proof -
  let ?i = "nearest m (l_position (f r))" and ?k = "l_position (f r)"
  have keys: "keys_ok m" using m by (simp add: entries_ok_def)
  have "fmap_coords m" "m \<noteq> []" using u picture_pos_coord unfolding fmap_coords_def usable_def by blast+
  then have i: "?i < length m" using nearest_correct(1) [OF keys _ picture_pos_coord [OF k]] by blast
  show ?thesis
  proof (cases "flt (dist (fst (m ! ?i)) ?k) limit")
    case True
    let ?e = "merge_entry (snd (m ! ?i)) (f r) r"
    have e: "m ! ?i \<in> set m" using i by simp
    have "fst (m ! ?i) = l_position (e_line (snd (m ! ?i)))" using m e by (auto simp: entries_ok_def entry_ok_def)
    then have "picture_pos (l_position (e_line (snd (m ! ?i))))" using u e by (metis usable_def)
    then have p: "picture_pos (l_position (e_line ?e))"
      using merge_bounded [OF counter_positive [OF m S e] _ k] by (simp add: merge_entry_def)
    have "usable (snd (map_emplace (map_erase m ?i) (l_position (e_line ?e)) ?e))"
      using keys_ok_erase(1) [OF keys i] u p set_erase [of m ?i] by (intro usable_emplace) (auto simp: usable_def)
    then show ?thesis using True i picture_pos_number k p by (simp add: insertLine_def Let_def)
  next
    case False
    then show ?thesis using usable_emplace [OF keys _ k] u i picture_pos_number [OF k] by (simp add: insertLine_def Let_def)
  qed
qed

text \<open>The loops over lines and grids. \<open>fits\<close>: every line of a grid is inside of the picture.\<close>

definition fits :: "LLine list \<Rightarrow> bool" where
  "fits ls \<longleftrightarrow> (\<forall>l \<in> set ls. picture_pos (l_position l))"

lemma numbered_fits:
  assumes "fits ls" and "sel (grids ! g) = ls" and "x \<in> set (number_lines g ls)"
  shows "fst x = line_of sel grids (snd x)" and "picture_pos (l_position (line_of sel grids (snd x)))"
proof -
  show x: "fst x = line_of sel grids (snd x)" using numbered_lines [where sel = sel, OF assms(2)] assms(3) by (auto simp: numbered_def)
  have "fst x \<in> set ls" using assms(3) by (metis number_lines_def prod.collapse set_zip_leftD)
  then show "picture_pos (l_position (line_of sel grids (snd x)))" using assms(1) by (simp add: fits_def flip: x)
qed

lemma insert_fold_total:
  assumes "entries_ok f S m" and "usable m" and "numbered f xs" and "S \<inter> snd ` set xs = {}"
    and "S \<union> snd ` set xs \<subseteq> T" and "finite T" and "card T < 2 ^ 32" and "\<forall>x \<in> set xs. picture_pos (l_position (f (snd x)))"
  shows "\<exists>m'. rfold (\<lambda>(l, r). insertLine limit l r) xs m = Inr m' \<and> usable m'"
  using assms(1-5,8)
proof (induction xs arbitrary: m S)
  case Nil
  then show ?case by simp
next
  case (Cons x xs)
  obtain l r where x: "x = (l, r)" by (cases x)
  have l: "l = f r" and n: "numbered f xs" "r \<notin> snd ` set xs" using Cons.prems(3) by (auto simp: x numbered_def)
  have S: "finite S" "card S < 2 ^ 32"
    using Cons.prems(5) assms(6,7) by (auto intro: finite_subset le_less_trans [OF card_mono])
  obtain m1 where m1: "insertLine limit (f r) r m = Inr m1" "usable m1"
    using insertLine_total [OF Cons.prems(1) S Cons.prems(2)] Cons.prems(6) x by fastforce
  have "entries_ok f (insert r S) m1" using insertLine_ok [OF Cons.prems(1) m1(1)] Cons.prems(4) x by auto
  from Cons.IH [OF this m1(2) n(1)] show ?case using Cons.prems n(2) x l m1(1) by auto
qed

lemma insert_lines_total:
  assumes "entries_ok (line_of sel grids) (refs_below sel grids n) m" and "usable m" and "fits (sel (grids ! n))" and "n < length grids"
    and "card (refs_below sel grids (length grids)) < 2 ^ 32"
  shows "\<exists>m'. insert_lines limit n (sel (grids ! n)) m = Inr m' \<and> usable m'
    \<and> entries_ok (line_of sel grids) (refs_below sel grids (Suc n)) m'"
proof -
  let ?xs = "number_lines n (sel (grids ! n))" and ?S = "refs_below sel grids n"
  have sub: "?S \<union> snd ` set ?xs \<subseteq> refs_below sel grids (length grids)"
    unfolding refs_below_Suc [symmetric] using assms(4) by (auto simp: refs_below_def)
  have nl: "numbered (line_of sel grids) ?xs" by (rule numbered_lines) simp
  obtain m' where m': "insert_lines limit n (sel (grids ! n)) m = Inr m'" "usable m'"
    using insert_fold_total [OF assms(1,2) nl refs_below_disjoint sub finite_refs_below assms(5)] numbered_fits(2) [OF assms(3)]
    unfolding insert_lines_def by blast
  then show ?thesis
    using insert_fold_ok [OF assms(1) m'(1) [unfolded insert_lines_def] nl refs_below_disjoint] by (simp add: refs_below_Suc)
qed

lemma first_lines_total:
  assumes "fits ls" and "ls \<noteq> []"
  shows "\<exists>m. first_lines ls = Inr m \<and> usable m"
proof -
  let ?f = "\<lambda>(l, r) m. check_key (l_position l) (Inr (snd (map_emplace m (l_position l) (LineEntry_ctor l r))) :: LineMap res)"
  have step: "\<exists>m'. ?f x m = Inr m' \<and> keys_ok m' \<and> usable m'"
    if "picture_pos (l_position (fst x))" "keys_ok m" "m = [] \<or> usable m" for x and m :: LineMap
    using that keys_ok_emplace [OF that(2) picture_pos_number [OF that(1)]] usable_emplace [OF that(2,3,1)] picture_pos_number [OF that(1)]
    by (cases x) auto
  have go: "\<exists>m'. rfold ?f xs m = Inr m' \<and> keys_ok m' \<and> (m' = [] \<or> usable m') \<and> (xs \<noteq> [] \<or> usable m \<longrightarrow> usable m')"
    if "\<forall>x \<in> set xs. picture_pos (l_position (fst x))" "keys_ok m" "m = [] \<or> usable m" for xs and m :: LineMap
    using that
  proof (induction xs arbitrary: m)
    case (Cons x xs)
    then obtain m1 where "?f x m = Inr m1" "keys_ok m1" "usable m1" using step [of x m] by auto
    then show ?case using Cons.IH [of m1] Cons.prems(1) by auto
  qed simp
  have ne: "number_lines 0 ls \<noteq> []" using assms(2) by (cases ls) (simp_all add: number_lines_def upt_conv_Cons del: upt_Suc)
  have "\<forall>x \<in> set (number_lines 0 ls). picture_pos (l_position (fst x))"
    using assms(1) by (auto simp: fits_def number_lines_def dest: set_zip_leftD)
  from go [OF this, of "[]"] show ?thesis using ne unfolding first_lines_def by auto
qed

definition fitting :: "LineGrid list \<Rightarrow> bool" where
  "fitting grids \<longleftrightarrow> (\<forall>g \<in> set grids. fits (horizonalLines g) \<and> fits (verticalLines g))
     \<and> card (refs_below horizonalLines grids (length grids)) < 2 ^ 32 \<and> card (refs_below verticalLines grids (length grids)) < 2 ^ 32"

lemma insert_grids_total:
  assumes "fitting grids" and "drop n grids = gs" and "usable (fst ms)" and "usable (snd ms)"
    and "entries_ok (line_of horizonalLines grids) (refs_below horizonalLines grids n) (fst ms)"
    and "entries_ok (line_of verticalLines grids) (refs_below verticalLines grids n) (snd ms)"
  shows "\<exists>ms'. insert_grids n gs ms = Inr ms'"
  using assms(2-)
proof (induction n gs ms rule: insert_grids.induct)
  case (1 n ms)
  then show ?case by simp
next
  case (2 n g gs ms)
  have n: "n < length grids" using 2(2) by (metis drop_eq_Nil leI list.distinct(1))
  have g: "grids ! n = g" "drop (Suc n) grids = gs"
    using 2(2) n by (metis nth_via_drop) (metis 2(2) drop_Suc list.sel(3) tl_drop)
  have f: "fits (horizonalLines (grids ! n))" "fits (verticalLines (grids ! n))"
    using assms(1) n by (auto simp: fitting_def)
  obtain h where h: "insert_lines LIMIT_HORIZONTAL n (horizonalLines g) (fst ms) = Inr h" "usable h"
      "entries_ok (line_of horizonalLines grids) (refs_below horizonalLines grids (Suc n)) h"
    using insert_lines_total [OF 2(5,3) f(1) n] assms(1) unfolding fitting_def g by blast
  obtain v where v: "insert_lines LIMIT_VERTICAL n (verticalLines g) (snd ms) = Inr v" "usable v"
      "entries_ok (line_of verticalLines grids) (refs_below verticalLines grids (Suc n)) v"
    using insert_lines_total [OF 2(6,4) f(2) n] assms(1) unfolding fitting_def g by blast
  show ?case using 2(1) [OF h(1) v(1) g(2)] h v by auto
qed

text \<open>The setters succeed for lines that a mapper has.\<close>

locale total_mapping_table = mapping_table +
  assumes setter_total: "from < length (get g) \<Longrightarrow> \<exists>g'. setter from to g = Inr g'"
begin

lemma store_total: "r \<in> dom (mapping_of get mps) \<Longrightarrow> \<exists>mps'. store_mapping setter k r mps = Inr mps'"
  using setter_total [of "snd r" "mps ! fst r" k]
  by (auto simp: store_mapping_def mapping_of_def split: if_splits)

lemma collect_total:
  assumes "\<forall>e \<in> set m. set (e_referees (snd e)) \<subseteq> dom (mapping_of get (snd acc))"
  shows "\<exists>acc'. rfold (collect_entry setter n) m acc = Inr acc'"
proof -
  let ?D = "dom (mapping_of get (snd acc))"
  have all: "\<exists>mps'. rfold (store_mapping setter k) rs mps = Inr mps' \<and> dom (mapping_of get mps') = ?D"
    if "set rs \<subseteq> ?D" "dom (mapping_of get mps) = ?D" for k rs mps
  proof (rule rfold_total)
    fix r and a :: "GridMapper list" assume "r \<in> set rs" "dom (mapping_of get a) = ?D"
    then have r: "r \<in> dom (mapping_of get a)" "r \<in> ?D" using that(1) by blast+
    obtain a' where a': "store_mapping setter k r a = Inr a'" using store_total [OF r(1)] by blast
    then have "dom (mapping_of get a') = insert r ?D" using store_mapping_ok(1) [OF a'] \<open>dom (mapping_of get a) = ?D\<close> by simp
    then show "\<exists>a'. store_mapping setter k r a = Inr a' \<and> dom (mapping_of get a') = ?D"
      using a' r(2) by (simp only: insert_absorb) blast
  qed (rule that(2))
  have "\<exists>acc'. rfold (collect_entry setter n) m acc = Inr acc' \<and> dom (mapping_of get (snd acc')) = ?D"
  proof (rule rfold_total)
    fix e and a :: "LLine list \<times> GridMapper list" assume "e \<in> set m" "dom (mapping_of get (snd a)) = ?D"
    then show "\<exists>a'. collect_entry setter n e a = Inr a' \<and> dom (mapping_of get (snd a')) = ?D"
      using all [of "e_referees (snd e)" "snd a" "length (fst a)"] assms by (cases a) (auto simp: collect_entry_def)
  qed simp
  then show ?thesis by blast
qed

end

interpretation horizontal_total: total_mapping_table set_mapHorizontal horizontalMapping verticalMapping
  by unfold_locales (simp add: set_mapHorizontal_def)

interpretation vertical_total: total_mapping_table set_mapVertical verticalMapping horizontalMapping
  by unfold_locales (simp add: set_mapVertical_def)

lemma entries_ok_referees:
  assumes "entries_ok f S m" and "e \<in> set m"
  shows "set (e_referees (snd e)) \<subseteq> S"
proof
  fix r assume "r \<in> set (e_referees (snd e))"
  then have "r \<in># refs m" using assms(2) by (auto simp: refs_concat)
  then have "0 < count (refs m) r" by (simp only: count_greater_zero_iff)
  moreover have "count (refs m) r \<le> (if r \<in> S then 1 else 0)" using assms(1) unfolding entries_ok_def by blast
  ultimately show "r \<in> S" by (metis not_le)
qed

lemma averageGrids_total:
  assumes "fitting grids" and "grids \<noteq> []" and "horizonalLines (hd grids) \<noteq> []" and "verticalLines (hd grids) \<noteq> []"
  shows "\<exists>avg mappers. averageGrids grids = Inr (avg, mappers)"
proof -
  obtain g gs where grids: "grids = g # gs" using assms(2) by (cases grids) auto
  let ?m0 = "map (\<lambda>g. GridMapper_ctor (length (horizonalLines g)) (length (verticalLines g))) grids"
  have fit: "fits (horizonalLines g)" "fits (verticalLines g)" using assms(1) by (simp_all add: fitting_def grids)
  obtain h0 where h0: "first_lines (horizonalLines g) = Inr h0" "usable h0"
    using first_lines_total [OF fit(1)] assms(3) grids by auto
  obtain v0 where v0: "first_lines (verticalLines g) = Inr v0" "usable v0"
    using first_lines_total [OF fit(2)] assms(4) grids by auto
  have ok0: "entries_ok (line_of horizonalLines grids) (refs_below horizonalLines grids 1) h0"
    "entries_ok (line_of verticalLines grids) (refs_below verticalLines grids 1) v0"
    using first_lines_ok [OF h0(1), of horizonalLines grids] first_lines_ok [OF v0(1), of verticalLines grids] by (simp_all add: grids)
  obtain h v where hv: "insert_grids 1 gs (h0, v0) = Inr (h, v)"
    using insert_grids_total [OF assms(1), of 1 gs "(h0, v0)"] h0(2) v0(2) ok0 grids by fastforce
  have ok: "entries_ok (line_of horizonalLines grids) (refs_below horizonalLines grids (length grids)) h"
    "entries_ok (line_of verticalLines grids) (refs_below verticalLines grids (length grids)) v"
    using insert_grids_ok [OF hv, of grids] ok0 by (simp_all add: grids)
  have d: "dom (\<lambda>r. if r \<in> S then Some (0 :: nat) else None) = S" for S :: "Referee set" by (auto simp: dom_def)
  obtain hs m1 where c1: "rfold (collect_entry set_mapHorizontal (length grids)) h ([], ?m0) = Inr (hs, m1)"
    using horizontal_total.collect_total [of h "([], ?m0)" "length grids"] entries_ok_referees [OF ok(1)]
    unfolding snd_conv mapping_of_ctor d by fastforce
  have "\<forall>r. count (refs h) r \<le> 1" using entries_ok_count [OF ok(1)] by blast
  from horizontal_table.collect_ok [OF c1 this] have "map verticalMapping m1 = map verticalMapping ?m0" by simp
  then have "mapping_of verticalMapping m1 = mapping_of verticalMapping ?m0" by (rule mapping_of_cong)
  then obtain vs m2 where "rfold (collect_entry set_mapVertical (length grids)) v ([], m1) = Inr (vs, m2)"
    using vertical_total.collect_total [of v "([], m1)" "length grids"] entries_ok_referees [OF ok(2)]
    unfolding snd_conv by (fastforce simp: mapping_of_ctor d)
  then show ?thesis using h0(1) v0(1) hv c1 by (simp add: averageGrids_def grids)
qed

subsection \<open>Where the averages are\<close>

lemma card_refs: "card (refs_below sel grids (length grids)) = sum_list (map (\<lambda>g. length (sel g)) grids)"
proof -
  have "refs_below sel grids (length grids) = (SIGMA i:{..<length grids}. {..<length (sel (grids ! i))})"
    by (auto simp: refs_below_def)
  then show ?thesis by (simp add: sum_list_sum_nth atLeast0LessThan)
qed

lemma running_line_in:
  assumes "picture_pos (l_position l)" and "\<forall>r \<in> set rs. picture_pos (l_position (f r))"
    and "0 < unat c" and "unat c + length rs < 2 ^ 32"
  shows "picture_pos (l_position (running_line f c l rs))"
  using assms
proof (induction f c l rs rule: running_line.induct)
  case (2 f c l r rs)
  have "c \<noteq> 0" using "2.prems"(3) by auto
  moreover have "unat (c + 1) = unat c + 1" using "2.prems"(4) by (simp add: unat_add_lem [THEN iffD1])
  ultimately show ?case using "2.IH" "2.prems" merge_bounded by simp
qed simp

lemma kept_in:
  assumes m: "entries_ok (line_of sel grids) (refs_below sel grids (length grids)) m"
    and "\<forall>g \<in> set grids. fits (sel g)" and "card (refs_below sel grids (length grids)) < 2 ^ 32" and e: "e \<in> set m"
  shows "picture_pos (l_position (e_line (snd e)))"
proof -
  let ?rs = "e_referees (snd e)" and ?f = "line_of sel grids"
  have l: "?rs \<noteq> []" "e_line (snd e) = mean_line ?f ?rs" using m e by (auto simp: entries_ok_def entry_ok_def)
  have pos: "picture_pos (l_position (?f r))" if "r \<in> set ?rs" for r
  proof -
    have "fst r < length grids" "snd r < length (sel (grids ! fst r))"
      using entries_ok_referees [OF m e] that by (auto simp: refs_below_def)
    then show ?thesis using assms(2) unfolding line_of_def fits_def by (meson nth_mem)
  qed
  have "finite (refs_below sel grids (length grids))" by (rule finite_refs_below)
  from few_referees [OF m this e] have "length ?rs < 2 ^ 32" using assms(3) by simp
  then have "unat (1 :: u32) + length (tl ?rs) < 2 ^ 32" using l(1) by (cases ?rs) simp_all
  moreover have "set (tl ?rs) \<subseteq> set ?rs" "hd ?rs \<in> set ?rs" using l(1) by (cases ?rs; auto)+
  ultimately show ?thesis unfolding l(2) mean_line_def using pos by (intro running_line_in) auto
qed

text \<open>
  C4: The average of grids that are inside of the largest picture. Let the grids have fewer than \<open>2 ^ 32\<close> lines of each
  direction, at positions from 0 to 16384, and the first grid lines of both. \<open>averageGrids\<close> then reads nothing outside of its
  lists, has no NaN as a key and gets a nearest line from every search; it returns, and no rounding of the running means takes a
  line of the average out of the interval from 0 to 16384.\<close>

theorem averageGrids_bounds:
  assumes "fitting grids" and "grids \<noteq> []" and "horizonalLines (hd grids) \<noteq> []" and "verticalLines (hd grids) \<noteq> []"
  shows "\<exists>avg mappers. averageGrids grids = Inr (avg, mappers)
    \<and> (\<forall>l \<in> set (horizonalLines avg) \<union> set (verticalLines avg). \<exists>x. l_position l = Fin x \<and> 0 \<le> x \<and> x \<le> 16384)"
proof -
  obtain avg mappers where a: "averageGrids grids = Inr (avg, mappers)" using averageGrids_total [OF assms] by blast
  from averageGrids_parts [OF a] obtain h v where
    p: "entries_ok (line_of horizonalLines grids) (refs_below horizonalLines grids (length grids)) h"
      "entries_ok (line_of verticalLines grids) (refs_below verticalLines grids (length grids)) v"
      "horizonalLines avg = map (\<lambda>e. e_line (snd e)) (kept (length grids) h)"
      "verticalLines avg = map (\<lambda>e. e_line (snd e)) (kept (length grids) v)" by metis
  have "picture_pos (l_position l)" if "l \<in> set (horizonalLines avg) \<union> set (verticalLines avg)" for l
    using that kept_in [OF p(1)] kept_in [OF p(2)] assms(1) by (auto simp: p(3,4) kept_def fitting_def)
  then show ?thesis using a unfolding upto_bound_def by blast
qed

definition two_grids :: "LineGrid list" where
  "two_grids = (let l = \<lambda>p. \<lparr>l_subgrid = SUBGRID_A, l_position = Fin p\<rparr> in
     [\<lparr>horizonalLines = [l 100, l 200], verticalLines = [l 50]\<rparr>, \<lparr>horizonalLines = [l 101], verticalLines = [l 90]\<rparr>])"

theorem averageGrids_bounds_witness:
  "\<exists>avg mappers. averageGrids two_grids = Inr (avg, mappers)
    \<and> (\<forall>l \<in> set (horizonalLines avg) \<union> set (verticalLines avg). \<exists>x. l_position l = Fin x \<and> 0 \<le> x \<and> x \<le> 16384)"
proof (rule averageGrids_bounds)
  show "fitting two_grids" unfolding fitting_def card_refs by (simp add: two_grids_def fits_def upto_bound_def)
qed (simp_all add: two_grids_def)

end
