(* ===== verification/Calibration_Run.thy ===== *)
theory Calibration_Run
  imports Lens_Scan Averaging Calibrator Command_Line
begin

text \<open>
  From pictures to a calibration file: the lens detector, the calibrator and its file together.

  The grids that the detector finds are \<open>sound\<close>, and copies of sound grids are sound. When in addition every line has two
  points, \<open>calibrate\<close> meets no undefined behaviour except one: it needs an average line of each direction, and
  reads outside of the average when no line was found in more than half of the images (\<open>calibrate_returns\<close>). What it returns can
  always be stored, and is read back as it was.
\<close>

subsection \<open>Sound grids\<close>

definition sound :: "PointGrid \<Rightarrow> bool" where
  "sound g \<longleftrightarrow> distinct (map fst (storage g))
     \<and> (\<forall>l \<in> set (linesHorizontal g) \<union> set (linesVertical g). points_in (storage g) (line l))
     \<and> (\<forall>p q. map_of (storage g) p = Some q \<longrightarrow>
          horizontalLine q < length (linesHorizontal g) \<and> verticalLine q < length (linesVertical g))"

text \<open>Lines of both directions, each with the two points that a position and a direction need.\<close>

definition full :: "PointGrid \<Rightarrow> bool" where
  "full g \<longleftrightarrow> linesHorizontal g \<noteq> [] \<and> linesVertical g \<noteq> []
     \<and> (\<forall>l \<in> set (linesHorizontal g) \<union> set (linesVertical g). 2 \<le> length (line l))"

lemma finished_sound:
  assumes "finished g"
  shows "sound g"
proof -
  have g: "grid_ok g" "distinct (map fst (storage g))" "\<forall>e \<in> set (storage g). in_range (snd e)"
    using assms by (auto simp: finished_def)
  have "points_in (storage g) (line l)" if "l \<in> set (linesHorizontal g) \<union> set (linesVertical g)" for l
    unfolding points_in_def
  proof
    fix p assume "p \<in> set (line l)"
    then have "p \<in> line_points (linesHorizontal g) \<union> line_points (linesVertical g)" using that by (auto simp: line_points_def)
    moreover have "dom (map_of (storage g)) = line_points (linesHorizontal g)" "dom (map_of (storage g)) = line_points (linesVertical g)"
      using g(1) unfolding grid_ok_def by blast+
    ultimately have "p \<in> dom (map_of (storage g))" by blast
    then obtain q where q: "map_of (storage g) p = Some q" by blast
    then have "in_range q" using g(3) map_of_SomeD by fastforce
    then show "\<exists>q. map_of (storage g) p = Some q \<and> picture_pos (fst (position q)) \<and> picture_pos (snd (position q))"
      using q by (simp add: in_range_def MAX_SIDE_def)
  qed
  then show ?thesis using g(1,2) unfolding sound_def grid_ok_def by blast
qed

lemma sound_copy:
  assumes "sound g"
  shows "\<exists>g'. PointGrid_copy a g = Inr g' \<and> sound g' \<and> (full g' \<longleftrightarrow> full g)
    \<and> length (linesHorizontal g') = length (linesHorizontal g) \<and> length (linesVertical g') = length (linesVertical g)"
proof -
  have d: "distinct (map fst (storage g))" using assms by (simp add: sound_def)
  have dom: "dom (map_of (storage g)) = fst ` set (storage g)" by (simp add: dom_map_of_conv_image_fst)
  have ls: "\<forall>l \<in> set (linesHorizontal g) \<union> set (linesVertical g). set (line l) \<subseteq> fst ` set (storage g)"
    using assms unfolding sound_def points_in_def dom [symmetric] by blast
  obtain f g' where c: "PointGrid_copy a g = Inr g'" "map fst (storage g') = [a..<next g']" "bij_betw f (fst ` set (storage g)) {a..<next g'}"
      "\<forall>p \<in> fst ` set (storage g). map_of (storage g') (f p) = map_of (storage g) p"
      "linesHorizontal g' = map (\<lambda>l. l\<lparr>line := map f (line l)\<rparr>) (linesHorizontal g)"
      "linesVertical g' = map (\<lambda>l. l\<lparr>line := map f (line l)\<rparr>) (linesVertical g)"
    using PointGrid_copy_ok [OF d ls, of a] by blast
  have points: "points_in (storage g') (map f ps)" if "points_in (storage g) ps" for ps
    unfolding points_in_def
  proof
    fix p' assume "p' \<in> set (map f ps)"
    then obtain p where p: "p \<in> set ps" "p' = f p" by auto
    then have "p \<in> dom (map_of (storage g))" using that by (auto simp: points_in_def)
    then have "map_of (storage g') p' = map_of (storage g) p" using c(4) p(2) unfolding dom by blast
    then show "\<exists>q. map_of (storage g') p' = Some q \<and> picture_pos (fst (position q)) \<and> picture_pos (snd (position q))"
      using that p(1) by (simp add: points_in_def)
  qed
  have "\<exists>p. p \<in> dom (map_of (storage g)) \<and> map_of (storage g) p = Some q" if "map_of (storage g') p' = Some q" for p' q
  proof -
    have "p' \<in> set (map fst (storage g'))" using map_of_SomeD [OF that] by force
    then have "p' \<in> f ` fst ` set (storage g)" using c(2,3) by (simp add: bij_betw_def)
    then obtain p where p: "p \<in> fst ` set (storage g)" "p' = f p" by blast
    then have "map_of (storage g) p = Some q" using bspec [OF c(4) p(1)] that by simp
    then show ?thesis using p(1) unfolding dom by blast
  qed
  then have links: "\<forall>p' q. map_of (storage g') p' = Some q \<longrightarrow>
      horizontalLine q < length (linesHorizontal g) \<and> verticalLine q < length (linesVertical g)"
    using assms unfolding sound_def by (meson domD)
  have "\<forall>l \<in> set (linesHorizontal g') \<union> set (linesVertical g'). points_in (storage g') (line l)"
    using assms points unfolding sound_def c(5,6) by auto
  then have "sound g'" using links unfolding sound_def c(2,5,6) by simp
  moreover have "full g' \<longleftrightarrow> full g" unfolding full_def c(5,6) by (simp add: ball_Un)
  ultimately show ?thesis using c(1,5,6) by auto
qed

subsection \<open>Lines and their directions\<close>

text \<open>\<open>cv::fitLine\<close> needs two points.\<close>

definition line_fits :: "cv_math \<Rightarrow> bool" where
  "line_fits M \<longleftrightarrow> (\<forall>ps. 2 \<le> length ps \<longrightarrow> (\<exists>v. fit_line M ps = Inr v))"

lemma findLineParams_total:
  assumes "line_fits M" and "points_in s (line l)" and "2 \<le> length (line l)"
  shows "\<exists>v. findLineParams M s l = Inr v"
proof -
  have "rfold (\<lambda>p acc. rbind (getPosition s p) (\<lambda>pos. Inr (acc @ [pos]))) ps acc = (Inr (acc @ map (pos_of s) ps) :: (fl \<times> fl) list res)"
    if "set ps \<subseteq> set (line l)" for ps acc
    using that getPosition_ok [OF points_in_ok [OF assms(2)]] by (induction ps arbitrary: acc) auto
  then show ?thesis using assms(1,3) by (simp add: findLineParams_def line_fits_def)
qed

text \<open>A loop that adds one result per element.\<close>

lemma collect_results:
  assumes "\<forall>x \<in> set xs. \<exists>y. f x = Inr y"
  shows "\<exists>ys. rfold (\<lambda>x acc. rbind (f x) (\<lambda>y. Inr (acc @ [y]))) xs acc = (Inr (acc @ ys) :: 'b list res) \<and> length ys = length xs
    \<and> (\<forall>i < length xs. f (xs ! i) = Inr (ys ! i))"
  using assms
proof (induction xs arbitrary: acc)
  case (Cons x xs)
  then obtain y where y: "f x = Inr y" by auto
  obtain ys where "rfold (\<lambda>x acc. rbind (f x) (\<lambda>y. Inr (acc @ [y]))) xs (acc @ [y]) = (Inr ((acc @ [y]) @ ys) :: 'b list res)"
      "length ys = length xs" "\<forall>i < length xs. f (xs ! i) = Inr (ys ! i)"
    using Cons.IH [of "acc @ [y]"] Cons.prems by auto
  then show ?case using y by (intro exI [of _ "y # ys"]) (auto simp: nth_Cons split: nat.splits)
qed simp

lemma grid_angle_total:
  assumes "line_fits M" and "lines_in (linesVertical g) (storage g)"
  shows "\<exists>a. grid_angle M g = Inr a"
proof -
  have "\<exists>a. line_angle M (storage g) l = Inr a" if "l \<in> set (linesVertical g)" for l
    using findLineParams_total [OF assms(1), of "storage g" l] assms(2) that by (auto simp: lines_in_def line_angle_def)
  then show ?thesis using collect_results [of "linesVertical g" "line_angle M (storage g)" "[]"] by (auto simp: grid_angle_def)
qed

lemma calibrateRotation_total:
  assumes "line_fits M" and "\<forall>g \<in> set grids. lines_in (linesVertical g) (storage g)" and "set order \<subseteq> {..<length grids}"
  shows "\<exists>r. calibrateRotation M order grids = Inr r"
proof -
  have "\<exists>a. rbind (ld grids (int i)) (grid_angle M) = Inr a" if "i \<in> set order" for i
    using grid_angle_total [OF assms(1)] assms(2,3) that by (auto simp: subset_iff)
  then show ?thesis
    using collect_results [of order "\<lambda>i. rbind (ld grids (int i)) (grid_angle M)" "[]"] by (auto simp: calibrateRotation_def rbind_assoc)
qed

subsection \<open>Lines of the average\<close>

text \<open>A mapper that has a line of the average for every line of the grid.\<close>

definition maps_lines :: "nat list \<Rightarrow> nat \<Rightarrow> nat \<Rightarrow> bool" where
  "maps_lines tbl n k \<longleftrightarrow> length tbl = n \<and> (\<forall>j \<in> set tbl. j < k)"

text \<open>\<open>cv::Vec::dot\<close> of the two directions that the code uses.\<close>

definition unit_dots :: "cv_math \<Rightarrow> bool" where
  "unit_dots M \<longleftrightarrow> dot2 M (Fin 1, Fin 0) (Fin 1, Fin 0) = Fin 1 \<and> dot2 M (Fin 0, Fin 1) (Fin 1, Fin 0) = Fin 0"

lemma target_line_horizontal:
  assumes "unit_dots M" and "line l = p # ps" and "map_of s p = Some q" and "horizontalLine q < length (horizontalMapping mapper)"
  shows "target_line M s (Fin 1, Fin 0) avg mapper l = ld (horizonalLines avg) (int (horizontalMapping mapper ! horizontalLine q))"
  using assms by (simp add: target_line_def unit_dots_def rnd64_half front_def deref_def mapHorizontal_def)

lemma target_line_vertical:
  assumes "unit_dots M" and "line l = p # ps" and "map_of s p = Some q" and "verticalLine q < length (verticalMapping mapper)"
  shows "target_line M s (Fin 0, Fin 1) avg mapper l = ld (verticalLines avg) (int (verticalMapping mapper ! verticalLine q))"
  using assms by (simp add: target_line_def unit_dots_def rnd64_half front_def deref_def mapVertical_def)

text \<open>Both directions at once: \<open>tgt\<close> are the average lines that the lines of the grid are compared with.\<close>

lemma findTranslation_cases:
  assumes fits: "line_fits M" and ls: "lines_in ls s" and maps: "maps_lines tbl n (length tgt) \<or> tgt = []"
    and avg: "\<And>l p ps q. l \<in> set ls \<Longrightarrow> line l = p # ps \<Longrightarrow> map_of s p = Some q \<Longrightarrow>
      \<exists>i. (tgt \<noteq> [] \<longrightarrow> i \<in> set tbl) \<and> target_line M s dir avg mapper l = ld tgt (int i)"
  shows "if tgt = [] \<and> ls \<noteq> [] then findTranslation M s ls dir angle avg mapper = Inl OutOfBounds
    else \<exists>d. findTranslation M s ls dir angle avg mapper = Inr d"
proof -
  have step: "if tgt = [] then translation_step M s dir angle avg mapper l ds = Inl OutOfBounds
      else \<exists>ds'. translation_step M s dir angle avg mapper l ds = Inr ds'" if l: "l \<in> set ls" for l ds
  proof -
    have p: "points_in s (line l)" "2 \<le> length (line l)" using ls l by (auto simp: lines_in_def)
    obtain v where v: "findLineParams M s l = Inr v" using findLineParams_total [OF fits p] by blast
    obtain x xs where x: "line l = x # xs" using p(2) by (cases "line l") auto
    then obtain q where q: "map_of s x = Some q" using p(1) by (auto simp: points_in_def)
    from avg [OF l x q] obtain i where i: "tgt \<noteq> [] \<longrightarrow> i \<in> set tbl" "target_line M s dir avg mapper l = ld tgt (int i)"
      by blast
    show ?thesis
    proof (cases "tgt = []")
      case True
      then show ?thesis using v i(2) by (simp add: translation_step_def Let_def ld_def)
    next
      case False
      then have "i < length tgt" using i(1) maps by (auto simp: maps_lines_def)
      then show ?thesis using v i(2) False by (simp add: translation_step_def Let_def)
    qed
  qed
  show ?thesis
  proof (cases "tgt = [] \<and> ls \<noteq> []")
    case True
    then obtain l ls' where "ls = l # ls'" by (cases ls) auto
    then show ?thesis using step [of l "[]"] True by (simp add: findTranslation_def)
  next
    case False
    have "\<exists>ds. rfold (translation_step M s dir angle avg mapper) ls [] = Inr ds \<and> True"
    proof (rule rfold_total)
      fix l ds assume "l \<in> set ls"
      then show "\<exists>ds'. translation_step M s dir angle avg mapper l ds = Inr ds' \<and> True" using step [of l ds] False by auto
    qed simp
    then show ?thesis using False by (auto simp: findTranslation_def)
  qed
qed

text \<open>A grid, the average and the mapper between them.\<close>

definition matched :: "LineGrid \<Rightarrow> PointGrid \<Rightarrow> GridMapper \<Rightarrow> bool" where
  "matched avg g mapper \<longleftrightarrow>
     length (horizontalMapping mapper) = length (linesHorizontal g) \<and> length (verticalMapping mapper) = length (linesVertical g)
   \<and> (horizonalLines avg \<noteq> [] \<longrightarrow> (\<forall>j \<in> set (horizontalMapping mapper). j < length (horizonalLines avg)))
   \<and> (verticalLines avg \<noteq> [] \<longrightarrow> (\<forall>j \<in> set (verticalMapping mapper). j < length (verticalLines avg)))"

lemma sound_lines_in: "sound g \<Longrightarrow> full g \<Longrightarrow> lines_in (linesHorizontal g) (storage g) \<and> lines_in (linesVertical g) (storage g)"
  by (auto simp: sound_def full_def lines_in_def)

lemma grid_translation_cases:
  assumes M: "line_fits M" "unit_dots M" and g: "sound g" "full g" and m: "i < length mappers" "matched avg g (mappers ! i)"
  shows "if horizonalLines avg = [] \<or> verticalLines avg = [] then grid_translation M angle avg mappers (i, g) acc = Inl OutOfBounds
    else \<exists>acc'. grid_translation M angle avg mappers (i, g) acc = Inr acc'"
proof -
  let ?m = "mappers ! i"
  have ls: "lines_in (linesHorizontal g) (storage g)" "lines_in (linesVertical g) (storage g)"
    using sound_lines_in [OF g] by blast+
  have links: "horizontalLine q < length (horizontalMapping ?m)" "verticalLine q < length (verticalMapping ?m)"
    if "map_of (storage g) p = Some q" for p q
    using that g(1) m(2) by (auto simp: sound_def matched_def)
  have maps: "maps_lines (horizontalMapping ?m) (length (horizontalMapping ?m)) (length (horizonalLines avg)) \<or> horizonalLines avg = []"
      "maps_lines (verticalMapping ?m) (length (verticalMapping ?m)) (length (verticalLines avg)) \<or> verticalLines avg = []"
    using m(2) by (auto simp: maps_lines_def matched_def)
  have h: "if horizonalLines avg = [] \<and> linesHorizontal g \<noteq> []
      then findTranslation M (storage g) (linesHorizontal g) (Fin 1, Fin 0) a avg ?m = Inl OutOfBounds
      else \<exists>d. findTranslation M (storage g) (linesHorizontal g) (Fin 1, Fin 0) a avg ?m = Inr d" for a
  proof (rule findTranslation_cases [OF M(1) ls(1) maps(1)])
    fix l :: Line and p ps q assume l: "line l = p # ps" "map_of (storage g) p = Some q"
    then show "\<exists>i. (horizonalLines avg \<noteq> [] \<longrightarrow> i \<in> set (horizontalMapping ?m))
        \<and> target_line M (storage g) (Fin 1, Fin 0) avg ?m l = ld (horizonalLines avg) (int i)"
      using target_line_horizontal [OF M(2) l links(1) [OF l(2)]] nth_mem [OF links(1) [OF l(2)]] by blast
  qed
  have v: "if verticalLines avg = [] \<and> linesVertical g \<noteq> []
      then findTranslation M (storage g) (linesVertical g) (Fin 0, Fin 1) a avg ?m = Inl OutOfBounds
      else \<exists>d. findTranslation M (storage g) (linesVertical g) (Fin 0, Fin 1) a avg ?m = Inr d" for a
  proof (rule findTranslation_cases [OF M(1) ls(2) maps(2)])
    fix l :: Line and p ps q assume l: "line l = p # ps" "map_of (storage g) p = Some q"
    then show "\<exists>i. (verticalLines avg \<noteq> [] \<longrightarrow> i \<in> set (verticalMapping ?m))
        \<and> target_line M (storage g) (Fin 0, Fin 1) avg ?m l = ld (verticalLines avg) (int i)"
      using target_line_vertical [OF M(2) l links(2) [OF l(2)]] nth_mem [OF links(2) [OF l(2)]] by blast
  qed
  show ?thesis
    using h [of "neg angle"] v [of "neg angle"] m(1) g(2)
    by (cases acc) (auto simp: grid_translation_def full_def split: if_splits)
qed

lemma calibrateTranslation_cases:
  assumes M: "line_fits M" "unit_dots M" and "\<forall>g \<in> set grids. sound g \<and> full g" and "grids \<noteq> []"
    and "\<forall>i < length grids. i < length mappers \<and> matched avg (grids ! i) (mappers ! i)"
  shows "if horizonalLines avg = [] \<or> verticalLines avg = [] then calibrateTranslation M grids angle avg mappers = Inl OutOfBounds
    else \<exists>v. calibrateTranslation M grids angle avg mappers = Inr v"
proof -
  let ?none = "horizonalLines avg = [] \<or> verticalLines avg = []"
  have step: "if ?none then grid_translation M angle avg mappers ig acc = Inl OutOfBounds
      else \<exists>acc'. grid_translation M angle avg mappers ig acc = Inr acc'" if ig: "ig \<in> set (enumerate 0 grids)" for ig acc
  proof -
    obtain i where "ig = (i, grids ! i)" "i < length grids"
      using ig by (auto simp: in_set_enumerate_eq prod_eq_iff)
    then show ?thesis using grid_translation_cases [OF M, of "grids ! i" i mappers avg angle acc] assms(3,5) by auto
  qed
  show ?thesis
  proof (cases ?none)
    case True
    obtain g gs where "grids = g # gs" using assms(4) by (cases grids) auto
    then show ?thesis using True step [of "(0, g)" "([], [])"] by (simp add: calibrateTranslation_def)
  next
    case False
    have "\<exists>vs. rfold (grid_translation M angle avg mappers) (enumerate 0 grids) ([], []) = Inr vs \<and> True"
    proof (rule rfold_total)
      fix ig acc assume "ig \<in> set (enumerate 0 grids)"
      then show "\<exists>acc'. grid_translation M angle avg mappers ig acc = Inr acc' \<and> True" using step [of ig acc] False by auto
    qed simp
    then show ?thesis using False by (auto simp: calibrateTranslation_def)
  qed
qed

lemma mapped_table:
  assumes m: "mapped grids sel m (mapping_of get mappers)" and i: "i < length grids" "sel (grids ! i) \<noteq> []"
  shows "i < length mappers \<and> length (get (mappers ! i)) = length (sel (grids ! i))
    \<and> (\<forall>j \<in> set (get (mappers ! i)). j = 0 \<or> j < length (kept (length grids) m))"
proof -
  have dom: "(i, x) \<in> dom (mapping_of get mappers) \<longleftrightarrow> x < length (sel (grids ! i))" for x
    using m i(1) by (simp add: mapped_def refs_below_def)
  have "0 < length (sel (grids ! i))" using i(2) by simp
  then have n: "i < length mappers" using dom [of 0] by (auto simp: mapping_of_def split: if_splits)
  then have len: "x < length (get (mappers ! i)) \<longleftrightarrow> x < length (sel (grids ! i))" for x
    using dom [of x] by (auto simp: mapping_of_def split: if_splits)
  have "j = 0 \<or> j < length (kept (length grids) m)" if j: "j \<in> set (get (mappers ! i))" for j
  proof -
    obtain x where x: "x < length (get (mappers ! i))" "get (mappers ! i) ! x = j" using j by (auto simp: in_set_conv_nth)
    then have v: "mapping_of get mappers (i, x) = Some j" using n by (simp add: mapping_of_def)
    show ?thesis
    proof (cases "(i, x) \<in># refs (kept (length grids) m)")
      case True
      then obtain e where e: "e \<in> set (kept (length grids) m)" "(i, x) \<in> set (e_referees (snd e))"
        by (auto simp: refs_concat)
      then obtain k where "k < length (kept (length grids) m)" "kept (length grids) m ! k = e" by (auto simp: in_set_conv_nth)
      then have "k < length (kept (length grids) m)" "(i, x) \<in> set (e_referees (snd (kept (length grids) m ! k)))"
        using e(2) by simp_all
      then show ?thesis using m v by (auto simp: mapped_def)
    next
      case False
      then show ?thesis using m v by (auto simp: mapped_def)
    qed
  qed
  then show ?thesis using n len by (metis linorder_neqE_nat nat_neq_iff)
qed

lemma average_matched:
  assumes "averageGrids lgs = Inr (avg, mappers)" and "length lgs = length grids"
    and "\<forall>i < length grids. length (horizonalLines (lgs ! i)) = length (linesHorizontal (grids ! i))
      \<and> length (verticalLines (lgs ! i)) = length (linesVertical (grids ! i)) \<and> full (grids ! i)"
  shows "\<forall>i < length grids. i < length mappers \<and> matched avg (grids ! i) (mappers ! i)"
proof (intro allI impI)
  fix i assume i: "i < length grids"
  from averageGrids_parts [OF assms(1)] obtain h v where
    a: "horizonalLines avg = map (\<lambda>e. e_line (snd e)) (kept (length lgs) h)"
      "verticalLines avg = map (\<lambda>e. e_line (snd e)) (kept (length lgs) v)"
      "mapped lgs horizonalLines h (mapping_of horizontalMapping mappers)"
      "mapped lgs verticalLines v (mapping_of verticalMapping mappers)" by metis
  have l: "length (horizonalLines (lgs ! i)) = length (linesHorizontal (grids ! i))"
      "length (verticalLines (lgs ! i)) = length (linesVertical (grids ! i))" and f: "full (grids ! i)" using assms(3) i by auto
  then have ne: "horizonalLines (lgs ! i) \<noteq> []" "verticalLines (lgs ! i) \<noteq> []" by (auto simp: full_def)
  have il: "i < length lgs" using i assms(2) by simp
  have zero: "j < length ls" if "j = 0 \<or> j < length ls" "ls \<noteq> []" for j and ls :: "LLine list" using that by auto
  show "i < length mappers \<and> matched avg (grids ! i) (mappers ! i)"
    using mapped_table [OF a(3) il ne(1)] mapped_table [OF a(4) il ne(2)] l zero [of _ "horizonalLines avg"] zero [of _ "verticalLines avg"]
    by (auto simp: matched_def a(1,2))
qed

subsection \<open>Lens parameters\<close>

text \<open>A lens of the metadata with all three numbers that are read.\<close>

definition lens_readable :: "'j json_ops \<Rightarrow> 'j memory \<Rightarrow> Devices_Lens \<Rightarrow> bool" where
  "lens_readable J mem lens \<longleftrightarrow> lens_value J mem lens \<noteq> None \<and> (\<exists>x mem'. Devices_Lens_getFocallength J lens mem = Inr (x, mem'))"

definition lens_stable :: "'j json_ops \<Rightarrow> 'j memory \<Rightarrow> 'j memory \<Rightarrow> bool" where
  "lens_stable J mem mem' \<longleftrightarrow> (\<forall>lens. lens_readable J mem lens \<longrightarrow> lens_readable J mem' lens)"

lemma lens_access_stable:
  assumes "json_lib J" and "access J conv p a mem = Inr (x, mem')"
    and "list_all (compatible p) (meta [K ''devices'', K ''lens'', K ''focalLength''] # lens_paths)"
  shows "lens_stable J mem mem'"
proof -
  have s: "stable J mem mem'" using access_stable [OF assms(1,2)] assms(3) by simp
  show ?thesis
    unfolding lens_stable_def lens_readable_def Devices_Lens_getFocallength_def
    using stableD [OF s] access_frame [OF assms(1,2), of "as_float J"] assms(3) by fastforce
qed

lemma lens_getters_stable:
  assumes "json_lib J"
  shows "Devices_Lens_getZoomstep J lens mem = Inr (z, mem') \<Longrightarrow> lens_stable J mem mem'"
    and "Devices_Lens_getFocusstep J lens mem = Inr (z, mem') \<Longrightarrow> lens_stable J mem mem'"
    and "Devices_Lens_getFocallength J lens mem = Inr (f, mem') \<Longrightarrow> lens_stable J mem mem'"
  unfolding Devices_Lens_getZoomstep_def Devices_Lens_getFocusstep_def Devices_Lens_getFocallength_def
  by (erule lens_access_stable [OF assms], simp add: lens_paths_def meta_def frame_path_def)+

lemma lens_calibration_total:
  assumes J: "json_lib J" and r: "lens_readable J mem (fst e)"
  shows "\<exists>acc' mem'. lens_calibration J e (acc, mem) = Inr (acc', mem') \<and> lens_stable J mem mem'"
proof -
  obtain x m1 where m1: "Devices_Lens_getFocallength J (fst e) mem = Inr (x, m1)" using r by (auto simp: lens_readable_def)
  have s1: "lens_stable J mem m1" using lens_getters_stable(3) [OF J m1] .
  have r1: "lens_readable J m1 (fst e)" using s1 r by (simp add: lens_stable_def)
  then obtain z f where v: "lens_value J m1 (fst e) = Some (z, f)" by (auto simp: lens_readable_def)
  obtain m2 where m2: "Devices_Lens_getZoomstep J (fst e) m1 = Inr (z, m2)" "stable J m1 m2" using read_steps(1) [OF J v] by blast
  obtain m3 where m3: "Devices_Lens_getFocusstep J (fst e) m2 = Inr (f, m3)" "stable J m2 m3"
    using read_steps(2) [OF J stableD [OF m2(2) v]] by blast
  have "lens_stable J mem m3"
    using s1 lens_getters_stable(1) [OF J m2(1)] lens_getters_stable(2) [OF J m3(1)] by (simp add: lens_stable_def)
  then show ?thesis using m1 m2(1) m3(1) by (cases e) (simp add: lens_calibration_def estimateCameraMatrix_def Let_def)
qed

lemma lens_fold_total:
  assumes J: "json_lib J" and "\<forall>k \<in> fst ` set m. lens_readable J mem k"
  shows "\<exists>acc' mem'. rfold (lens_calibration J) m (acc, mem) = Inr (acc', mem')"
  using assms(2)
proof (induction m arbitrary: acc mem)
  case (Cons e m)
  obtain acc1 mem1 where s: "lens_calibration J e (acc, mem) = Inr (acc1, mem1)" "lens_stable J mem mem1"
    using lens_calibration_total [OF J] Cons.prems by (metis image_insert insertI1 list.simps(15))
  then show ?case using Cons.IH [of mem1 acc1] Cons.prems by (auto simp: lens_stable_def)
qed simp

subsection \<open>When a calibration succeeds\<close>

text \<open>The line grids of the images, as \<open>calibrate\<close> makes them, and their average.\<close>

definition line_grids :: "PointGrid list \<Rightarrow> LineGrid list res" where
  "line_grids grids = rfold (\<lambda>g acc. rbind (PointGrid_copy 0 g) (\<lambda>entry. rbind (LineGrid_ctor entry) (\<lambda>l. Inr (acc @ [l])))) grids []"

definition few_lines :: "PointGrid list \<Rightarrow> bool" where
  "few_lines grids \<longleftrightarrow> sum_list (map (\<lambda>g. length (linesHorizontal g) + length (linesVertical g)) grids) < 2 ^ 32"

lemma line_grids_ok:
  assumes "\<forall>g \<in> set grids. sound g \<and> full g"
  shows "\<exists>lgs. line_grids grids = Inr lgs \<and> length lgs = length grids
    \<and> (\<forall>i < length grids. fits (horizonalLines (lgs ! i)) \<and> fits (verticalLines (lgs ! i))
        \<and> length (horizonalLines (lgs ! i)) = length (linesHorizontal (grids ! i))
        \<and> length (verticalLines (lgs ! i)) = length (linesVertical (grids ! i)) \<and> full (grids ! i))"
proof -
  let ?f = "\<lambda>g. rbind (PointGrid_copy 0 g) LineGrid_ctor"
  have one: "\<exists>l. ?f g = Inr l \<and> fits (horizonalLines l) \<and> fits (verticalLines l)
      \<and> length (horizonalLines l) = length (linesHorizontal g) \<and> length (verticalLines l) = length (linesVertical g)"
    if g: "g \<in> set grids" for g
  proof -
    obtain g' where c: "PointGrid_copy 0 g = Inr g'" "sound g'" "full g'"
        "length (linesHorizontal g') = length (linesHorizontal g)" "length (linesVertical g') = length (linesVertical g)"
      using sound_copy [of g 0] assms g by blast
    obtain l where l: "LineGrid_ctor g' = Inr l"
        "list_all2 (\<lambda>l l'. l_subgrid l' = subgrid l \<and> picture_pos (l_position l')) (linesHorizontal g') (horizonalLines l)"
        "list_all2 (\<lambda>l l'. l_subgrid l' = subgrid l \<and> picture_pos (l_position l')) (linesVertical g') (verticalLines l)"
      using LineGrid_ctor_in sound_lines_in [OF c(2,3)] by blast
    have "fits (horizonalLines l)" "fits (verticalLines l)"
      using l(2,3) by (auto simp: fits_def list_all2_conv_all_nth in_set_conv_nth)
    then show ?thesis using c l by (simp add: list_all2_lengthD [OF l(2), symmetric] list_all2_lengthD [OF l(3), symmetric])
  qed
  then obtain lgs where "line_grids grids = Inr lgs" "length lgs = length grids" "\<forall>i < length grids. ?f (grids ! i) = Inr (lgs ! i)"
    using collect_results [of grids ?f "[]"] by (auto simp: line_grids_def rbind_assoc)
  then show ?thesis using one assms by (metis Inr_inject nth_mem)
qed

lemma average_ok:
  assumes "\<forall>g \<in> set grids. sound g \<and> full g" and "grids \<noteq> []" and "few_lines grids"
  shows "\<exists>lgs avg mappers. line_grids grids = Inr lgs \<and> averageGrids lgs = Inr (avg, mappers)
    \<and> (\<forall>i < length grids. i < length mappers \<and> matched avg (grids ! i) (mappers ! i))"
proof -
  obtain lgs where l: "line_grids grids = Inr lgs" "length lgs = length grids"
      "\<forall>i < length grids. fits (horizonalLines (lgs ! i)) \<and> fits (verticalLines (lgs ! i))
        \<and> length (horizonalLines (lgs ! i)) = length (linesHorizontal (grids ! i))
        \<and> length (verticalLines (lgs ! i)) = length (linesVertical (grids ! i)) \<and> full (grids ! i)"
    using line_grids_ok [OF assms(1)] by blast
  have "map (\<lambda>g. length (horizonalLines g)) lgs = map (\<lambda>g. length (linesHorizontal g)) grids"
    "map (\<lambda>g. length (verticalLines g)) lgs = map (\<lambda>g. length (linesVertical g)) grids"
    using l(2,3) by (auto intro: nth_equalityI)
  moreover have "sum_list (map (\<lambda>g. length (linesHorizontal g)) grids) + sum_list (map (\<lambda>g. length (linesVertical g)) grids) < 2 ^ 32"
    using assms(3) by (simp add: few_lines_def sum_list_addf)
  ultimately have "card (refs_below horizonalLines lgs (length lgs)) < 2 ^ 32" "card (refs_below verticalLines lgs (length lgs)) < 2 ^ 32"
    unfolding card_refs by simp_all
  moreover have "fits (horizonalLines g) \<and> fits (verticalLines g)" if "g \<in> set lgs" for g
    using that l(2,3) by (auto simp: in_set_conv_nth)
  ultimately have "fitting lgs" by (simp add: fitting_def)
  moreover have ne: "lgs \<noteq> []" using l(2) assms(2) by auto
  moreover have "horizonalLines (hd lgs) \<noteq> []" "verticalLines (hd lgs) \<noteq> []"
    using l(2) spec [OF l(3), of 0] assms(2) by (auto simp: hd_conv_nth [OF ne] full_def)
  ultimately obtain avg mappers where "averageGrids lgs = Inr (avg, mappers)" using averageGrids_total by blast
  then show ?thesis using average_matched [of lgs avg mappers grids] l by blast
qed

lemma calibrate_cases:
  assumes J: "json_lib J" and M: "line_fits M" "unit_dots M"
    and grids: "\<forall>g \<in> set (pointGridList cal). sound g \<and> full g" "pointGridList cal \<noteq> []" "few_lines (pointGridList cal)"
    and order: "set order \<subseteq> {..<length (pointGridList cal)}"
    and lens: "\<forall>k \<in> fst ` set (clusterMap cal). lens_readable J mem k"
  shows "\<exists>lgs avg mappers. line_grids (pointGridList cal) = Inr lgs \<and> averageGrids lgs = Inr (avg, mappers)
    \<and> (if horizonalLines avg = [] \<or> verticalLines avg = [] then calibrate J M order (cal, mem) = Inl OutOfBounds
       else \<exists>data mem'. calibrate J M order (cal, mem) = Inr (data, mem') \<and> m_grid (m_array data) = avg)"
proof -
  obtain lgs avg mappers where a: "line_grids (pointGridList cal) = Inr lgs" "averageGrids lgs = Inr (avg, mappers)"
      "\<forall>i < length (pointGridList cal). i < length mappers \<and> matched avg (pointGridList cal ! i) (mappers ! i)"
    using average_ok [OF grids] by blast
  obtain rot where r: "calibrateRotation M order (pointGridList cal) = Inr rot"
    using calibrateRotation_total [OF M(1) _ order] grids(1) sound_lines_in by blast
  note t = calibrateTranslation_cases [OF M grids(1,2) a(3), of "neg rot"]
  show ?thesis
  proof (cases "horizonalLines avg = [] \<or> verticalLines avg = []")
    case True
    then show ?thesis using a r t by (auto simp: calibrate_def line_grids_def)
  next
    case False
    then obtain v where v: "calibrateTranslation M (pointGridList cal) (neg rot) avg mappers = Inr v" using t by auto
    obtain es mem' where es: "rfold (lens_calibration J) (clusterMap cal) ([], mem) = Inr (es, mem')"
      using lens_fold_total [OF J lens] by blast
    have "\<forall>k \<in> fst ` set (clusterMap cal). lens_value J mem k \<noteq> None" using lens by (simp add: lens_readable_def)
    then have "\<forall>e \<in> set es. configured e" using lens_fold_ok [OF J es] by auto
    then obtain l where "sort_lens es = Inr l" using sort_lens_ok by blast
    then show ?thesis using False a r v es by (simp add: calibrate_def line_grids_def CalibrationData_of_def Let_def)
  qed
qed

text \<open>
  C2: \<open>Calibrator::calibrate\<close> on sound grids that have lines of both directions with two points each, metadata with the three
  numbers of the lens, an order of the parallel loop that names grids of the calibrator, and fewer than \<open>2 ^ 32\<close> lines: the line
  grids and their average are computed without an error. When the average has a line of each direction the function returns, with
  this average in the data. Otherwise, that is, when no line of one direction was found in more than half of the
  pictures, it reads outside of the average.\<close>

theorem calibrate_returns:
  assumes J: "json_lib J" and M: "line_fits M" "unit_dots M"
    and grids: "\<forall>g \<in> set (pointGridList cal). sound g \<and> full g" "pointGridList cal \<noteq> []" "few_lines (pointGridList cal)"
    and order: "set order \<subseteq> {..<length (pointGridList cal)}"
    and lens: "\<forall>k \<in> fst ` set (clusterMap cal). lens_readable J mem k"
  shows "\<exists>lgs avg mappers. line_grids (pointGridList cal) = Inr lgs \<and> averageGrids lgs = Inr (avg, mappers)
    \<and> (if horizonalLines avg = [] \<or> verticalLines avg = [] then calibrate J M order (cal, mem) = Inl OutOfBounds
       else \<exists>data mem'. calibrate J M order (cal, mem) = Inr (data, mem') \<and> m_grid (m_array data) = avg)"
  using assms by (rule calibrate_cases)

text \<open>A grid of two points on one line of each direction.\<close>

definition cross_grid :: PointGrid where
  "cross_grid = \<lparr>accumulator = [], storage = [(0, Point_ctor (Fin 4, Fin 4)), (1, Point_ctor (Fin 4, Fin 4))],
     linesHorizontal = [\<lparr>subgrid = SUBGRID_A, line = [0, 1]\<rparr>], linesVertical = [\<lparr>subgrid = SUBGRID_A, line = [0, 1]\<rparr>], next = 2\<rparr>"

definition one_grid :: Calibrator_Impl where
  "one_grid = \<lparr>cal_serial = ''A'', pointGridList = [cross_grid], clusterMap = [(lens_of (Metadata (Some 0)), [0])]\<rparr>"

lemma cross_grid_ok: "sound cross_grid \<and> full cross_grid"
  by (simp add: sound_def full_def cross_grid_def points_in_def Point_ctor_def upto_bound_def)

lemma sample_math_ok: "line_fits sample_math" "unit_dots sample_math"
  by (simp_all add: line_fits_def unit_dots_def sample_math_def)

lemma race_lens: "lens_readable tree_json race_trees (lens_of (Metadata (Some 0)))"
  by (simp add: lens_readable_def lens_value_def lens_of_def accessor_defs access_def
      deref_root_def race_trees_def picture_tree_def meta_def frame_path_def tree_json_def Let_def)

lemma one_line_average:
  assumes "picture_pos (l_position h)" and "picture_pos (l_position v)"
  shows "averageGrids [\<lparr>horizonalLines = [h], verticalLines = [v]\<rparr>]
    = Inr (\<lparr>horizonalLines = [h], verticalLines = [v]\<rparr>, [\<lparr>horizontalMapping = [0], verticalMapping = [0]\<rparr>])"
  using assms [THEN picture_pos_number]
  by (simp add: averageGrids_def first_lines_def number_lines_def check_key_def LineEntry_ctor_def map_emplace_def lower_bound_def
      collect_entry_def store_mapping_def ld_def set_mapHorizontal_def set_mapVertical_def GridMapper_ctor_def st_def)

lemma cross_grid_average:
  assumes "line_grids [cross_grid] = Inr lgs"
  shows "\<exists>h v ms. averageGrids lgs = Inr (\<lparr>horizonalLines = [h], verticalLines = [v]\<rparr>, ms)"
proof -
  obtain l where l: "lgs = [l]" "fits (horizonalLines l)" "fits (verticalLines l)"
      "length (horizonalLines l) = 1" "length (verticalLines l) = 1"
    using line_grids_ok [of "[cross_grid]"] cross_grid_ok assms by (auto simp: length_Suc_conv cross_grid_def)
  then obtain h v where "l = \<lparr>horizonalLines = [h], verticalLines = [v]\<rparr>" by (cases l) (auto simp: length_Suc_conv)
  then show ?thesis using one_line_average [of h v] l(1-3) by (auto simp: fits_def)
qed

theorem calibrate_returns_witness:
  "\<exists>d mem. calibrate tree_json sample_math [0] (one_grid, race_trees) = Inr (d, mem)
    \<and> length (horizonalLines (m_grid (m_array d))) = 1 \<and> length (verticalLines (m_grid (m_array d))) = 1"
proof -
  have g: "\<forall>g \<in> set (pointGridList one_grid). sound g \<and> full g" "pointGridList one_grid \<noteq> []" "few_lines (pointGridList one_grid)"
      "set [0] \<subseteq> {..<length (pointGridList one_grid)}"
    using cross_grid_ok by (simp_all add: one_grid_def few_lines_def cross_grid_def)
  have l: "\<forall>k \<in> fst ` set (clusterMap one_grid). lens_readable tree_json race_trees k"
    using race_lens by (simp add: one_grid_def)
  obtain lgs avg mappers where c: "line_grids [cross_grid] = Inr lgs" "averageGrids lgs = Inr (avg, mappers)"
      "if horizonalLines avg = [] \<or> verticalLines avg = [] then calibrate tree_json sample_math [0] (one_grid, race_trees) = Inl OutOfBounds
       else \<exists>d mem. calibrate tree_json sample_math [0] (one_grid, race_trees) = Inr (d, mem) \<and> m_grid (m_array d) = avg"
    using calibrate_returns [OF tree.json_lib_axioms sample_math_ok g l] by (auto simp: one_grid_def)
  then show ?thesis using cross_grid_average [OF c(1)] by auto
qed

end
