(* ===== verification/Calibration_Store.thy ===== *)
theory Calibration_Store
  imports Calibration_Run "HOL-Library.Countable"
begin

text \<open>
  The command \<open>calibrate\<close> of the program from the directory to the file. What \<open>Calibrator::calibrate\<close> returns can
  be stored: the positions of the average lines and the translation are \<open>float\<close> values, and the entries of the lenses hold numbers of 32 bits
  and matrices that are not empty (\<open>calibrate_storable\<close>). The loop over the pictures keeps the invariant \<open>collected\<close>
  (\<open>collected_grids\<close>), and what the program writes at the end, when it can write it, \<open>process\<close> reads back
  (\<open>main_calibrate_loads\<close>). The example is a directory with one picture, run from the \<open>.RAW\<close> and \<open>.TXT\<close> files to the stored
  calibration.
\<close>

subsection \<open>Lines with a float position\<close>

definition float_lines :: "LLine list \<Rightarrow> bool" where
  "float_lines ls \<longleftrightarrow> (\<forall>l \<in> set ls. is_float (l_position l))"

lemma is_float_to_fmt [simp, intro]: "is_float (to_fmt binary32 a)"
  using b32.represents_to_fmt [of a] by (simp add: is_float_def represents_def)

lemma push_lines_float:
  assumes "push_lines f ls = Inr ls'" and "\<And>l l'. f l = Inr l' \<Longrightarrow> is_float (l_position l')"
  shows "float_lines ls'"
proof -
  have "float_lines ls'"
  proof (rule rfold_invariant [OF assms(1) [unfolded push_lines_def]])
    show "float_lines []" by (simp add: float_lines_def)
    fix l acc acc' assume "float_lines acc" "rbind (f l) (\<lambda>l'. Inr (acc @ [l'])) = Inr acc'"
    then show "float_lines acc'" using assms(2) by (auto simp: float_lines_def res_simps)
  qed
  then show ?thesis .
qed

lemma LineGrid_ctor_float:
  assumes "LineGrid_ctor g = Inr lg"
  shows "float_lines (horizonalLines lg)" and "float_lines (verticalLines lg)"
proof -
  have l: "push_lines (horizontal_line (storage g)) (linesHorizontal g) = Inr (horizonalLines lg)"
      "push_lines (vertical_line (storage g)) (linesVertical g) = Inr (verticalLines lg)"
    using assms by (auto simp: LineGrid_ctor_def res_simps)
  show "float_lines (horizonalLines lg)" using l(1)
    by (rule push_lines_float) (auto simp: horizontal_line_def average_over_def res_simps)
  show "float_lines (verticalLines lg)" using l(2)
    by (rule push_lines_float) (auto simp: vertical_line_def average_over_def res_simps)
qed

lemma line_grids_float:
  assumes "line_grids grids = Inr lgs"
  shows "\<forall>lg \<in> set lgs. float_lines (horizonalLines lg) \<and> float_lines (verticalLines lg)"
proof (rule rfold_invariant [OF assms [unfolded line_grids_def]])
  fix g acc acc'
  assume "\<forall>lg \<in> set acc. float_lines (horizonalLines lg) \<and> float_lines (verticalLines lg)"
    "rbind (PointGrid_copy 0 g) (\<lambda>entry. rbind (LineGrid_ctor entry) (\<lambda>l. Inr (acc @ [l]))) = Inr acc'"
  then show "\<forall>lg \<in> set acc'. float_lines (horizonalLines lg) \<and> float_lines (verticalLines lg)"
    using LineGrid_ctor_float by (auto simp: res_simps)
qed simp

text \<open>The average: a line of the input, or a running mean, which is converted to \<open>float\<close>.\<close>

lemma running_line_float:
  "is_float (l_position l) \<Longrightarrow> is_float (l_position (running_line f c l rs))"
  by (induction f c l rs rule: running_line.induct) (auto simp: merge_position_def Let_def)

lemma kept_float:
  assumes "entries_ok (line_of sel lgs) (refs_below sel lgs (length lgs)) m" and "\<forall>lg \<in> set lgs. float_lines (sel lg)"
    and "e \<in> set (kept n m)"
  shows "is_float (l_position (e_line (snd e)))"
proof -
  have e: "e \<in> set m" using assms(3) by (simp add: kept_def)
  then have "Grid_Math.entry_ok (line_of sel lgs) e" using assms(1) by (simp add: entries_ok_def)
  then have l: "e_referees (snd e) \<noteq> []" "e_line (snd e) = mean_line (line_of sel lgs) (e_referees (snd e))"
    by (simp_all add: Grid_Math.entry_ok_def)
  then have "hd (e_referees (snd e)) \<in> refs_below sel lgs (length lgs)" using entries_ok_referees [OF assms(1) e] by fastforce
  then have "is_float (l_position (line_of sel lgs (hd (e_referees (snd e)))))"
    using assms(2) unfolding refs_below_def line_of_def float_lines_def by (auto dest: nth_mem)
  then show ?thesis unfolding l(2) mean_line_def by (rule running_line_float)
qed

lemma average_float:
  assumes "averageGrids lgs = Inr (avg, mappers)" and "\<forall>lg \<in> set lgs. float_lines (horizonalLines lg) \<and> float_lines (verticalLines lg)"
  shows "grid_floats avg"
proof -
  from averageGrids_parts [OF assms(1)] obtain h v where
    a: "entries_ok (line_of horizonalLines lgs) (refs_below horizonalLines lgs (length lgs)) h"
      "entries_ok (line_of verticalLines lgs) (refs_below verticalLines lgs (length lgs)) v"
      "horizonalLines avg = map (\<lambda>e. e_line (snd e)) (kept (length lgs) h)"
      "verticalLines avg = map (\<lambda>e. e_line (snd e)) (kept (length lgs) v)" by metis
  then show ?thesis using kept_float [OF a(1)] kept_float [OF a(2)] assms(2) by (auto simp: grid_floats_def a(3,4))
qed

subsection \<open>Lens entries\<close>

lemma lens_calibration_entries:
  assumes J: "json_lib J" and "lens_calibration J e (acc, mem) = Inr (acc', mem')" and "\<forall>x \<in> set acc. lens_ok x \<and> configured x"
  shows "\<forall>x \<in> set acc'. lens_ok x \<and> configured x"
proof -
  have int: "is_int32 i" if "access J (as_int J) p a m = Inr (i, m')" for p a m i m'
    using that json_lib.int_range [OF J] by (auto simp: access_def res_simps is_int32_def)
  obtain m m1 m2 z f where l: "Devices_Lens_getZoomstep J (fst e) m1 = Inr (z, m2)" "Devices_Lens_getFocusstep J (fst e) m2 = Inr (f, mem')"
      "acc' = acc @ [(LensConfiguration_of z f, \<lparr>m_cameraMatrix = m, m_distCoeffs = \<lparr>d_cols = 1, d_rows = replicate 8 [Fin 0]\<rparr>\<rparr>)]"
      "mat_ok m"
    using assms(2) by (cases e) (auto simp: lens_calibration_def estimateCameraMatrix_def Let_def res_simps mat_ok_def)
  have "is_int32 z" "is_int32 f"
    using l(1,2) int by (auto simp: Devices_Lens_getZoomstep_def Devices_Lens_getFocusstep_def)
  then have "lens_ok (last acc')" "configured (last acc')"
    using l(3,4) by (auto simp: lens_ok_def mat_ok_def configured_def LensConfiguration_of_def)
  then show ?thesis using assms(3) l(3) by auto
qed

lemma calibrate_storable:
  assumes J: "json_lib J" and "calibrate J M order (cal, mem) = Inr (calib, mem')"
  shows "storable calib"
proof -
  obtain lgs avg mappers rot trans es where
    c: "line_grids (pointGridList cal) = Inr lgs" "averageGrids lgs = Inr (avg, mappers)"
      "calibrateTranslation M (pointGridList cal) (neg rot) avg mappers = Inr trans"
      "rfold (lens_calibration J) (clusterMap cal) ([], mem) = Inr (es, mem')"
      "CalibrationData_of (cal_serial cal) \<lparr>m_grid = avg, m_translation = trans, m_rotation = rot\<rparr> es = Inr calib"
    using assms(2) by (auto simp: calibrate_def line_grids_def res_simps Let_def)
  have lens: "\<forall>x \<in> set es. lens_ok x \<and> configured x"
    using rfold_invariant [OF c(4), of "\<lambda>s. \<forall>x \<in> set (fst s). lens_ok x \<and> configured x"] lens_calibration_entries [OF J]
    by (metis empty_iff fst_conv list.set(1) prod.collapse)
  then obtain l where l: "sort_lens es = Inr l" "mset l = mset es" using sort_lens_ok [of es] by blast
  have calib: "m_array calib = \<lparr>m_grid = avg, m_translation = trans, m_rotation = rot\<rparr>" "m_lens calib = l"
    using c(5) l(1) by (auto simp: CalibrationData_of_def)
  have "set l = set es" using l(2) by (rule mset_eq_setD)
  moreover have "is_float (fst trans)" "is_float (snd trans)" using c(3) by (auto simp: calibrateTranslation_def res_simps)
  ultimately show ?thesis
    using lens average_float [OF c(2) line_grids_float [OF c(1)]] by (simp add: storable_def calib)
qed

subsection \<open>Collecting the grids\<close>

text \<open>Reading an accessor changes the content of trees, and makes or removes none.\<close>

definition same_trees :: "'j memory \<Rightarrow> 'j memory \<Rightarrow> bool" where
  "same_trees mem mem' \<longleftrightarrow> dom mem' = dom mem"

lemma same_trees_refl [simp]: "same_trees mem mem"
  by (simp add: same_trees_def)

lemma same_trees_trans [trans]: "same_trees a b \<Longrightarrow> same_trees b c \<Longrightarrow> same_trees a c"
  by (simp add: same_trees_def)

lemma access_trees: "access J conv p a mem = Inr (x, mem') \<Longrightarrow> same_trees mem mem'"
  unfolding same_trees_def by (auto simp: access_def deref_root_def res_simps insert_absorb domI split: option.splits if_splits)

lemma getters_trees:
  "Devices_Lens_getZoomstep J lens mem = Inr (z, mem') \<Longrightarrow> same_trees mem mem'"
  "Devices_Lens_getFocusstep J lens mem = Inr (z, mem') \<Longrightarrow> same_trees mem mem'"
  "read_serial J md mem = Inr (s, mem') \<Longrightarrow> same_trees mem mem'"
  unfolding Devices_Lens_getZoomstep_def Devices_Lens_getFocusstep_def read_serial_def Privatemetadata_Camera_getSerialnumber_def
  by (erule access_trees)+

lemma comparator_trees: "ZoomFocusComparator J a b mem = Inr (eq, mem') \<Longrightarrow> same_trees mem mem'"
  by (auto simp: ZoomFocusComparator_def res_simps split: if_splits intro: same_trees_trans dest!: getters_trees)

lemma cluster_push_trees: "cluster_push J lens i m mem = Inr (m', mem') \<Longrightarrow> same_trees mem mem'"
proof (induction m arbitrary: mem m')
  case (Cons e m)
  obtain k c where e: "e = (k, c)" by (cases e)
  from Cons.prems obtain eq mem1 where c: "ZoomFocusComparator J k lens mem = Inr (eq, mem1)"
      "mem' = mem1 \<or> (\<exists>m2. cluster_push J lens i m mem1 = Inr (m2, mem'))"
    by (auto simp: e res_simps split: if_splits)
  then show ?case using Cons.IH [of mem1] comparator_trees [OF c(1)] same_trees_trans by blast
qed simp

text \<open>A new tree leaves the lenses of the others as they are.\<close>

lemma access_new: "access J conv p a mem = Inr (x, mem') \<Longrightarrow> mem n = None \<Longrightarrow> \<exists>mem''. access J conv p a (mem(n \<mapsto> v)) = Inr (x, mem'')"
  by (auto simp: access_def deref_root_def res_simps split: option.splits)

lemma stable_new: "mem n = None \<Longrightarrow> stable J mem (mem(n \<mapsto> v))"
  unfolding stable_def lens_value_def Devices_Lens_getZoomstep_def Devices_Lens_getFocusstep_def
  using access_new [of J "as_int J" _ _ mem _ _ n v] by (fastforce split: sum.splits prod.splits)

text \<open>What \<open>addGrid\<close> leaves when it returns, and that it only returns for a lens with its steps.\<close>

lemma addGrid_returns:
  assumes J: "json_lib J" and ok: "cal_ok J cal mem" and r: "addGrid J h g md (cal, mem) = Inr (cal', mem')"
  shows "cal_ok J cal' mem' \<and> same_trees mem mem'
    \<and> (\<exists>g'. PointGrid_copy 0 g = Inr g' \<and> pointGridList cal' = pointGridList cal @ [g'])"
proof -
  let ?lens = "lens_of md" and ?n = "length (pointGridList cal)"
  obtain s mem1 g' z m1 f m2 m' where s: "read_serial J md mem = Inr (s, mem1)" "PointGrid_copy 0 g = Inr g'"
      "Devices_Lens_getZoomstep J ?lens mem1 = Inr (z, m1)" "Devices_Lens_getFocusstep J ?lens m1 = Inr (f, m2)"
      "cluster_push J ?lens ?n (clusterMap cal) m2 = Inr (m', mem')"
      "cal' = cal\<lparr>cal_serial := (if cal_serial cal = [] then s else cal_serial cal), pointGridList := pointGridList cal @ [g'],
        clusterMap := m'\<rparr>"
    using r by (auto simp: addGrid_def commit_grid_def cluster_add_def ZoomFocusHash_def res_simps Let_def lens_of_def)
  have st: "stable J mem mem1" "stable J mem1 m1" "stable J m1 m2"
    using getters_stable [OF J] s(1,3,4) by blast+
  obtain m3 where "Devices_Lens_getZoomstep J ?lens m1 = Inr (z, m3)"
    using access_frame [OF J s(3) [unfolded Devices_Lens_getZoomstep_def] s(3) [unfolded Devices_Lens_getZoomstep_def]] paths_ok(2)
    by (auto simp: lens_paths_def Devices_Lens_getZoomstep_def)
  then have "lens_value J m1 ?lens = Some (z, f)" using s(4) by (simp add: lens_value_def)
  then have v: "lens_value J m2 ?lens = Some (z, f)" using stableD [OF st(3)] by blast
  have ok2: "cal_ok J cal m2" using ok st by (meson cal_ok_stable)
  obtain mem2 where p: "cluster_push J ?lens ?n (clusterMap cal) m2 = Inr (push_spec (steps_of J m2) ?lens ?n (clusterMap cal), mem2)"
      "stable J m2 mem2"
    using cluster_push_refines [OF J lens_values_known [OF ok2]] v by blast
  then have "m' = push_spec (steps_of J m2) ?lens ?n (clusterMap cal)" "stable J m2 mem'" using s(5) by auto
  then have "cal_ok J cal' mem'" unfolding s(6) using push_spec_ok(1) [OF ok2 v] cal_ok_stable by blast
  moreover have "same_trees mem mem'"
    using getters_trees(3) [OF s(1)] getters_trees(1) [OF s(3)] getters_trees(2) [OF s(4)] cluster_push_trees [OF s(5)]
    by (simp add: same_trees_def)
  ultimately show ?thesis using s(2,6) by simp
qed

text \<open>The state of a run over the pictures: the clusters are as \<open>addGrid\<close> keeps them, every address from \<open>w_next\<close> on is free,
  every grid is sound and has the horizontal lines that the detector asks for, and no file has changed.\<close>

definition collected :: "'j json_ops \<Rightarrow> disk \<Rightarrow> ('d, 'j) world \<Rightarrow> bool" where
  "collected J D w \<longleftrightarrow> cal_ok J (w_calibrator w) (w_trees w) \<and> (\<forall>a \<ge> w_next w. w_trees w a = None)
     \<and> (\<forall>g \<in> set (pointGridList (w_calibrator w)). sound g \<and> 8 \<le> length (linesHorizontal g)) \<and> w_disk w = D"

text \<open>Of the conversion to a grey picture: it does not make a picture larger than \<open>MAX_SIDE\<close> of what \<open>RawImage\<close> has read.\<close>

definition pictures_small :: "'j libs \<Rightarrow> bool" where
  "pictures_small L \<longleftrightarrow> (\<forall>is img. RawImage (lib_copy L) (lib_alloc L) (lib_buf L) is 3280 3280 = Inr img \<longrightarrow>
     small_picture (to_gray (lib_image L) img))"

lemma collected_read:
  assumes "collected J D w"
  shows "collected J D (w\<lparr>w_trees := (w_trees w)(w_next w \<mapsto> v), w_next := w_next w + 1\<rparr>)"
proof -
  have "stable J (w_trees w) ((w_trees w)(w_next w \<mapsto> v))"
    by (rule stable_new) (use assms in \<open>simp add: collected_def\<close>)
  then show ?thesis using assms cal_ok_stable unfolding collected_def by fastforce
qed

lemma collected_add:
  assumes J: "json_lib (lib_json L)" and g: "finished g" and c: "collected (lib_json L) D w"
    and r: "add_to_calibrator L g md w = Some (r, w')"
  shows "collected (lib_json L) D w'"
proof (cases "addGrid (lib_json L) (lib_hash L) g md (w_calibrator w, w_trees w)")
  case (Inl e)
  then show ?thesis using r c by (simp add: add_to_calibrator_def)
next
  case (Inr s)
  obtain cal mem where s: "s = (cal, mem)" by (cases s)
  have "cal_ok (lib_json L) (w_calibrator w) (w_trees w)" using c by (simp add: collected_def)
  from addGrid_returns [OF J this Inr [unfolded s]] obtain g' where a: "cal_ok (lib_json L) cal mem" "same_trees (w_trees w) mem"
      "PointGrid_copy 0 g = Inr g'" "pointGridList cal = pointGridList (w_calibrator w) @ [g']" by blast
  have "sound g'" "length (linesHorizontal g') = length (linesHorizontal g)"
    using sound_copy [OF finished_sound [OF g], of 0] a(3) by auto
  moreover have "8 \<le> length (linesHorizontal g)" using g by (simp add: finished_def)
  moreover have "mem n = None" if "w_next w \<le> n" for n
    using that c a(2) unfolding collected_def same_trees_def by (metis domIff)
  ultimately show ?thesis using r c a(1,4) by (auto simp: Inr s add_to_calibrator_def collected_def)
qed

lemma keeps_cout [intro, simp]: "keeps (collected J D) (cout t)"
  by (rule keepsI) (auto simp: cout_def modify_def collected_def)

lemma keeps_reads [intro, simp]: "keeps P (reads f)"
  by (rule keepsI) (simp add: reads_def)

lemma detect_and_add_keeps:
  assumes "json_lib (lib_json L)" and "small_picture (to_gray (lib_image L) img)"
  shows "keeps (collected (lib_json L) D) (detect_and_add L f img md)"
proof -
  have "keeps (collected (lib_json L) D) (add_to_calibrator L g md)"
    if "detect (lib_image L) (sqrt_f (lib_math L)) img = Inr g" "\<not> isEmpty g" for g
  proof -
    have "finished g" using detect_finished [OF assms(2) that(1)] that(2) by (auto simp: isEmpty_def PointGrid_ctor_def)
    then show ?thesis using collected_add [OF assms(1)] by (blast intro: keepsI)
  qed
  then have "keeps (collected (lib_json L) D) (bind_io (lift (detect (lib_image L) (sqrt_f (lib_math L)) img)) (\<lambda>pointGrid.
     if isEmpty pointGrid then cout (f @ '' image is too flat, skipping'' @ nl) else add_to_calibrator L pointGrid md))"
    by (cases "detect (lib_image L) (sqrt_f (lib_math L)) img") auto
  then show ?thesis unfolding detect_and_add_def using keeps_cout by (rule keeps_bind [rotated])
qed

lemma calib_file_keeps:
  assumes "json_lib (lib_json L)" and "pictures_small L"
  shows "keeps (collected (lib_json L) D) (calib_file L f)"
proof -
  have img: "keeps (collected (lib_json L) D) (bind_io (read_raw L fin) (\<lambda>rawimg. detect_and_add L f rawimg md))" for fin md
  proof (cases "RawImage (lib_copy L) (lib_alloc L) (lib_buf L) (stream_of fin) 3280 3280")
    case (Inr m)
    then have "small_picture (to_gray (lib_image L) m)" using assms(2) unfolding pictures_small_def by blast
    then show ?thesis using Inr by (simp add: read_raw_def detect_and_add_keeps [OF assms(1)])
  qed (simp add: read_raw_def)
  have "keeps (collected (lib_json L) D) (read_metadata L fin)" for fin :: "u8 list option"
    by (rule keepsI) (auto simp: read_metadata_def Metadata.read_def simp del: Suc_eq_plus1 add_Suc_right
      dest: collected_read [where v = "lib_parse L fin"])
  then have md: "keeps (collected (lib_json L) D) (bind_io (read_metadata L fin) (\<lambda>metadata.
      bind_io (ifs_open (f @ ''.RAW'')) (\<lambda>raw. bind_io (read_raw L raw) (\<lambda>rawimg. detect_and_add L f rawimg metadata))))" for fin
    unfolding ifs_open_def by (rule keeps_bind) (rule keeps_bind [OF keeps_reads img])
  show ?thesis unfolding calib_file_def ifs_open_def
    by (intro keeps_bind keeps_cout keeps_reads) (simp add: md [unfolded ifs_open_def])
qed


subsection \<open>A directory with one picture\<close>

text \<open>A writer and a parser that are inverse: the text of a value has its number as length.\<close>

instance fl :: countable by countable_datatype

instance json :: countable by countable_datatype

definition counting_libs :: "json libs" where
  "counting_libs = sample_libs\<lparr>lib_write := (\<lambda>v. replicate (to_nat v) 0),
     lib_parse := (\<lambda>f. case f of None \<Rightarrow> JNull | Some bs \<Rightarrow> from_nat (length bs))\<rparr>"

lemma counting_inverse: "lib_parse counting_libs (Some (lib_write counting_libs v)) = v"
  by (simp add: counting_libs_def)

text \<open>A directory with one picture, with the libraries of the even picture: 24 lenses.\<close>

definition raw_bytes :: "u8 list" where
  "raw_bytes = replicate 16137600 0"

definition lens_libs :: "json libs" where
  "lens_libs = counting_libs\<lparr>lib_image := even_camera, lib_math := sample_math\<lparr>sqrt_f := nearest_root\<rparr>,
     lib_alloc := replicate (3 * 3280 * 3280) 0, lib_order := [0]\<rparr>"

definition picture_disk :: disk where
  "picture_disk = [(''/pictures'', ''IMG.TXT'') \<mapsto> lib_write counting_libs (picture_tree ''A'' 7 8), (''/pictures'', ''IMG.RAW'') \<mapsto> raw_bytes]"

definition picture_os :: os where
  "picture_os = any_os\<lparr>os_readdir := (\<lambda>_ _. Some [''IMG.RAW'', ''IMG.TXT''])\<rparr>"

definition picture_start :: "(sim, json) world" where
  "picture_start = photo_world\<lparr>w_disk := picture_disk, w_cwd := ''/pictures''\<rparr>"

lemma lens_libs_simps [simp]:
  "lib_json lens_libs = tree_json" "lib_copy lens_libs = ref_copy" "lib_image lens_libs = even_camera"
  "lib_math lens_libs = sample_math\<lparr>sqrt_f := nearest_root\<rparr>" "lib_alloc lens_libs = replicate (3 * 3280 * 3280) 0" "lib_order lens_libs = [0]"
  "lib_sched lens_libs = id" "lib_parse lens_libs = lib_parse counting_libs" "lib_write lens_libs = lib_write counting_libs"
  by (simp_all add: lens_libs_def counting_libs_def sample_libs_def)

lemma picture_read:
  "\<exists>img. RawImage ref_copy (replicate (3 * 3280 * 3280) 0) buf0 (stream_of (Some raw_bytes)) 3280 3280 = Inr img"
proof -
  let ?a = "replicate (3 * 3280 * 3280) 0 :: u16 list"
  let ?m = "\<lparr>rows = 3280, cols = 3280, data = bayer_image ?a raw_bytes 3280 (3280 * 3280)\<rparr>"
  have "unpack ?a buf0 (stream_of (Some raw_bytes)) 3280 3280 = Inr ?m"
    unfolding stream_of_def option.case by (rule unpack_ok) (simp_all add: raw_bytes_def)
  moreover have "length (data ?m) = 3 * (3280 * 3280)" by (simp add: bayer_image_def)
  ultimately show ?thesis
    using cv_mat_copy.demosaic_borders [OF ref_copy.cv_mat_copy_axioms, of ?m 0 0 0] by (auto simp: RawImage_def)
qed

abbreviation picture_trees :: "json memory" where
  "picture_trees \<equiv> [0 \<mapsto> picture_tree ''A'' 7 8]"

lemma picture_lens: "lens_readable tree_json picture_trees (lens_of (Metadata (Some 0)))"
  by (simp add: lens_readable_def lens_value_def lens_of_def accessor_defs access_def
      deref_root_def picture_tree_def meta_def frame_path_def tree_json_def Let_def)

lemma picture_added:
  assumes "PointGrid_copy 0 g = Inr g'"
  shows "addGrid tree_json h g (Metadata (Some 0)) (Calibrator_ctor, picture_trees) =
    Inr (\<lparr>cal_serial = ''A'', pointGridList = [g'], clusterMap = [(lens_of (Metadata (Some 0)), [0])]\<rparr>, picture_trees)"
proof -
  have s: "read_serial tree_json (Metadata (Some 0)) picture_trees = Inr (''A'', picture_trees)"
    using picture_tree_reads(1) [of picture_trees 0 "''A''" 7 8] by simp
  have c: "cluster_add tree_json h (lens_of (Metadata (Some 0))) 0 [] picture_trees = Inr ([(lens_of (Metadata (Some 0)), [0])], picture_trees)"
    by (simp add: cluster_add_def ZoomFocusHash_def lens_of_def accessor_defs access_def deref_root_def
        picture_tree_def meta_def frame_path_def tree_json_def fun_upd_idem Let_def)
  show ?thesis
    by (simp add: addGrid_def commit_grid_def s assms c [unfolded lens_of_def] lens_of_def check_serial_def Calibrator_ctor_def Let_def)
qed

lemma calib_file_adds:
  assumes "w_disk w (w_cwd w, f @ ''.TXT'') = Some meta_bytes"
    and "RawImage (lib_copy L) (lib_alloc L) (lib_buf L) (stream_of (w_disk w (w_cwd w, f @ ''.RAW''))) 3280 3280 = Inr img"
    and "detect (lib_image L) (sqrt_f (lib_math L)) img = Inr g" and "\<not> isEmpty g"
    and "addGrid (lib_json L) (lib_hash L) g (Metadata (Some (w_next w))) (w_calibrator w, (w_trees w)(w_next w \<mapsto> lib_parse L (Some meta_bytes))) = Inr (cal, mem)"
  shows "\<exists>t. calib_file L f w = Some (Inr (), w\<lparr>w_calibrator := cal, w_trees := mem, w_next := w_next w + 1, w_cout := t\<rparr>)"
proof -
  have md: "bind_io (read_metadata L fin) h v = h (Metadata (Some (w_next v))) (v\<lparr>w_trees := (w_trees v)(w_next v \<mapsto> lib_parse L fin), w_next := w_next v + 1\<rparr>)" for fin h v
    by (simp add: bind_io_def read_metadata_def Metadata.read_def)
  show ?thesis
    using assms(2-)
    by (intro exI [of _ "w_cout w @ f @ '' reading image...'' @ nl @ f @ '' processing image...'' @ nl"])
      (simp add: calib_file_def cout_def ifs_open_def modify_step reads_step assms(1) md read_raw_def detect_and_add_def
        add_to_calibrator_def del: append_Cons)
qed

lemma picture_collected:
  "\<exists>g w'. parallel_for_each lens_libs [''IMG''] (calib_file lens_libs) picture_start = Some (Inr (), w')
    \<and> w_calibrator w' = \<lparr>cal_serial = ''A'', pointGridList = [g], clusterMap = [(lens_of (Metadata (Some 0)), [0])]\<rparr>
    \<and> w_trees w' = picture_trees \<and> sound g \<and> full g \<and> length (linesHorizontal g) = 8 \<and> length (linesVertical g) \<le> 24"
proof -
  obtain img where img: "RawImage ref_copy (replicate (3 * 3280 * 3280) 0) (lib_buf lens_libs) (stream_of (Some raw_bytes)) 3280 3280 = Inr img"
    using picture_read by blast
  obtain g where g: "detect even_camera nearest_root img = Inr g" "length (linesHorizontal g) = 8" "linesVertical g \<noteq> []"
      "length (linesVertical g) \<le> 24" "\<forall>l \<in> set (linesHorizontal g) \<union> set (linesVertical g). 2 \<le> length (line l)"
    using even_camera_grid [of img] by auto
  have "small_picture (to_gray even_camera img)" by (simp add: even_camera_size small_picture_def MAX_SIDE_def)
  then have "finished g" using detect_finished [OF _ g(1)] g(2) by (auto simp: PointGrid_ctor_def)
  then obtain g' where g': "PointGrid_copy 0 g = Inr g'" "sound g'" "full g' \<longleftrightarrow> full g" "length (linesHorizontal g') = length (linesHorizontal g)"
      "length (linesVertical g') = length (linesVertical g)"
    using sound_copy [OF finished_sound, of g 0] by blast
  have "full g" using g(2,3,5) by (auto simp: full_def)
  have ne: "\<not> isEmpty g" using g(2) by (auto simp: isEmpty_def)
  have "\<exists>t. calib_file lens_libs ''IMG'' picture_start = Some (Inr (), picture_start\<lparr>
      w_calibrator := \<lparr>cal_serial = ''A'', pointGridList = [g'], clusterMap = [(lens_of (Metadata (Some 0)), [0])]\<rparr>,
      w_trees := picture_trees, w_next := w_next picture_start + 1, w_cout := t\<rparr>)"
    using g(1) ne img picture_added [OF g'(1), of "lib_hash lens_libs"]
    by (intro calib_file_adds [where meta_bytes = "lib_write counting_libs (picture_tree ''A'' 7 8)" and g = g and img = img])
      (simp_all add: picture_start_def picture_disk_def photo_world_def counting_inverse)
  then obtain t where "calib_file lens_libs ''IMG'' picture_start = Some (Inr (), picture_start\<lparr>
      w_calibrator := \<lparr>cal_serial = ''A'', pointGridList = [g'], clusterMap = [(lens_of (Metadata (Some 0)), [0])]\<rparr>,
      w_trees := picture_trees, w_next := w_next picture_start + 1, w_cout := t\<rparr>)" by blast
  then show ?thesis using g g' \<open>full g\<close> by (auto simp: parallel_for_each_def bind_io_def ret_def)
qed


subsection \<open>The program\<close>

lemma place_kept:
  assumes "parallel_for_each L files (calib_file L) w = Some (r, w')"
  shows "w_disk w' = w_disk w \<and> w_cwd w' = w_cwd w"
proof -
  let ?P = "\<lambda>v. w_disk v = w_disk w \<and> w_cwd v = w_cwd w"
  have c: "keeps ?P (cout t)" and m: "keeps ?P (read_metadata L fin)" and a: "keeps ?P (add_to_calibrator L g md)" for t fin g md
    by (rule keepsI, auto simp: cout_def modify_def read_metadata_def add_to_calibrator_def split: sum.splits prod.splits)+
  have "keeps ?P (calib_file L f)" for f
    using c m a by (auto simp: calib_file_def detect_and_add_def ifs_open_def read_raw_def intro!: keeps_bind)
  then show ?thesis using assms keepsD [of ?P "parallel_for_each L files (calib_file L)" w r w']
    unfolding parallel_for_each_def by blast
qed

text \<open>Every operation of the loop returns, with a result or with an exception.\<close>

definition returns :: "('s, 'a) io \<Rightarrow> bool" where
  "returns m \<longleftrightarrow> (\<forall>s. m s \<noteq> None)"

lemma returnsI: "(\<And>s. \<exists>v. m s = Some v) \<Longrightarrow> returns m"
  by (auto simp: returns_def)

lemma returns_basic [intro, simp]:
  "returns (ret a)" "returns (lift r)" "returns (modify h)" "returns (reads f)" "returns (cout t)"
  by (simp_all add: returns_def ret_def lift_def modify_def reads_def cout_def)

lemma returns_bind [intro]: "returns m \<Longrightarrow> (\<And>a. returns (f a)) \<Longrightarrow> returns (bind_io m f)"
  by (auto simp: returns_def bind_io_def split: option.splits sum.splits)

lemma returns_for [intro]: "(\<And>x. returns (f x)) \<Longrightarrow> returns (for_io xs f)"
  by (induction xs) auto

lemma calib_files_return: "returns (parallel_for_each L files (calib_file L))"
proof -
  have "returns (read_metadata L fin)" "returns (add_to_calibrator L g md)" for fin g md
    by (rule returnsI, simp add: read_metadata_def add_to_calibrator_def split: sum.splits prod.splits)+
  then have "returns (calib_file L f)" for f
    by (auto simp: calib_file_def detect_and_add_def ifs_open_def read_raw_def intro!: returns_bind)
  then show ?thesis unfolding parallel_for_each_def by blast
qed

text \<open>The calibration that the pictures of a directory give, with the directory: \<open>None\<close> when the directory cannot be read, when an
  exception leaves the loop over its pictures, and when the calibrator fails.\<close>

definition calibration_of :: "os \<Rightarrow> 'j libs \<Rightarrow> string \<Rightarrow> ('d, 'j) world \<Rightarrow> (string \<times> CalibrationData) option" where
  "calibration_of sys L path w =
     (case os_chdir sys (w_cwd w) path of None \<Rightarrow> None | Some cwd \<Rightarrow>
      case os_readdir sys (w_disk w) cwd of None \<Rightarrow> None | Some names \<Rightarrow>
      case parallel_for_each L (raw_files names) (calib_file L) (w\<lparr>w_cwd := cwd, w_calibrator := Calibrator_ctor\<rparr>) of
        Some (Inr _, w1) \<Rightarrow>
          (case calibrate (lib_json L) (lib_math L) (lib_order L) (w_calibrator w1, w_trees w1) of Inl _ \<Rightarrow> None | Inr (d, _) \<Rightarrow> Some (cwd, d))
      | _ \<Rightarrow> None)"

definition directory_missing :: "os \<Rightarrow> string \<Rightarrow> ('d, 'j) world \<Rightarrow> bool" where
  "directory_missing sys path w \<longleftrightarrow>
     (case os_chdir sys (w_cwd w) path of None \<Rightarrow> True | Some cwd \<Rightarrow> os_readdir sys (w_disk w) cwd = None)"

text \<open>The part of the function behind the scan of the directory, and behind the loop.\<close>

lemma main_calibrate_no_directory:
  assumes "directory_missing sys path w"
  shows "\<exists>w'. main_calibrate sys L path out w = Some (Inr None, w') \<and> w_disk w' = w_disk w"
  using assms
  by (cases "os_chdir sys (w_cwd w) path")
    (simp_all add: main_calibrate_def scan_directory_def chdir_def directory_missing_def bind_io_def reads_def modify_def ret_def
      perror_def cerr_def)

lemma main_calibrate_scanned:
  assumes "os_chdir sys (w_cwd w) path = Some cwd" and "os_readdir sys (w_disk w) cwd = Some names"
  shows "main_calibrate sys L path out w =
    bind_io (catch_differs
        (bind_io (parallel_for_each L (raw_files names) (calib_file L)) (\<lambda>_. ret None))
        (\<lambda>msg. bind_io (cerr (msg @ nl)) (\<lambda>_. ret (Some 1)))) (\<lambda>exited.
    if exited \<noteq> None then ret exited
    else
      bind_io (cout (''calibrating images...'' @ nl)) (\<lambda>_.
      bind_io (finish_calibration L) (\<lambda>calibrationResult.
      bind_io (cout (''DONE'' @ nl)) (\<lambda>_.
      bind_io (store_calibration sys L out calibrationResult) (\<lambda>_. ret None)))))
    (w\<lparr>w_cwd := cwd, w_calibrator := Calibrator_ctor\<rparr>)"
proof -
  have s: "bind_io (scan_directory sys path) f w = f (Some (raw_files names)) (w\<lparr>w_cwd := cwd\<rparr>)" for f
    using assms by (simp add: scan_directory_def chdir_def bind_io_def reads_def modify_def ret_def)
  show ?thesis by (simp add: main_calibrate_def s new_calibrator_def modify_step)
qed

lemma main_calibrate_thrown:
  assumes "os_chdir sys (w_cwd w) path = Some cwd" and "os_readdir sys (w_disk w) cwd = Some names"
    and "parallel_for_each L (raw_files names) (calib_file L) (w\<lparr>w_cwd := cwd, w_calibrator := Calibrator_ctor\<rparr>) = Some (Inl e, w1)"
  shows "\<exists>r w'. main_calibrate sys L path out w = Some (r, w') \<and> r \<noteq> Inr None \<and> w_disk w' = w_disk w1"
  unfolding main_calibrate_scanned [OF assms(1,2)]
  using assms(3) by (cases "differs_text e") (simp_all add: bind_io_def catch_differs_def cerr_def modify_def ret_def)

lemma main_calibrate_run:
  assumes "os_chdir sys (w_cwd w) path = Some cwd" and "os_readdir sys (w_disk w) cwd = Some names"
    and "parallel_for_each L (raw_files names) (calib_file L) (w\<lparr>w_cwd := cwd, w_calibrator := Calibrator_ctor\<rparr>) = Some (Inr (), w1)"
  shows "main_calibrate sys L path out w =
    bind_io (cout (''calibrating images...'' @ nl)) (\<lambda>_.
    bind_io (finish_calibration L) (\<lambda>calibrationResult.
    bind_io (cout (''DONE'' @ nl)) (\<lambda>_.
    bind_io (store_calibration sys L out calibrationResult) (\<lambda>_. ret None)))) w1"
  unfolding main_calibrate_scanned [OF assms(1,2)]
  using assms(3) by (simp add: bind_io_def catch_differs_def ret_def)

text \<open>The end of the function, when the calibrator returns. A file that cannot be written is not told from one that was.\<close>

lemma store_not_writable:
  assumes "json_lib (lib_json L)" and "storable d" and "\<not> os_writable sys (w_cwd w, out)"
  shows "store_calibration sys L out d w = Some (Inr (), w)"
proof -
  obtain v where "CalibrationData_serialize (lib_json L) d = Inr v"
    using json_lib.data_round_trip [OF assms(1,2), of CalibrationData_ctor]
    by (auto simp: CalibrationData_ctor_def ArrayParameters_ctor_def LineGrid_empty_def same_data)
  then show ?thesis using assms(3) by (simp add: store_calibration_def ofs_open_def modify_step) (simp add: ofs_write_def modify_def)
qed

lemma main_calibrate_stored:
  assumes J: "json_lib (lib_json L)"
    and run: "os_chdir sys (w_cwd w) path = Some cwd" "os_readdir sys (w_disk w) cwd = Some names"
      "parallel_for_each L (raw_files names) (calib_file L) (w\<lparr>w_cwd := cwd, w_calibrator := Calibrator_ctor\<rparr>) = Some (Inr (), w1)"
    and cal: "calibrate (lib_json L) (lib_math L) (lib_order L) (w_calibrator w1, w_trees w1) = Inr (d, mem)"
    and parse: "\<forall>v. CalibrationData_serialize (lib_json L) d = Inr v \<longrightarrow> lib_parse L (Some (lib_write L v)) = v"
  shows "\<exists>w'. main_calibrate sys L path out w = Some (Inr None, w') \<and> (\<exists>t. w_cout w' = t @ ''DONE'' @ nl)
    \<and> (if os_writable sys (cwd, out)
       then (\<exists>bs. w_disk w' = (w_disk w)((cwd, out) \<mapsto> bs)) \<and> load_calibration L out w' = Some (Inr d, w')
       else w_disk w' = w_disk w)"
proof -
  have place: "w_disk w1 = w_disk w" "w_cwd w1 = cwd" using place_kept [OF run(3)] by simp_all
  let ?w = "w1\<lparr>w_trees := mem, w_cout := w_cout w1 @ ''calibrating images...'' @ nl @ ''DONE'' @ nl\<rparr>"
  have d: "storable d" using calibrate_storable [OF J cal] .
  have cout: "\<exists>t. w_cout ?w = t @ ''DONE'' @ nl" by (intro exI [of _ "w_cout w1 @ ''calibrating images...'' @ nl"]) simp
  have f: "bind_io (finish_calibration L) f (w1\<lparr>w_cout := w_cout w1 @ ''calibrating images...'' @ nl\<rparr>)
      = f d (w1\<lparr>w_cout := w_cout w1 @ ''calibrating images...'' @ nl, w_trees := mem\<rparr>)" for f
    using cal by (simp add: bind_io_def finish_calibration_def)
  have m: "main_calibrate sys L path out w = bind_io (store_calibration sys L out d) (\<lambda>_. ret None) ?w"
    by (simp add: main_calibrate_run [OF run] cout_def modify_step f del: append_Cons)
  show ?thesis
  proof (cases "os_writable sys (cwd, out)")
    case True
    then obtain bs where st: "store_calibration sys L out d ?w = Some (Inr (), ?w\<lparr>w_disk := (w_disk ?w)((w_cwd ?w, out) \<mapsto> bs)\<rparr>)"
        "load_calibration L out (?w\<lparr>w_disk := (w_disk ?w)((w_cwd ?w, out) \<mapsto> bs)\<rparr>)
          = Some (Inr d, ?w\<lparr>w_disk := (w_disk ?w)((w_cwd ?w, out) \<mapsto> bs)\<rparr>)"
      using stored_calibration_loads [OF J d, of sys ?w out] parse place by auto
    have "main_calibrate sys L path out w = Some (Inr None, ?w\<lparr>w_disk := (w_disk ?w)((w_cwd ?w, out) \<mapsto> bs)\<rparr>)"
      unfolding m using st(1) by (simp add: bind_io_def ret_app del: append_Cons)
    then show ?thesis using st(2) True place cout by (intro exI [of _ "?w\<lparr>w_disk := (w_disk ?w)((w_cwd ?w, out) \<mapsto> bs)\<rparr>"]) (auto simp del: append_Cons)
  next
    case False
    then have "store_calibration sys L out d ?w = Some (Inr (), ?w)" by (intro store_not_writable J d) (simp add: place)
    then have "main_calibrate sys L path out w = Some (Inr None, ?w)" unfolding m by (simp add: bind_io_def ret_app del: append_Cons)
    then show ?thesis using False place cout by (intro exI [of _ ?w]) (simp del: append_Cons)
  qed
qed

text \<open>
  C1: The whole command \<open>calibrate\<close>, for every directory and every output file. It always ends. Without a calibration, because
  the directory cannot be read, an exception leaves the loop over the pictures, or the calibrator fails, no file
  changes, and the function returns as usual only for a directory that cannot be read. With a calibration it prints \<open>DONE\<close> and
  returns as usual in any case: when the output can be written, it has written the file \<open>out\<close> of the directory and no
  other, and \<open>process\<close>, reading this file, gets exactly these calibration data; when it cannot be written, nothing has
  changed. The parser has to read back what the writer of the same library writes for this data.\<close>

theorem main_calibrate_loads:
  assumes "json_lib (lib_json L)"
    and "\<forall>cwd d v. calibration_of sys L path w = Some (cwd, d) \<longrightarrow> CalibrationData_serialize (lib_json L) d = Inr v \<longrightarrow>
      lib_parse L (Some (lib_write L v)) = v"
  shows "\<exists>r w'. main_calibrate sys L path out w = Some (r, w') \<and> (case calibration_of sys L path w of
      None \<Rightarrow> w_disk w' = w_disk w \<and> (r = Inr None \<longleftrightarrow> directory_missing sys path w)
    | Some (cwd, d) \<Rightarrow> r = Inr None \<and> (\<exists>t. w_cout w' = t @ ''DONE'' @ nl)
        \<and> (if os_writable sys (cwd, out)
           then (\<exists>bs. w_disk w' = (w_disk w)((cwd, out) \<mapsto> bs)) \<and> load_calibration L out w' = Some (Inr d, w')
           else w_disk w' = w_disk w))"
proof (cases "directory_missing sys path w")
  case True
  then have "calibration_of sys L path w = None" by (simp add: calibration_of_def directory_missing_def split: option.splits)
  then show ?thesis using main_calibrate_no_directory [OF True, of L out] True by auto
next
  case False
  then obtain cwd names where dir: "os_chdir sys (w_cwd w) path = Some cwd" "os_readdir sys (w_disk w) cwd = Some names"
    by (auto simp: directory_missing_def split: option.splits)
  let ?w = "w\<lparr>w_cwd := cwd, w_calibrator := Calibrator_ctor\<rparr>"
  obtain r w1 where run: "parallel_for_each L (raw_files names) (calib_file L) ?w = Some (r, w1)"
    using calib_files_return [of L "raw_files names"] unfolding returns_def by fastforce
  have disk: "w_disk w1 = w_disk w" using place_kept [OF run] by simp
  show ?thesis
  proof (cases r)
    case (Inl e)
    have "calibration_of sys L path w = None" by (simp add: calibration_of_def dir run Inl)
    then show ?thesis using main_calibrate_thrown [OF dir run [unfolded Inl], of out] disk False by auto
  next
    case (Inr u)
    note run = run [unfolded Inr, simplified]
    show ?thesis
    proof (cases "calibrate (lib_json L) (lib_math L) (lib_order L) (w_calibrator w1, w_trees w1)")
      case (Inl e)
      then have n: "calibration_of sys L path w = None" by (simp add: calibration_of_def dir run)
      have "\<exists>w'. main_calibrate sys L path out w = Some (Inl e, w') \<and> w_disk w' = w_disk w"
        by (intro exI [of _ "w1\<lparr>w_cout := w_cout w1 @ ''calibrating images...'' @ nl\<rparr>"])
          (simp add: main_calibrate_run [OF dir run] disk cout_def modify_step, simp add: bind_io_def finish_calibration_def Inl)
      then show ?thesis using n False by auto
    next
      case (Inr s)
      obtain d mem where s: "s = (d, mem)" by (cases s)
      have c: "calibration_of sys L path w = Some (cwd, d)" by (simp add: calibration_of_def dir run Inr s)
      then show ?thesis using main_calibrate_stored [OF assms(1) dir run Inr [unfolded s], of out] assms(2) by auto
    qed
  qed
qed

subsection \<open>The example calibrated\<close>

text \<open>The average of one picture keeps lines of both directions.\<close>

lemma emplace_not_empty: "snd (map_emplace m k e) \<noteq> []"
  by (auto simp: map_emplace_def Let_def)

lemma first_lines_not_empty:
  assumes "first_lines ls = Inr m" and "ls \<noteq> []"
  shows "m \<noteq> []"
proof -
  obtain r rs where r: "number_lines 0 ls = r # rs" using assms(2) by (cases "number_lines 0 ls") (auto simp: number_lines_def)
  let ?f = "\<lambda>(l, r) m. check_key (l_position l) (Inr (snd (map_emplace m (l_position l) (LineEntry_ctor l r))))"
  have step: "m' \<noteq> []" if "?f x m0 = Inr m'" for x m0 m'
    using that by (auto simp: check_key_def emplace_not_empty split: prod.splits if_splits)
  obtain m1 where m1: "?f r [] = Inr m1" "rfold ?f rs m1 = Inr m" using assms(1) by (auto simp: first_lines_def r res_simps)
  show ?thesis by (rule rfold_invariant [OF m1(2), of "\<lambda>m. m \<noteq> []"]) (use step [OF m1(1)] step in blast)+
qed

lemma single_average:
  assumes "averageGrids [l] = Inr (avg, ms)" and "horizonalLines l \<noteq> []" and "verticalLines l \<noteq> []"
    and "length (horizonalLines l) < 2 ^ 32" and "length (verticalLines l) < 2 ^ 32"
  shows "horizonalLines avg \<noteq> [] \<and> verticalLines avg \<noteq> []"
proof -
  let ?m0 = "[GridMapper_ctor (length (horizonalLines l)) (length (verticalLines l))]"
  obtain h v hs vs m1 where
    a: "first_lines (horizonalLines l) = Inr h" "first_lines (verticalLines l) = Inr v"
      "rfold (collect_entry set_mapHorizontal 1) h ([], ?m0) = Inr (hs, m1)"
      "rfold (collect_entry set_mapVertical 1) v ([], m1) = Inr (vs, ms)"
      "avg = \<lparr>horizonalLines = hs, verticalLines = vs\<rparr>"
    using assms(1) by (auto simp: averageGrids_def res_simps Let_def)
  have ok: "entries_ok (line_of horizonalLines [l]) (refs_below horizonalLines [l] 1) h"
    "entries_ok (line_of verticalLines [l]) (refs_below verticalLines [l] 1) v"
    using first_lines_ok [OF a(1), of horizonalLines "[l]"] first_lines_ok [OF a(2), of verticalLines "[l]"] by simp_all
  have c: "card (refs_below sel [l] 1) = length (sel l)" "finite (refs_below sel [l] 1)" for sel
    using card_refs [of sel "[l]"] finite_refs_below by simp_all
  have "kept 1 h = h" "kept 1 v = v"
    using counter_positive [OF ok(1)] counter_positive [OF ok(2)] assms(4,5) c
    by (auto simp: kept_def filter_id_conv unat_gt_0)
  moreover have "hs = map (\<lambda>e. e_line (snd e)) (kept 1 h)" "vs = map (\<lambda>e. e_line (snd e)) (kept 1 v)"
    using horizontal_table.collect_ok [OF a(3)] vertical_table.collect_ok [OF a(4)] ok entries_ok_count by fastforce+
  ultimately show ?thesis using first_lines_not_empty [OF a(1) assms(2)] first_lines_not_empty [OF a(2) assms(3)] by (simp add: a(5))
qed

lemma picture_calibrated:
  assumes "sound g" and "full g" and "length (linesHorizontal g) = 8" and "length (linesVertical g) \<le> 24"
  shows "\<exists>d mem. calibrate tree_json (sample_math\<lparr>sqrt_f := nearest_root\<rparr>) [0]
      (\<lparr>cal_serial = ''A'', pointGridList = [g], clusterMap = [(lens_of (Metadata (Some 0)), [0])]\<rparr>, picture_trees) = Inr (d, mem)
    \<and> horizonalLines (m_grid (m_array d)) \<noteq> []"
proof -
  let ?cal = "\<lparr>cal_serial = ''A'', pointGridList = [g], clusterMap = [(lens_of (Metadata (Some 0)), [0])]\<rparr>"
  let ?M = "sample_math\<lparr>sqrt_f := nearest_root\<rparr>"
  have M: "line_fits ?M" "unit_dots ?M" by (simp_all add: line_fits_def unit_dots_def sample_math_def)
  have g: "\<forall>g \<in> set (pointGridList ?cal). sound g \<and> full g" "pointGridList ?cal \<noteq> []" "few_lines (pointGridList ?cal)"
      "set [0] \<subseteq> {..<length (pointGridList ?cal)}" "\<forall>k \<in> fst ` set (clusterMap ?cal). lens_readable tree_json picture_trees k"
    using assms picture_lens by (simp_all add: few_lines_def)
  obtain lgs avg mappers where c: "line_grids [g] = Inr lgs" "averageGrids lgs = Inr (avg, mappers)"
      "if horizonalLines avg = [] \<or> verticalLines avg = [] then calibrate tree_json ?M [0] (?cal, picture_trees) = Inl OutOfBounds
       else \<exists>d mem. calibrate tree_json ?M [0] (?cal, picture_trees) = Inr (d, mem) \<and> m_grid (m_array d) = avg"
    using calibrate_cases [OF tree.json_lib_axioms M g] by auto
  obtain l where l: "lgs = [l]" "length (horizonalLines l) = 8" "length (verticalLines l) = length (linesVertical g)"
    using line_grids_ok [of "[g]"] assms c(1) by (auto simp: length_Suc_conv)
  have "horizonalLines l \<noteq> []" "verticalLines l \<noteq> []"
    using l(2,3) assms(2) unfolding full_def by fastforce+
  moreover have "length (horizonalLines l) < 2 ^ 32" "length (verticalLines l) < 2 ^ 32" using l(2,3) assms(4) by simp_all
  ultimately have "horizonalLines avg \<noteq> [] \<and> verticalLines avg \<noteq> []"
    by (rule single_average [OF c(2) [unfolded l(1)]])
  then show ?thesis using c(3) by auto
qed

lemma picture_calibration:
  "\<exists>d. calibration_of picture_os lens_libs ''/pictures'' picture_start = Some (''/pictures'', d) \<and> horizonalLines (m_grid (m_array d)) \<noteq> []"
proof -
  obtain g w' where w: "parallel_for_each lens_libs [''IMG''] (calib_file lens_libs) picture_start = Some (Inr (), w')"
      "w_calibrator w' = \<lparr>cal_serial = ''A'', pointGridList = [g], clusterMap = [(lens_of (Metadata (Some 0)), [0])]\<rparr>"
      "w_trees w' = picture_trees" "sound g" "full g" "length (linesHorizontal g) = 8" "length (linesVertical g) \<le> 24"
    using picture_collected by blast
  obtain d mem where c: "calibrate tree_json (sample_math\<lparr>sqrt_f := nearest_root\<rparr>) [0]
      (\<lparr>cal_serial = ''A'', pointGridList = [g], clusterMap = [(lens_of (Metadata (Some 0)), [0])]\<rparr>, picture_trees) = Inr (d, mem)"
      "horizonalLines (m_grid (m_array d)) \<noteq> []"
    using picture_calibrated [OF w(4-7)] by blast
  have start: "picture_start\<lparr>w_cwd := ''/pictures'', w_calibrator := Calibrator_ctor\<rparr> = picture_start"
    by (simp add: picture_start_def photo_world_def)
  have dir: "os_chdir picture_os (w_cwd picture_start) ''/pictures'' = Some ''/pictures''"
      "os_readdir picture_os (w_disk picture_start) ''/pictures'' = Some [''IMG.RAW'', ''IMG.TXT'']" "raw_files [''IMG.RAW'', ''IMG.TXT''] = [''IMG'']"
    by (simp_all add: picture_os_def any_os_def raw_files_def is_raw_def)
  show ?thesis using c w(1-3) by (simp add: calibration_of_def dir start)
qed

definition empty_directory :: os where
  "empty_directory = any_os\<lparr>os_readdir := (\<lambda>_ _. Some [''calibration.json''])\<rparr>"

text \<open>The command on this directory: the output is \<open>calibration.json\<close>, in a directory that can be written, and in one that cannot.\<close>

theorem main_calibrate_loads_witness:
  "(\<exists>w' bs d. main_calibrate picture_os lens_libs ''/pictures'' ''calibration.json'' picture_start = Some (Inr None, w')
      \<and> w_disk w' = picture_disk((''/pictures'', ''calibration.json'') \<mapsto> bs)
      \<and> load_calibration lens_libs ''calibration.json'' w' = Some (Inr d, w') \<and> horizonalLines (m_grid (m_array d)) \<noteq> [])
    \<and> (\<exists>w'. main_calibrate (picture_os\<lparr>os_writable := (\<lambda>_. False)\<rparr>) lens_libs ''/pictures'' ''calibration.json'' picture_start
        = Some (Inr None, w') \<and> w_disk w' = picture_disk)
    \<and> (\<exists>r w'. main_calibrate empty_directory lens_libs ''/pictures'' ''calibration.json'' picture_start = Some (r, w')
        \<and> r \<noteq> Inr None \<and> w_disk w' = picture_disk)"
proof -
  have J: "json_lib (lib_json lens_libs)" using tree.json_lib_axioms by simp
  have P: "lib_parse lens_libs (Some (lib_write lens_libs v)) = v" for v by (simp add: counting_inverse)
  have w: "w_disk picture_start = picture_disk" "os_writable picture_os p" for p
    by (simp_all add: picture_start_def picture_os_def any_os_def)
  obtain d where d: "calibration_of picture_os lens_libs ''/pictures'' picture_start = Some (''/pictures'', d)"
      "horizonalLines (m_grid (m_array d)) \<noteq> []"
    using picture_calibration by blast
  have d': "calibration_of (picture_os\<lparr>os_writable := f\<rparr>) lens_libs ''/pictures'' picture_start = Some (''/pictures'', d)" for f
    using d(1) by (simp add: calibration_of_def cong: option.case_cong)
  have e: "calibration_of empty_directory lens_libs ''/pictures'' picture_start = None" "\<not> directory_missing empty_directory ''/pictures'' picture_start"
    by (simp_all add: calibration_of_def directory_missing_def empty_directory_def any_os_def raw_files_def is_raw_def
        parallel_for_each_def ret_def calibrate_def Calibrator_ctor_def averageGrids_def)
  from main_calibrate_loads [of lens_libs picture_os "''/pictures''" picture_start "''calibration.json''", OF J] P d w
  have "\<exists>w' bs. main_calibrate picture_os lens_libs ''/pictures'' ''calibration.json'' picture_start = Some (Inr None, w')
      \<and> w_disk w' = picture_disk((''/pictures'', ''calibration.json'') \<mapsto> bs) \<and> load_calibration lens_libs ''calibration.json'' w' = Some (Inr d, w')"
    by auto
  moreover from main_calibrate_loads [of lens_libs "picture_os\<lparr>os_writable := (\<lambda>_. False)\<rparr>" "''/pictures''" picture_start "''calibration.json''", OF J] P d' w
  have "\<exists>w'. main_calibrate (picture_os\<lparr>os_writable := (\<lambda>_. False)\<rparr>) lens_libs ''/pictures'' ''calibration.json'' picture_start
        = Some (Inr None, w') \<and> w_disk w' = picture_disk"
    by auto
  moreover from main_calibrate_loads [of lens_libs empty_directory "''/pictures''" picture_start "''calibration.json''", OF J] P e w
  have "\<exists>r w'. main_calibrate empty_directory lens_libs ''/pictures'' ''calibration.json'' picture_start = Some (r, w')
        \<and> r \<noteq> Inr None \<and> w_disk w' = picture_disk"
    by auto
  ultimately show ?thesis using d(2) by blast
qed

end
