(* ===== verification/Spec2Isabelle.thy ===== *)
theory Spec2Isabelle
  imports Demosaic Grid_Finalize Grid_Math Metadata Calibrator Camera_Files Lens_Detector Lightfield_Image
    Command_Line Calib_Stats Calibration_Objects Preprocessing Lyli_Config Image_View Camera_Calibrator
    Camera_View Desktop_Shell Calibration_Store
begin

text \<open>
  A verification development for Lyli, an application that downloads, calibrates and processes
  the pictures of a first generation Lytro light field camera.

  \<^bold>\<open>The program.\<close> The camera is a USB mass storage device that answers vendor commands
  (\<open>lib/camera.cpp\<close>, found by \<open>lib/context.cpp\<close>); \<open>lib/filesystem\<close> reads its list of pictures and fetches
  their files. A picture is a file of packed 12-bit samples, which \<open>lib/image/rawimage.cpp\<close> unpacks and
  demosaics, and a JSON file of metadata behind the generated accessors of \<open>lib/image/metadata.cpp\<close>.
  Calibration (\<open>lib/calibration\<close>) detects the lenses of the lens array in many pictures
  (\<open>lensdetector.cpp\<close>), arranges them in lines (\<open>pointgrid.cpp\<close>), reduces a picture to the positions of its
  lines (\<open>linegrid.cpp\<close>), averages the grids of all pictures (\<open>gridmath.cpp\<close>, \<open>gridmapper.cpp\<close>,
  \<open>mathutil.h\<close>), computes rotation, translation and lens parameters (\<open>calibrator.cpp\<close>) and stores them as JSON
  (\<open>calibrationdata.cpp\<close>, \<open>serialization.cpp\<close>). \<open>lib/image/lightfieldimage.cpp\<close> straightens a picture with
  these data and takes one pixel per lens. \<open>lib/main.cpp\<close> and \<open>tools/calibstats/main.cpp\<close> are the command line
  programs. The desktop program (\<open>ui\<close>) lists the cameras and their pictures, shows and downloads them, and
  calibrates a camera that it sees for the first time.

  \<^bold>\<open>The theories.\<close>
  \<^item> \<open>Lyli_Prelude\<close>: faults, fallible computations and loops, array accesses; \<open>Effects\<close>: operations on a state
    that may fail or not return, and the do-while loop as a least fixed point.
  \<^item> \<open>Ieee_Float\<close>: binary32 and binary64 arithmetic with rounding to nearest even, infinities and NaN (one
    zero); exactness lemmas and a locale for what comparisons need of rounding. \<open>Float_Map\<close>: \<open>std::map\<close> with
    floating point keys as an ordered association list.
  \<^item> \<open>Raw_Image\<close>, \<open>Demosaic\<close> (\<open>rawimage.cpp\<close>): the buffer as a list of 16-bit words. Unpacking is proved to put
    every sample into its Bayer channel and to invert a packing function; the in-place passes of \<open>demosaic\<close>
    are proved equal to a per-pixel reference, borders included.
  \<^item> \<open>Point_Grid\<close>, \<open>Grid_Finalize\<close> (\<open>pointgrid.cpp\<close>): points in an explicit store of addresses, shared by both
    kinds of lines. The invariant of a finished grid, and the conditions under which \<open>finalize\<close> leaves the arrays.
  \<^item> \<open>Line_Grid\<close>, \<open>Grid_Math\<close> (\<open>linegrid.cpp\<close>, \<open>gridmapper.cpp\<close>, \<open>gridmath.cpp\<close>, \<open>mathutil.h\<close>): averages of lines,
    the merge of many grids with the mapping back to their lines, and the filtered average.
  \<^item> \<open>Json_Lib\<close>: the part of jsoncpp that is used, as a record of functions with a locale of laws, and a tree
    that satisfies them. \<open>Metadata\<close> (\<open>metadata.cpp\<close>, \<open>metadata.h\<close>): all accessors over shared trees.
    \<open>Calibration_Data\<close> (\<open>calibrationdata.cpp\<close>, \<open>serialization.cpp\<close>): the JSON form and its round trip.
    \<open>Calibration_Objects\<close>: copies, moves and accessors of the data classes.
  \<^item> \<open>Camera_Device\<close> (\<open>camera.cpp\<close>, \<open>context.cpp\<close>): the operations over a record of device functions, with the
    mutex as the state of a \<open>unique_lock\<close>: taken by its constructor, released by the explicit \<open>unlock()\<close>, or by the destructor
    when an exception ends the scope first. The locale \<open>camera_protocol\<close> says how a camera answers; \<open>getFile\<close> then refines a lookup.
    \<open>Camera_Files\<close> (\<open>lib/filesystem\<close>): the parser of the picture list, against the documented layout.
  \<^item> \<open>Calibrator\<close> (\<open>calibrator.cpp\<close>): \<open>addGrid\<close> as a whole and as a step relation for calls of several threads,
    and all of \<open>calibrate\<close>.
  \<^item> \<open>Lens_Detector\<close> (\<open>lensdetector.cpp\<close>): the flood fill, bilinear interpolation, refinement and the scan. The
    fill is proved to stay in its window and to compute the weighted mean of what it marked.
  \<^item> The calibration as a whole. \<open>Float_Bounds\<close>: the range of a rounded result, for both formats by one locale;
    \<open>Even_Picture\<close>: the detector run by hand on a picture of one brightness with isolated objects in its mask, and 24 lenses that it
    turns into a grid of eight horizontal lines, the example of the theories that follow; \<open>Lens_Scan\<close>: every grid of the detector is
    a well-formed grid with all points inside of the very picture; \<open>Averaging\<close>: for grids inside of pictures \<open>averageGrids\<close> is defined, and no rounding of a running mean leaves the picture; \<open>Calibration_Run\<close>: when \<open>calibrate\<close>
    returns on such grids; \<open>Calibration_Store\<close>: the command \<open>calibrate\<close> from the directory of the pictures to the file
    that \<open>process\<close> reads back, for every way in which it can end, among them an output that cannot be written.
  \<^item> \<open>Lightfield_Image\<close> (\<open>lightfieldimage.cpp\<close>), \<open>Command_Line\<close> (\<open>lib/main.cpp\<close>), \<open>Calib_Stats\<close>
    (\<open>tools/calibstats/main.cpp\<close>): the programs over a world of cameras, files and output.
  \<^item> \<open>Preprocessing\<close> (\<open>fftpreprocessor.cpp\<close>, \<open>preprocessor.cpp\<close>): the high-pass filter on the planes of a
    spectrum is proved to clear exactly the frequencies below the cutoff, and the mask to be binary, which is what
    the detector takes for granted.
  \<^item> \<open>Lyli_Config\<close> (\<open>ui/config\<close>): the world of the desktop program, and the round trip of a stored calibration.
    \<open>Image_View\<close> (\<open>ui/imageview\<close>): the conversion of a picture to the screen, pixel by pixel, and who owns it.
    \<open>Camera_Calibrator\<close> (\<open>cameracalibrator.cpp\<close>, \<open>calibrationwizard.cpp\<close>): the cache of calibration pictures, against a
    specification of its contents, and the error paths of a calibration.
  \<^item> \<open>Camera_View\<close> (\<open>cameracontext.cpp\<close>, the two list models, \<open>imagelistitem.cpp\<close>, \<open>cameraform.cpp\<close>): the user's
    actions as a step relation, with any number of shows of the window. A show reads the list of cameras again, and the cameras before it go
    away; a selection made before is then kept with pointers that cannot be used, and one made since is in the list. \<open>Download_Form\<close> (\<open>imagedownloader.cpp\<close>, \<open>progressbar.cpp\<close>): the thread of downloads
    interleaved with the form. \<open>Desktop_Shell\<close> (\<open>imagelistdelegate.cpp\<close>, \<open>mainwindow.cpp\<close>, \<open>ui/main.cpp\<close>): the calls that draw a
    picture of the list, and the initialisation of the form when the window is shown.

  \<^bold>\<open>Conventions.\<close> A definition has the name of the function it models; parts of a function have names of
  their own. Undefined behaviour and exceptions are values of \<open>fault\<close>. Loops that may not end are
  \<open>partial_function\<close>s with the result \<open>None\<close> (the packet loop, the polling loop, the parser of the file
  list); all other loops are total functions, so no fuel is needed. Machine integers have their width where
  the code can reach it (samples, packet counter, hash, counters of lines). Functions that the code calls by
  reference to shared data get and return the data.

  \<^bold>\<open>Parameters.\<close> Not in the repository and therefore arguments: OpenCV (copies of rows, warping, fitting a line,
  gray conversion, means), jsoncpp, libusbpp, the order of work of TBB, mathematical functions of the C library,
  \<open>mktime\<close>, the operating system's directories and files, the paths and pictures of Qt (\<open>qt\<close>, \<open>qt_image\<close>) and
  what the user answers in a dialog. Hypotheses about them are \<open>json_lib\<close>,
  \<open>camera_protocol\<close>, \<open>warps\<close>, \<open>binary_filters\<close>, \<open>qimage\<close> and the laws of row copies, each with an instance. In proofs about the lens detector
  pictures have at most 16384 rows and columns, five times the 3280 of the sensor, so that sums are exact. That
  \<open>calibrate\<close> returns needs \<open>cv::fitLine\<close> to accept two points (\<open>line_fits\<close>) and the two dot products of unit vectors
  that select a direction (\<open>unit_dots\<close>). File transfers have less than 16 MiB, since more makes the packet counter wrap (proved not to return).

  \<^bold>\<open>Not modelled.\<close> \<open>lensfilter.cpp\<close> is commented out; \<open>lylidebug.h\<close> draws pictures for inspection;
  \<open>exception.cpp\<close> has no behaviour. Of \<open>ui\<close>, the layout of the windows and of
  the wizard is left out, and so are calls that only change what a dialog displays. \<open>tools/pycppjson\<close> is the Python generator of the metadata accessors, whose output
  is modelled instead.
\<close>

end
